(* ===== verification/Prelude.thy ===== *)
theory Prelude
  imports "HOL-Library.Word" "HOL-Library.Monad_Syntax"
begin

text \<open>
  Shared vocabulary of the development: the machine types of \<^verbatim>\<open>include/definitions.h\<close>
  for the ia-32 build, pointers, the option monad of faults, and the generic lemmas.

  A pointer is a natural number and \<open>NULL\<close> is 0 (\<^verbatim>\<open>#define NULL ((void*)0)\<close>).  The
  fields of heap objects are functions from pointers to values, one function per field, so
  that writing \<^verbatim>\<open>p->f = v\<close> is a function update of the field \<open>f\<close> at \<open>p\<close> and two
  objects alias exactly when their pointers are equal.

  A result of type \<open>'a option\<close> is the outcome of kernel code that may not return: \<open>None\<close>
  stands for a dereference of \<open>NULL\<close> or a spin on a lock that the executing CPU itself
  holds, and \<open>Some\<close> for a normal return.
\<close>

type_synonym u32 = "32 word"
type_synonym u64 = "64 word"
type_synonym ptr = nat

definition NULL :: ptr where
  "NULL = 0"

text \<open>Collections of rewrite rules that the component theories extend.\<close>

named_theorems frame_simps \<open>fields an operation leaves alone\<close>
named_theorems heap_simps \<open>rewriting of heap arrays\<close>

text \<open>A dereference of a pointer the code has not checked.\<close>

definition deref :: "ptr \<Rightarrow> ptr option" where
  "deref p = (if p = NULL then None else Some p)"

lemma deref_Some [simp]: "deref p = Some q \<longleftrightarrow> p \<noteq> NULL \<and> q = p"
  by (auto simp: deref_def)

lemma deref_ok [simp]: "p \<noteq> NULL \<Longrightarrow> deref p = Some p"
  by (simp add: deref_def)

lemma deref_None [simp]: "deref p = None \<longleftrightarrow> p = NULL"
  by (simp add: deref_def)

subsection \<open>Arithmetic of 32-bit values\<close>

text \<open>
  C compares an \<^verbatim>\<open>int\<close> with an \<^verbatim>\<open>unsigned int\<close> as unsigned values.  On two values of the
  same sign this agrees with the signed order.
\<close>

lemma sint_eq_uint_32: "sint (a :: u32) = (if uint a < 2 ^ 31 then uint a else uint a - 2 ^ 32)"
proof -
  have "sint a = signed_take_bit 31 (uint a)"
    by (simp add: sint_uint)
  also have "\<dots> = (if uint a < 2 ^ 31 then uint a else uint a - 2 ^ 32)"
  proof (cases "uint a < 2 ^ 31")
    case True
    then show ?thesis
      by (simp add: signed_take_bit_int_eq_self order_trans [OF _ uint_ge_0])
  next
    case False
    have bound: "uint a < 2 ^ 32" using uint_lt2p [of a] by simp
    have "(uint a - 2 ^ 31) mod 2 ^ 31 = uint a - 2 ^ 31"
      using False bound by (intro mod_pos_pos_trivial) simp_all
    then have "take_bit 31 (uint a) = uint a - 2 ^ 31"
      by (simp add: take_bit_eq_mod)
    moreover have "(uint a - 2 ^ 31) div 2 ^ 31 = 0"
      using False bound by (intro div_pos_pos_trivial) simp_all
    then have "uint a div 2 ^ 31 = 1"
      using div_add_self2 [of "2 ^ 31 :: int" "uint a - 2 ^ 31"] by simp
    then have "bit (uint a) 31"
      by (simp add: bit_iff_odd)
    ultimately show ?thesis using False bound
      by (simp add: signed_take_bit_eq_take_bit_minus take_bit_int_eq_self)
  qed
  finally show ?thesis .
qed

lemma signed_unsigned_less_same_sign:
  fixes a b :: u32
  assumes "(sint a < 0) = (sint b < 0)"
  shows "(a < b) = (sint a < sint b)"
proof -
  have "0 \<le> uint a" "uint a < 2 ^ 32" "0 \<le> uint b" "uint b < 2 ^ 32"
    using uint_lt2p [of a] uint_lt2p [of b] by simp_all
  then show ?thesis
    using assms by (auto simp: word_less_def sint_eq_uint_32 split: if_splits)
qed

end
