(* ===== verification/Binary_Heap.thy ===== *)
theory Binary_Heap
  imports Prelude
begin

text \<open>
  The array heaps of \<^verbatim>\<open>src/sched/priority_heap.c\<close> and \<^verbatim>\<open>src/sched/affinity_heap.c\<close> are one
  algorithm over two orders and two position fields.  This theory holds the two loops of that
  algorithm, "bubble up" and "fall down", over an arbitrary strict order \<open>gt\<close>, and proves
  once what they do; the two heap theories instantiate them.

  The C arrays are addressed from 0 and the loops count positions from 1, so that the
  element at position \<open>i\<close> is \<open>d (i - 1)\<close>, its parent is at \<open>i div 2\<close> and its children are at
  \<open>2 * i\<close> and \<open>2 * i + 1\<close>.  An array is a function from indices to pointers.  Positions are
  natural numbers: the array holds 4-byte pointers and lies in a 32-bit address space, so
  \<open>2 * i + 1 < 2 ^ 31\<close> and the \<^verbatim>\<open>int\<close> arithmetic of the loops cannot overflow.
\<close>

abbreviation el :: "(nat \<Rightarrow> ptr) \<Rightarrow> nat \<Rightarrow> ptr" where
  "el d j \<equiv> d (j - 1)"

text \<open>
  One iteration of either loop moves the element at position \<open>k\<close> into the hole at \<open>i\<close> and
  records its new position.
\<close>

definition move_el :: "nat \<Rightarrow> nat \<Rightarrow> (nat \<Rightarrow> ptr) \<times> (ptr \<Rightarrow> nat) \<Rightarrow> (nat \<Rightarrow> ptr) \<times> (ptr \<Rightarrow> nat)" where
  "move_el k i s = (case s of (d, pos) \<Rightarrow> (d(i - 1 := el d k), pos(el d k := i)))"

text \<open>\<^verbatim>\<open>while(i != 1 && in > parent) ...\<close>; the position \<open>i\<close> is at least 1.\<close>

function heap_up :: "(ptr \<Rightarrow> ptr \<Rightarrow> bool) \<Rightarrow> ptr \<Rightarrow> nat \<Rightarrow> (nat \<Rightarrow> ptr) \<times> (ptr \<Rightarrow> nat) \<Rightarrow>
    nat \<times> (nat \<Rightarrow> ptr) \<times> (ptr \<Rightarrow> nat)" where
  "heap_up gt x i s =
     (if 1 < i \<and> gt x (el (fst s) (i div 2))
      then heap_up gt x (i div 2) (move_el (i div 2) i s)
      else (i, s))"
  by pat_completeness auto
termination
  by (relation "measure (\<lambda>(gt, x, i, s). i)") auto

text \<open>The \<^verbatim>\<open>while(cont)\<close> loop with its four cases, in the order of the source.\<close>

function heap_down :: "(ptr \<Rightarrow> ptr \<Rightarrow> bool) \<Rightarrow> nat \<Rightarrow> ptr \<Rightarrow> nat \<Rightarrow> (nat \<Rightarrow> ptr) \<times> (ptr \<Rightarrow> nat) \<Rightarrow>
    nat \<times> (nat \<Rightarrow> ptr) \<times> (ptr \<Rightarrow> nat)" where
  "heap_down gt n x i s =
     (if i = 0 then (i, s)
      else if 2 * i + 1 \<le> n \<and> gt (el (fst s) (2 * i + 1)) x then
        (if 2 * i \<le> n \<and> gt (el (fst s) (2 * i)) (el (fst s) (2 * i + 1))
         then heap_down gt n x (2 * i) (move_el (2 * i) i s)
         else heap_down gt n x (2 * i + 1) (move_el (2 * i + 1) i s))
      else if 2 * i \<le> n \<and> gt (el (fst s) (2 * i)) x then
        (if 2 * i + 1 \<le> n \<and> gt (el (fst s) (2 * i + 1)) (el (fst s) (2 * i))
         then heap_down gt n x (2 * i + 1) (move_el (2 * i + 1) i s)
         else heap_down gt n x (2 * i) (move_el (2 * i) i s))
      else (i, s))"
  by pat_completeness auto
termination
  by (relation "measure (\<lambda>(gt, n, x, i, s). n + 1 - i)") auto

declare heap_up.simps [simp del] heap_down.simps [simp del]

text \<open>The last two statements of every operation: the element goes into the hole.\<close>

definition place_el :: "ptr \<Rightarrow> nat \<times> (nat \<Rightarrow> ptr) \<times> (ptr \<Rightarrow> nat) \<Rightarrow> (nat \<Rightarrow> ptr) \<times> (ptr \<Rightarrow> nat)" where
  "place_el x r = (case r of (i, d, pos) \<Rightarrow> (d(i - 1 := x), pos(x := i)))"

text \<open>
  The two ways the operations combine the loops: \<open>heap_sift\<close> bubbles up and then falls down
  (insert, delete, and a key that moves towards the root), \<open>heap_sink\<close> only falls down.
\<close>

definition heap_sift :: "(ptr \<Rightarrow> ptr \<Rightarrow> bool) \<Rightarrow> nat \<Rightarrow> ptr \<Rightarrow> nat \<Rightarrow> (nat \<Rightarrow> ptr) \<times> (ptr \<Rightarrow> nat) \<Rightarrow>
    (nat \<Rightarrow> ptr) \<times> (ptr \<Rightarrow> nat)" where
  "heap_sift gt n x i s =
     (case heap_up gt x i s of (i', s') \<Rightarrow> place_el x (heap_down gt n x i' s'))"

definition heap_sink :: "(ptr \<Rightarrow> ptr \<Rightarrow> bool) \<Rightarrow> nat \<Rightarrow> ptr \<Rightarrow> nat \<Rightarrow> (nat \<Rightarrow> ptr) \<times> (ptr \<Rightarrow> nat) \<Rightarrow>
    (nat \<Rightarrow> ptr) \<times> (ptr \<Rightarrow> nat)" where
  "heap_sink gt n x i s = place_el x (heap_down gt n x i s)"

text \<open>
  \<^verbatim>\<open>priority_heap\<close> and \<^verbatim>\<open>affinity_heap\<close> are the same struct: the number of elements, the
  size of the array in bytes, the address of the array, and its contents.
\<close>

record heap_t =
  hp_size :: nat
  hp_max :: u32
  data_ptr :: ptr
  data_name :: "nat \<Rightarrow> ptr"

subsection \<open>Invariants\<close>

definition elems :: "nat \<Rightarrow> (nat \<Rightarrow> ptr) \<Rightarrow> ptr set" where
  "elems n d = el d ` {1..n}"

text \<open>Every element knows its position; hence the elements are distinct.\<close>

definition positions :: "nat \<Rightarrow> (nat \<Rightarrow> ptr) \<times> (ptr \<Rightarrow> nat) \<Rightarrow> bool" where
  "positions n s \<longleftrightarrow> (\<forall>j\<in>{1..n}. snd s (el (fst s) j) = j)"

definition ordered :: "(ptr \<Rightarrow> ptr \<Rightarrow> bool) \<Rightarrow> nat \<Rightarrow> (nat \<Rightarrow> ptr) \<Rightarrow> bool" where
  "ordered gt n d \<longleftrightarrow> (\<forall>j\<in>{2..n}. \<not> gt (el d j) (el d (j div 2)))"

lemma orderedD: "ordered gt n d \<Longrightarrow> j \<in> {2..n} \<Longrightarrow> \<not> gt (el d j) (el d (j div 2))"
  by (simp add: ordered_def)

text \<open>
  The same with a hole at position \<open>i\<close>: nothing is known of the array there, every other
  element is ordered below its parent, and the children of the hole below its parent.
\<close>

definition hole_positions :: "nat \<Rightarrow> nat \<Rightarrow> (nat \<Rightarrow> ptr) \<times> (ptr \<Rightarrow> nat) \<Rightarrow> bool" where
  "hole_positions n i s \<longleftrightarrow> (\<forall>j\<in>{1..n} - {i}. snd s (el (fst s) j) = j)"

definition hole_ordered :: "(ptr \<Rightarrow> ptr \<Rightarrow> bool) \<Rightarrow> nat \<Rightarrow> nat \<Rightarrow> (nat \<Rightarrow> ptr) \<Rightarrow> bool" where
  "hole_ordered gt n i d \<longleftrightarrow>
     (\<forall>j\<in>{2..n}. j \<noteq> i \<longrightarrow>
        (if j div 2 = i then 1 < i \<longrightarrow> \<not> gt (el d j) (el d (i div 2))
         else \<not> gt (el d j) (el d (j div 2))))"

definition hole_elems :: "nat \<Rightarrow> nat \<Rightarrow> (nat \<Rightarrow> ptr) \<Rightarrow> ptr set" where
  "hole_elems n i d = el d ` ({1..n} - {i})"

lemma move_el_positions:
  assumes "hole_positions n i s" "i \<in> {1..n}" "k \<in> {1..n}" "k \<noteq> i"
  shows "hole_positions n k (move_el k i s)"
  unfolding hole_positions_def
proof
  fix j assume j: "j \<in> {1..n} - {k}"
  obtain d pos where s: "s = (d, pos)" by (cases s)
  have inj: "el d a = el d b \<Longrightarrow> a = b" if "a \<in> {1..n} - {i}" "b \<in> {1..n} - {i}" for a b
    using assms(1) that unfolding hole_positions_def s by (metis fst_conv snd_conv)
  show "snd (move_el k i s) (el (fst (move_el k i s)) j) = j"
  proof (cases "j = i")
    case True
    then show ?thesis by (simp add: move_el_def s)
  next
    case False
    then have "j - 1 \<noteq> i - 1" using j assms(2) by auto
    moreover have "el d j \<noteq> el d k" using inj [of j k] j False assms by auto
    ultimately show ?thesis
      using assms(1) j False by (simp add: move_el_def s hole_positions_def)
  qed
qed

lemma move_el_elems:
  assumes "i \<in> {1..n}" "k \<in> {1..n}" "k \<noteq> i"
  shows "hole_elems n k (fst (move_el k i s)) = hole_elems n i (fst s)"
proof -
  obtain d pos where s: "s = (d, pos)" by (cases s)
  have split: "{1..n} - {k} = insert i ({1..n} - {i, k})" "{1..n} - {i} = insert k ({1..n} - {i, k})"
    using assms by auto
  have "el (d(i - 1 := el d k)) ` ({1..n} - {i, k}) = el d ` ({1..n} - {i, k})"
    using assms by (intro image_cong) auto
  then show ?thesis
    unfolding hole_elems_def split by (simp add: move_el_def s)
qed


lemma move_el_frame [heap_simps]:
  "j \<noteq> i - 1 \<Longrightarrow> fst (move_el k i s) j = fst s j"
  "p \<noteq> el (fst s) k \<Longrightarrow> snd (move_el k i s) p = snd s p"
  by (auto simp: move_el_def split: prod.splits)

lemma fst_move_el [heap_simps]: "fst (move_el k i s) = (fst s)(i - 1 := el (fst s) k)"
  by (simp add: move_el_def split: prod.splits)

text \<open>
  What both loops keep while they move the hole: the set \<open>E\<close> of the elements that stay, their
  positions, the array behind the heap and the positions of foreign elements.
\<close>

definition hole_inv :: "nat \<Rightarrow> ptr set \<Rightarrow> (nat \<Rightarrow> ptr) \<times> (ptr \<Rightarrow> nat) \<Rightarrow> nat \<Rightarrow> (nat \<Rightarrow> ptr) \<times> (ptr \<Rightarrow> nat) \<Rightarrow> bool" where
  "hole_inv n E s0 i s \<longleftrightarrow> i \<in> {1..n} \<and> hole_positions n i s \<and> hole_elems n i (fst s) = E \<and>
     (\<forall>j\<ge>n. fst s j = fst s0 j) \<and> (\<forall>p. p \<notin> E \<longrightarrow> snd s p = snd s0 p)"

lemma hole_inv_move:
  assumes "hole_inv n E s0 i s" "k \<in> {1..n}" "k \<noteq> i"
  shows "hole_inv n E s0 k (move_el k i s)"
proof -
  have i: "i \<in> {1..n}" using assms(1) by (simp add: hole_inv_def)
  have "el (fst s) k \<in> E"
    using assms by (auto simp: hole_inv_def hole_elems_def)
  moreover have "\<forall>j\<ge>n. fst (move_el k i s) j = fst s j"
    using i by (auto simp: fst_move_el)
  ultimately show ?thesis
    using assms i move_el_positions [of n i s k] move_el_elems [of i n k s]
    unfolding hole_inv_def by (metis move_el_frame(2))
qed

locale heap_order =
  fixes gt :: "ptr \<Rightarrow> ptr \<Rightarrow> bool"
  assumes asym: "gt a b \<Longrightarrow> \<not> gt b a"
    and negtrans: "\<not> gt a b \<Longrightarrow> \<not> gt b c \<Longrightarrow> \<not> gt a c"
begin

lemma irrefl: "\<not> gt a a"
  using asym by blast

lemma trans: "gt a b \<Longrightarrow> gt b c \<Longrightarrow> gt a c"
  using asym negtrans by blast

lemma up_step:
  assumes h: "hole_ordered gt n i d" and i: "1 < i" "i \<le> n"
  shows "hole_ordered gt n (i div 2) (d(i - 1 := el d (i div 2)))"
  unfolding hole_ordered_def
proof (intro ballI impI)
  let ?p = "i div 2" and ?d = "d(i - 1 := el d (i div 2))"
  fix j assume j: "j \<in> {2..n}" "j \<noteq> ?p"
  have same: "k \<noteq> i \<Longrightarrow> 0 < k \<Longrightarrow> el ?d k = el d k" for k
    using i by auto
  note hj = h [unfolded hole_ordered_def, rule_format]
  have p: "?p \<le> n" "?p \<noteq> i" "?p div 2 \<noteq> i"
    using i by linarith+
  have par: "1 < ?p \<Longrightarrow> \<not> gt (el d ?p) (el d (?p div 2))"
    using hj [of ?p] i p by auto
  show "if j div 2 = ?p then 1 < ?p \<longrightarrow> \<not> gt (el ?d j) (el ?d (?p div 2))
        else \<not> gt (el ?d j) (el ?d (j div 2))"
  proof (cases "j div 2 = ?p")
    case True
    have "1 < ?p \<Longrightarrow> j \<noteq> i \<Longrightarrow> \<not> gt (el d j) (el d ?p)"
      using hj [of j] True i j by (auto split: if_splits)
    then have "1 < ?p \<Longrightarrow> j \<noteq> i \<Longrightarrow> \<not> gt (el d j) (el d (?p div 2))"
      using par negtrans by blast
    then show ?thesis
      using True par i same [of "?p div 2"] same [of j] j by auto
  next
    case False
    then have "j \<noteq> i" by auto
    then show ?thesis
      using False hj [of j] j i same [of j] same [of "j div 2"]
      by (cases "j div 2 = i") auto
  qed
qed

lemma down_step:
  assumes h: "hole_ordered gt n i d" and i: "0 < i" "c div 2 = i" "c \<le> n"
    and sib: "\<And>j. j \<le> n \<Longrightarrow> j div 2 = i \<Longrightarrow> \<not> gt (el d j) (el d c)"
  shows "hole_ordered gt n c (d(i - 1 := el d c))"
  unfolding hole_ordered_def
proof (intro ballI impI)
  let ?d = "d(i - 1 := el d c)"
  fix j assume j: "j \<in> {2..n}" "j \<noteq> c"
  have c: "2 \<le> c" "c \<noteq> i" using i by auto
  have same: "k \<noteq> i \<Longrightarrow> 0 < k \<Longrightarrow> el ?d k = el d k" for k
    using i by auto
  note hj = h [unfolded hole_ordered_def, rule_format]
  have gp: "1 < i \<Longrightarrow> \<not> gt (el d c) (el d (i div 2))"
    using hj [of c] c i by auto
  show "if j div 2 = c then 1 < c \<longrightarrow> \<not> gt (el ?d j) (el ?d (c div 2))
        else \<not> gt (el ?d j) (el ?d (j div 2))"
  proof (cases "j div 2 = c")
    case True
    then have "j \<noteq> i" using c i by auto
    then show ?thesis using True hj [of j] j c i same [of j] by auto
  next
    case False
    consider "j = i" | "j \<noteq> i" "j div 2 = i" | "j \<noteq> i" "j div 2 \<noteq> i" by blast
    then show ?thesis
    proof cases
      case 1
      then show ?thesis using False gp j same [of "i div 2"] by auto
    next
      case 2
      then show ?thesis using False sib [of j] j same [of j] by auto
    next
      case 3
      then show ?thesis using False hj [of j] j same [of j] same [of "j div 2"] by auto
    qed
  qed
qed

text \<open>The condition under which the element \<open>x\<close> may sit in the hole, seen from above.\<close>

definition below_parent :: "ptr \<Rightarrow> nat \<Rightarrow> (nat \<Rightarrow> ptr) \<Rightarrow> bool" where
  "below_parent x i d \<longleftrightarrow> (1 < i \<longrightarrow> \<not> gt x (el d (i div 2)))"

lemma heap_up_inv:
  assumes "hole_inv n E s0 i s" "hole_ordered gt n i (fst s)" "heap_up gt x i s = (i', s')"
  shows "hole_inv n E s0 i' s' \<and> hole_ordered gt n i' (fst s') \<and> below_parent x i' (fst s')"
  using assms
proof (induction i arbitrary: s rule: less_induct)
  case (less i)
  show ?case
  proof (cases "1 < i \<and> gt x (el (fst s) (i div 2))")
    case True
    then have p: "i div 2 \<in> {1..n}" "i div 2 \<noteq> i" "i \<le> n" "i div 2 < i"
      using less.prems(1) by (auto simp: hole_inv_def)
    have run: "heap_up gt x (i div 2) (move_el (i div 2) i s) = (i', s')"
      using True less.prems(3) by (simp add: heap_up.simps [of gt x i])
    have ord: "hole_ordered gt n (i div 2) (fst (move_el (i div 2) i s))"
      unfolding fst_move_el using True by (intro up_step less.prems(2) p(3)) simp
    show ?thesis
      by (rule less.IH [OF p(4) hole_inv_move [OF less.prems(1) p(1,2)] ord run])
  next
    case False
    then show ?thesis
      using less.prems by (auto simp: heap_up.simps [of gt x i] below_parent_def)
  qed
qed

lemma heap_down_cases:
  assumes i: "1 \<le> i" and run: "heap_down gt n x i s = (i', s')"
  obtains (stop) "i' = i" "s' = s" "\<And>j. j \<le> n \<Longrightarrow> j div 2 = i \<Longrightarrow> \<not> gt (el (fst s) j) x"
  | (move) c where "c \<le> n" "c div 2 = i" "gt (el (fst s) c) x" "\<And>j. j \<le> n \<Longrightarrow> j div 2 = i \<Longrightarrow> \<not> gt (el (fst s) j) (el (fst s) c)"
      "heap_down gt n x c (move_el c i s) = (i', s')"
proof -
  have kids: "j = 2 * i \<or> j = 2 * i + 1" if "j div 2 = i" for j using that by auto
  let ?L = "el (fst s) (2 * i)" and ?R = "el (fst s) (2 * i + 1)"
  have sibL: "\<not> gt (el (fst s) j) ?L" if "2 * i + 1 \<le> n \<Longrightarrow> \<not> gt ?R ?L" "j \<le> n" "j div 2 = i" for j
    using kids [OF that(3)] that irrefl by metis
  have sibR: "\<not> gt (el (fst s) j) ?R" if "\<not> gt ?L ?R" "j div 2 = i" for j
    using kids [OF that(2)] that irrefl by metis
  have run: "heap_down gt n x i s = (i', s')" "i \<noteq> 0" using assms by simp_all
  note run = run(1) [unfolded heap_down.simps [of gt n x i s]] run(2)
  consider (right) "2 * i + 1 \<le> n" "gt ?R x" "\<not> gt ?L ?R" | (left) "2 * i \<le> n" "gt ?L x" "2 * i + 1 \<le> n \<Longrightarrow> \<not> gt ?R ?L" "2 * i + 1 \<le> n \<Longrightarrow> gt ?R x \<Longrightarrow> gt ?L ?R"
    | (none) "2 * i \<le> n \<Longrightarrow> \<not> gt ?L x" "2 * i + 1 \<le> n \<Longrightarrow> \<not> gt ?R x"
  proof (cases "2 * i + 1 \<le> n \<and> gt ?R x")
    case True
    then show ?thesis using that(1,2) trans [of ?L ?R x] asym [of ?L ?R] by (cases "gt ?L ?R") simp_all
  next
    case False
    then show ?thesis using that(2,3) trans [of ?R ?L x] by (cases "2 * i \<le> n \<and> gt ?L x") blast+
  qed
  then show ?thesis
  proof cases
    case right
    then show ?thesis using move [of "2 * i + 1"] sibR run by simp
  next
    case left
    then show ?thesis using move [of "2 * i"] sibL run by (simp split: if_splits)
  next
    case none
    then have "\<not> gt (el (fst s) j) x" if "j \<le> n" "j div 2 = i" for j using kids [OF that(2)] that by metis
    then show ?thesis using stop none run by (simp split: if_splits)
  qed
qed

lemma heap_down_inv:
  assumes "hole_inv n E s0 i s" "hole_ordered gt n i (fst s)" "below_parent x i (fst s)"
    "heap_down gt n x i s = (i', s')"
  shows "hole_inv n E s0 i' s' \<and> hole_ordered gt n i' (fst s') \<and> below_parent x i' (fst s') \<and>
    (\<forall>j\<le>n. j div 2 = i' \<longrightarrow> \<not> gt (el (fst s') j) x)"
  using assms
proof (induction "n - i" arbitrary: i s rule: less_induct)
  case (less i s)
  have i: "1 \<le> i" "i \<le> n" using less.prems(1) by (auto simp: hole_inv_def)
  show ?case
  proof (rule heap_down_cases [OF i(1) less.prems(4)])
    fix c assume c: "c \<le> n" "c div 2 = i" and gtc: "gt (el (fst s) c) x"
      and sib: "\<And>j. j \<le> n \<Longrightarrow> j div 2 = i \<Longrightarrow> \<not> gt (el (fst s) j) (el (fst s) c)"
      and run: "heap_down gt n x c (move_el c i s) = (i', s')"
    have c': "n - c < n - i" "c \<in> {1..n}" "c \<noteq> i" using c i by auto
    have ord: "hole_ordered gt n c (fst (move_el c i s))"
      unfolding fst_move_el using i by (intro down_step less.prems(2) c sib) simp_all
    have "below_parent x c (fst (move_el c i s))"
      using c gtc asym by (simp add: below_parent_def fst_move_el)
    then show ?thesis
      by (rule less.hyps [OF c'(1) hole_inv_move [OF less.prems(1) c'(2,3)] ord _ run])
  qed (use less.prems(1-3) in blast)
qed

text \<open>Placing \<open>x\<close> in the hole closes it.\<close>

lemma fill_hole_ordered:
  assumes "i \<in> {1..n}" "hole_ordered gt n i d" "below_parent x i d" "\<forall>j\<le>n. j div 2 = i \<longrightarrow> \<not> gt (el d j) x"
  shows "ordered gt n (d(i - 1 := x))"
  unfolding ordered_def
proof
  fix j assume j: "j \<in> {2..n}"
  then have half: "0 < j div 2" "j div 2 \<noteq> j" by auto
  have same: "el (d(i - 1 := x)) k = el d k" if "k \<noteq> i" "0 < k" for k using that assms(1) by auto
  consider "j = i" | "j \<noteq> i" "j div 2 = i" | "j \<noteq> i" "j div 2 \<noteq> i" by blast
  then show "\<not> gt (el (d(i - 1 := x)) j) (el (d(i - 1 := x)) (j div 2))"
  proof cases
    case 1
    then show ?thesis using assms(3) j half same [of "j div 2"] by (simp add: below_parent_def)
  next
    case 2
    then show ?thesis using assms(4) j same [of j] by auto
  next
    case 3
    then show ?thesis
      using assms(2) [unfolded hole_ordered_def, rule_format, of j] j half same [of j] same [of "j div 2"] by simp
  qed
qed

lemma place_el_closes:
  assumes "hole_inv n E s0 i s" "hole_ordered gt n i (fst s)" "below_parent x i (fst s)"
    and "\<forall>j\<le>n. j div 2 = i \<longrightarrow> \<not> gt (el (fst s) j) x" and "x \<notin> E"
    and "place_el x (i, s) = s'"
  shows "positions n s'" "ordered gt n (fst s')" "elems n (fst s') = insert x E"
    "\<forall>j\<ge>n. fst s' j = fst s0 j" "\<forall>p. p \<notin> insert x E \<longrightarrow> snd s' p = snd s0 p"
proof -
  obtain d pos where s: "s = (d, pos)" by (cases s)
  have s': "s' = (d(i - 1 := x), pos(x := i))" using assms(6) by (simp add: place_el_def s)
  have i: "i \<in> {1..n}" "hole_positions n i s" and E: "E = hole_elems n i d"
    using assms(1) s by (auto simp: hole_inv_def)
  have same: "k \<noteq> i \<Longrightarrow> 0 < k \<Longrightarrow> el (d(i - 1 := x)) k = el d k" for k
    using i by auto
  have mem: "k \<in> {1..n} - {i} \<Longrightarrow> el d k \<in> E" for k
    unfolding E hole_elems_def by blast
  show "positions n s'"
    unfolding positions_def s'
  proof
    fix j assume "j \<in> {1..n}"
    then show "snd (d(i - 1 := x), pos(x := i)) (el (fst (d(i - 1 := x), pos(x := i))) j) = j"
      using i(2) mem [of j] same [of j] assms(5) s
      by (cases "j = i") (auto simp: hole_positions_def)
  qed
  show "ordered gt n (fst s')"
    using fill_hole_ordered [of i n d x] i(1) assms(2-4) s by (simp add: s')
  have "{1..n} = insert i ({1..n} - {i})" using i by auto
  moreover have "el (d(i - 1 := x)) ` ({1..n} - {i}) = E"
    unfolding E hole_elems_def using same by (intro image_cong) auto
  ultimately show "elems n (fst s') = insert x E"
    unfolding elems_def s' fst_conv by (metis fun_upd_same image_insert)
  show "\<forall>j\<ge>n. fst s' j = fst s0 j" "\<forall>p. p \<notin> insert x E \<longrightarrow> snd s' p = snd s0 p"
    using assms(1) i s by (auto simp: hole_inv_def s')
qed

text \<open>What an operation guarantees of the array and positions it produces.\<close>

definition sifted :: "nat \<Rightarrow> ptr set \<Rightarrow> (nat \<Rightarrow> ptr) \<times> (ptr \<Rightarrow> nat) \<Rightarrow> (nat \<Rightarrow> ptr) \<times> (ptr \<Rightarrow> nat) \<Rightarrow> bool" where
  "sifted n E s0 s \<longleftrightarrow> positions n s \<and> ordered gt n (fst s) \<and> elems n (fst s) = E \<and>
     (\<forall>j\<ge>n. fst s j = fst s0 j) \<and> (\<forall>p. p \<notin> E \<longrightarrow> snd s p = snd s0 p)"

lemma heap_sink_sifted:
  assumes "hole_inv n E s0 i s" "hole_ordered gt n i (fst s)" "below_parent x i (fst s)" "x \<notin> E"
  shows "sifted n (insert x E) s0 (heap_sink gt n x i s)"
proof -
  obtain i' s' where run: "heap_down gt n x i s = (i', s')" by (cases "heap_down gt n x i s")
  note inv = heap_down_inv [OF assms(1-3) run]
  show ?thesis
    unfolding sifted_def heap_sink_def run
    using place_el_closes [of n E s0 i' s' x, OF _ _ _ _ assms(4) refl] inv by blast
qed

lemma heap_sift_sifted:
  assumes "hole_inv n E s0 i s" "hole_ordered gt n i (fst s)" "x \<notin> E"
  shows "sifted n (insert x E) s0 (heap_sift gt n x i s)"
proof -
  obtain i' s' where run: "heap_up gt x i s = (i', s')" by (cases "heap_up gt x i s")
  note inv = heap_up_inv [OF assms(1,2) run]
  have "heap_sift gt n x i s = heap_sink gt n x i' s'"
    by (simp add: heap_sift_def heap_sink_def run)
  then show ?thesis
    using heap_sink_sifted [of n E s0 i' s' x] inv assms(3) by simp
qed

lemma ordered_hole:
  assumes "ordered gt n d"
  shows "hole_ordered gt n i d"
  unfolding hole_ordered_def
proof (intro ballI impI)
  fix j assume j: "j \<in> {2..n}" "j \<noteq> i"
  have ord: "\<not> gt (el d j) (el d (j div 2))" if "j \<in> {2..n}" for j
    using assms that by (simp add: ordered_def)
  have "\<not> gt (el d j) (el d (i div 2))" if "j div 2 = i" "1 < i"
    using ord [of j] ord [of i] j that negtrans by auto
  then show "if j div 2 = i then 1 < i \<longrightarrow> \<not> gt (el d j) (el d (i div 2))
      else \<not> gt (el d j) (el d (j div 2))"
    using ord [of j] j by simp
qed

text \<open>Every position of a heap but the root lies below position 2 or 3.\<close>

lemma below_second:
  assumes "ordered gt n d" "j \<in> {2..n}"
  shows "\<not> gt (el d j) (el d 2) \<or> 3 \<le> n \<and> \<not> gt (el d j) (el d 3)"
  using assms(2)
proof (induction j rule: less_induct)
  case (less j)
  show ?case
  proof (cases "j \<le> 3")
    case True
    then have "j = 2 \<or> j = 3" using less.prems by auto
    then show ?thesis using less.prems irrefl by auto
  next
    case False
    then have half: "j div 2 < j" "j div 2 \<in> {2..n}" using less.prems by auto
    show ?thesis
      using less.IH [OF half] orderedD [OF assms(1) less.prems] negtrans by blast
  qed
qed

text \<open>The root is an extreme element.\<close>

lemma root_extreme:
  assumes "ordered gt n d" "j \<in> {1..n}"
  shows "\<not> gt (el d j) (d 0)"
  using assms(2)
proof (induction j rule: less_induct)
  case (less j)
  show ?case
  proof (cases "j = 1")
    case True
    then show ?thesis by (simp add: irrefl)
  next
    case False
    then have "\<not> gt (el d j) (el d (j div 2))" "\<not> gt (el d (j div 2)) (d 0)"
      using less assms(1) by (auto simp: ordered_def)
    then show ?thesis by (rule negtrans)
  qed
qed

end

subsection \<open>Opening a hole\<close>

lemma positions_inj: "positions n s \<Longrightarrow> inj_on (el (fst s)) {1..n}"
  by (rule inj_on_inverseI [where g = "snd s"]) (simp add: positions_def)

lemma positions_mem_iff:
  assumes pos: "positions n s"
  shows "p \<in> elems n (fst s) \<longleftrightarrow> snd s p \<in> {1..n} \<and> el (fst s) (snd s p) = p"
proof
  assume "p \<in> elems n (fst s)"
  then obtain j where "j \<in> {1..n}" "p = el (fst s) j" by (auto simp: elems_def)
  with pos show "snd s p \<in> {1..n} \<and> el (fst s) (snd s p) = p" by (simp add: positions_def)
next
  assume "snd s p \<in> {1..n} \<and> el (fst s) (snd s p) = p"
  then show "p \<in> elems n (fst s)" unfolding elems_def by (metis image_eqI)
qed

lemma hole_append:
  assumes "positions n s"
  shows "hole_inv (Suc n) (elems n (fst s)) s (Suc n) s"
proof -
  have "{1..Suc n} - {Suc n} = {1..n}" by auto
  then show ?thesis
    using assms by (simp add: hole_inv_def hole_positions_def hole_elems_def elems_def positions_def)
qed

lemma hole_ordered_append: "ordered gt n d \<Longrightarrow> hole_ordered gt (Suc n) (Suc n) d"
  by (auto simp: hole_ordered_def ordered_def)

lemma hole_at:
  assumes "positions n s" "i \<in> {1..n}"
  shows "hole_inv n (elems n (fst s) - {el (fst s) i}) s i s"
proof -
  have "hole_elems n i (fst s) = elems n (fst s) - {el (fst s) i}"
    unfolding hole_elems_def elems_def
    using inj_on_image_set_diff [OF positions_inj [OF assms(1)], of "{1..n}" "{i}"] assms(2) by simp
  then show ?thesis
    using assms by (simp add: hole_inv_def hole_positions_def positions_def)
qed

lemma elems_shrink:
  assumes "positions (Suc n) s"
  shows "elems n (fst s) = elems (Suc n) (fst s) - {fst s n}" "positions n s"
proof -
  have "{1..Suc n} - {Suc n} = {1..n}" by auto
  then show "elems n (fst s) = elems (Suc n) (fst s) - {fst s n}"
    unfolding elems_def
    using inj_on_image_set_diff [OF positions_inj [OF assms], of "{1..Suc n}" "{Suc n}"] by simp
  show "positions n s" using assms by (simp add: positions_def)
qed

lemma ordered_shrink: "hole_ordered gt (Suc n) i d \<Longrightarrow> hole_ordered gt n i d"
  unfolding hole_ordered_def by (intro ballI) (erule bspec, simp)

lemma hole_ordered_last:
  assumes "hole_ordered gt (Suc n) (Suc n) d"
  shows "ordered gt n d"
  unfolding ordered_def
proof
  fix j assume j: "j \<in> {2..n}"
  then have "j div 2 \<noteq> Suc n" "j \<noteq> Suc n" by auto
  then show "\<not> gt (el d j) (el d (j div 2))"
    using assms [unfolded hole_ordered_def, rule_format, of j] j by auto
qed

lemma hole_ordered_cong:
  assumes "\<And>a b. a \<in> hole_elems n i d \<Longrightarrow> b \<in> hole_elems n i d \<Longrightarrow> gt a b = gt' a b" "1 \<le> i"
  shows "hole_ordered gt n i d = hole_ordered gt' n i d"
proof -
  have mem: "j \<in> {1..n} \<Longrightarrow> j \<noteq> i \<Longrightarrow> el d j \<in> hole_elems n i d" for j
    by (simp add: hole_elems_def)
  have agree: "gt (el d j) (el d k) = gt' (el d j) (el d k)"
    if "j \<in> {2..n}" "j \<noteq> i" "k \<in> {1..n}" "k \<noteq> i" for j k
    using assms(1) [OF mem mem] that by auto
  show ?thesis
    unfolding hole_ordered_def
  proof (intro ball_cong refl imp_cong)
    fix j assume j: "j \<in> {2..n}" "j \<noteq> i"
    then have half: "j div 2 \<in> {1..n}" by auto
    have "i div 2 \<in> {1..n} \<and> i div 2 \<noteq> i" if "j div 2 = i" "1 < i"
      using j that by auto
    then show "(if j div 2 = i then 1 < i \<longrightarrow> \<not> gt (el d j) (el d (i div 2))
        else \<not> gt (el d j) (el d (j div 2))) =
      (if j div 2 = i then 1 < i \<longrightarrow> \<not> gt' (el d j) (el d (i div 2))
        else \<not> gt' (el d j) (el d (j div 2)))"
      using agree [OF j, of "i div 2"] agree [OF j half] by presburger
  qed
qed

subsection \<open>The operations on an order\<close>

context heap_order
begin

lemma insert_sifted:
  assumes "positions n s" "ordered gt n (fst s)" "x \<notin> elems n (fst s)"
  shows "sifted (Suc n) (insert x (elems n (fst s))) s (heap_sift gt (Suc n) x (Suc n) s)"
  using hole_append [OF assms(1)] hole_ordered_append [OF assms(2)] assms(3)
  by (rule heap_sift_sifted)

lemma delete_sifted:
  assumes "positions (Suc n) s" "hole_ordered gt (Suc n) i (fst s)" "i \<in> {1..n}"
  shows "sifted n (elems (Suc n) (fst s) - {el (fst s) i}) s (heap_sift gt n (fst s n) i s)"
proof -
  have pos: "positions n s" and el: "elems n (fst s) = elems (Suc n) (fst s) - {fst s n}"
    using elems_shrink [OF assms(1)] by simp_all
  have inj: "inj_on (el (fst s)) {1..Suc n}" using assms(1) by (rule positions_inj)
  have "el (fst s) i \<noteq> el (fst s) (Suc n)"
    using inj_onD [OF inj, of i "Suc n"] assms(3) by fastforce
  moreover have "fst s n \<in> elems (Suc n) (fst s)"
    unfolding elems_def by (rule image_eqI [of _ _ "Suc n"]) simp_all
  ultimately have eq: "insert (fst s n) (elems n (fst s) - {el (fst s) i}) =
      elems (Suc n) (fst s) - {el (fst s) i}"
    unfolding el by auto
  have "sifted n (insert (fst s n) (elems n (fst s) - {el (fst s) i})) s (heap_sift gt n (fst s n) i s)"
    using hole_at [OF pos assms(3)] ordered_shrink [OF assms(2)] by (rule heap_sift_sifted) (simp add: el)
  then show ?thesis unfolding eq .
qed

lemma rekey_sifted:
  assumes "positions n s" "hole_ordered gt n i (fst s)" "i \<in> {1..n}"
  shows "sifted n (elems n (fst s)) s (heap_sift gt n (el (fst s) i) i s)"
    and "below_parent (el (fst s) i) i (fst s) \<Longrightarrow>
      sifted n (elems n (fst s)) s (heap_sink gt n (el (fst s) i) i s)"
proof -
  have "el (fst s) i \<in> elems n (fst s)" using assms(3) by (auto simp: elems_def)
  then have eq: "insert (el (fst s) i) (elems n (fst s) - {el (fst s) i}) = elems n (fst s)"
    by auto
  note hole = hole_at [OF assms(1,3)]
  show "sifted n (elems n (fst s)) s (heap_sift gt n (el (fst s) i) i s)"
    using heap_sift_sifted [OF hole assms(2), of "el (fst s) i"] eq by simp
  show "below_parent (el (fst s) i) i (fst s) \<Longrightarrow>
      sifted n (elems n (fst s)) s (heap_sink gt n (el (fst s) i) i s)"
    using heap_sink_sifted [OF hole assms(2), of "el (fst s) i"] eq by simp
qed

end

end
