(* ===== verification/Thread_Mem.thy ===== *)
theory Thread_Mem
  imports Binary_Heap
begin

text \<open>
  The thread control blocks of \<^verbatim>\<open>include/thread.h\<close>: one function per field of
  \<^verbatim>\<open>struct thread_t\<close> and of the \<^verbatim>\<open>thread_stat_t\<close> it embeds.  The fields no modelled code reads
  or writes (\<^verbatim>\<open>name\<close>, \<^verbatim>\<open>id\<close>, \<^verbatim>\<open>perm\<close>, \<^verbatim>\<open>stk_ptr\<close>, the inode array) are left out.
  \<^verbatim>\<open>remaining\<close> is a C \<^verbatim>\<open>int\<close>: its bits are kept as a 32-bit word and read with \<open>sint\<close> where
  the code compares it with another \<^verbatim>\<open>int\<close>.
\<close>

record thread_mem =
  remaining :: "ptr \<Rightarrow> u32"
  status :: "ptr \<Rightarrow> u32"
  run_status :: "ptr \<Rightarrow> u32"
  hard_priority :: "ptr \<Rightarrow> u32"
  soft_priority :: "ptr \<Rightarrow> u32"
  stat_flags :: "ptr \<Rightarrow> u32"
  reentry :: "ptr \<Rightarrow> ptr"
  addr_spc :: "ptr \<Rightarrow> ptr"
  sync_mutex :: "ptr \<Rightarrow> bool"
  epoch :: "ptr \<Rightarrow> u32"
  cpu_id :: "ptr \<Rightarrow> nat"
  affinity :: "ptr \<Rightarrow> u32"
  affinity_heap_pos :: "ptr \<Rightarrow> nat"
  priority_heap_pos :: "ptr \<Rightarrow> nat"
  queue_next :: "ptr \<Rightarrow> ptr"
  queue_last :: "ptr \<Rightarrow> ptr"
  wait_type :: "ptr \<Rightarrow> u32"
  wait_obj :: "ptr \<Rightarrow> ptr"

text \<open>The scheduling states of a thread.\<close>

definition SCHED_RUNNABLE :: u32 where "SCHED_RUNNABLE = 0"
definition SCHED_NO_RESCHED :: u32 where "SCHED_NO_RESCHED = 1"
definition SCHED_EXCLUSIVE :: u32 where "SCHED_EXCLUSIVE = 2"
definition SCHED_ATOMIC :: u32 where "SCHED_ATOMIC = 3"
definition SCHED_STOPPED :: u32 where "SCHED_STOPPED = 8"
definition SCHED_INT_SLEEP :: u32 where "SCHED_INT_SLEEP = 9"
definition SCHED_UNINT_SLEEP :: u32 where "SCHED_UNINT_SLEEP = 10"
definition SCHED_DEAD :: u32 where "SCHED_DEAD = 11"

lemmas sched_states = SCHED_RUNNABLE_def SCHED_NO_RESCHED_def SCHED_EXCLUSIVE_def SCHED_ATOMIC_def
  SCHED_STOPPED_def SCHED_INT_SLEEP_def SCHED_UNINT_SLEEP_def SCHED_DEAD_def

text \<open>A memory in which every field of every thread is 0; concrete examples start from it.\<close>

definition thread_mem0 :: thread_mem where
  "thread_mem0 = \<lparr>remaining = \<lambda>_. 0, status = \<lambda>_. 0, run_status = \<lambda>_. 0, hard_priority = \<lambda>_. 0,
     soft_priority = \<lambda>_. 0, stat_flags = \<lambda>_. 0, reentry = \<lambda>_. 0, addr_spc = \<lambda>_. 0,
     sync_mutex = \<lambda>_. False, epoch = \<lambda>_. 0, cpu_id = \<lambda>_. 0, affinity = \<lambda>_. 0,
     affinity_heap_pos = \<lambda>_. 0, priority_heap_pos = \<lambda>_. 0, queue_next = \<lambda>_. 0, queue_last = \<lambda>_. 0,
     wait_type = \<lambda>_. 0, wait_obj = \<lambda>_. 0\<rparr>"

text \<open>
  An allocator as the heaps use it: address of the block and its size in bytes.  A reallocator gets
  the old address, the new and the old size and the array of pointers that the old block holds, and
  gives the address, the size and the array that the new block holds.
\<close>

type_synonym allocator = "u32 \<Rightarrow> ptr \<times> u32"
type_synonym reallocator = "ptr \<Rightarrow> u32 \<Rightarrow> u32 \<Rightarrow> (nat \<Rightarrow> ptr) \<Rightarrow> ptr \<times> u32 \<times> (nat \<Rightarrow> ptr)"

end
