(* ===== verification/Heap_Queue.thy ===== *)
theory Heap_Queue
  imports Thread_Mem
begin

text \<open>
  The interface through which the scheduler uses its heaps: a set of threads from which the
  best one is read, into which a thread is inserted and from which a thread is deleted by the
  position recorded in it.  The locale states what the two heaps promise; the theories
  \<open>Priority_Heap\<close> and \<open>Affinity_Heap\<close> interpret it.
\<close>

definition contents :: "heap_t \<Rightarrow> ptr set" where
  "contents h = elems (hp_size h) (data_name h)"

definition heap_ok :: "(ptr \<Rightarrow> ptr \<Rightarrow> bool) \<Rightarrow> (ptr \<Rightarrow> nat) \<Rightarrow> heap_t \<Rightarrow> bool" where
  "heap_ok gt pos h \<longleftrightarrow> positions (hp_size h) (data_name h, pos) \<and> ordered gt (hp_size h) (data_name h)"

text \<open>
  The array has a slot of four bytes for each thread, as far as \<^verbatim>\<open>max\<close> bytes reach.  An insert writes the
  slot behind the last one in use (\<^verbatim>\<open>i = ++(heap->size)\<close>, then \<^verbatim>\<open>data_name[i - 1]\<close>), so that it needs an array
  with room for one more thread.  The code does not test for it.
\<close>

definition capacity :: "heap_t \<Rightarrow> nat" where
  "capacity h = unat (hp_max h div 4)"

definition heap_room :: "heap_t \<Rightarrow> bool" where
  "heap_room h \<longleftrightarrow> data_ptr h \<noteq> NULL \<and> hp_size h < capacity h"

text \<open>A heap whose array holds the given threads in order, in an array of 20 slots.\<close>

definition heap_of :: "ptr list \<Rightarrow> heap_t" where
  "heap_of ps = \<lparr>hp_size = length ps, hp_max = 80, data_ptr = 1,
     data_name = (\<lambda>i. if i < length ps then ps ! i else NULL)\<rparr>"

text \<open>The invariant as two checks of the array, which concrete examples evaluate.\<close>

lemma heap_ok_code [code]: "heap_ok gt pos h \<longleftrightarrow>
    list_all (\<lambda>j. pos (data_name h j) = Suc j) [0..<hp_size h] \<and>
    list_all (\<lambda>j. \<not> gt (data_name h j) (data_name h (Suc j div 2 - 1))) [1..<hp_size h]"
proof -
  have "(\<forall>j\<in>{k..n}. P (j - 1) (j div 2 - 1)) \<longleftrightarrow> list_all (\<lambda>j. P j (Suc j div 2 - 1)) [k - 1..<n]" if "1 \<le> k"
    for k n and P :: "nat \<Rightarrow> nat \<Rightarrow> bool"
  proof -
    have "{k..n} = Suc ` {k - 1..<n}" using that by (auto simp: image_iff intro!: bexI [of _ "_ - 1"])
    then show ?thesis by (simp add: list_all_iff del: image_Suc_atLeastLessThan)
  qed
  from this [of 1 "hp_size h" "\<lambda>j _. pos (data_name h j) = Suc j"]
    this [of 2 "hp_size h" "\<lambda>j k. \<not> gt (data_name h j) (data_name h k)"]
  show ?thesis by (auto simp: heap_ok_def positions_def ordered_def list_all_iff)
qed

lemma contents_empty_iff: "contents h = {} \<longleftrightarrow> hp_size h = 0"
  by (auto simp: contents_def elems_def)

lemma finite_contents [simp]: "finite (contents h)"
  by (simp add: contents_def elems_def)

lemma contents_heap_of [simp]: "contents (heap_of ps) = set ps"
proof -
  have "set ps = (\<lambda>i. ps ! i) ` {..<length ps}" by (auto simp: in_set_conv_nth)
  moreover have "{..<length ps} = (\<lambda>j. j - 1) ` {1..length ps}"
    by (auto simp: image_iff intro!: bexI [of _ "Suc _"])
  moreover have "contents (heap_of ps) = (\<lambda>j. ps ! (j - 1)) ` {1..length ps}"
    by (auto simp: contents_def elems_def heap_of_def)
  ultimately show ?thesis by (simp add: image_image)
qed

lemma hp_size_heap_of [simp]: "hp_size (heap_of ps) = length ps"
  by (simp add: heap_of_def)

lemma array_heap_of [simp]: "data_ptr (heap_of ps) = 1" "capacity (heap_of ps) = 20"
  by (simp_all add: heap_of_def capacity_def)

lemma card_contents: "heap_ok gt pos h \<Longrightarrow> card (contents h) = hp_size h"
  unfolding heap_ok_def contents_def elems_def
  using card_image [OF positions_inj, of "hp_size h" "(data_name h, pos)"] by simp

lemma heap_ok_mem_iff:
  assumes "heap_ok gt pos h"
  shows "p \<in> contents h \<longleftrightarrow> pos p \<in> {1..hp_size h} \<and> data_name h (pos p - 1) = p"
  using positions_mem_iff [of "hp_size h" "(data_name h, pos)" p] assms
  by (simp add: heap_ok_def contents_def)

lemma heap_ok_cong:
  assumes "\<And>p. p \<in> contents h \<Longrightarrow> pos p = pos' p"
    and "\<And>p q. p \<in> contents h \<Longrightarrow> q \<in> contents h \<Longrightarrow> gt p q = gt' p q"
  shows "heap_ok gt pos h = heap_ok gt' pos' h"
proof -
  have mem: "j \<in> {1..hp_size h} \<Longrightarrow> el (data_name h) j \<in> contents h" for j
    by (auto simp: contents_def elems_def)
  have "ordered gt (hp_size h) (data_name h) = ordered gt' (hp_size h) (data_name h)"
    unfolding ordered_def
  proof (intro ball_cong refl)
    fix j assume "j \<in> {2..hp_size h}"
    then have "j \<in> {1..hp_size h}" "j div 2 \<in> {1..hp_size h}" by auto
    then show "(\<not> gt (el (data_name h) j) (el (data_name h) (j div 2))) =
        (\<not> gt' (el (data_name h) j) (el (data_name h) (j div 2)))"
      using assms(2) [OF mem mem] by blast
  qed
  moreover have "positions (hp_size h) (data_name h, pos) = positions (hp_size h) (data_name h, pos')"
    unfolding positions_def using assms(1) [OF mem] by auto
  ultimately show ?thesis by (simp add: heap_ok_def)
qed

subsection \<open>The operations common to the two heaps\<close>

text \<open>
  The bodies of \<^verbatim>\<open>*_heap_grow\<close>, \<^verbatim>\<open>*_heap_insert\<close>, \<^verbatim>\<open>*_heap_delete\<close> and \<^verbatim>\<open>*_heap_set_key\<close>, which the two C
  files spell out twice, the last three over the order and the position field.  \<open>heap_rekey\<close> starts after the
  key has been written; \<open>direction\<close> says that it moved towards the root.
\<close>

definition heap_grow :: "reallocator \<Rightarrow> heap_t \<Rightarrow> nat \<Rightarrow> heap_t" where
  "heap_grow kern_realloc heap sz =
     (if sz \<ge> unat (hp_max heap div 4) then
        (case kern_realloc (data_ptr heap) (hp_max heap * 2) (hp_max heap) (data_name heap) of (p, new_max, d) \<Rightarrow>
           heap\<lparr>data_ptr := p, hp_max := new_max, data_name := d\<rparr>)
      else heap)"

definition heap_ins :: "(ptr \<Rightarrow> ptr \<Rightarrow> bool) \<Rightarrow> (ptr \<Rightarrow> nat) \<Rightarrow> heap_t \<Rightarrow> ptr \<Rightarrow> (ptr \<Rightarrow> nat) \<times> heap_t" where
  "heap_ins gt pos h x =
     (let i = hp_size h + 1;
          (d, pos') = heap_sift gt i x i (data_name h, pos)
      in (pos', h\<lparr>hp_size := i, data_name := d\<rparr>))"

definition heap_del :: "(ptr \<Rightarrow> ptr \<Rightarrow> bool) \<Rightarrow> (ptr \<Rightarrow> nat) \<Rightarrow> heap_t \<Rightarrow> nat \<Rightarrow> ptr \<times> (ptr \<Rightarrow> nat) \<times> heap_t" where
  "heap_del gt pos h num =
     (if 0 = hp_size h \<or> 0 = num \<or> num > hp_size h then (NULL, pos, h)
      else
        let out = data_name h (num - 1);
            n = hp_size h - 1
        in if num - 1 = n then (out, pos, h\<lparr>hp_size := n\<rparr>)
           else if 0 \<noteq> n then
             let tmp = data_name h n;
                 (d, pos') = heap_sift gt n tmp num (data_name h, pos)
             in (out, pos', h\<lparr>hp_size := n, data_name := d\<rparr>)
           else (out, pos, h\<lparr>hp_size := n\<rparr>))"

definition heap_rekey :: "(ptr \<Rightarrow> ptr \<Rightarrow> bool) \<Rightarrow> bool \<Rightarrow> (ptr \<Rightarrow> nat) \<Rightarrow> heap_t \<Rightarrow> nat \<Rightarrow> (ptr \<Rightarrow> nat) \<times> heap_t" where
  "heap_rekey gt direction pos h index =
     (if direction \<and> 1 = index then (pos, h)
      else
        let tmp = data_name h (index - 1);
            n = hp_size h;
            (d, pos') = (if direction then heap_sift gt n tmp index (data_name h, pos)
                         else heap_sink gt n tmp index (data_name h, pos))
        in (pos', h\<lparr>data_name := d\<rparr>))"

text \<open>
  A heap whose order is only known around one thread: what is left of it when that thread's
  key has been overwritten, and all that a delete or a rekey of that thread needs.
\<close>

definition heap_ok_except :: "(ptr \<Rightarrow> ptr \<Rightarrow> bool) \<Rightarrow> (ptr \<Rightarrow> nat) \<Rightarrow> heap_t \<Rightarrow> ptr \<Rightarrow> bool" where
  "heap_ok_except gt pos h x \<longleftrightarrow> positions (hp_size h) (data_name h, pos) \<and>
     hole_ordered gt (hp_size h) (pos x) (data_name h)"

lemma heap_ok_except_mem_iff:
  assumes "heap_ok_except gt pos h y"
  shows "p \<in> contents h \<longleftrightarrow> pos p \<in> {1..hp_size h} \<and> data_name h (pos p - 1) = p"
  using positions_mem_iff [of "hp_size h" "(data_name h, pos)" p] assms
  by (simp add: heap_ok_except_def contents_def)

lemma heap_ok_except_cong:
  assumes "heap_ok_except gt pos h x" "x \<in> contents h"
    and "\<And>p q. p \<in> contents h - {x} \<Longrightarrow> q \<in> contents h - {x} \<Longrightarrow> gt p q = gt' p q"
  shows "heap_ok_except gt' pos h x"
proof -
  have x: "pos x \<in> {1..hp_size h}" "el (data_name h) (pos x) = x"
    using heap_ok_except_mem_iff [OF assms(1)] assms(2) by auto
  have pos: "positions (hp_size h) (data_name h, pos)"
    and ord: "hole_ordered gt (hp_size h) (pos x) (data_name h)"
    using assms(1) by (simp_all add: heap_ok_except_def)
  have "hole_elems (hp_size h) (pos x) (data_name h) = contents h - {x}"
    using hole_at [OF pos x(1)] x(2) by (simp add: hole_inv_def contents_def)
  then have "hole_ordered gt' (hp_size h) (pos x) (data_name h)"
    using ord hole_ordered_cong [of "hp_size h" "pos x" "data_name h" gt gt'] x assms(3) by simp
  then show ?thesis using pos by (simp add: heap_ok_except_def)
qed

text \<open>What each operation leaves: a heap \<open>h'\<close> with contents \<open>C\<close>, the array where it was.\<close>

definition heap_result :: "(ptr \<Rightarrow> ptr \<Rightarrow> bool) \<Rightarrow> (ptr \<Rightarrow> nat) \<Rightarrow> heap_t \<Rightarrow> ptr set \<Rightarrow> (ptr \<Rightarrow> nat) \<Rightarrow> heap_t \<Rightarrow> bool" where
  "heap_result gt pos h C pos' h' \<longleftrightarrow> heap_ok gt pos' h' \<and> contents h' = C \<and>
     (\<forall>p. p \<notin> C \<longrightarrow> pos' p = pos p) \<and> data_ptr h' = data_ptr h \<and> hp_max h' = hp_max h"

context heap_order
begin

lemma ok_imp_except: "heap_ok gt pos h \<Longrightarrow> heap_ok_except gt pos h x"
  by (simp add: heap_ok_def heap_ok_except_def ordered_hole)

lemma sifted_result:
  assumes "sifted n C (data_name h, pos) (d, pos')"
  shows "heap_result gt pos h C pos' (h\<lparr>hp_size := n, data_name := d\<rparr>)"
  using assms by (simp add: heap_result_def heap_ok_def contents_def sifted_def)

lemma heap_ins_ok:
  assumes "heap_ok gt pos h" "x \<notin> contents h" "heap_ins gt pos h x = (pos', h')"
  shows "heap_result gt pos h (insert x (contents h)) pos' h'"
proof -
  let ?s = "(data_name h, pos)" and ?n = "Suc (hp_size h)"
  obtain d p where s: "heap_sift gt ?n x ?n ?s = (d, p)" by fastforce
  then have "pos' = p" "h' = h\<lparr>hp_size := ?n, data_name := d\<rparr>"
    using assms(3) by (simp_all add: heap_ins_def)
  moreover have "sifted ?n (insert x (contents h)) ?s (d, p)"
    using insert_sifted [of "hp_size h" ?s x] assms(1,2) s by (simp add: heap_ok_def contents_def)
  ultimately show ?thesis using sifted_result by simp
qed

lemma heap_del_ok:
  assumes "heap_ok_except gt pos h x" "x \<in> contents h" "heap_del gt pos h (pos x) = (y, pos', h')"
  shows "y = x \<and> heap_result gt pos h (contents h - {x}) pos' h'"
proof -
  let ?s = "(data_name h, pos)" and ?i = "pos x"
  have pos: "positions (hp_size h) ?s" and ord: "hole_ordered gt (hp_size h) ?i (data_name h)"
    using assms(1) by (auto simp: heap_ok_except_def)
  have i: "?i \<in> {1..hp_size h}" "el (data_name h) ?i = x"
    using heap_ok_except_mem_iff [OF assms(1)] assms(2) by auto
  obtain n where n: "hp_size h = Suc n" using i by (cases "hp_size h") auto
  show ?thesis
  proof (cases "?i = Suc n")
    case True
    then have "y = x" "pos' = pos" "h' = h\<lparr>hp_size := n\<rparr>"
      using assms(3) i n by (auto simp: heap_del_def Let_def)
    moreover have "ordered gt n (data_name h)"
      using ord True n by (simp add: hole_ordered_last)
    ultimately show ?thesis
      using elems_shrink [of n ?s] pos n True i by (simp add: heap_result_def heap_ok_def contents_def)
  next
    case False
    then have i': "?i \<in> {1..n}" using i n by auto
    then have ne: "?i - 1 \<noteq> n" "n \<noteq> 0" "0 \<noteq> ?i" "\<not> Suc n < ?i" by auto
    obtain d p where s: "heap_sift gt n (data_name h n) ?i ?s = (d, p)" by fastforce
    then have "y = x" "pos' = p" "h' = h\<lparr>hp_size := n, data_name := d\<rparr>"
      using assms(3) i n ne by (simp_all add: heap_del_def Let_def)
    moreover have "sifted n (contents h - {x}) ?s (d, p)"
      using delete_sifted [of n ?s ?i] pos ord n i i' s by (simp add: contents_def)
    ultimately show ?thesis using sifted_result by simp
  qed
qed

text \<open>
  A rekey from the order \<open>gt0\<close> to \<open>gt\<close>, which differ on \<open>x\<close> only: if \<open>x\<close> moves towards the root,
  what was not before it still is not; if it moves away, it is still not before what it was
  not before.
\<close>

lemma heap_rekey_ok:
  assumes old: "heap_ok gt0 pos h" and x: "x \<in> contents h"
    and exc: "heap_ok_except gt pos h x"
    and same: "\<And>p q. p \<in> contents h - {x} \<Longrightarrow> q \<in> contents h - {x} \<Longrightarrow> gt p q = gt0 p q"
    and up: "\<And>p. direction \<Longrightarrow> \<not> gt0 p x \<Longrightarrow> p \<noteq> x \<Longrightarrow> \<not> gt p x"
    and down: "\<And>p. \<not> direction \<Longrightarrow> \<not> gt0 x p \<Longrightarrow> p \<noteq> x \<Longrightarrow> \<not> gt x p"
    and run: "heap_rekey gt direction pos h (pos x) = (pos', h')"
  shows "heap_result gt pos h (contents h) pos' h'"
proof -
  let ?s = "(data_name h, pos)" and ?n = "hp_size h" and ?i = "pos x" and ?d = "data_name h"
  have pos: "positions ?n ?s" and hole: "hole_ordered gt ?n ?i ?d"
    using exc by (auto simp: heap_ok_except_def)
  have i: "?i \<in> {1..?n}" "el ?d ?i = x"
    using heap_ok_except_mem_iff [OF exc] x by auto
  have other: "el ?d j \<in> contents h - {x}" if "j \<in> {1..?n}" "j \<noteq> ?i" for j
    using that pos by (auto simp: contents_def elems_def positions_def)
  have ord: "\<not> gt0 (el ?d j) (el ?d (j div 2))" "j div 2 \<in> {1..?n}" "j \<in> {1..?n}" "j div 2 \<noteq> j"
    if "j \<in> {2..?n}" for j
    using old that orderedD [of gt0 ?n ?d j] by (auto simp: heap_ok_def)
  note sifted = rekey_sifted [of ?n ?s ?i, simplified, OF pos hole i(1) [simplified]]
  consider (root) "direction" "?i = 1" | (up) "direction" "?i \<noteq> 1" | (down) "\<not> direction" by blast
  then show ?thesis
  proof cases
    case root
    have "\<not> gt (el ?d j) (el ?d (j div 2))" if j: "j \<in> {2..?n}" for j
      using other [of j] other [of "j div 2"] ord [OF j] same up i root j
      by (cases "j div 2 = ?i") auto
    then show ?thesis
      using run root pos by (auto simp: heap_rekey_def heap_result_def heap_ok_def ordered_def)
  next
    case up
    obtain d p where s: "heap_sift gt ?n x ?i ?s = (d, p)" by fastforce
    then show ?thesis
      using run up i sifted(1) sifted_result [of ?n "contents h" h pos d p]
      by (auto simp: heap_rekey_def Let_def contents_def)
  next
    case down
    obtain d p where s: "heap_sink gt ?n x ?i ?s = (d, p)" by fastforce
    have "below_parent x ?i ?d"
      using ord [of ?i] other [of "?i div 2"] assms(6) down i by (auto simp: below_parent_def)
    then show ?thesis
      using run down i s sifted(2) sifted_result [of ?n "contents h" h pos d p]
      by (auto simp: heap_rekey_def Let_def contents_def)
  qed
qed

end

subsection \<open>The interface\<close>

text \<open>Reading the best element again and again, deleting it each time.\<close>

fun drain :: "('m \<Rightarrow> heap_t \<Rightarrow> nat \<Rightarrow> ptr \<times> 'm \<times> heap_t) \<Rightarrow> nat \<Rightarrow> 'm \<Rightarrow> heap_t \<Rightarrow> ptr list" where
  "drain del 0 m h = []"
| "drain del (Suc k) m h = (case del m h 1 of (x, m', h') \<Rightarrow> x # drain del k m' h')"

locale heap_queue =
  fixes better :: "'m \<Rightarrow> ptr \<Rightarrow> ptr \<Rightarrow> bool"
    and posn :: "'m \<Rightarrow> ptr \<Rightarrow> nat"
    and ins :: "'m \<Rightarrow> heap_t \<Rightarrow> ptr \<Rightarrow> ('m \<times> heap_t) option"
    and del :: "'m \<Rightarrow> heap_t \<Rightarrow> nat \<Rightarrow> ptr \<times> 'm \<times> heap_t"
    and head :: "heap_t \<Rightarrow> ptr"
  assumes order: "heap_order (better m)"
    and ins_room: "(\<exists>r. ins m h x = Some r) \<longleftrightarrow> heap_room h"
    and ins_ok: "heap_ok (better m) (posn m) h \<Longrightarrow> x \<notin> contents h \<Longrightarrow> ins m h x = Some (m', h') \<Longrightarrow>
      heap_ok (better m') (posn m') h' \<and> contents h' = insert x (contents h) \<and> better m' = better m"
    and del_ok: "heap_ok (better m) (posn m) h \<Longrightarrow> x \<in> contents h \<Longrightarrow>
      del m h (posn m x) = (y, m', h') \<Longrightarrow>
      y = x \<and> heap_ok (better m') (posn m') h' \<and> contents h' = contents h - {x} \<and> better m' = better m"
    and head_def: "head h = (if hp_size h = 0 then NULL else data_name h 0)"
begin

lemma head_mem: "contents h \<noteq> {} \<Longrightarrow> head h \<in> contents h"
  unfolding contents_empty_iff head_def contents_def elems_def by force

lemma head_best:
  assumes "heap_ok (better m) (posn m) h" "y \<in> contents h"
  shows "\<not> better m y (head h)"
proof -
  obtain j where "j \<in> {1..hp_size h}" "y = el (data_name h) j"
    using assms(2) by (auto simp: contents_def elems_def)
  then show ?thesis
    using heap_order.root_extreme [OF order, of m "hp_size h" "data_name h" j] assms(1)
    by (auto simp: heap_ok_def head_def)
qed

lemma head_pos:
  assumes "heap_ok (better m) (posn m) h" "contents h \<noteq> {}"
  shows "posn m (head h) = 1"
  using assms bspec [of "{1..hp_size h}" "\<lambda>j. posn m (el (data_name h) j) = j" 1]
  by (auto simp: contents_empty_iff head_def heap_ok_def positions_def)

text \<open>Draining yields the whole contents, each thread once, best first.\<close>

lemma drain_sorted:
  assumes "heap_ok (better m) (posn m) h"
  shows "set (drain del (hp_size h) m h) = contents h \<and>
    sorted_wrt (\<lambda>a b. \<not> better m b a) (drain del (hp_size h) m h)"
  using assms
proof (induction "hp_size h" arbitrary: m h)
  case 0
  then have "contents h = {}" by (simp add: contents_empty_iff)
  then show ?case by (simp flip: "0.hyps")
next
  case (Suc n)
  then have ne: "contents h \<noteq> {}" by (metis contents_empty_iff nat.distinct(1))
  obtain x m' h' where d: "del m h 1 = (x, m', h')" by (cases "del m h 1")
  note ok = Suc.prems and head = head_mem [OF ne]
  have "del m h (posn m (head h)) = (x, m', h')"
    unfolding head_pos [OF ok ne] by (rule d)
  note step = del_ok [OF ok head this]
  have x: "x = head h" and ok': "heap_ok (better m') (posn m') h'"
    and c: "contents h' = contents h - {head h}" and b: "better m' = better m"
    using step by blast+
  have "hp_size h' = n"
    using card_contents [OF ok] card_contents [OF ok'] c head Suc.hyps(2) by simp
  then have IH: "set (drain del n m' h') = contents h'"
    "sorted_wrt (\<lambda>a b. \<not> better m b a) (drain del n m' h')"
    using Suc.hyps(1) [of h' m'] ok' b by auto
  show ?case
    using IH c head head_best [OF ok] d x by (auto simp flip: Suc.hyps(2))
qed

end

end
