(* ===== verification/Priority_Heap.thy ===== *)
theory Priority_Heap
  imports Heap_Queue
begin

text \<open>
  \<^verbatim>\<open>src/sched/priority_heap.c\<close>: the run queue of a scheduler, a max-heap of threads by the
  signed value of \<^verbatim>\<open>stat.remaining\<close>, with the position of a thread in its
  \<^verbatim>\<open>priority_heap_pos\<close>.  The comparisons and the loops are those of \<open>Heap_Queue\<close>; this theory
  gives the operations their order and their fields and discharges the interface.
\<close>

definition pri_gt :: "thread_mem \<Rightarrow> ptr \<Rightarrow> ptr \<Rightarrow> bool" where
  "pri_gt m x y \<longleftrightarrow> sint (remaining m x) > sint (remaining m y)"

text \<open>
  \<^verbatim>\<open>priority_heap_init\<close> allocates the struct (12 bytes), asks for \<open>4 * size\<close> bytes
  (\<^verbatim>\<open>sizeof(thread_t*)\<close>) of array and keeps the size it was given.  The array is not
  initialised, and the pointer to the struct is written through without a test.
\<close>

definition priority_heap_init :: "(u32 \<Rightarrow> ptr) \<Rightarrow> allocator \<Rightarrow> (nat \<Rightarrow> ptr) \<Rightarrow> u32 \<Rightarrow> heap_t option" where
  "priority_heap_init malloc kern_malloc garbage sz = do {
     _ \<leftarrow> deref (malloc 12);
     case kern_malloc (sz * 4) of (p, got) \<Rightarrow>
       Some \<lparr>hp_size = 0, hp_max = got, data_ptr = p, data_name = garbage\<rparr> }"

definition priority_heap_grow :: "reallocator \<Rightarrow> heap_t \<Rightarrow> nat \<Rightarrow> heap_t" where
  "priority_heap_grow kern_realloc heap sz = heap_grow kern_realloc heap sz"

definition priority_heap_insert :: "thread_mem \<Rightarrow> heap_t \<Rightarrow> ptr \<Rightarrow> (thread_mem \<times> heap_t) option" where
  "priority_heap_insert m heap inn =
     (if heap_room heap then
        (case heap_ins (pri_gt m) (priority_heap_pos m) heap inn of (pos, heap') \<Rightarrow>
           Some (m\<lparr>priority_heap_pos := pos\<rparr>, heap'))
      else None)"

definition priority_heap_head :: "heap_t \<Rightarrow> ptr" where
  "priority_heap_head heap = (if 0 \<noteq> hp_size heap then data_name heap 0 else NULL)"

definition priority_heap_delete :: "thread_mem \<Rightarrow> heap_t \<Rightarrow> nat \<Rightarrow> ptr \<times> thread_mem \<times> heap_t" where
  "priority_heap_delete m heap num =
     (case heap_del (pri_gt m) (priority_heap_pos m) heap num of (out, pos, heap') \<Rightarrow>
        (out, m\<lparr>priority_heap_pos := pos\<rparr>, heap'))"

text \<open>
  \<^verbatim>\<open>direction = tmp->stat.remaining < val\<close> compares an \<^verbatim>\<open>int\<close> with an \<^verbatim>\<open>unsigned int\<close>, hence as
  unsigned values.
\<close>

definition priority_heap_set_key :: "thread_mem \<Rightarrow> heap_t \<Rightarrow> nat \<Rightarrow> u32 \<Rightarrow> thread_mem \<times> heap_t" where
  "priority_heap_set_key m heap index val =
     (if 0 = index \<or> index > hp_size heap \<or> remaining m (data_name heap (index - 1)) = val
      then (m, heap)
      else
        let tmp = data_name heap (index - 1);
            direction = remaining m tmp < val;
            m1 = m\<lparr>remaining := (remaining m)(tmp := val)\<rparr>;
            (pos, heap') = heap_rekey (pri_gt m1) direction (priority_heap_pos m1) heap index
        in (m1\<lparr>priority_heap_pos := pos\<rparr>, heap'))"

abbreviation pri_ok :: "thread_mem \<Rightarrow> heap_t \<Rightarrow> bool" where
  "pri_ok m h \<equiv> heap_ok (pri_gt m) (priority_heap_pos m) h"

abbreviation pri_ok_except :: "thread_mem \<Rightarrow> heap_t \<Rightarrow> ptr \<Rightarrow> bool" where
  "pri_ok_except m h x \<equiv> heap_ok_except (pri_gt m) (priority_heap_pos m) h x"

interpretation pri_order: heap_order "pri_gt m" for m
  by unfold_locales (auto simp: pri_gt_def)

lemma pri_gt_cong: "remaining m' = remaining m \<Longrightarrow> pri_gt m' = pri_gt m"
  by (simp add: pri_gt_def fun_eq_iff)

lemma pri_gt_pos_update [simp]: "pri_gt (m\<lparr>priority_heap_pos := pos\<rparr>) = pri_gt m"
  by (rule pri_gt_cong) simp

text \<open>What an operation leaves: a heap with contents \<open>C\<close>, and only positions of its threads changed.\<close>

definition pri_result :: "thread_mem \<Rightarrow> heap_t \<Rightarrow> ptr set \<Rightarrow> thread_mem \<Rightarrow> heap_t \<Rightarrow> bool" where
  "pri_result m h C m' h' \<longleftrightarrow>
     m' = m\<lparr>priority_heap_pos := priority_heap_pos m'\<rparr> \<and>
     heap_result (pri_gt m) (priority_heap_pos m) h C (priority_heap_pos m') h'"

lemma pri_resultD:
  assumes "pri_result m h C m' h'"
  shows "pri_ok m' h'" "contents h' = C" "p \<notin> C \<Longrightarrow> priority_heap_pos m' p = priority_heap_pos m p"
    "data_ptr h' = data_ptr h" "hp_max h' = hp_max h" "pri_gt m' = pri_gt m"
proof -
  have m': "m' = m\<lparr>priority_heap_pos := priority_heap_pos m'\<rparr>"
    and r: "heap_result (pri_gt m) (priority_heap_pos m) h C (priority_heap_pos m') h'"
    using assms by (simp_all add: pri_result_def)
  show "pri_gt m' = pri_gt m" by (subst m') simp
  then show "pri_ok m' h'" "contents h' = C" "p \<notin> C \<Longrightarrow> priority_heap_pos m' p = priority_heap_pos m p"
    "data_ptr h' = data_ptr h" "hp_max h' = hp_max h"
    using r by (simp_all add: heap_result_def)
qed

lemma priority_heap_insert_result:
  assumes "pri_ok m h" "x \<notin> contents h" "priority_heap_insert m h x = Some (m', h')"
  shows "pri_result m h (insert x (contents h)) m' h'"
proof -
  obtain pos where "heap_ins (pri_gt m) (priority_heap_pos m) h x = (pos, h')"
    "m' = m\<lparr>priority_heap_pos := pos\<rparr>"
    using assms(3) by (auto simp: priority_heap_insert_def split: prod.splits if_splits)
  then show ?thesis
    using pri_order.heap_ins_ok [OF assms(1,2)] by (simp add: pri_result_def)
qed

text \<open>
  A delete needs the heap order only around the deleted thread: the caller may already have
  changed that thread's own key, as \<^verbatim>\<open>retire_current_thread\<close> and \<^verbatim>\<open>remove_current\<close> do.
\<close>

lemma priority_heap_delete_result:
  assumes "pri_ok_except m h x" "x \<in> contents h"
    "priority_heap_delete m h (priority_heap_pos m x) = (y, m', h')"
  shows "y = x \<and> pri_result m h (contents h - {x}) m' h'"
proof -
  obtain pos where "heap_del (pri_gt m) (priority_heap_pos m) h (priority_heap_pos m x) = (y, pos, h')"
    "m' = m\<lparr>priority_heap_pos := pos\<rparr>"
    using assms(3) by (auto simp: priority_heap_delete_def split: prod.splits)
  then show ?thesis
    using pri_order.heap_del_ok [OF assms(1,2)] by (simp add: pri_result_def)
qed

lemma pri_ok_except_key:
  assumes "pri_ok m h" "x \<in> contents h"
  shows "pri_ok_except (m\<lparr>remaining := (remaining m)(x := v)\<rparr>) h x"
  using heap_ok_except_cong [OF pri_order.ok_imp_except [OF assms(1)] assms(2)]
  by (auto simp: pri_gt_def)

interpretation pri_queue: heap_queue pri_gt priority_heap_pos priority_heap_insert
  priority_heap_delete priority_heap_head
proof (rule heap_queue.intro)
  show "heap_order (pri_gt m)" for m by unfold_locales
  show "(\<exists>r. priority_heap_insert m h x = Some r) \<longleftrightarrow> heap_room h" for m h x
    by (simp add: priority_heap_insert_def case_prod_beta)
  show "pri_ok m' h' \<and> contents h' = insert x (contents h) \<and> pri_gt m' = pri_gt m"
    if "pri_ok m h" "x \<notin> contents h" "priority_heap_insert m h x = Some (m', h')" for m h x m' h'
    using pri_resultD [OF priority_heap_insert_result [OF that]] by simp
  show "y = x \<and> pri_ok m' h' \<and> contents h' = contents h - {x} \<and> pri_gt m' = pri_gt m"
    if "pri_ok m h" "x \<in> contents h" "priority_heap_delete m h (priority_heap_pos m x) = (y, m', h')"
    for m h x y m' h'
    using priority_heap_delete_result [OF pri_order.ok_imp_except [OF that(1)] that(2,3)]
      pri_resultD [of m h "contents h - {x}" m' h'] by simp
  show "priority_heap_head h = (if hp_size h = 0 then NULL else data_name h 0)" for h
    by (simp add: priority_heap_head_def)
qed

subsection \<open>Changing a key\<close>

text \<open>
  \<^verbatim>\<open>priority_heap_set_key\<close> keeps the heap when the old and the new key have the same sign:
  there the unsigned comparison decides as the signed one would.
\<close>

lemma priority_heap_set_key_result:
  assumes ok: "pri_ok m h" and x: "x \<in> contents h"
    and sign: "(sint (remaining m x) < 0) = (sint val < 0)"
    and run: "priority_heap_set_key m h (priority_heap_pos m x) val = (m', h')"
  shows "pri_result (m\<lparr>remaining := (remaining m)(x := val)\<rparr>) h (contents h) m' h'"
proof -
  let ?i = "priority_heap_pos m x" and ?m = "m\<lparr>remaining := (remaining m)(x := val)\<rparr>"
  have i: "el (data_name h) ?i = x" "0 \<noteq> ?i" "\<not> hp_size h < ?i"
    using heap_ok_mem_iff [OF ok] x by auto
  note dir = signed_unsigned_less_same_sign [OF sign]
  show ?thesis
  proof (cases "remaining m x = val")
    case True
    then have "m' = m" "h' = h" "?m = m"
      using run i by (auto simp: priority_heap_set_key_def)
    then show ?thesis using ok by (simp add: pri_result_def heap_result_def)
  next
    case False
    obtain pos where rk: "heap_rekey (pri_gt ?m) (remaining m x < val) (priority_heap_pos m) h ?i = (pos, h')"
      and m': "m' = ?m\<lparr>priority_heap_pos := pos\<rparr>"
      using run i False by (auto simp: priority_heap_set_key_def Let_def split: prod.splits)
    have "heap_result (pri_gt ?m) (priority_heap_pos m) h (contents h) pos h'"
    proof (rule pri_order.heap_rekey_ok [OF ok x _ _ _ _ rk])
      show "heap_ok_except (pri_gt ?m) (priority_heap_pos m) h x"
        using pri_ok_except_key [OF ok x, of val] by simp
    qed (use dir False in \<open>auto simp: pri_gt_def\<close>)
    then show ?thesis using m' by (simp add: pri_result_def)
  qed
qed


subsection \<open>The contract of the priority heap\<close>

definition pri_demo :: thread_mem where
  "pri_demo = thread_mem0\<lparr>remaining := (\<lambda>_. 0)(1 := 9, 2 := 5, 3 := 7, 4 := 6),
     priority_heap_pos := (\<lambda>_. 0)(1 := 1, 2 := 2, 3 := 3)\<rparr>"

text \<open>C33: Inserting a thread that is not queued, into an array with room for one more thread, keeps the heap well
  formed (every queued thread records its own position and no thread has more time remaining than
  its parent), adds exactly that thread, writes inside the array, which stays where it is, and changes
  nothing of any thread but the heap positions of queued ones.  Without room the code, which does not
  test for it, writes behind the array.\<close>

theorem priority_heap_insert_correct:
  assumes "pri_ok m h" "x \<notin> contents h"
  shows "if data_ptr h \<noteq> NULL \<and> hp_size h < capacity h
    then \<exists>m' h'. priority_heap_insert m h x = Some (m', h') \<and> pri_ok m' h' \<and> contents h' = insert x (contents h) \<and>
      hp_size h' = Suc (hp_size h) \<and> data_ptr h' = data_ptr h \<and> capacity h' = capacity h \<and>
      m' = m\<lparr>priority_heap_pos := priority_heap_pos m'\<rparr> \<and>
      (\<forall>p. p \<notin> contents h' \<longrightarrow> priority_heap_pos m' p = priority_heap_pos m p)
    else priority_heap_insert m h x = None"
proof (cases "heap_room h")
  case True
  then obtain m' h' where run: "priority_heap_insert m h x = Some (m', h')" using pri_queue.ins_room [of m h x] by auto
  note r = priority_heap_insert_result [OF assms run]
  have "card (contents h') = Suc (card (contents h))" using pri_resultD(2) [OF r] assms(2) by simp
  then have "hp_size h' = Suc (hp_size h)" using card_contents [OF assms(1)] card_contents [OF pri_resultD(1) [OF r]] by simp
  then show ?thesis using True run r pri_resultD [OF r] by (auto simp: heap_room_def pri_result_def capacity_def)
next
  case False
  then have "priority_heap_insert m h x = None" by (simp add: priority_heap_insert_def)
  moreover have "\<not> (data_ptr h \<noteq> NULL \<and> hp_size h < capacity h)" using False by (simp add: heap_room_def)
  ultimately show ?thesis by (simp only: if_False)
qed

theorem priority_heap_insert_correct_witness:
  "\<exists>m' h'. priority_heap_insert pri_demo (heap_of [1, 2, 3]) 4 = Some (m', h') \<and> pri_ok m' h' \<and> contents h' = {1, 2, 3, 4} \<and>
     hp_size h' = 4 \<and> capacity h' = 20"
proof -
  have ok: "pri_ok pri_demo (heap_of [1, 2, 3])" by code_simp
  have "(4 :: ptr) \<notin> contents (heap_of [1, 2, 3])" by simp
  from priority_heap_insert_correct [OF ok this] show ?thesis by (auto simp: NULL_def)
qed

text \<open>C9: Deleting a queued thread by its recorded position returns that thread and removes
  exactly it, also when the caller has already overwritten that thread's own key.\<close>

theorem priority_heap_delete_correct:
  assumes "pri_ok m h" "x \<in> contents h"
    and "priority_heap_delete (m\<lparr>remaining := (remaining m)(x := v)\<rparr>) h (priority_heap_pos m x) = (y, m', h')"
  shows "y = x \<and> pri_ok m' h' \<and> contents h' = contents h - {x} \<and>
    m' = m\<lparr>remaining := (remaining m)(x := v), priority_heap_pos := priority_heap_pos m'\<rparr> \<and>
    (\<forall>p. p \<notin> contents h' \<longrightarrow> priority_heap_pos m' p = priority_heap_pos m p)"
proof -
  let ?m = "m\<lparr>remaining := (remaining m)(x := v)\<rparr>"
  have "priority_heap_delete ?m h (priority_heap_pos ?m x) = (y, m', h')" using assms(3) by simp
  from priority_heap_delete_result [OF pri_ok_except_key [OF assms(1,2)] assms(2) this]
  have r: "y = x" "pri_result ?m h (contents h - {x}) m' h'" by blast+
  then show ?thesis using pri_resultD [OF r(2)] by (simp add: pri_result_def)
qed

theorem priority_heap_delete_correct_witness:
  "fst (priority_heap_delete (pri_demo\<lparr>remaining := (remaining pri_demo)(1 := -4)\<rparr>) (heap_of [1, 2, 3]) 1) = 1 \<and>
   contents (snd (snd (priority_heap_delete (pri_demo\<lparr>remaining := (remaining pri_demo)(1 := -4)\<rparr>)
     (heap_of [1, 2, 3]) 1))) = {2, 3}"
proof -
  have ok: "pri_ok pri_demo (heap_of [1, 2, 3])" by code_simp
  have x: "(1 :: ptr) \<in> contents (heap_of [1, 2, 3])" by simp
  have p: "priority_heap_pos pri_demo 1 = 1" by code_simp
  obtain y m' h' where run: "priority_heap_delete (pri_demo\<lparr>remaining := (remaining pri_demo)(1 := -4)\<rparr>)
      (heap_of [1, 2, 3]) (priority_heap_pos pri_demo 1) = (y, m', h')" by (metis prod_cases3)
  have "y = 1" "contents h' = set [1, 2, 3] - {1}"
    using priority_heap_delete_correct [OF ok x run] by simp_all
  moreover have "set [1, 2, 3] - {1 :: ptr} = {2, 3}" by auto
  ultimately show ?thesis using run unfolding p by (metis fst_conv snd_conv)
qed

text \<open>C34: A scheduler that keeps taking the head of a well-formed priority heap gets every queued
  thread exactly in order of decreasing time remaining, as signed numbers.\<close>

theorem priority_heap_drain_sorted:
  assumes "pri_ok m h"
  shows "set (drain priority_heap_delete (hp_size h) m h) = contents h \<and>
    sorted_wrt (\<lambda>a b. sint (remaining m b) \<le> sint (remaining m a))
       (drain priority_heap_delete (hp_size h) m h)"
  using pri_queue.drain_sorted [OF assms] by (simp add: pri_gt_def not_less)

theorem priority_heap_drain_sorted_witness:
  "set (drain priority_heap_delete 3 pri_demo (heap_of [1, 2, 3])) = {1, 2, 3}"
proof -
  have ok: "pri_ok pri_demo (heap_of [1, 2, 3])" by code_simp
  show ?thesis using priority_heap_drain_sorted [OF ok] by (simp add: eval_nat_numeral)
qed

text \<open>Changing the key of a queued thread moves it to its place, provided the old and the new
  time remaining have the same sign.\<close>

theorem priority_heap_set_key_correct:
  assumes "pri_ok m h" "x \<in> contents h" "(sint (remaining m x) < 0) = (sint val < 0)"
    and "priority_heap_set_key m h (priority_heap_pos m x) val = (m', h')"
  shows "pri_ok m' h' \<and> contents h' = contents h \<and>
    m' = m\<lparr>remaining := (remaining m)(x := val), priority_heap_pos := priority_heap_pos m'\<rparr>"
  using priority_heap_set_key_result [OF assms] pri_resultD [OF priority_heap_set_key_result [OF assms]]
  by (simp add: pri_result_def)

theorem priority_heap_set_key_correct_witness:
  "pri_ok (fst (priority_heap_set_key pri_demo (heap_of [1, 2, 3]) 2 20))
     (snd (priority_heap_set_key pri_demo (heap_of [1, 2, 3]) 2 20))"
proof -
  have ok: "pri_ok pri_demo (heap_of [1, 2, 3])" by code_simp
  have x: "(2 :: ptr) \<in> contents (heap_of [1, 2, 3])" by simp
  have p: "priority_heap_pos pri_demo 2 = 2" by code_simp
  have s: "(sint (remaining pri_demo 2) < 0) = (sint (20 :: u32) < 0)" by code_simp
  from priority_heap_set_key_correct [OF ok x s prod.collapse [symmetric]] show ?thesis
    by (simp add: p)
qed

text \<open>The proviso is needed.  The direction test compares the old key as an unsigned number,
  so raising the thread at position 2 from -1 to 20, above the 9 of the head, leaves it where it
  is, and the heap no longer has its longest-running thread at the head.\<close>

theorem priority_heap_set_key_sign_defect:
  "\<exists>m h m' h'. pri_ok m h \<and> priority_heap_set_key m h 2 20 = (m', h') \<and> sint (remaining m 2) = -1 \<and>
     remaining m' 2 = 20 \<and> remaining m' (priority_heap_head h') = 9 \<and> \<not> pri_ok m' h'"
proof -
  let ?m = "pri_demo\<lparr>remaining := (remaining pri_demo)(2 := -1)\<rparr>" and ?h = "heap_of [1, 2, 3]"
  let ?r = "priority_heap_set_key ?m ?h 2 20"
  have "pri_ok ?m ?h" by code_simp
  moreover have "sint (remaining ?m 2) = -1" by code_simp
  moreover have "remaining (fst ?r) 2 = 20" by code_simp
  moreover have "remaining (fst ?r) (priority_heap_head (snd ?r)) = 9" by code_simp
  moreover have "\<not> pri_ok (fst ?r) (snd ?r)" by code_simp
  moreover have "?r = (fst ?r, snd ?r)" by simp
  ultimately show ?thesis by blast
qed

end
