(* ===== verification/Affinity_Heap.thy ===== *)
theory Affinity_Heap
  imports Heap_Queue
begin

text \<open>
  \<^verbatim>\<open>src/sched/affinity_heap.c\<close>: every thread of a scheduler by its cache affinity, a min-heap by
  the unsigned value of \<^verbatim>\<open>affinity\<close> with the position of a thread in its
  \<^verbatim>\<open>affinity_heap_pos\<close>.  The thread at the head is the cheapest to move to another CPU.
\<close>

definition aff_gt :: "thread_mem \<Rightarrow> ptr \<Rightarrow> ptr \<Rightarrow> bool" where
  "aff_gt m x y \<longleftrightarrow> affinity m x < affinity m y"

definition affinity_heap_init :: "(u32 \<Rightarrow> ptr) \<Rightarrow> allocator \<Rightarrow> (nat \<Rightarrow> ptr) \<Rightarrow> u32 \<Rightarrow> heap_t option" where
  "affinity_heap_init malloc kern_malloc garbage sz = do {
     _ \<leftarrow> deref (malloc 12);
     case kern_malloc (sz * 4) of (p, got) \<Rightarrow>
       Some \<lparr>hp_size = 0, hp_max = got, data_ptr = p, data_name = garbage\<rparr> }"

definition affinity_heap_grow :: "reallocator \<Rightarrow> heap_t \<Rightarrow> nat \<Rightarrow> heap_t" where
  "affinity_heap_grow kern_realloc heap sz = heap_grow kern_realloc heap sz"

definition affinity_heap_insert :: "thread_mem \<Rightarrow> heap_t \<Rightarrow> ptr \<Rightarrow> (thread_mem \<times> heap_t) option" where
  "affinity_heap_insert m heap inn =
     (if heap_room heap then
        (case heap_ins (aff_gt m) (affinity_heap_pos m) heap inn of (pos, heap') \<Rightarrow>
           Some (m\<lparr>affinity_heap_pos := pos\<rparr>, heap'))
      else None)"

definition affinity_heap_head :: "heap_t \<Rightarrow> ptr" where
  "affinity_heap_head heap = (if 0 \<noteq> hp_size heap then data_name heap 0 else NULL)"

definition affinity_heap_delete :: "thread_mem \<Rightarrow> heap_t \<Rightarrow> nat \<Rightarrow> ptr \<times> thread_mem \<times> heap_t" where
  "affinity_heap_delete m heap num =
     (case heap_del (aff_gt m) (affinity_heap_pos m) heap num of (out, pos, heap') \<Rightarrow>
        (out, m\<lparr>affinity_heap_pos := pos\<rparr>, heap'))"

definition affinity_heap_set_key :: "thread_mem \<Rightarrow> heap_t \<Rightarrow> nat \<Rightarrow> u32 \<Rightarrow> thread_mem \<times> heap_t" where
  "affinity_heap_set_key m heap index val =
     (if 0 = index \<or> index > hp_size heap \<or> affinity m (data_name heap (index - 1)) = val
      then (m, heap)
      else
        let tmp = data_name heap (index - 1);
            direction = affinity m tmp > val;
            m1 = m\<lparr>affinity := (affinity m)(tmp := val)\<rparr>;
            (pos, heap') = heap_rekey (aff_gt m1) direction (affinity_heap_pos m1) heap index
        in (m1\<lparr>affinity_heap_pos := pos\<rparr>, heap'))"

abbreviation aff_ok :: "thread_mem \<Rightarrow> heap_t \<Rightarrow> bool" where
  "aff_ok m h \<equiv> heap_ok (aff_gt m) (affinity_heap_pos m) h"

abbreviation aff_ok_except :: "thread_mem \<Rightarrow> heap_t \<Rightarrow> ptr \<Rightarrow> bool" where
  "aff_ok_except m h x \<equiv> heap_ok_except (aff_gt m) (affinity_heap_pos m) h x"

interpretation aff_order: heap_order "aff_gt m" for m
  by unfold_locales (auto simp: aff_gt_def)

lemma aff_gt_cong: "affinity m' = affinity m \<Longrightarrow> aff_gt m' = aff_gt m"
  by (simp add: aff_gt_def fun_eq_iff)

lemma aff_gt_pos_update [simp]: "aff_gt (m\<lparr>affinity_heap_pos := pos\<rparr>) = aff_gt m"
  by (rule aff_gt_cong) simp

text \<open>What an operation leaves: a heap with contents \<open>C\<close>, and only positions of its threads changed.\<close>

definition aff_result :: "thread_mem \<Rightarrow> heap_t \<Rightarrow> ptr set \<Rightarrow> thread_mem \<Rightarrow> heap_t \<Rightarrow> bool" where
  "aff_result m h C m' h' \<longleftrightarrow>
     m' = m\<lparr>affinity_heap_pos := affinity_heap_pos m'\<rparr> \<and>
     heap_result (aff_gt m) (affinity_heap_pos m) h C (affinity_heap_pos m') h'"

lemma aff_resultD:
  assumes "aff_result m h C m' h'"
  shows "aff_ok m' h'" "contents h' = C" "p \<notin> C \<Longrightarrow> affinity_heap_pos m' p = affinity_heap_pos m p"
    "data_ptr h' = data_ptr h" "hp_max h' = hp_max h" "aff_gt m' = aff_gt m"
proof -
  have m': "m' = m\<lparr>affinity_heap_pos := affinity_heap_pos m'\<rparr>"
    and r: "heap_result (aff_gt m) (affinity_heap_pos m) h C (affinity_heap_pos m') h'"
    using assms by (simp_all add: aff_result_def)
  show "aff_gt m' = aff_gt m" by (subst m') simp
  then show "aff_ok m' h'" "contents h' = C" "p \<notin> C \<Longrightarrow> affinity_heap_pos m' p = affinity_heap_pos m p"
    "data_ptr h' = data_ptr h" "hp_max h' = hp_max h"
    using r by (simp_all add: heap_result_def)
qed

lemma affinity_heap_insert_result:
  assumes "aff_ok m h" "x \<notin> contents h" "affinity_heap_insert m h x = Some (m', h')"
  shows "aff_result m h (insert x (contents h)) m' h'"
proof -
  obtain pos where "heap_ins (aff_gt m) (affinity_heap_pos m) h x = (pos, h')"
    "m' = m\<lparr>affinity_heap_pos := pos\<rparr>"
    using assms(3) by (auto simp: affinity_heap_insert_def split: prod.splits if_splits)
  then show ?thesis
    using aff_order.heap_ins_ok [OF assms(1,2)] by (simp add: aff_result_def)
qed

lemma affinity_heap_delete_result:
  assumes "aff_ok_except m h x" "x \<in> contents h"
    "affinity_heap_delete m h (affinity_heap_pos m x) = (y, m', h')"
  shows "y = x \<and> aff_result m h (contents h - {x}) m' h'"
proof -
  obtain pos where "heap_del (aff_gt m) (affinity_heap_pos m) h (affinity_heap_pos m x) = (y, pos, h')"
    "m' = m\<lparr>affinity_heap_pos := pos\<rparr>"
    using assms(3) by (auto simp: affinity_heap_delete_def split: prod.splits)
  then show ?thesis
    using aff_order.heap_del_ok [OF assms(1,2)] by (simp add: aff_result_def)
qed

lemma aff_ok_except_key:
  assumes "aff_ok m h" "x \<in> contents h"
  shows "aff_ok_except (m\<lparr>affinity := (affinity m)(x := v)\<rparr>) h x"
  using heap_ok_except_cong [OF aff_order.ok_imp_except [OF assms(1)] assms(2)]
  by (auto simp: aff_gt_def)

interpretation aff_queue: heap_queue aff_gt affinity_heap_pos affinity_heap_insert
  affinity_heap_delete affinity_heap_head
proof (rule heap_queue.intro)
  show "heap_order (aff_gt m)" for m by unfold_locales
  show "(\<exists>r. affinity_heap_insert m h x = Some r) \<longleftrightarrow> heap_room h" for m h x
    by (simp add: affinity_heap_insert_def case_prod_beta)
  show "aff_ok m' h' \<and> contents h' = insert x (contents h) \<and> aff_gt m' = aff_gt m"
    if "aff_ok m h" "x \<notin> contents h" "affinity_heap_insert m h x = Some (m', h')" for m h x m' h'
    using aff_resultD [OF affinity_heap_insert_result [OF that]] by simp
  show "y = x \<and> aff_ok m' h' \<and> contents h' = contents h - {x} \<and> aff_gt m' = aff_gt m"
    if "aff_ok m h" "x \<in> contents h" "affinity_heap_delete m h (affinity_heap_pos m x) = (y, m', h')"
    for m h x y m' h'
    using affinity_heap_delete_result [OF aff_order.ok_imp_except [OF that(1)] that(2,3)]
      aff_resultD [of m h "contents h - {x}" m' h'] by simp
  show "affinity_heap_head h = (if hp_size h = 0 then NULL else data_name h 0)" for h
    by (simp add: affinity_heap_head_def)
qed

subsection \<open>Changing a key\<close>

text \<open>Both sides of the comparison are unsigned here, so \<^verbatim>\<open>affinity_heap_set_key\<close> keeps the heap for every key.\<close>

lemma affinity_heap_set_key_result:
  assumes ok: "aff_ok m h" and x: "x \<in> contents h"
    and run: "affinity_heap_set_key m h (affinity_heap_pos m x) val = (m', h')"
  shows "aff_result (m\<lparr>affinity := (affinity m)(x := val)\<rparr>) h (contents h) m' h'"
proof -
  let ?i = "affinity_heap_pos m x" and ?m = "m\<lparr>affinity := (affinity m)(x := val)\<rparr>"
  have i: "el (data_name h) ?i = x" "0 \<noteq> ?i" "\<not> hp_size h < ?i"
    using heap_ok_mem_iff [OF ok] x by auto
  show ?thesis
  proof (cases "affinity m x = val")
    case True
    then have "m' = m" "h' = h" "?m = m"
      using run i by (auto simp: affinity_heap_set_key_def)
    then show ?thesis using ok by (simp add: aff_result_def heap_result_def)
  next
    case False
    obtain pos where rk: "heap_rekey (aff_gt ?m) (affinity m x > val) (affinity_heap_pos m) h ?i = (pos, h')"
      and m': "m' = ?m\<lparr>affinity_heap_pos := pos\<rparr>"
      using run i False by (auto simp: affinity_heap_set_key_def Let_def split: prod.splits)
    have "heap_result (aff_gt ?m) (affinity_heap_pos m) h (contents h) pos h'"
    proof (rule aff_order.heap_rekey_ok [OF ok x _ _ _ _ rk])
      show "heap_ok_except (aff_gt ?m) (affinity_heap_pos m) h x"
        using aff_ok_except_key [OF ok x, of val] by simp
    qed (use False in \<open>auto simp: aff_gt_def\<close>)
    then show ?thesis using m' by (simp add: aff_result_def)
  qed
qed


subsection \<open>The contract of the affinity heap\<close>

definition aff_demo :: thread_mem where
  "aff_demo = thread_mem0\<lparr>affinity := (\<lambda>_. 0)(1 := 2, 2 := 5, 3 := 7, 4 := 1),
     affinity_heap_pos := (\<lambda>_. 0)(1 := 1, 2 := 2, 3 := 3)\<rparr>"

text \<open>Changing the affinity of a queued thread, to any value, moves it to its place in the
  affinity heap and changes no other field of any thread.\<close>

theorem affinity_heap_set_key_correct:
  assumes "aff_ok m h" "x \<in> contents h"
    and "affinity_heap_set_key m h (affinity_heap_pos m x) val = (m', h')"
  shows "aff_ok m' h' \<and> contents h' = contents h \<and>
    m' = m\<lparr>affinity := (affinity m)(x := val), affinity_heap_pos := affinity_heap_pos m'\<rparr>"
  using affinity_heap_set_key_result [OF assms] aff_resultD [OF affinity_heap_set_key_result [OF assms]]
  by (simp add: aff_result_def)

theorem affinity_heap_set_key_correct_witness:
  "aff_ok (fst (affinity_heap_set_key aff_demo (heap_of [1, 2, 3]) 2 1))
     (snd (affinity_heap_set_key aff_demo (heap_of [1, 2, 3]) 2 1))"
proof -
  have ok: "aff_ok aff_demo (heap_of [1, 2, 3])" by code_simp
  have x: "(2 :: ptr) \<in> contents (heap_of [1, 2, 3])" by simp
  have p: "affinity_heap_pos aff_demo 2 = 2" by code_simp
  from affinity_heap_set_key_correct [OF ok x prod.collapse [symmetric]] show ?thesis
    by (simp add: p)
qed

text \<open>A well-formed affinity heap hands out its threads in order of increasing affinity: the
  thread at the head is one that the caches favour least.\<close>

theorem affinity_heap_drain_sorted:
  assumes "aff_ok m h"
  shows "set (drain affinity_heap_delete (hp_size h) m h) = contents h \<and>
    sorted_wrt (\<lambda>a b. affinity m a \<le> affinity m b) (drain affinity_heap_delete (hp_size h) m h) \<and>
    (\<forall>x\<in>contents h. affinity m (affinity_heap_head h) \<le> affinity m x)"
  using aff_queue.drain_sorted [OF assms] aff_queue.head_best [OF assms]
  by (simp add: aff_gt_def not_less)

theorem affinity_heap_drain_sorted_witness:
  "set (drain affinity_heap_delete 3 aff_demo (heap_of [1, 2, 3])) = {1, 2, 3}"
proof -
  have ok: "aff_ok aff_demo (heap_of [1, 2, 3])" by code_simp
  show ?thesis using affinity_heap_drain_sorted [OF ok] by (simp add: eval_nat_numeral)
qed

end
