(* ===== verification/Kernel_State.thy ===== *)
theory Kernel_State
  imports Priority_Heap Affinity_Heap
begin

unbundle bit_operations_syntax

text \<open>
  The global state of the scheduler and of the synchronisation primitives: the thread control
  blocks, the scheduler of each CPU (\<^verbatim>\<open>scheduler_t\<close> of \<^verbatim>\<open>src/sched/scheduler.h\<close>, the array
  \<^verbatim>\<open>schedulers\<close> of \<^verbatim>\<open>src/sched/thread_sched.c\<close>), the \<^verbatim>\<open>cpus\<close> array, the mutexes and condition
  variables of \<^verbatim>\<open>include/sync.h\<close>, and the globals of \<^verbatim>\<open>thread_sched.c\<close> and \<^verbatim>\<open>exclusion.c\<close>.

  A \<^verbatim>\<open>scheduler_t*\<close> is the index of the CPU whose scheduler it is: the code only ever forms
  \<^verbatim>\<open>schedulers + i\<close>.  A spin lock is one bit; taking a lock whose bit is set gives \<open>None\<close>, since the
  CPU that runs the operation would spin on it forever, and releasing one clears the bit
  whether or not it was set, as the code's \<^verbatim>\<open>spin_unlock\<close> does.  The operations are sequential:
  a lock that another CPU holds for the length of one of its own operations is free in the
  states the operations start from.
\<close>

record scheduler_t =
  running_queue :: heap_t
  finished_queue :: heap_t
  running_count :: u32
  total_count :: u32
  affinity_queue :: heap_t
  affinity_count :: u32
  sched_cpu_id :: nat
  sched_mutex :: bool
  sched_flags :: u32
  current_remaining :: u32
  current_thread :: ptr
  sched_epoch :: u32

record mutex_mem =
  mx_mutex :: "ptr \<Rightarrow> bool"
  mx_num_mutex :: "ptr \<Rightarrow> bool"
  mx_data_mutex :: "ptr \<Rightarrow> bool"
  mx_num_spin :: "ptr \<Rightarrow> u32"
  mx_pri_count :: "ptr \<Rightarrow> u32"
  mx_queue :: "ptr \<Rightarrow> ptr"
  mx_holder :: "ptr \<Rightarrow> ptr"

record cond_mem =
  cd_mutex :: "ptr \<Rightarrow> bool"
  cd_num_mutex :: "ptr \<Rightarrow> bool"
  cd_queue_mutex :: "ptr \<Rightarrow> bool"
  cd_type_mutex :: "ptr \<Rightarrow> bool"
  cd_num_spin :: "ptr \<Rightarrow> u32"
  cd_broadcast :: "ptr \<Rightarrow> u32"
  cd_queue :: "ptr \<Rightarrow> ptr"

record kstate =
  threads :: thread_mem
  schedulers :: "nat \<Rightarrow> scheduler_t"
  cpu_num :: nat
  page_faults :: "nat \<Rightarrow> u32"
  cpu_space :: "nat \<Rightarrow> ptr"
  this_cpu :: nat
  global_epoch :: u32
  global_epoch_mutex :: bool
  exclusion :: int
  exclusion_mutex :: bool
  timer_off :: nat
  mutexes :: mutex_mem
  conds :: cond_mem

subsection \<open>Reading and writing parts of the state\<close>

abbreviation sched :: "kstate \<Rightarrow> nat \<Rightarrow> scheduler_t" where
  "sched s c \<equiv> schedulers s c"

definition upd_sched :: "nat \<Rightarrow> (scheduler_t \<Rightarrow> scheduler_t) \<Rightarrow> kstate \<Rightarrow> kstate" where
  "upd_sched c f s = s\<lparr>schedulers := (schedulers s)(c := f (schedulers s c))\<rparr>"

definition upd_threads :: "(thread_mem \<Rightarrow> thread_mem) \<Rightarrow> kstate \<Rightarrow> kstate" where
  "upd_threads f s = s\<lparr>threads := f (threads s)\<rparr>"

text \<open>An operation of a heap, on one of the queues of the scheduler of CPU \<open>c\<close>.\<close>

definition on_running :: "nat \<Rightarrow> (thread_mem \<Rightarrow> heap_t \<Rightarrow> thread_mem \<times> heap_t) \<Rightarrow> kstate \<Rightarrow> kstate" where
  "on_running c f s = (case f (threads s) (running_queue (sched s c)) of (m, h) \<Rightarrow>
     upd_sched c (\<lambda>sc. sc\<lparr>running_queue := h\<rparr>) (s\<lparr>threads := m\<rparr>))"

definition on_finished :: "nat \<Rightarrow> (thread_mem \<Rightarrow> heap_t \<Rightarrow> thread_mem \<times> heap_t) \<Rightarrow> kstate \<Rightarrow> kstate" where
  "on_finished c f s = (case f (threads s) (finished_queue (sched s c)) of (m, h) \<Rightarrow>
     upd_sched c (\<lambda>sc. sc\<lparr>finished_queue := h\<rparr>) (s\<lparr>threads := m\<rparr>))"

definition on_affinity :: "nat \<Rightarrow> (thread_mem \<Rightarrow> heap_t \<Rightarrow> thread_mem \<times> heap_t) \<Rightarrow> kstate \<Rightarrow> kstate" where
  "on_affinity c f s = (case f (threads s) (affinity_queue (sched s c)) of (m, h) \<Rightarrow>
     upd_sched c (\<lambda>sc. sc\<lparr>affinity_queue := h\<rparr>) (s\<lparr>threads := m\<rparr>))"

text \<open>The value a delete returns is ignored by every caller in the scheduler.\<close>

definition pri_delete :: "nat \<Rightarrow> thread_mem \<Rightarrow> heap_t \<Rightarrow> thread_mem \<times> heap_t" where
  "pri_delete num m h = snd (priority_heap_delete m h num)"

definition aff_delete :: "nat \<Rightarrow> thread_mem \<Rightarrow> heap_t \<Rightarrow> thread_mem \<times> heap_t" where
  "aff_delete num m h = snd (affinity_heap_delete m h num)"

text \<open>An insert needs an array with room: there is none after a failed reallocation, which leaves \<open>NULL\<close>.\<close>

definition running_insert :: "nat \<Rightarrow> ptr \<Rightarrow> kstate \<Rightarrow> kstate option" where
  "running_insert c t s = do {
     (m, h) \<leftarrow> priority_heap_insert (threads s) (running_queue (sched s c)) t;
     Some (on_running c (\<lambda>_ _. (m, h)) s) }"

definition finished_insert :: "nat \<Rightarrow> ptr \<Rightarrow> kstate \<Rightarrow> kstate option" where
  "finished_insert c t s = do {
     (m, h) \<leftarrow> priority_heap_insert (threads s) (finished_queue (sched s c)) t;
     Some (on_finished c (\<lambda>_ _. (m, h)) s) }"

definition affinity_insert :: "nat \<Rightarrow> ptr \<Rightarrow> kstate \<Rightarrow> kstate option" where
  "affinity_insert c t s = do {
     (m, h) \<leftarrow> affinity_heap_insert (threads s) (affinity_queue (sched s c)) t;
     Some (on_affinity c (\<lambda>_ _. (m, h)) s) }"

subsection \<open>Spin locks and the timer\<close>

definition lock_sched :: "nat \<Rightarrow> kstate \<Rightarrow> kstate option" where
  "lock_sched c s =
     (if sched_mutex (sched s c) then None else Some (upd_sched c (\<lambda>sc. sc\<lparr>sched_mutex := True\<rparr>) s))"

definition unlock_sched :: "nat \<Rightarrow> kstate \<Rightarrow> kstate" where
  "unlock_sched c s = upd_sched c (\<lambda>sc. sc\<lparr>sched_mutex := False\<rparr>) s"

definition lock_thread :: "ptr \<Rightarrow> kstate \<Rightarrow> kstate option" where
  "lock_thread t s = (if sync_mutex (threads s) t then None
     else Some (upd_threads (\<lambda>m. m\<lparr>sync_mutex := (sync_mutex m)(t := True)\<rparr>) s))"

definition unlock_thread :: "ptr \<Rightarrow> kstate \<Rightarrow> kstate" where
  "unlock_thread t s = upd_threads (\<lambda>m. m\<lparr>sync_mutex := (sync_mutex m)(t := False)\<rparr>) s"

text \<open>\<^verbatim>\<open>timer_disable\<close> and \<^verbatim>\<open>timer_restore\<close> nest; the model counts them.\<close>

definition timer_disable :: "kstate \<Rightarrow> kstate" where
  "timer_disable s = s\<lparr>timer_off := timer_off s + 1\<rparr>"

definition timer_restore :: "kstate \<Rightarrow> kstate" where
  "timer_restore s = s\<lparr>timer_off := timer_off s - 1\<rparr>"

definition RUNNABLE_STATE :: "u32 \<Rightarrow> bool" where
  "RUNNABLE_STATE x \<longleftrightarrow> 0 = x AND (NOT 7)"

lemma runnable_states:
  "RUNNABLE_STATE SCHED_RUNNABLE" "RUNNABLE_STATE SCHED_NO_RESCHED" "RUNNABLE_STATE SCHED_EXCLUSIVE"
  "RUNNABLE_STATE SCHED_ATOMIC" "\<not> RUNNABLE_STATE SCHED_STOPPED" "\<not> RUNNABLE_STATE SCHED_INT_SLEEP"
  "\<not> RUNNABLE_STATE SCHED_UNINT_SLEEP" "\<not> RUNNABLE_STATE SCHED_DEAD"
  by code_simp+

subsection \<open>Frames\<close>

lemma upd_sched_simps [simp]:
  "schedulers (upd_sched c f s) = (schedulers s)(c := f (schedulers s c))"
  "threads (upd_sched c f s) = threads s" "cpu_num (upd_sched c f s) = cpu_num s"
  "page_faults (upd_sched c f s) = page_faults s" "this_cpu (upd_sched c f s) = this_cpu s"
  "global_epoch (upd_sched c f s) = global_epoch s" "exclusion (upd_sched c f s) = exclusion s"
  "global_epoch_mutex (upd_sched c f s) = global_epoch_mutex s"
  "exclusion_mutex (upd_sched c f s) = exclusion_mutex s"
  "timer_off (upd_sched c f s) = timer_off s" "mutexes (upd_sched c f s) = mutexes s"
  "conds (upd_sched c f s) = conds s" "cpu_space (upd_sched c f s) = cpu_space s"
  by (simp_all add: upd_sched_def)

lemma upd_threads_simps [simp]:
  "schedulers (upd_threads g s) = schedulers s" "threads (upd_threads g s) = g (threads s)"
  "cpu_num (upd_threads g s) = cpu_num s" "page_faults (upd_threads g s) = page_faults s"
  "this_cpu (upd_threads g s) = this_cpu s" "global_epoch (upd_threads g s) = global_epoch s"
  "exclusion (upd_threads g s) = exclusion s"
  "global_epoch_mutex (upd_threads g s) = global_epoch_mutex s"
  "exclusion_mutex (upd_threads g s) = exclusion_mutex s"
  "timer_off (upd_threads g s) = timer_off s" "mutexes (upd_threads g s) = mutexes s"
  "conds (upd_threads g s) = conds s" "cpu_space (upd_threads g s) = cpu_space s"
  by (simp_all add: upd_threads_def)

lemma timer_simps [simp]:
  "schedulers (timer_disable s) = schedulers s" "threads (timer_disable s) = threads s"
  "schedulers (timer_restore s) = schedulers s" "threads (timer_restore s) = threads s"
  "timer_restore (timer_disable s) = s"
  by (simp_all add: timer_disable_def timer_restore_def)

lemma sched_mutex_same [simp]: "\<not> sched_mutex sc \<Longrightarrow> sc\<lparr>sched_mutex := False\<rparr> = sc"
  by (cases sc) simp

lemma unlock_lock_sched:
  "lock_sched c s = Some s' \<Longrightarrow> unlock_sched c s' = s"
  by (auto simp: lock_sched_def unlock_sched_def upd_sched_def fun_upd_idem split: if_splits)

end
