(* ===== verification/Exclusion.thy ===== *)
theory Exclusion
  imports Kernel_State
begin

text \<open>
  \<^verbatim>\<open>src/sched/exclusion.c\<close>: the CPU that runs alone, if any, in the global \<^verbatim>\<open>exclusion\<close> (-1 for
  none).  \<^verbatim>\<open>rendezvous_join\<close> waits for the other CPUs, which may write \<^verbatim>\<open>exclusion\<close> meanwhile: the
  operations take as arguments the functions \<open>join_first\<close> and \<open>join_second\<close> that give the state
  in which the join of \<^verbatim>\<open>first\<close> and of \<^verbatim>\<open>second\<close> returns, or \<open>None\<close> when it never does.  The theory
  \<open>Rendezvous\<close> models the join itself.
\<close>

type_synonym join = "kstate \<Rightarrow> kstate option"

definition clear_exclusion :: "join \<Rightarrow> kstate \<Rightarrow> kstate option" where
  "clear_exclusion join_first s =
     join_first (if -1 \<noteq> exclusion s then s\<lparr>exclusion := -1\<rparr> else s)"

definition set_exclusion :: "join \<Rightarrow> int \<Rightarrow> kstate \<Rightarrow> kstate option" where
  "set_exclusion join_second cpu s = do {
     s \<leftarrow> (if -1 \<noteq> cpu then
             if exclusion_mutex s then None
             else Some (s\<lparr>exclusion := if -1 = exclusion s then cpu else exclusion s\<rparr>)
           else Some s);
     join_second s }"

definition check_exclusion :: "int \<Rightarrow> kstate \<Rightarrow> bool" where
  "check_exclusion cpu s \<longleftrightarrow> cpu = exclusion s \<or> -1 = exclusion s"

definition check_exclusion_specific :: "int \<Rightarrow> kstate \<Rightarrow> bool" where
  "check_exclusion_specific cpu s \<longleftrightarrow> exclusion s = cpu"

text \<open>What the scheduler relies on: a join changes nothing but \<^verbatim>\<open>exclusion\<close> for the CPU that waits.\<close>

definition join_frame :: "join \<Rightarrow> bool" where
  "join_frame join \<longleftrightarrow> (\<forall>s s'. join s = Some s' \<longrightarrow> (\<exists>e. s' = s\<lparr>exclusion := e\<rparr>))"

lemma join_frameD: "join_frame join \<Longrightarrow> join s = Some s' \<Longrightarrow> \<exists>e. s' = s\<lparr>exclusion := e\<rparr>"
  by (auto simp: join_frame_def)

lemma clear_exclusion_frame:
  assumes "join_frame join" "clear_exclusion join s = Some s'"
  shows "\<exists>e. s' = s\<lparr>exclusion := e\<rparr>"
  using assms by (fastforce simp: clear_exclusion_def dest!: join_frameD split: if_splits)

lemma set_exclusion_frame:
  assumes "join_frame join" "set_exclusion join cpu s = Some s'"
  shows "\<exists>e. s' = s\<lparr>exclusion := e\<rparr>"
proof -
  obtain e where "join (s\<lparr>exclusion := e\<rparr>) = Some s'"
    using assms(2) that [of "exclusion s"] by (auto simp: set_exclusion_def split: if_splits)
  from join_frameD [OF assms(1) this] show ?thesis by auto
qed

end
