(* ===== verification/Scheduler.thy ===== *)
theory Scheduler
  imports Exclusion "HOL-Library.Signed_Division"
begin

text \<open>
  \<^verbatim>\<open>src/sched/scheduler.c\<close>, the scheduler of one CPU, with the functions of
  \<^verbatim>\<open>src/sched/thread_sched.c\<close> it calls back (\<^verbatim>\<open>update_epoch\<close>, \<^verbatim>\<open>highest_load\<close>, \<^verbatim>\<open>rebalance_load\<close>).

  A thread that can run is in the affinity queue of its CPU and in one of its two priority
  queues: the running queue while it has time left in this epoch, the finished queue after.
  When the running queue is empty the epoch ends and the queues change places.
\<close>

definition PRIORITY_BOOST :: u32 where "PRIORITY_BOOST = 5"
definition HOLDING_EXCLUSION :: u32 where "HOLDING_EXCLUSION = 1"
definition EXCLUDED :: u32 where "EXCLUDED = 2"
definition LOAD_DIFF_TOLERANCE :: int where "LOAD_DIFF_TOLERANCE = 0"

subsection \<open>Initialisation\<close>

definition sched_static_init :: "nat \<Rightarrow> scheduler_t \<Rightarrow> scheduler_t" where
  "sched_static_init i sc = sc\<lparr>sched_cpu_id := i, affinity_count := 0, sched_epoch := 0,
     current_thread := NULL, running_count := 0, total_count := 0\<rparr>"

text \<open>The three allocations answer in turn: the \<open>k\<close>-th calls return \<open>malloc k\<close> and \<open>kern_malloc k\<close>.\<close>

definition sched_dynamic_init :: "(nat \<Rightarrow> u32 \<Rightarrow> ptr) \<Rightarrow> (nat \<Rightarrow> allocator) \<Rightarrow> (nat \<Rightarrow> nat \<Rightarrow> ptr) \<Rightarrow>
    scheduler_t \<Rightarrow> scheduler_t option" where
  "sched_dynamic_init malloc kern_malloc garbage sc = do {
     rq \<leftarrow> priority_heap_init (malloc 0) (kern_malloc 0) (garbage 0) 20;
     fq \<leftarrow> priority_heap_init (malloc 1) (kern_malloc 1) (garbage 1) 20;
     aq \<leftarrow> affinity_heap_init (malloc 2) (kern_malloc 2) (garbage 2) 20;
     Some (sc\<lparr>running_queue := rq, finished_queue := fq, affinity_queue := aq\<rparr>) }"

subsection \<open>Page fault counters and epochs\<close>

definition cpu_page_faults :: "kstate \<Rightarrow> u32" where
  "cpu_page_faults s = page_faults s (this_cpu s)"

definition cpu_clear_page_faults :: "kstate \<Rightarrow> kstate" where
  "cpu_clear_page_faults s = s\<lparr>page_faults := (page_faults s)(this_cpu s := 0)\<rparr>"

definition check_for_epoch :: "scheduler_t \<Rightarrow> bool" where
  "check_for_epoch sc \<longleftrightarrow> 0 = hp_size (running_queue sc)"

definition update_epoch :: "u32 \<Rightarrow> kstate \<Rightarrow> (u32 \<times> kstate) option" where
  "update_epoch n s =
     (if global_epoch_mutex s then None
      else let g = (if n > global_epoch s then n else global_epoch s)
           in Some (g, s\<lparr>global_epoch := g\<rparr>))"

definition do_epoch :: "nat \<Rightarrow> kstate \<Rightarrow> kstate option" where
  "do_epoch c s = do {
     let s = upd_sched c (\<lambda>sc. sc\<lparr>finished_queue := running_queue sc, running_queue := finished_queue sc\<rparr>) s;
     (e, s) \<leftarrow> update_epoch (sched_epoch (sched s c) + 1) s;
     Some (upd_sched c (\<lambda>sc. sc\<lparr>sched_epoch := e, total_count := running_count sc, running_count := 0\<rparr>) s) }"

subsection \<open>Removing a thread from the queues\<close>

text \<open>
  A queued thread has a position from 1; at position 0 the test would read outside the
  array.
\<close>

definition in_running :: "nat \<Rightarrow> ptr \<Rightarrow> kstate \<Rightarrow> bool option" where
  "in_running c t s = (let pos = priority_heap_pos (threads s) t; rq = running_queue (sched s c) in
     if pos = 0 then None else Some (hp_size rq \<ge> pos \<and> data_name rq (pos - 1) = t))"

definition delete_from_queue :: "nat \<Rightarrow> ptr \<Rightarrow> kstate \<Rightarrow> kstate option" where
  "delete_from_queue c t s = do {
     b \<leftarrow> in_running c t s;
     let s = (if b then on_running c (pri_delete (priority_heap_pos (threads s) t)) s
              else on_finished c (pri_delete (priority_heap_pos (threads s) t)) s);
     Some (on_affinity c (aff_delete (affinity_heap_pos (threads s) t)) s) }"

subsection \<open>Moving threads between CPUs\<close>

definition get_lowest_affinity :: "nat \<Rightarrow> kstate \<Rightarrow> (ptr \<times> kstate) option" where
  "get_lowest_affinity c s =
     (let aq = affinity_queue (sched s c); out = affinity_heap_head aq in
      if NULL \<noteq> out then
        if current_thread (sched s c) = out then
          if 1 = hp_size aq then Some (NULL, s)
          else if 2 = hp_size aq then do {
            let out = data_name aq 1;
            s \<leftarrow> delete_from_queue c out s;
            Some (out, s) }
          else do {
            a \<leftarrow> deref (data_name aq 1);
            b \<leftarrow> deref (data_name aq 2);
            let out = (if affinity (threads s) a < affinity (threads s) b then a else b);
            s \<leftarrow> delete_from_queue c out s;
            Some (out, s) }
        else do { s \<leftarrow> delete_from_queue c out s; Some (out, s) }
      else Some (out, s))"

definition sched_eschew_thread :: "nat \<Rightarrow> kstate \<Rightarrow> (ptr \<times> kstate) option" where
  "sched_eschew_thread c s = do {
     (out, s) \<leftarrow> get_lowest_affinity c s;
     if NULL \<noteq> out then
       Some (out, upd_threads (\<lambda>m. m\<lparr>epoch := (epoch m)(out := sched_epoch (sched s c))\<rparr>)
         (upd_sched c (\<lambda>sc. sc\<lparr>total_count := total_count sc - remaining (threads s) out\<rparr>) s))
     else Some (out, s) }"

definition sched_reassign_thread :: "nat \<Rightarrow> ptr \<Rightarrow> kstate \<Rightarrow> kstate option" where
  "sched_reassign_thread c t s = do {
     let s = (if cpu_id (threads s) t \<noteq> sched_cpu_id (sched s c) then
                upd_threads (\<lambda>m. m\<lparr>cpu_id := (cpu_id m)(t := sched_cpu_id (sched s c)),
                  affinity := (affinity m)(t := 0)\<rparr>) s
              else s);
     s \<leftarrow> affinity_insert c t s;
     let s = upd_sched c (\<lambda>sc. sc\<lparr>total_count := total_count sc + remaining (threads s) t\<rparr>) s;
     s \<leftarrow> running_insert c t s;
     Some (upd_threads (\<lambda>m. m\<lparr>epoch := (epoch m)(t := sched_epoch (sched s c))\<rparr>) s) }"

fun highest_loop :: "nat list \<Rightarrow> nat \<Rightarrow> u32 \<Rightarrow> kstate \<Rightarrow> (nat \<times> kstate) option" where
  "highest_loop [] mx cnt s = Some (mx, s)"
| "highest_loop (i # is) mx cnt s = do {
     s \<leftarrow> lock_sched i s;
     let tc = total_count (sched s i);
     highest_loop is (if sint cnt < sint tc then i else mx) (if sint cnt < sint tc then tc else cnt)
       (unlock_sched i s) }"

definition highest_load :: "kstate \<Rightarrow> (nat \<times> kstate) option" where
  "highest_load s = do {
     s \<leftarrow> lock_sched 0 s;
     let cnt = total_count (sched s 0);
     highest_loop [1..<cpu_num s] 0 cnt (unlock_sched 0 s) }"

text \<open>Entered and left with the lock of \<^verbatim>\<open>sched\<close> held.\<close>

definition rebalance_load :: "nat \<Rightarrow> kstate \<Rightarrow> kstate option" where
  "rebalance_load c s = do {
     let load = total_count (sched s c);
     (mx, s) \<leftarrow> highest_load (unlock_sched c s);
     if mx \<noteq> c \<and> sint (total_count (sched s mx) - load) > LOAD_DIFF_TOLERANCE then do {
       s \<leftarrow> lock_sched mx s;
       (t, s) \<leftarrow> sched_eschew_thread mx s;
       let s = unlock_sched mx s;
       if NULL \<noteq> t then do { s \<leftarrow> lock_sched c s; sched_reassign_thread c t s }
       else lock_sched c s }
     else lock_sched c s }"

subsection \<open>The current thread\<close>

definition keep_current_thread :: "nat \<Rightarrow> kstate \<Rightarrow> kstate option" where
  "keep_current_thread c s = do {
     head \<leftarrow> deref (priority_heap_head (running_queue (sched s c)));
     let cur = current_thread (sched s c);
     if sint (current_remaining (sched s c) + PRIORITY_BOOST) < sint (remaining (threads s) head) \<and> head \<noteq> cur then do {
       let s = on_affinity c (\<lambda>m h. affinity_heap_set_key m h (affinity_heap_pos m cur) (cpu_page_faults s)) s;
       let s = on_running c (\<lambda>m h. priority_heap_set_key m h (priority_heap_pos m cur) (current_remaining (sched s c))) s;
       new \<leftarrow> deref (priority_heap_head (running_queue (sched s c)));
       Some (upd_sched c (\<lambda>sc. sc\<lparr>current_thread := new, current_remaining := remaining (threads s) new\<rparr>) s) }
     else Some s }"

definition retire_current_thread :: "nat \<Rightarrow> kstate \<Rightarrow> kstate option" where
  "retire_current_thread c s = do {
     let cur = current_thread (sched s c);
     let s = upd_threads (\<lambda>m. m\<lparr>epoch := (epoch m)(cur := sched_epoch (sched s c) + 1),
               remaining := (remaining m)(cur := (remaining m cur + soft_priority m cur) div 2)\<rparr>) s;
     let s = upd_sched c (\<lambda>sc. sc\<lparr>running_count := running_count sc + remaining (threads s) cur\<rparr>) s;
     let s = on_affinity c (\<lambda>m h. affinity_heap_set_key m h (affinity_heap_pos m cur) (affinity_count (sched s c))) s;
     let s = on_running c (pri_delete (priority_heap_pos (threads s) cur)) s;
     finished_insert c cur s }"

definition remove_current :: "nat \<Rightarrow> kstate \<Rightarrow> kstate option" where
  "remove_current c s = do {
     cur \<leftarrow> deref (current_thread (sched s c));
     let s = upd_sched c (\<lambda>sc. sc\<lparr>total_count := total_count sc - remaining (threads s) cur\<rparr>) s;
     let s = upd_threads (\<lambda>m. m\<lparr>epoch := (epoch m)(cur := sched_epoch (sched s c)),
               remaining := (remaining m)(cur := current_remaining (sched s c))\<rparr>) s;
     let s = upd_sched c (\<lambda>sc. sc\<lparr>affinity_count := affinity_count sc + cpu_page_faults s\<rparr>) s;
     let s = cpu_clear_page_faults s;
     let s = on_affinity c (aff_delete (affinity_heap_pos (threads s) cur)) s;
     let s = on_running c (pri_delete (priority_heap_pos (threads s) cur)) s;
     s \<leftarrow> rebalance_load (sched_cpu_id (sched s c)) s;
     Some (upd_sched c (\<lambda>sc. sc\<lparr>current_thread := priority_heap_head (running_queue sc)\<rparr>) s) }"

definition check_current_thread :: "nat \<Rightarrow> kstate \<Rightarrow> kstate option" where
  "check_current_thread c s = (let cur = current_thread (sched s c) in
     if NULL \<noteq> cur \<and> (SCHED_ATOMIC = status (threads s) cur \<or> SCHED_NO_RESCHED = status (threads s) cur)
     then Some s
     else if NULL = cur \<or> 0 \<ge> sint (current_remaining (sched s c)) then do {
       s \<leftarrow> (if NULL \<noteq> cur then retire_current_thread c s else Some s);
       s \<leftarrow> (if check_for_epoch (sched s c) then do_epoch c s else Some s);
       new \<leftarrow> deref (priority_heap_head (running_queue (sched s c)));
       Some (upd_sched c (\<lambda>sc. sc\<lparr>current_thread := new, current_remaining := remaining (threads s) new\<rparr>) s) }
     else keep_current_thread c s)"

definition test_runnable :: "nat \<Rightarrow> kstate \<Rightarrow> kstate option" where
  "test_runnable c s =
     (if current_thread (sched s c) \<noteq> NULL \<and> \<not> RUNNABLE_STATE (status (threads s) (current_thread (sched s c)))
      then do {
        s \<leftarrow> remove_current c s;
        Some (upd_sched c (\<lambda>sc. sc\<lparr>current_thread := NULL\<rparr>) s) }
      else Some s)"

definition do_exclusion :: "join \<Rightarrow> join \<Rightarrow> nat \<Rightarrow> kstate \<Rightarrow> (bool \<times> kstate) option" where
  "do_exclusion join_first join_second c s = do {
     cur \<leftarrow> deref (current_thread (sched s c));
     let st = status (threads s) cur;
     let held = (sched_flags (sched s c) AND HOLDING_EXCLUSION \<noteq> 0);
     if SCHED_ATOMIC \<noteq> st \<or> held then do {
       s \<leftarrow> (if SCHED_ATOMIC \<noteq> st \<and> held then clear_exclusion join_first s else Some s);
       s \<leftarrow> (if \<not> held then
               if SCHED_EXCLUSIVE \<noteq> st \<and> SCHED_ATOMIC \<noteq> st then set_exclusion join_second (-1) s
               else set_exclusion join_second (int (sched_cpu_id (sched s c))) s
             else Some s);
       if check_exclusion (int (sched_cpu_id (sched s c))) s then
         Some (True,
           if SCHED_EXCLUSIVE = st \<or> SCHED_ATOMIC = st
           then upd_sched c (\<lambda>sc. sc\<lparr>sched_flags := sched_flags sc OR HOLDING_EXCLUSION\<rparr>) s else s)
       else Some (False, upd_sched c (\<lambda>sc. sc\<lparr>sched_flags := sched_flags sc OR EXCLUDED\<rparr>) s) }
     else Some (True, s) }"

subsection \<open>Entry points\<close>

definition sched_resched :: "join \<Rightarrow> join \<Rightarrow> nat \<Rightarrow> kstate \<Rightarrow> (ptr \<times> kstate) option" where
  "sched_resched join_first join_second c s = do {
     let s = upd_sched c (\<lambda>sc. sc\<lparr>affinity_count := affinity_count sc + cpu_page_faults s\<rparr>) s;
     let s = cpu_clear_page_faults s;
     s \<leftarrow> test_runnable c s;
     if NULL = priority_heap_head (running_queue (sched s c)) \<and>
        NULL = priority_heap_head (finished_queue (sched s c))
     then Some (current_thread (sched s c), s)
     else do {
       let s = (if NULL \<noteq> current_thread (sched s c)
                then upd_sched c (\<lambda>sc. sc\<lparr>current_remaining := current_remaining sc - 1\<rparr>) s else s);
       s \<leftarrow> check_current_thread c s;
       let s = (if NULL = current_thread (sched s c)
                then upd_sched c (\<lambda>sc. sc\<lparr>total_count := 0, running_count := 0\<rparr>) s else s);
       (ok, s) \<leftarrow> do_exclusion join_first join_second c s;
       if ok then Some (current_thread (sched s c), s)
       else do {
         let cur = current_thread (sched s c);
         let s = upd_threads (\<lambda>m. m\<lparr>remaining := (remaining m)(cur := current_remaining (sched s c))\<rparr>) s;
         Some (NULL, upd_sched c (\<lambda>sc. sc\<lparr>current_thread := NULL\<rparr>) s) } } }"

definition sched_remove_resched :: "nat \<Rightarrow> kstate \<Rightarrow> (ptr \<times> kstate) option" where
  "sched_remove_resched c s = do {
     s \<leftarrow> remove_current c s;
     s \<leftarrow> (if NULL = current_thread (sched s c) then
             if NULL = priority_heap_head (finished_queue (sched s c))
             then Some (upd_sched c (\<lambda>sc. sc\<lparr>current_thread := NULL\<rparr>) s)
             else do {
               s \<leftarrow> do_epoch c s;
               Some (upd_sched c (\<lambda>sc. sc\<lparr>current_thread := priority_heap_head (running_queue sc)\<rparr>) s) }
           else Some s);
     let s = (if NULL \<noteq> current_thread (sched s c)
              then upd_sched c (\<lambda>sc. sc\<lparr>current_remaining := remaining (threads s) (current_thread sc)\<rparr>) s
              else upd_sched c (\<lambda>sc. sc\<lparr>total_count := 0, running_count := 0\<rparr>) s);
     if check_exclusion_specific (int (sched_cpu_id (sched s c))) s
     then Some (current_thread (sched s c), s)
     else do {
       cur \<leftarrow> deref (current_thread (sched s c));
       let s = upd_threads (\<lambda>m. m\<lparr>remaining := (remaining m)(cur := current_remaining (sched s c))\<rparr>) s;
       Some (NULL, upd_sched c (\<lambda>sc. sc\<lparr>current_thread := NULL\<rparr>) s) } }"

text \<open>
  The time a sleeper gets back: half of what it lacks to its priority for one epoch, three
  quarters for two, and so on.  \<^verbatim>\<open>2 << pow\<close> is an \<^verbatim>\<open>int\<close> and the division truncates.
\<close>

definition restart_increase :: "u32 \<Rightarrow> u32 \<Rightarrow> u32 \<Rightarrow> u32 \<Rightarrow> u32" where
  "restart_increase sepoch tepoch soft rem =
     (let pow = sepoch - tepoch;
          pow = (if pow > 30 then 30 else pow);
          diff = soft - rem;
          diff = (if sint diff < 0 then 0 else diff)
      in diff - word_of_int (sint diff sdiv sint (push_bit (unat pow) (2 :: u32))))"

definition grow_queues :: "reallocator \<Rightarrow> nat \<Rightarrow> nat \<Rightarrow> kstate \<Rightarrow> kstate" where
  "grow_queues kern_realloc c n s =
     upd_sched c (\<lambda>sc. sc\<lparr>finished_queue := priority_heap_grow kern_realloc (finished_queue sc) n\<rparr>)
       (upd_sched c (\<lambda>sc. sc\<lparr>running_queue := priority_heap_grow kern_realloc (running_queue sc) n\<rparr>) s)"

definition sched_restart_thread :: "reallocator \<Rightarrow> nat \<Rightarrow> ptr \<Rightarrow> kstate \<Rightarrow> kstate option" where
  "sched_restart_thread kern_realloc c t s = do {
     let s = (if sched_epoch (sched s c) > epoch (threads s) t then
                upd_threads (\<lambda>m. m\<lparr>remaining := (remaining m)(t := remaining m t +
                  restart_increase (sched_epoch (sched s c)) (epoch m t) (soft_priority m t) (remaining m t))\<rparr>) s
              else s);
     let queue_size = hp_size (affinity_queue (sched s c)) + 1;
     let s = upd_threads (\<lambda>m. m\<lparr>cpu_id := (cpu_id m)(t := sched_cpu_id (sched s c)),
               affinity := (affinity m)(t := 0)\<rparr>) s;
     let s = upd_sched c (\<lambda>sc. sc\<lparr>affinity_queue := affinity_heap_grow kern_realloc (affinity_queue sc) queue_size\<rparr>) s;
     s \<leftarrow> affinity_insert c t s;
     let s = upd_sched c (\<lambda>sc. sc\<lparr>total_count := total_count sc + soft_priority (threads s) t\<rparr>) s;
     s \<leftarrow> running_insert c t (grow_queues kern_realloc c queue_size s);
     Some (upd_threads (\<lambda>m. m\<lparr>epoch := (epoch m)(t := sched_epoch (sched s c))\<rparr>) s) }"

definition sched_insert_thread :: "reallocator \<Rightarrow> nat \<Rightarrow> ptr \<Rightarrow> kstate \<Rightarrow> kstate option" where
  "sched_insert_thread kern_realloc c t s = do {
     let s = upd_sched c (\<lambda>sc. sc\<lparr>total_count := total_count sc + soft_priority (threads s) t\<rparr>) s;
     let s = upd_threads (\<lambda>m. m\<lparr>remaining := (remaining m)(t := soft_priority m t div 2)\<rparr>) s;
     let queue_size = hp_size (affinity_queue (sched s c)) + 1;
     let s = upd_threads (\<lambda>m. m\<lparr>cpu_id := (cpu_id m)(t := sched_cpu_id (sched s c)),
               affinity := (affinity m)(t := 0), epoch := (epoch m)(t := sched_epoch (sched s c))\<rparr>) s;
     let s = upd_sched c (\<lambda>sc. sc\<lparr>affinity_queue := affinity_heap_grow kern_realloc (affinity_queue sc) queue_size\<rparr>) s;
     s \<leftarrow> affinity_insert c t s;
     let s = upd_threads (\<lambda>m. m\<lparr>epoch := (epoch m)(t := sched_epoch (sched s c))\<rparr>) s;
     running_insert c t (grow_queues kern_realloc c queue_size s) }"

definition sched_remove_thread :: "nat \<Rightarrow> ptr \<Rightarrow> kstate \<Rightarrow> kstate option" where
  "sched_remove_thread c t s = do {
     let s = upd_sched c (\<lambda>sc. sc\<lparr>total_count := total_count sc - remaining (threads s) t\<rparr>) s;
     let s = upd_threads (\<lambda>m. m\<lparr>epoch := (epoch m)(t := sched_epoch (sched s c))\<rparr>) s;
     if sched_cpu_id (sched s c) \<noteq> cpu_id (threads s) t then Some s
     else if current_thread (sched s c) = t then do { (_, s) \<leftarrow> sched_remove_resched c s; Some s }
     else do { s \<leftarrow> delete_from_queue c t s; rebalance_load (sched_cpu_id (sched s c)) s } }"

definition sched_change_remaining :: "nat \<Rightarrow> ptr \<Rightarrow> u32 \<Rightarrow> kstate \<Rightarrow> kstate option" where
  "sched_change_remaining c t val s =
     (if current_thread (sched s c) \<noteq> t then do {
        let s = upd_sched c (\<lambda>sc. sc\<lparr>total_count := total_count sc + (val - remaining (threads s) t)\<rparr>) s;
        b \<leftarrow> in_running c t s;
        let pos = priority_heap_pos (threads s) t;
        Some (if b then on_running c (\<lambda>m h. priority_heap_set_key m h pos val) s
              else on_finished c (\<lambda>m h. priority_heap_set_key m h pos val) s) }
      else Some (upd_sched c (\<lambda>sc. sc\<lparr>
        total_count := total_count sc + (current_remaining sc - remaining (threads s) t),
        current_remaining := val\<rparr>) s))"

definition sched_exchange_thread :: "reallocator \<Rightarrow> nat \<Rightarrow> ptr \<Rightarrow> kstate \<Rightarrow> (ptr \<times> kstate) option" where
  "sched_exchange_thread kern_realloc c t s =
     (let aq = affinity_queue (sched s c); out = affinity_heap_head aq in
      if cpu_id (threads s) t = sched_cpu_id (sched s c) \<or> NULL = out then Some (t, s)
      else do {
        out \<leftarrow> (if out \<noteq> current_thread (sched s c) then Some out
                else do {
                  a \<leftarrow> deref (data_name aq 1);
                  b \<leftarrow> deref (data_name aq 2);
                  Some (if affinity (threads s) a < affinity (threads s) b then a else b) });
        if affinity (threads s) out < affinity (threads s) t then do {
          s \<leftarrow> delete_from_queue c out s;
          s \<leftarrow> sched_restart_thread kern_realloc c t s;
          Some (out, s) }
        else Some (t, s) })"

end
