(* ===== verification/Sched_Queues.thy ===== *)
theory Sched_Queues
  imports Scheduler
begin

text \<open>
  The invariant of the queues of one scheduler and how the primitive steps of the scheduler
  code move threads between them.  \<open>queues\<close> names the threads in the running, the finished and
  the affinity queue; while an operation has overwritten the key of a running thread \<open>x\<close> in place
  the running queue is a heap everywhere but around \<open>x\<close>, which the argument \<open>Some x\<close> records.
\<close>

definition run_ok :: "thread_mem \<Rightarrow> heap_t \<Rightarrow> ptr option \<Rightarrow> bool" where
  "run_ok m h X \<longleftrightarrow> (case X of None \<Rightarrow> pri_ok m h | Some x \<Rightarrow> pri_ok_except m h x \<and> x \<in> contents h)"

definition queues :: "thread_mem \<Rightarrow> scheduler_t \<Rightarrow> ptr option \<Rightarrow> ptr set \<Rightarrow> ptr set \<Rightarrow> ptr set \<Rightarrow> bool" where
  "queues m sc X R F A \<longleftrightarrow> run_ok m (running_queue sc) X \<and> pri_ok m (finished_queue sc) \<and>
     aff_ok m (affinity_queue sc) \<and> contents (running_queue sc) = R \<and>
     contents (finished_queue sc) = F \<and> contents (affinity_queue sc) = A \<and> R \<inter> F = {}"

abbreviation cpu_queues :: "kstate \<Rightarrow> nat \<Rightarrow> ptr option \<Rightarrow> ptr set \<Rightarrow> ptr set \<Rightarrow> ptr set \<Rightarrow> bool" where
  "cpu_queues s c X R F A \<equiv> queues (threads s) (sched s c) X R F A"

text \<open>The fields of threads that the queues depend on, and those no scheduler step writes.\<close>

definition same_keys :: "ptr set \<Rightarrow> thread_mem \<Rightarrow> thread_mem \<Rightarrow> bool" where
  "same_keys T m m' \<longleftrightarrow> (\<forall>p\<in>T. remaining m' p = remaining m p \<and> affinity m' p = affinity m p \<and>
     priority_heap_pos m' p = priority_heap_pos m p \<and> affinity_heap_pos m' p = affinity_heap_pos m p \<and>
     cpu_id m' p = cpu_id m p)"

definition same_rest :: "thread_mem \<Rightarrow> thread_mem \<Rightarrow> bool" where
  "same_rest m m' \<longleftrightarrow> status m' = status m \<and> run_status m' = run_status m \<and>
     hard_priority m' = hard_priority m \<and> soft_priority m' = soft_priority m \<and>
     stat_flags m' = stat_flags m \<and> reentry m' = reentry m \<and> addr_spc m' = addr_spc m \<and>
     sync_mutex m' = sync_mutex m \<and> queue_next m' = queue_next m \<and> queue_last m' = queue_last m \<and>
     wait_type m' = wait_type m \<and> wait_obj m' = wait_obj m"

text \<open>A step that only reorders the queues: no key of any thread changes.\<close>

definition same_vals :: "thread_mem \<Rightarrow> thread_mem \<Rightarrow> bool" where
  "same_vals m m' \<longleftrightarrow> remaining m' = remaining m \<and> affinity m' = affinity m \<and> cpu_id m' = cpu_id m"

lemma same_vals_refl [simp]: "same_vals m m"
  by (simp add: same_vals_def)

lemma same_vals_trans: "same_vals m m' \<Longrightarrow> same_vals m' m'' \<Longrightarrow> same_vals m m''"
  by (simp add: same_vals_def)

lemma same_keys_refl [simp]: "same_keys T m m" "same_rest m m"
  by (simp_all add: same_keys_def same_rest_def)

lemma same_keys_trans: "same_keys T m m' \<Longrightarrow> same_keys T m' m'' \<Longrightarrow> same_keys T m m''"
  by (simp add: same_keys_def)

lemma same_rest_trans: "same_rest m m' \<Longrightarrow> same_rest m' m'' \<Longrightarrow> same_rest m m''"
  by (simp add: same_rest_def)

lemma same_keys_mono: "same_keys T m m' \<Longrightarrow> T' \<subseteq> T \<Longrightarrow> same_keys T' m m'"
  by (auto simp: same_keys_def)

lemma run_ok_cong:
  assumes "same_keys (contents h) m m'" "run_ok m h X"
  shows "run_ok m' h X"
proof (cases X)
  case None
  then show ?thesis
    using assms heap_ok_cong [of h "priority_heap_pos m" "priority_heap_pos m'" "pri_gt m" "pri_gt m'"]
    by (simp add: run_ok_def same_keys_def pri_gt_def)
next
  case (Some x)
  have x: "x \<in> contents h" and exc: "pri_ok_except m h x" using assms(2) Some by (auto simp: run_ok_def)
  have same: "p \<in> contents h \<Longrightarrow> priority_heap_pos m' p = priority_heap_pos m p" for p
    using assms(1) by (simp add: same_keys_def)
  have el: "j \<in> {1..hp_size h} \<Longrightarrow> el (data_name h) j \<in> contents h" for j
    by (auto simp: contents_def elems_def)
  have "pri_ok_except m' h x = heap_ok_except (pri_gt m') (priority_heap_pos m) h x"
    using same [OF x] same [OF el] by (auto simp: heap_ok_except_def positions_def)
  moreover have "heap_ok_except (pri_gt m') (priority_heap_pos m) h x"
    by (rule heap_ok_except_cong [OF exc x]) (use assms(1) in \<open>auto simp: same_keys_def pri_gt_def\<close>)
  ultimately show ?thesis using x Some by (simp add: run_ok_def)
qed

lemma queues_cong:
  assumes "queues m sc X R F A" "same_keys (R \<union> F \<union> A) m m'"
  shows "queues m' sc X R F A"
proof -
  have q: "contents (running_queue sc) = R" "contents (finished_queue sc) = F"
    "contents (affinity_queue sc) = A" using assms(1) by (auto simp: queues_def)
  have "run_ok m' (running_queue sc) X"
    using assms(1) by (intro run_ok_cong [OF same_keys_mono [OF assms(2)]]) (auto simp: queues_def)
  moreover have "run_ok m' (finished_queue sc) None"
    using assms(1) by (intro run_ok_cong [OF same_keys_mono [OF assms(2)]]) (auto simp: queues_def run_ok_def)
  moreover have "aff_ok m' (affinity_queue sc)"
    using assms(1,2) q(3)
      heap_ok_cong [of "affinity_queue sc" "affinity_heap_pos m" "affinity_heap_pos m'" "aff_gt m" "aff_gt m'"]
    by (simp add: same_keys_def aff_gt_def queues_def)
  ultimately show ?thesis using assms(1) by (simp add: queues_def run_ok_def)
qed

subsection \<open>The primitive steps\<close>

text \<open>What a step on the queues of CPU \<open>c\<close> may touch: that scheduler and the keys outside \<open>T\<close>.\<close>

definition step_frame :: "nat \<Rightarrow> ptr set \<Rightarrow> kstate \<Rightarrow> kstate \<Rightarrow> bool" where
  "step_frame c T s s' \<longleftrightarrow> (\<forall>d. d \<noteq> c \<longrightarrow> sched s' d = sched s d) \<and> same_keys T (threads s) (threads s') \<and>
     same_rest (threads s) (threads s') \<and> cpu_num s' = cpu_num s \<and> this_cpu s' = this_cpu s \<and>
     mutexes s' = mutexes s \<and> conds s' = conds s \<and> exclusion s' = exclusion s \<and>
     exclusion_mutex s' = exclusion_mutex s \<and> global_epoch_mutex s' = global_epoch_mutex s \<and>
     timer_off s' = timer_off s \<and> cpu_space s' = cpu_space s"

lemma step_frame_refl [simp]: "step_frame c T s s"
  by (simp add: step_frame_def)

lemma step_frame_trans: "step_frame c T s s' \<Longrightarrow> step_frame c T s' s'' \<Longrightarrow> step_frame c T s s''"
  unfolding step_frame_def by (metis same_keys_trans same_rest_trans)

lemma step_frame_mono: "step_frame c T s s' \<Longrightarrow> T' \<subseteq> T \<Longrightarrow> step_frame c T' s s'"
  unfolding step_frame_def using same_keys_mono by blast

lemma step_frame_upd_sched [simp]: "step_frame c T s (upd_sched c f s)"
  by (simp add: step_frame_def)

lemma step_frame_epoch [simp]:
  "step_frame c T s (upd_threads (\<lambda>m. m\<lparr>epoch := f m\<rparr>) s)"
  by (simp add: step_frame_def same_keys_def same_rest_def)

lemma step_frame_then:
  assumes "step_frame c T s s'"
  shows "step_frame c T s (upd_sched c f s')"
    "step_frame c T s (upd_threads (\<lambda>m. m\<lparr>epoch := g m\<rparr>) s')"
  by (rule step_frame_trans [OF assms], simp)+

lemma on_queue_simps [simp]:
  "sched (on_running c f s) c = (sched s c)\<lparr>running_queue := snd (f (threads s) (running_queue (sched s c)))\<rparr>"
  "threads (on_running c f s) = fst (f (threads s) (running_queue (sched s c)))"
  "sched (on_finished c f s) c = (sched s c)\<lparr>finished_queue := snd (f (threads s) (finished_queue (sched s c)))\<rparr>"
  "threads (on_finished c f s) = fst (f (threads s) (finished_queue (sched s c)))"
  "sched (on_affinity c f s) c = (sched s c)\<lparr>affinity_queue := snd (f (threads s) (affinity_queue (sched s c)))\<rparr>"
  "threads (on_affinity c f s) = fst (f (threads s) (affinity_queue (sched s c)))"
  by (simp_all add: on_running_def on_finished_def on_affinity_def upd_sched_def split: prod.splits)

lemma on_queue_frame:
  assumes "same_keys T (threads s) (threads s')" "same_rest (threads s) (threads s')"
    "s' = on_running c f s \<or> s' = on_finished c f s \<or> s' = on_affinity c f s"
  shows "step_frame c T s s'"
  using assms
  by (auto simp: step_frame_def on_running_def on_finished_def on_affinity_def split: prod.splits)

text \<open>A step that only moves threads between the queues of CPU \<open>c\<close>.\<close>

definition same_array :: "heap_t \<Rightarrow> heap_t \<Rightarrow> bool" where
  "same_array h h' \<longleftrightarrow> data_ptr h' = data_ptr h \<and> hp_max h' = hp_max h"

definition same_sched :: "scheduler_t \<Rightarrow> scheduler_t \<Rightarrow> bool" where
  "same_sched sc sc' \<longleftrightarrow> running_count sc' = running_count sc \<and> total_count sc' = total_count sc \<and>
     affinity_count sc' = affinity_count sc \<and> sched_cpu_id sc' = sched_cpu_id sc \<and>
     sched_mutex sc' = sched_mutex sc \<and> sched_flags sc' = sched_flags sc \<and>
     current_remaining sc' = current_remaining sc \<and> current_thread sc' = current_thread sc \<and>
     sched_epoch sc' = sched_epoch sc \<and> same_array (running_queue sc) (running_queue sc') \<and>
     same_array (finished_queue sc) (finished_queue sc') \<and> same_array (affinity_queue sc) (affinity_queue sc')"

lemma same_array_refl [simp]: "same_array h h"
  by (simp add: same_array_def)

definition qstep :: "nat \<Rightarrow> ptr set \<Rightarrow> kstate \<Rightarrow> kstate \<Rightarrow> bool" where
  "qstep c T s s' \<longleftrightarrow> step_frame c T s s' \<and> same_sched (sched s c) (sched s' c) \<and>
     page_faults s' = page_faults s \<and> global_epoch s' = global_epoch s"

lemma qstep_refl [simp]: "qstep c T s s"
  by (simp add: qstep_def same_sched_def)

lemma qstep_trans: "qstep c T s s' \<Longrightarrow> qstep c T s' s'' \<Longrightarrow> qstep c T s s''"
  unfolding qstep_def same_sched_def same_array_def by (metis step_frame_trans)

lemma qstep_mono: "qstep c T s s' \<Longrightarrow> T' \<subseteq> T \<Longrightarrow> qstep c T' s s'"
  unfolding qstep_def using step_frame_mono by blast

lemma on_running_qstep:
  assumes "f (threads s) (running_queue (sched s c)) = (m', h')" "same_array (running_queue (sched s c)) h'"
    "same_keys T (threads s) m'" "same_rest (threads s) m'"
  shows "qstep c T s (on_running c f s)"
  using assms on_queue_frame [of T s "on_running c f s" c f]
  by (simp add: qstep_def same_sched_def) (simp add: on_running_def)

lemma on_finished_qstep:
  assumes "f (threads s) (finished_queue (sched s c)) = (m', h')" "same_array (finished_queue (sched s c)) h'"
    "same_keys T (threads s) m'" "same_rest (threads s) m'"
  shows "qstep c T s (on_finished c f s)"
  using assms on_queue_frame [of T s "on_finished c f s" c f]
  by (simp add: qstep_def same_sched_def) (simp add: on_finished_def)

lemma on_affinity_qstep:
  assumes "f (threads s) (affinity_queue (sched s c)) = (m', h')" "same_array (affinity_queue (sched s c)) h'"
    "same_keys T (threads s) m'" "same_rest (threads s) m'"
  shows "qstep c T s (on_affinity c f s)"
  using assms on_queue_frame [of T s "on_affinity c f s" c f]
  by (simp add: qstep_def same_sched_def) (simp add: on_affinity_def)

lemma pri_result_same:
  assumes "pri_result m h C m' h'"
  shows "same_keys (- C) m m'" "same_rest m m'" "same_array h h'" "affinity_heap_pos m' = affinity_heap_pos m"
    "aff_gt m' = aff_gt m" "same_vals m m'"
proof -
  obtain pos where m': "m' = m\<lparr>priority_heap_pos := pos\<rparr>"
    using assms by (auto simp: pri_result_def)
  show "same_keys (- C) m m'" "same_rest m m'" "same_array h h'" "affinity_heap_pos m' = affinity_heap_pos m"
    "aff_gt m' = aff_gt m" "same_vals m m'"
    using pri_resultD [OF assms] by (auto simp: m' same_keys_def same_rest_def same_array_def same_vals_def aff_gt_def fun_eq_iff)
qed

lemma aff_result_same:
  assumes "aff_result m h C m' h'"
  shows "same_keys (- C) m m'" "same_rest m m'" "same_array h h'"
    "priority_heap_pos m' = priority_heap_pos m" "pri_gt m' = pri_gt m" "same_vals m m'"
proof -
  obtain pos where m': "m' = m\<lparr>affinity_heap_pos := pos\<rparr>"
    using assms by (auto simp: aff_result_def)
  show "same_keys (- C) m m'" "same_rest m m'" "same_array h h'"
    "priority_heap_pos m' = priority_heap_pos m" "pri_gt m' = pri_gt m" "same_vals m m'"
    using aff_resultD [OF assms] by (auto simp: m' same_keys_def same_rest_def same_array_def same_vals_def pri_gt_def fun_eq_iff)
qed

lemma run_ok_mem: "run_ok m h X \<Longrightarrow> x \<in> contents h \<Longrightarrow> 0 < priority_heap_pos m x"
  using heap_ok_mem_iff heap_ok_except_mem_iff by (fastforce simp: run_ok_def split: option.splits)

lemma queues_run_result:
  assumes "queues m sc X R F A" "pri_result m (running_queue sc) R' m' h'" "R' \<inter> F = {}"
  shows "queues m' (sc\<lparr>running_queue := h'\<rparr>) None R' F A"
proof -
  note same = pri_result_same [OF assms(2)]
  have "run_ok m' (finished_queue sc) None"
    by (rule run_ok_cong [OF same_keys_mono [OF same(1)]])
      (use assms(1,3) in \<open>auto simp: queues_def run_ok_def\<close>)
  then show ?thesis
    using assms(1,3) pri_resultD [OF assms(2)] same(4,5) by (auto simp: queues_def run_ok_def)
qed

lemma queues_fin_result:
  assumes "queues m sc X R F A" "pri_result m (finished_queue sc) F' m' h'" "R \<inter> F' = {}"
  shows "queues m' (sc\<lparr>finished_queue := h'\<rparr>) X R F' A"
proof -
  note same = pri_result_same [OF assms(2)]
  have "run_ok m' (running_queue sc) X"
    by (rule run_ok_cong [OF same_keys_mono [OF same(1)]]) (use assms(1,3) in \<open>auto simp: queues_def\<close>)
  then show ?thesis
    using assms(1,3) pri_resultD [OF assms(2)] same(4,5) by (auto simp: queues_def)
qed

lemma queues_aff_result:
  assumes "queues m sc X R F A" "aff_result m (affinity_queue sc) A' m' h'"
  shows "queues m' (sc\<lparr>affinity_queue := h'\<rparr>) X R F A'"
  using assms(1) aff_resultD [OF assms(2)] aff_result_same [OF assms(2)]
  by (auto simp: queues_def run_ok_def split: option.splits)

text \<open>Overwriting the key of a running thread, or any field of a thread in no queue.\<close>

lemma queues_write_key:
  assumes "queues m sc None R F A" "x \<in> R"
  shows "queues (m\<lparr>remaining := (remaining m)(x := v)\<rparr>) sc (Some x) R F A"
proof -
  let ?m = "m\<lparr>remaining := (remaining m)(x := v)\<rparr>"
  have x: "x \<in> contents (running_queue sc)" "pri_ok m (running_queue sc)" "x \<notin> contents (finished_queue sc)"
    using assms by (auto simp: queues_def run_ok_def)
  have "run_ok ?m (finished_queue sc) None"
    by (rule run_ok_cong [of _ m])
      (use assms(1) x(3) in \<open>auto simp: queues_def run_ok_def same_keys_def\<close>)
  moreover have "run_ok ?m (running_queue sc) (Some x)"
    using pri_ok_except_key [OF x(2,1), of v] x(1) by (simp add: run_ok_def)
  moreover have "aff_gt ?m = aff_gt m" by (simp add: aff_gt_def fun_eq_iff)
  ultimately show ?thesis using assms(1) by (auto simp: queues_def run_ok_def)
qed

subsection \<open>Steps of the kernel state\<close>

text \<open>The array of a queue is allocated and has at least \<open>n\<close> slots.\<close>

definition room :: "heap_t \<Rightarrow> nat \<Rightarrow> bool" where
  "room h n \<longleftrightarrow> data_ptr h \<noteq> NULL \<and> 0 < capacity h \<and> n \<le> capacity h"

lemma room_mono: "room h n \<Longrightarrow> k \<le> n \<Longrightarrow> room h k"
  by (simp add: room_def)

lemma room_same: "same_array h h' \<Longrightarrow> room h' n = room h n"
  by (simp add: same_array_def room_def capacity_def)

lemma room_one_more: "heap_ok gt pos h \<Longrightarrow> contents h = C \<Longrightarrow> room h (Suc (card C)) \<Longrightarrow> heap_room h"
  using card_contents [of gt pos h] by (simp add: room_def heap_room_def)

lemma running_insert_step:
  assumes "cpu_queues s c None R F A" "t \<notin> R \<union> F" "room (running_queue (sched s c)) (Suc (card R))"
  obtains s' where "running_insert c t s = Some s'" "cpu_queues s' c None (insert t R) F A"
    "qstep c (- insert t R) s s'" "same_vals (threads s) (threads s')"
proof -
  have "heap_room (running_queue (sched s c))" using assms(1,3) by (auto simp: queues_def run_ok_def intro: room_one_more)
  then obtain m' h' where i: "priority_heap_insert (threads s) (running_queue (sched s c)) t = Some (m', h')"
    using pri_queue.ins_room [of "threads s" "running_queue (sched s c)" t] by auto
  let ?s = "on_running c (\<lambda>_ _. (m', h')) s"
  have run: "running_insert c t s = Some ?s" using i by (simp add: running_insert_def)
  have r: "pri_result (threads s) (running_queue (sched s c)) (insert t R) m' h'"
    using priority_heap_insert_result [OF _ _ i] assms(1,2) by (auto simp: queues_def run_ok_def)
  show ?thesis
  proof (rule that [OF run])
    show "cpu_queues ?s c None (insert t R) F A"
      using queues_run_result [OF assms(1) r] assms(1,2) by (auto simp: queues_def)
    show "qstep c (- insert t R) s ?s"
      using pri_result_same [OF r] by (intro on_running_qstep) auto
    show "same_vals (threads s) (threads ?s)"
      using pri_result_same [OF r] by simp
  qed
qed

lemma finished_insert_step:
  assumes "cpu_queues s c X R F A" "t \<notin> R \<union> F" "room (finished_queue (sched s c)) (Suc (card F))"
  obtains s' where "finished_insert c t s = Some s'" "cpu_queues s' c X R (insert t F) A"
    "qstep c (- insert t F) s s'" "same_vals (threads s) (threads s')"
proof -
  have "heap_room (finished_queue (sched s c))" using assms(1,3) by (auto simp: queues_def intro: room_one_more)
  then obtain m' h' where i: "priority_heap_insert (threads s) (finished_queue (sched s c)) t = Some (m', h')"
    using pri_queue.ins_room [of "threads s" "finished_queue (sched s c)" t] by auto
  let ?s = "on_finished c (\<lambda>_ _. (m', h')) s"
  have run: "finished_insert c t s = Some ?s" using i by (simp add: finished_insert_def)
  have r: "pri_result (threads s) (finished_queue (sched s c)) (insert t F) m' h'"
    using priority_heap_insert_result [OF _ _ i] assms(1,2) by (auto simp: queues_def)
  show ?thesis
  proof (rule that [OF run])
    show "cpu_queues ?s c X R (insert t F) A"
      using queues_fin_result [OF assms(1) r] assms(1,2) by (auto simp: queues_def)
    show "qstep c (- insert t F) s ?s"
      using pri_result_same [OF r] by (intro on_finished_qstep) auto
    show "same_vals (threads s) (threads ?s)"
      using pri_result_same [OF r] by simp
  qed
qed

lemma affinity_insert_step:
  assumes "cpu_queues s c X R F A" "t \<notin> A" "room (affinity_queue (sched s c)) (Suc (card A))"
  obtains s' where "affinity_insert c t s = Some s'" "cpu_queues s' c X R F (insert t A)"
    "qstep c (- insert t A) s s'" "same_vals (threads s) (threads s')"
proof -
  have "heap_room (affinity_queue (sched s c))" using assms(1,3) by (auto simp: queues_def intro: room_one_more)
  then obtain m' h' where i: "affinity_heap_insert (threads s) (affinity_queue (sched s c)) t = Some (m', h')"
    using aff_queue.ins_room [of "threads s" "affinity_queue (sched s c)" t] by auto
  let ?s = "on_affinity c (\<lambda>_ _. (m', h')) s"
  have run: "affinity_insert c t s = Some ?s" using i by (simp add: affinity_insert_def)
  have r: "aff_result (threads s) (affinity_queue (sched s c)) (insert t A) m' h'"
    using affinity_heap_insert_result [OF _ _ i] assms(1,2) by (auto simp: queues_def)
  show ?thesis
  proof (rule that [OF run])
    show "cpu_queues ?s c X R F (insert t A)"
      using queues_aff_result [OF assms(1) r] by simp
    show "qstep c (- insert t A) s ?s"
      using aff_result_same [OF r] by (intro on_affinity_qstep) auto
    show "same_vals (threads s) (threads ?s)"
      using aff_result_same [OF r] by simp
  qed
qed

lemma running_delete_step:
  assumes "cpu_queues s c X R F A" "t \<in> R" "X = None \<or> X = Some t"
    "s' = on_running c (pri_delete (priority_heap_pos (threads s) t)) s"
  shows "cpu_queues s' c None (R - {t}) F A" "qstep c (- (R - {t})) s s'"
    "same_vals (threads s) (threads s')"
proof -
  obtain y m' h' where d: "priority_heap_delete (threads s) (running_queue (sched s c))
      (priority_heap_pos (threads s) t) = (y, m', h')" by (metis prod_cases3)
  have exc: "pri_ok_except (threads s) (running_queue (sched s c)) t" "t \<in> contents (running_queue (sched s c))"
    using assms(1-3) by (auto simp: queues_def run_ok_def intro: pri_order.ok_imp_except)
  have r: "pri_result (threads s) (running_queue (sched s c)) (R - {t}) m' h'"
    using priority_heap_delete_result [OF exc d] assms(1) by (auto simp: queues_def)
  show "cpu_queues s' c None (R - {t}) F A"
    using queues_run_result [OF assms(1) r] assms(1,4) d by (auto simp: queues_def pri_delete_def)
  show "qstep c (- (R - {t})) s s'"
    unfolding assms(4) using pri_result_same [OF r] d by (intro on_running_qstep) (auto simp: pri_delete_def)
  show "same_vals (threads s) (threads s')"
    using pri_result_same [OF r] d assms(4) by (simp add: pri_delete_def)
qed

lemma finished_delete_step:
  assumes "cpu_queues s c X R F A" "t \<in> F"
    "s' = on_finished c (pri_delete (priority_heap_pos (threads s) t)) s"
  shows "cpu_queues s' c X R (F - {t}) A" "qstep c (- (F - {t})) s s'"
    "same_vals (threads s) (threads s')"
proof -
  obtain y m' h' where d: "priority_heap_delete (threads s) (finished_queue (sched s c))
      (priority_heap_pos (threads s) t) = (y, m', h')" by (metis prod_cases3)
  have exc: "pri_ok_except (threads s) (finished_queue (sched s c)) t" "t \<in> contents (finished_queue (sched s c))"
    using assms(1,2) by (auto simp: queues_def intro: pri_order.ok_imp_except)
  have r: "pri_result (threads s) (finished_queue (sched s c)) (F - {t}) m' h'"
    using priority_heap_delete_result [OF exc d] assms(1) by (auto simp: queues_def)
  show "cpu_queues s' c X R (F - {t}) A"
    using queues_fin_result [OF assms(1) r] assms(1,3) d by (auto simp: queues_def pri_delete_def)
  show "qstep c (- (F - {t})) s s'"
    unfolding assms(3) using pri_result_same [OF r] d by (intro on_finished_qstep) (auto simp: pri_delete_def)
  show "same_vals (threads s) (threads s')"
    using pri_result_same [OF r] d assms(3) by (simp add: pri_delete_def)
qed

lemma affinity_delete_step:
  assumes "cpu_queues s c X R F A" "t \<in> A"
    "s' = on_affinity c (aff_delete (affinity_heap_pos (threads s) t)) s"
  shows "cpu_queues s' c X R F (A - {t})" "qstep c (- (A - {t})) s s'"
    "same_vals (threads s) (threads s')"
proof -
  obtain y m' h' where d: "affinity_heap_delete (threads s) (affinity_queue (sched s c))
      (affinity_heap_pos (threads s) t) = (y, m', h')" by (metis prod_cases3)
  have exc: "aff_ok_except (threads s) (affinity_queue (sched s c)) t" "t \<in> contents (affinity_queue (sched s c))"
    using assms(1,2) by (auto simp: queues_def intro: aff_order.ok_imp_except)
  have r: "aff_result (threads s) (affinity_queue (sched s c)) (A - {t}) m' h'"
    using affinity_heap_delete_result [OF exc d] assms(1) by (auto simp: queues_def)
  show "cpu_queues s' c X R F (A - {t})"
    using queues_aff_result [OF assms(1) r] assms(3) d by (auto simp: aff_delete_def)
  show "qstep c (- (A - {t})) s s'"
    unfolding assms(3) using aff_result_same [OF r] d by (intro on_affinity_qstep) (auto simp: aff_delete_def)
  show "same_vals (threads s) (threads s')"
    using aff_result_same [OF r] d assms(3) by (simp add: aff_delete_def)
qed

end
