(* ===== verification/Sched_Inv.thy ===== *)
theory Sched_Inv
  imports Sched_Queues
begin

text \<open>
  The invariant of a scheduler and of the system of schedulers, and that the operations of
  \<^verbatim>\<open>scheduler.c\<close> keep it.
\<close>

lemma affinity_set_key_step:
  assumes "cpu_queues s c X R F A" "t \<in> A"
    "s' = on_affinity c (\<lambda>m h. affinity_heap_set_key m h (affinity_heap_pos m t) v) s"
  shows "cpu_queues s' c X R F A" "qstep c (- A) s s'" "remaining (threads s') = remaining (threads s)"
    "priority_heap_pos (threads s') = priority_heap_pos (threads s)" "cpu_id (threads s') = cpu_id (threads s)"
proof -
  let ?m = "threads s" and ?h = "affinity_queue (sched s c)"
  let ?m1 = "?m\<lparr>affinity := (affinity ?m)(t := v)\<rparr>"
  obtain m' h' where k: "affinity_heap_set_key ?m ?h (affinity_heap_pos ?m t) v = (m', h')" by fastforce
  have r: "aff_result ?m1 ?h A m' h'"
    using affinity_heap_set_key_result [OF _ _ k] assms(1,2) by (auto simp: queues_def)
  note same = aff_result_same [OF r]
  have keys: "same_keys (- A) ?m m'"
    by (rule same_keys_trans [OF _ same(1)]) (use assms(2) in \<open>auto simp: same_keys_def\<close>)
  have rest: "same_rest ?m m'"
    by (rule same_rest_trans [OF _ same(2)]) (simp add: same_rest_def)
  have thr: "threads s' = m'" using assms(3) k by simp
  then show "remaining (threads s') = remaining (threads s)" "priority_heap_pos (threads s') = priority_heap_pos (threads s)"
    "cpu_id (threads s') = cpu_id (threads s)"
    using same by (simp_all add: same_vals_def)
  show "qstep c (- A) s s'"
    unfolding assms(3) using keys rest same(3) k by (intro on_affinity_qstep) auto
  have "priority_heap_pos m' = priority_heap_pos ?m" "pri_gt m' = pri_gt ?m"
    using same(4,6) by (auto simp: pri_gt_def fun_eq_iff same_vals_def)
  then show "cpu_queues s' c X R F A"
    using assms(1,3) k aff_resultD [OF r] by (auto simp: queues_def run_ok_def split: option.splits)
qed

lemma running_set_key_step:
  assumes "cpu_queues s c None R F A" "t \<in> R" "(sint (remaining (threads s) t) < 0) = (sint v < 0)"
    "s' = on_running c (\<lambda>m h. priority_heap_set_key m h (priority_heap_pos m t) v) s"
  shows "cpu_queues s' c None R F A" "qstep c (- R) s s'"
    "remaining (threads s') = (remaining (threads s))(t := v)" "cpu_id (threads s') = cpu_id (threads s)"
proof -
  let ?m = "threads s" and ?h = "running_queue (sched s c)"
  let ?m1 = "?m\<lparr>remaining := (remaining ?m)(t := v)\<rparr>"
  obtain m' h' where k: "priority_heap_set_key ?m ?h (priority_heap_pos ?m t) v = (m', h')" by fastforce
  have r: "pri_result ?m1 ?h R m' h'"
    using priority_heap_set_key_result [OF _ _ assms(3) k] assms(1,2) by (auto simp: queues_def run_ok_def)
  note same = pri_result_same [OF r]
  have keys: "same_keys (- R) ?m m'"
    by (rule same_keys_trans [OF _ same(1)]) (use assms(2) in \<open>auto simp: same_keys_def\<close>)
  have rest: "same_rest ?m m'"
    by (rule same_rest_trans [OF _ same(2)]) (simp add: same_rest_def)
  show "remaining (threads s') = (remaining (threads s))(t := v)" "cpu_id (threads s') = cpu_id (threads s)"
    using same assms(4) k by (simp_all add: same_vals_def)
  show "qstep c (- R) s s'"
    unfolding assms(4) using keys rest same(3) k by (intro on_running_qstep) auto
  have "run_ok m' (finished_queue (sched s c)) None"
    by (rule run_ok_cong [OF same_keys_mono [OF keys]]) (use assms(1) in \<open>auto simp: queues_def run_ok_def\<close>)
  moreover have "aff_gt m' = aff_gt ?m" "affinity_heap_pos m' = affinity_heap_pos ?m"
    using same(4,5) by (auto simp: aff_gt_def fun_eq_iff)
  ultimately show "cpu_queues s' c None R F A"
    using assms(1,4) k pri_resultD [OF r] by (auto simp: queues_def run_ok_def)
qed

lemma in_running_iff:
  assumes "cpu_queues s c None R F A" "t \<in> R \<union> F"
  shows "in_running c t s = Some (t \<in> R)"
proof -
  have run: "pri_ok (threads s) (running_queue (sched s c))" "contents (running_queue (sched s c)) = R"
    and fin: "pri_ok (threads s) (finished_queue (sched s c))" "contents (finished_queue (sched s c)) = F"
    using assms(1) by (auto simp: queues_def run_ok_def)
  then have "0 < priority_heap_pos (threads s) t"
    using heap_ok_mem_iff [OF run(1), of t] heap_ok_mem_iff [OF fin(1), of t] assms(2) by auto
  then show ?thesis
    using heap_ok_mem_iff [OF run(1), of t] run(2) by (auto simp: in_running_def Let_def)
qed

lemma delete_from_queue_step:
  assumes "cpu_queues s c None R F A" "t \<in> R \<union> F" "t \<in> A"
  obtains s' where "delete_from_queue c t s = Some s'" "cpu_queues s' c None (R - {t}) (F - {t}) (A - {t})"
    "qstep c (- ((R \<union> F \<union> A) - {t})) s s'" "same_vals (threads s) (threads s')"
proof -
  define s1 where "s1 = (if t \<in> R then on_running c (pri_delete (priority_heap_pos (threads s) t)) s
    else on_finished c (pri_delete (priority_heap_pos (threads s) t)) s)"
  define s2 where "s2 = on_affinity c (aff_delete (affinity_heap_pos (threads s1) t)) s1"
  have run: "delete_from_queue c t s = Some s2"
    using in_running_iff [OF assms(1,2)] by (simp add: delete_from_queue_def s1_def s2_def Let_def)
  have disj: "R \<inter> F = {}" using assms(1) by (simp add: queues_def)
  have 1: "cpu_queues s1 c None (R - {t}) (F - {t}) A \<and> qstep c (- ((R \<union> F) - {t})) s s1 \<and>
    same_vals (threads s) (threads s1)"
  proof (cases "t \<in> R")
    case True
    note step = running_delete_step [OF assms(1) True _ refl]
    have "F - {t} = F" using True disj by blast
    then show ?thesis
      using step(1,3) qstep_mono [OF step(2), of "- ((R \<union> F) - {t})"] True by (auto simp: s1_def)
  next
    case False
    then have "t \<in> F" using assms(2) by blast
    note step = finished_delete_step [OF assms(1) this refl]
    have "R - {t} = R" using False by blast
    then show ?thesis
      using step(1,3) qstep_mono [OF step(2), of "- ((R \<union> F) - {t})"] False by (auto simp: s1_def)
  qed
  note step = affinity_delete_step [OF conjunct1 [OF 1] assms(3) s2_def]
  have "qstep c (- ((R \<union> F \<union> A) - {t})) s s2"
    by (rule qstep_trans [OF qstep_mono [of c "- ((R \<union> F) - {t})"] qstep_mono [OF step(2)]]) (use 1 in auto)
  moreover have "same_vals (threads s) (threads s2)"
    using same_vals_trans [OF _ step(3)] 1 by blast
  ultimately show ?thesis using run step(1) by (intro that)
qed

subsection \<open>The thread with the lowest affinity\<close>

definition lowest_affinity :: "thread_mem \<Rightarrow> ptr set \<Rightarrow> ptr \<Rightarrow> bool" where
  "lowest_affinity m A t \<longleftrightarrow> t \<in> A \<and> (\<forall>x\<in>A. affinity m t \<le> affinity m x)"

lemma data_mem: "i < hp_size h \<Longrightarrow> data_name h i \<in> contents h"
  unfolding contents_def elems_def by (rule image_eqI [of _ _ "Suc i"]) auto

lemma affinity_children_lowest:
  assumes ok: "aff_ok m h" and n: "3 \<le> hp_size h"
    and out: "out = (if affinity m (data_name h 1) < affinity m (data_name h 2) then data_name h 1 else data_name h 2)"
  shows "lowest_affinity m (contents h - {data_name h 0}) out"
proof -
  let ?d = "data_name h"
  have inj: "inj_on (el ?d) {1..hp_size h}"
    using ok positions_inj [of "hp_size h" "(?d, affinity_heap_pos m)"] by (simp add: heap_ok_def)
  have mem: "el ?d 2 \<in> contents h" "el ?d 3 \<in> contents h"
    using n data_mem [of 1 h] data_mem [of 2 h] by simp_all
  have ne: "el ?d 2 \<noteq> el ?d 1" "el ?d 3 \<noteq> el ?d 1"
    using inj_onD [OF inj, of 2 1] inj_onD [OF inj, of 3 1] n by auto
  have "affinity m out \<le> affinity m x" if x: "x \<in> contents h - {?d 0}" for x
  proof -
    obtain j where j: "j \<in> {1..hp_size h}" "x = el ?d j" using x by (auto simp: contents_def elems_def)
    then have "j \<in> {2..hp_size h}" using x by (cases "j = 1") auto
    from aff_order.below_second [OF conjunct2 [OF ok [unfolded heap_ok_def]] this]
    show ?thesis using j out by (auto simp: aff_gt_def numeral_eq_Suc not_less split: if_splits)
  qed
  then show ?thesis
    using mem ne out by (auto simp: lowest_affinity_def numeral_eq_Suc split: if_splits)
qed

lemma get_lowest_affinity_pick:
  assumes q: "cpu_queues s c None R F (R \<union> F)" and null: "NULL \<notin> R \<union> F"
    and some: "R \<union> F - {current_thread (sched s c)} \<noteq> {}"
  shows "\<exists>t. lowest_affinity (threads s) (R \<union> F - {current_thread (sched s c)}) t \<and>
    get_lowest_affinity c s = do { s \<leftarrow> delete_from_queue c t s; Some (t, s) }"
proof -
  let ?A = "R \<union> F" and ?cur = "current_thread (sched s c)" and ?aq = "affinity_queue (sched s c)"
  let ?d = "data_name ?aq"
  have aff: "aff_ok (threads s) ?aq" "contents ?aq = ?A" using q by (auto simp: queues_def)
  have ne: "?A \<noteq> {}" using some by blast
  then have pos: "0 < hp_size ?aq" using contents_empty_iff [of ?aq] aff(2) by (metis neq0_conv)
  then have head: "affinity_heap_head ?aq = ?d 0" "?d 0 \<in> ?A"
    using data_mem [of 0 ?aq] aff(2) by (simp_all add: affinity_heap_head_def)
  then have nn: "?d 0 \<noteq> NULL" using null by metis
  show ?thesis
  proof (cases "?cur = ?d 0")
    case False
    have "lowest_affinity (threads s) (?A - {?cur}) (?d 0)"
      using aff_queue.head_best [OF aff(1)] head False aff(2)
      by (auto simp: lowest_affinity_def aff_gt_def not_less)
    then show ?thesis using False head nn by (auto simp: get_lowest_affinity_def Let_def)
  next
    case True
    have card: "card ?A = hp_size ?aq" using card_contents [OF aff(1)] aff(2) by simp
    have "card {?cur} < card ?A"
      using some head(2) True finite_contents [of ?aq] aff(2) by (intro psubset_card_mono) auto
    then have two: "2 \<le> hp_size ?aq" using card by simp
    show ?thesis
    proof (cases "hp_size ?aq = 2")
      case two': True
      have "contents ?aq = {?d 0, ?d 1}" using two'
        by (auto simp: contents_def elems_def numeral_2_eq_2 atLeastAtMostSuc_conv)
      then have "?A - {?cur} = {?d 1}" using aff(2) some True by auto
      then show ?thesis
        using True head nn two' by (auto simp: get_lowest_affinity_def Let_def lowest_affinity_def)
    next
      case False
      then have three: "3 \<le> hp_size ?aq" using two by simp
      define t where "t = (if affinity (threads s) (?d 1) < affinity (threads s) (?d 2) then ?d 1 else ?d 2)"
      have in12: "?d 1 \<in> ?A" "?d 2 \<in> ?A"
        using three data_mem [of 1 ?aq] data_mem [of 2 ?aq] aff(2) by simp_all
      then have "?d 1 \<noteq> NULL" "?d 2 \<noteq> NULL" using null by metis+
      then show ?thesis
        using affinity_children_lowest [OF aff(1) three t_def] True head nn three False aff(2)
        by (intro exI [of _ t]) (auto simp: get_lowest_affinity_def Let_def t_def deref_def)
    qed
  qed
qed

lemma get_lowest_affinity_step:
  assumes q: "cpu_queues s c None R F (R \<union> F)" and null: "NULL \<notin> R \<union> F"
    and some: "R \<union> F - {current_thread (sched s c)} \<noteq> {}"
  obtains t s' where "get_lowest_affinity c s = Some (t, s')"
    "lowest_affinity (threads s) (R \<union> F - {current_thread (sched s c)}) t"
    "delete_from_queue c t s = Some s'" "cpu_queues s' c None (R - {t}) (F - {t}) (R \<union> F - {t})"
    "qstep c (- (R \<union> F - {t})) s s'" "same_vals (threads s) (threads s')"
proof -
  let ?A = "R \<union> F" and ?cur = "current_thread (sched s c)"
  obtain t where t: "lowest_affinity (threads s) (?A - {?cur}) t"
    "get_lowest_affinity c s = do { s \<leftarrow> delete_from_queue c t s; Some (t, s) }"
    using get_lowest_affinity_pick [OF assms] by blast
  then have "t \<in> ?A" by (simp add: lowest_affinity_def)
  then obtain s' where "delete_from_queue c t s = Some s'" "cpu_queues s' c None (R - {t}) (F - {t}) (?A - {t})"
    "qstep c (- (R \<union> F \<union> ?A - {t})) s s'" "same_vals (threads s) (threads s')"
    using delete_from_queue_step [OF q, of t] by blast
  then show ?thesis using t by (intro that [of t s']) auto
qed

subsection \<open>The invariant\<close>

text \<open>
  The priority queues of a scheduler are heaps with no thread in common, the affinity queue
  holds exactly their threads, each of them belongs to this CPU, and each of the three arrays is
  allocated and has a slot for every thread of the CPU.  Between the operations the current thread, if there is one, is in the running
  queue (\<open>cur_ok\<close>).
\<close>

abbreviation run :: "kstate \<Rightarrow> nat \<Rightarrow> ptr set" where
  "run s c \<equiv> contents (running_queue (sched s c))"

abbreviation fin :: "kstate \<Rightarrow> nat \<Rightarrow> ptr set" where
  "fin s c \<equiv> contents (finished_queue (sched s c))"

definition heaps_alloc :: "scheduler_t \<Rightarrow> nat \<Rightarrow> bool" where
  "heaps_alloc sc n \<longleftrightarrow> room (running_queue sc) n \<and> room (finished_queue sc) n \<and> room (affinity_queue sc) n"

lemma heaps_alloc_mono: "heaps_alloc sc n \<Longrightarrow> k \<le> n \<Longrightarrow> heaps_alloc sc k"
  unfolding heaps_alloc_def using room_mono by blast

lemma heaps_alloc_subset: "heaps_alloc sc (card A) \<Longrightarrow> B \<subseteq> A \<Longrightarrow> finite A \<Longrightarrow> heaps_alloc sc (card B)"
  by (rule heaps_alloc_mono) (auto intro: card_mono)

lemma heaps_alloc_same: "same_sched sc sc' \<Longrightarrow> heaps_alloc sc' n = heaps_alloc sc n"
  unfolding heaps_alloc_def same_sched_def by (metis room_same)

definition sched_inv :: "kstate \<Rightarrow> nat \<Rightarrow> bool" where
  "sched_inv s c \<longleftrightarrow> cpu_queues s c None (run s c) (fin s c) (run s c \<union> fin s c) \<and>
     NULL \<notin> run s c \<union> fin s c \<and> (\<forall>t\<in>run s c \<union> fin s c. cpu_id (threads s) t = c) \<and>
     sched_cpu_id (sched s c) = c \<and> heaps_alloc (sched s c) (card (run s c \<union> fin s c))"

definition cur_ok :: "kstate \<Rightarrow> nat \<Rightarrow> bool" where
  "cur_ok s c \<longleftrightarrow> current_thread (sched s c) = NULL \<or> current_thread (sched s c) \<in> run s c"

definition sys_inv :: "kstate \<Rightarrow> bool" where
  "sys_inv s \<longleftrightarrow> (\<forall>c<cpu_num s. sched_inv s c)"

definition locks_free :: "kstate \<Rightarrow> bool" where
  "locks_free s \<longleftrightarrow> (\<forall>c<cpu_num s. \<not> sched_mutex (sched s c))"

lemma queues_sets: "cpu_queues s c X R F A \<Longrightarrow> run s c = R \<and> fin s c = F"
  by (simp add: queues_def)

lemma queues_finite: "cpu_queues s c X R F A \<Longrightarrow> finite (R \<union> F \<union> A)"
  by (auto simp: queues_def)

lemma sched_invI:
  assumes "cpu_queues s c None R F (R \<union> F)" "NULL \<notin> R \<union> F" "\<And>t. t \<in> R \<union> F \<Longrightarrow> cpu_id (threads s) t = c"
    "sched_cpu_id (sched s c) = c" "heaps_alloc (sched s c) (card (R \<union> F))"
  shows "sched_inv s c"
  using assms queues_sets [OF assms(1)] unfolding sched_inv_def by simp

lemma sched_invD:
  assumes "sched_inv s c"
  shows "cpu_queues s c None (run s c) (fin s c) (run s c \<union> fin s c)" "NULL \<notin> run s c \<union> fin s c"
    "t \<in> run s c \<union> fin s c \<Longrightarrow> cpu_id (threads s) t = c"
    "run s c \<inter> fin s c = {}" "sched_cpu_id (sched s c) = c"
    "heaps_alloc (sched s c) (card (run s c \<union> fin s c))"
  using assms by (auto simp: sched_inv_def queues_def)

text \<open>The parts of a scheduler the invariant is about.\<close>

definition core :: "scheduler_t \<Rightarrow> heap_t \<times> heap_t \<times> heap_t \<times> nat" where
  "core sc = (running_queue sc, finished_queue sc, affinity_queue sc, sched_cpu_id sc)"

lemma sched_inv_cong:
  assumes "sched_inv s c" "core (sched s' c) = core (sched s c)"
    "same_keys (run s c \<union> fin s c) (threads s) (threads s')"
  shows "sched_inv s' c" "run s' c = run s c" "fin s' c = fin s c"
proof -
  show eq: "run s' c = run s c" "fin s' c = fin s c" using assms(2) by (simp_all add: core_def)
  have "queues (threads s') (sched s c) None (run s c) (fin s c) (run s c \<union> fin s c)"
    using queues_cong [OF sched_invD(1) [OF assms(1)]] assms(3) by (simp add: Un_assoc)
  then have "cpu_queues s' c None (run s c) (fin s c) (run s c \<union> fin s c)"
    using assms(2) by (simp add: queues_def core_def)
  then show "sched_inv s' c"
    using sched_invD [OF assms(1)] assms(2,3)
    by (intro sched_invI [of s' c "run s c" "fin s c"]) (auto simp: core_def heaps_alloc_def same_keys_def)
qed

lemma sched_inv_other:
  assumes "sched_inv s d" "step_frame c T s s'" "d \<noteq> c" "run s d \<union> fin s d \<subseteq> T"
  shows "sched_inv s' d" "run s' d = run s d" "fin s' d = fin s d"
  using sched_inv_cong [OF assms(1), of s'] assms(2-) same_keys_mono [OF _ assms(4)]
  by (auto simp: step_frame_def)

text \<open>A thread is in the queues of at most one CPU.\<close>

lemma sys_inv_disjoint:
  assumes "sys_inv s" "c < cpu_num s" "d < cpu_num s" "c \<noteq> d"
  shows "(run s c \<union> fin s c) \<inter> (run s d \<union> fin s d) = {}"
  using assms sched_invD(3) unfolding sys_inv_def by blast

lemma sys_inv_step:
  assumes "sys_inv s" "c < cpu_num s" "step_frame c T s s'" "sched_inv s' c"
    "\<And>d. d < cpu_num s \<Longrightarrow> d \<noteq> c \<Longrightarrow> run s d \<union> fin s d \<subseteq> T"
  shows "sys_inv s'" "\<And>d. d < cpu_num s \<Longrightarrow> d \<noteq> c \<Longrightarrow> run s' d = run s d \<and> fin s' d = fin s d"
proof -
  have other: "sched_inv s' d \<and> run s' d = run s d \<and> fin s' d = fin s d" if "d < cpu_num s" "d \<noteq> c" for d
    using sched_inv_other [OF _ assms(3) that(2) assms(5) [OF that]] assms(1) that by (simp add: sys_inv_def)
  show "sys_inv s'"
    unfolding sys_inv_def
  proof (intro allI impI)
    fix d assume "d < cpu_num s'"
    then have "d < cpu_num s" using assms(3) by (simp add: step_frame_def)
    then show "sched_inv s' d" using other [of d] assms(4) by (cases "d = c") auto
  qed
  show "run s' d = run s d \<and> fin s' d = fin s d" if "d < cpu_num s" "d \<noteq> c" for d
    using other that by blast
qed

end
