(* ===== verification/Sched_Balance.thy ===== *)
theory Sched_Balance
  imports Sched_Inv
begin

text \<open>
  Load balancing: taking the thread of lowest affinity from the CPU with the highest load
  and giving it to the CPU that has just lost a thread.
\<close>

text \<open>The fields the scheduling of the current thread rests on.\<close>

definition same_current :: "scheduler_t \<Rightarrow> scheduler_t \<Rightarrow> bool" where
  "same_current sc sc' \<longleftrightarrow> current_thread sc' = current_thread sc \<and> current_remaining sc' = current_remaining sc \<and>
     sched_cpu_id sc' = sched_cpu_id sc \<and> sched_epoch sc' = sched_epoch sc \<and> sched_flags sc' = sched_flags sc"

lemma sched_eschew_none:
  assumes "sched_inv s c" "run s c \<union> fin s c \<subseteq> {current_thread (sched s c)}"
  shows "sched_eschew_thread c s = Some (NULL, s)"
proof -
  let ?aq = "affinity_queue (sched s c)"
  note inv = sched_invD [OF assms(1)]
  have aff: "contents ?aq = run s c \<union> fin s c" "card (contents ?aq) = hp_size ?aq"
    using inv(1) card_contents [of "aff_gt (threads s)" "affinity_heap_pos (threads s)" ?aq] by (auto simp: queues_def)
  have "get_lowest_affinity c s = Some (NULL, s)"
  proof (cases "contents ?aq = {}")
    case True
    then show ?thesis
      using aff(2) by (simp add: get_lowest_affinity_def affinity_heap_head_def)
  next
    case False
    then have "contents ?aq = {current_thread (sched s c)}" using aff(1) assms(2) by blast
    moreover from this have "hp_size ?aq = 1" using aff(2) by simp
    moreover from this have "affinity_heap_head ?aq \<in> contents ?aq"
      using aff_queue.head_mem [OF False] by simp
    ultimately show ?thesis by (simp add: get_lowest_affinity_def Let_def)
  qed
  then show ?thesis by (simp add: sched_eschew_thread_def)
qed

lemma sched_eschew_some:
  assumes "sched_inv s c" "\<not> run s c \<union> fin s c \<subseteq> {current_thread (sched s c)}"
  obtains t s' where "sched_eschew_thread c s = Some (t, s')" "t \<noteq> NULL"
    "lowest_affinity (threads s) (run s c \<union> fin s c - {current_thread (sched s c)}) t"
    "sched_inv s' c" "run s' c = run s c - {t}" "fin s' c = fin s c - {t}"
    "step_frame c (- (run s c \<union> fin s c - {t})) s s'" "same_vals (threads s) (threads s')"
    "same_current (sched s c) (sched s' c)" "sched_mutex (sched s' c) = sched_mutex (sched s c)"
proof -
  note inv = sched_invD [OF assms(1)]
  let ?A = "run s c \<union> fin s c" and ?cur = "current_thread (sched s c)"
  obtain t s1 where g: "get_lowest_affinity c s = Some (t, s1)" "lowest_affinity (threads s) (?A - {?cur}) t"
    "cpu_queues s1 c None (run s c - {t}) (fin s c - {t}) (?A - {t})" "qstep c (- (?A - {t})) s s1"
    "same_vals (threads s) (threads s1)"
    using get_lowest_affinity_step [OF inv(1,2)] assms(2) by blast
  have t: "t \<in> ?A" "t \<noteq> ?cur" "t \<noteq> NULL" using g(2) inv(2) by (auto simp: lowest_affinity_def)
  define s2 where "s2 = upd_threads (\<lambda>m. m\<lparr>epoch := (epoch m)(t := sched_epoch (sched s1 c))\<rparr>)
    (upd_sched c (\<lambda>sc. sc\<lparr>total_count := total_count sc - remaining (threads s1) t\<rparr>) s1)"
  have run: "sched_eschew_thread c s = Some (t, s2)"
    using g(1) t(3) by (simp add: sched_eschew_thread_def s2_def)
  have same: "same_sched (sched s c) (sched s1 c)" using g(4) by (simp add: qstep_def)
  have alloc: "heaps_alloc (sched s1 c) (card (run s c - {t} \<union> (fin s c - {t})))"
    using heaps_alloc_subset [OF inv(6), of "run s c - {t} \<union> (fin s c - {t})"] by (auto simp: heaps_alloc_same [OF same])
  have inv1: "sched_inv s1 c"
  proof (rule sched_invI [OF _ _ _ _ alloc])
    show "cpu_queues s1 c None (run s c - {t}) (fin s c - {t}) ((run s c - {t}) \<union> (fin s c - {t}))"
      using g(3) by (simp add: Un_Diff)
  qed (use inv t same g(5) in \<open>auto simp: same_sched_def same_vals_def\<close>)
  have core2: "core (sched s2 c) = core (sched s1 c)" by (simp add: s2_def core_def)
  have inv2: "sched_inv s2 c" "run s2 c = run s1 c" "fin s2 c = fin s1 c"
    using sched_inv_cong [OF inv1 core2] by (auto simp: s2_def same_keys_def)
  have frame: "step_frame c (- (?A - {t})) s s2"
    using g(4) unfolding s2_def qstep_def by (intro step_frame_then) simp
  have q: "run s1 c = run s c - {t}" "fin s1 c = fin s c - {t}" using queues_sets [OF g(3)] by auto
  show ?thesis
  proof (rule that [OF run t(3) g(2) inv2(1) _ _ frame])
    show "run s2 c = run s c - {t}" "fin s2 c = fin s c - {t}" using inv2 q by auto
    show "same_vals (threads s) (threads s2)" using g(5) by (simp add: s2_def same_vals_def)
    show "same_current (sched s c) (sched s2 c)" "sched_mutex (sched s2 c) = sched_mutex (sched s c)"
      using same by (simp_all add: same_current_def s2_def same_sched_def)
  qed
qed

text \<open>
  The function does not grow the arrays: there must be a slot for one more thread in each (the
  comment before it in \<^verbatim>\<open>scheduler.c\<close> says so).
\<close>

definition spare_slot :: "kstate \<Rightarrow> nat \<Rightarrow> bool" where
  "spare_slot s c \<longleftrightarrow> heaps_alloc (sched s c) (Suc (card (run s c \<union> fin s c)))"

text \<open>Both callers of \<^verbatim>\<open>rebalance_load\<close> have just removed a thread, whose slot is free.\<close>

lemma spare_after_removal:
  assumes "heaps_alloc (sched s' c) (card A)" "run s' c \<union> fin s' c = A - {t}" "t \<in> A" "finite A"
  shows "spare_slot s' c"
  using assms card_Suc_Diff1 [OF assms(4,3)] by (simp add: spare_slot_def)

lemma sched_reassign_step:
  assumes inv: "sched_inv s c" and t: "t \<notin> run s c \<union> fin s c" "t \<noteq> NULL" and space: "spare_slot s c"
  obtains s' where "sched_reassign_thread c t s = Some s'" "sched_inv s' c" "run s' c = insert t (run s c)"
    "fin s' c = fin s c" "step_frame c (- insert t (run s c \<union> fin s c)) s s'"
    "remaining (threads s') = remaining (threads s)" "same_current (sched s c) (sched s' c)"
    "sched_mutex (sched s' c) = sched_mutex (sched s c)"
proof -
  note I = sched_invD [OF inv]
  let ?A = "run s c \<union> fin s c"
  define s0 where "s0 = (if cpu_id (threads s) t \<noteq> sched_cpu_id (sched s c) then
    upd_threads (\<lambda>m. m\<lparr>cpu_id := (cpu_id m)(t := sched_cpu_id (sched s c)), affinity := (affinity m)(t := 0)\<rparr>) s else s)"
  have s0: "sched s0 = sched s" "same_keys (- {t}) (threads s) (threads s0)" "same_rest (threads s) (threads s0)"
    "remaining (threads s0) = remaining (threads s)" "cpu_id (threads s0) t = c"
    "step_frame c (- insert t ?A) s s0"
    using I(5) by (auto simp: s0_def same_keys_def same_rest_def step_frame_def)
  have q0: "cpu_queues s0 c None (run s c) (fin s c) ?A"
    using queues_cong [OF I(1) same_keys_mono [OF s0(2)]] t s0(1) by (simp add: Un_assoc)
  have alloc: "heaps_alloc (sched s0 c) (Suc (card ?A))" using space s0(1) by (simp add: spare_slot_def)
  obtain s1 where s1: "affinity_insert c t s0 = Some s1" "cpu_queues s1 c None (run s c) (fin s c) (insert t ?A)"
    "qstep c (- insert t ?A) s0 s1" "same_vals (threads s0) (threads s1)"
    using affinity_insert_step [OF q0 t(1)] alloc by (auto simp: heaps_alloc_def)
  define s2 where "s2 = upd_sched c (\<lambda>sc. sc\<lparr>total_count := total_count sc + remaining (threads s1) t\<rparr>) s1"
  have q2: "cpu_queues s2 c None (run s c) (fin s c) (insert t ?A)" using s1(2) by (simp add: s2_def queues_def)
  have same: "same_sched (sched s0 c) (sched s1 c)" using s1(3) by (simp add: qstep_def)
  have alloc2: "heaps_alloc (sched s2 c) (Suc (card ?A))"
    using alloc heaps_alloc_same [OF same] by (simp add: s2_def heaps_alloc_def)
  have "card (run s c) \<le> card ?A" by (rule card_mono) auto
  then have "room (running_queue (sched s2 c)) (Suc (card (run s c)))" using alloc2 by (auto simp: heaps_alloc_def intro: room_mono)
  then obtain s3 where s3: "running_insert c t s2 = Some s3" "cpu_queues s3 c None (insert t (run s c)) (fin s c) (insert t ?A)"
    "qstep c (- insert t (run s c)) s2 s3" "same_vals (threads s2) (threads s3)"
    using running_insert_step [OF q2] t(1) by blast
  define s4 where "s4 = upd_threads (\<lambda>m. m\<lparr>epoch := (epoch m)(t := sched_epoch (sched s3 c))\<rparr>) s3"
  have run: "sched_reassign_thread c t s = Some s4"
    using s1(1) s3(1) by (simp add: sched_reassign_thread_def s4_def flip: s0_def s2_def)
  have vals: "remaining (threads s4) = remaining (threads s)" "cpu_id (threads s4) = cpu_id (threads s0)"
    using s0(4) s1(4) s3(4) by (simp_all add: s4_def s2_def same_vals_def)
  have cur: "same_current (sched s c) (sched s4 c)" "sched_mutex (sched s4 c) = sched_mutex (sched s c)"
    using s0(1) s1(3) s3(3) by (simp_all add: s4_def s2_def same_current_def qstep_def same_sched_def)
  have "same_sched (sched s2 c) (sched s3 c)" using s3(3) by (simp add: qstep_def)
  from heaps_alloc_same [OF this] alloc2 have "heaps_alloc (sched s4 c) (Suc (card ?A))" by (simp add: s4_def)
  moreover have "card (insert t (run s c) \<union> fin s c) = Suc (card ?A)" using t(1) by simp
  ultimately have alloc4: "heaps_alloc (sched s4 c) (card (insert t (run s c) \<union> fin s c))" by simp
  have frame: "step_frame c (- insert t ?A) s s4"
    unfolding s4_def
  proof (rule step_frame_then(2), rule step_frame_trans [OF s0(6)])
    have "step_frame c (- insert t ?A) s0 s2"
      using s1(3) unfolding s2_def qstep_def by (intro step_frame_then) simp
    moreover have "step_frame c (- insert t ?A) s2 s3"
      using s3(3) unfolding qstep_def by (blast intro: step_frame_mono)
    ultimately show "step_frame c (- insert t ?A) s0 s3" by (rule step_frame_trans)
  qed
  have q4: "cpu_queues s4 c None (insert t (run s c)) (fin s c) (insert t (run s c) \<union> fin s c)"
    using queues_cong [OF s3(2), of "threads s4"] by (simp add: s4_def same_keys_def)
  have "cpu_id (threads s4) p = c" if "p \<in> insert t ?A" for p
    using that vals(2) s0(2,5) t(1) I(3) by (cases "p = t") (auto simp: same_keys_def)
  then have "sched_inv s4 c"
    using sched_invI [OF q4 _ _ _ alloc4] cur I t by (auto simp: same_current_def)
  then show ?thesis
    using that [OF run _ _ _ frame vals(1) cur(1,2)] queues_sets [OF q4] by blast
qed

subsection \<open>The CPU with the highest load\<close>

lemma highest_loop_max:
  assumes "\<And>i. i \<in> set is \<Longrightarrow> \<not> sched_mutex (sched s i)" "cnt = total_count (sched s mx)"
  shows "\<exists>m. highest_loop is mx cnt s = Some (m, s) \<and> m \<in> insert mx (set is) \<and>
    (\<forall>i\<in>insert mx (set is). sint (total_count (sched s i)) \<le> sint (total_count (sched s m)))"
  using assms
proof (induction "is" arbitrary: mx cnt)
  case Nil
  then show ?case by simp
next
  case (Cons i "is")
  let ?tc = "total_count (sched s i)" and ?lt = "sint cnt < sint (total_count (sched s i))"
  obtain s1 where s1: "lock_sched i s = Some s1" "unlock_sched i s1 = s" "total_count (sched s1 i) = ?tc"
    using Cons.prems(1) [of i] unlock_lock_sched [of i s] by (auto simp: lock_sched_def)
  show ?case
  proof (cases ?lt)
    case True
    then show ?thesis using Cons.IH [of ?tc i] Cons.prems s1 by fastforce
  next
    case False
    then show ?thesis using Cons.IH [of cnt mx] Cons.prems s1 by fastforce
  qed
qed

lemma highest_load_max:
  assumes "locks_free s" "0 < cpu_num s"
  obtains m where "highest_load s = Some (m, s)" "m < cpu_num s"
    "\<And>i. i < cpu_num s \<Longrightarrow> sint (total_count (sched s i)) \<le> sint (total_count (sched s m))"
proof -
  obtain s1 where s1: "lock_sched 0 s = Some s1" "unlock_sched 0 s1 = s" "total_count (sched s1 0) = total_count (sched s 0)"
    "cpu_num s1 = cpu_num s"
    using assms unlock_lock_sched [of 0 s] by (auto simp: lock_sched_def locks_free_def)
  obtain m where m: "highest_loop [1..<cpu_num s] 0 (total_count (sched s 0)) s = Some (m, s)"
    "m \<in> insert 0 (set [1..<cpu_num s])"
    "\<And>i. i \<in> insert 0 (set [1..<cpu_num s]) \<Longrightarrow> sint (total_count (sched s i)) \<le> sint (total_count (sched s m))"
    using highest_loop_max [of "[1..<cpu_num s]" s "total_count (sched s 0)" 0] assms(1) unfolding locks_free_def
    by (metis atLeastLessThan_iff set_upt)
  have "highest_load s = Some (m, s)" using s1 m(1) by (simp add: highest_load_def)
  moreover have "m < cpu_num s" using m(2) assms(2) by auto
  moreover have "i \<in> insert 0 (set [1..<cpu_num s])" if "i < cpu_num s" for i using that by (cases i) auto
  ultimately show ?thesis using that m(3) by blast
qed

subsection \<open>Rebalancing\<close>

lemma sys_inv_same:
  assumes "sys_inv s" "cpu_num s' = cpu_num s" "\<And>d. core (sched s' d) = core (sched s d)" "threads s' = threads s"
  shows "sys_inv s'"
  using assms sched_inv_cong(1) [of s _ s'] unfolding sys_inv_def by auto

lemma mutex_update_simps [simp]:
  "core (sc\<lparr>sched_mutex := b\<rparr>) = core sc" "same_current sc (sc\<lparr>sched_mutex := b\<rparr>)" "same_current sc sc"
  by (simp_all add: core_def same_current_def)

text \<open>
  What rebalancing does to the queues of all CPUs: nothing, or it moves one thread that was
  not running, and has the lowest affinity of those, from another CPU to the running queue of
  \<open>c\<close>.
\<close>

definition same_threads :: "kstate \<Rightarrow> kstate \<Rightarrow> bool" where
  "same_threads s s' \<longleftrightarrow> (\<forall>d<cpu_num s. run s' d = run s d \<and> fin s' d = fin s d)"

definition moved_thread :: "nat \<Rightarrow> kstate \<Rightarrow> kstate \<Rightarrow> bool" where
  "moved_thread c s s' \<longleftrightarrow> (\<exists>mx t. mx < cpu_num s \<and> mx \<noteq> c \<and>
     (\<forall>d<cpu_num s. sint (total_count (sched s d)) \<le> sint (total_count (sched s mx))) \<and>
     lowest_affinity (threads s) (run s mx \<union> fin s mx - {current_thread (sched s mx)}) t \<and>
     (\<forall>d<cpu_num s. run s' d = (if d = c then insert t (run s c) else if d = mx then run s mx - {t} else run s d) \<and>
        fin s' d = (if d = mx then fin s mx - {t} else fin s d)))"

text \<open>What it leaves alone.\<close>

definition sys_frame :: "kstate \<Rightarrow> kstate \<Rightarrow> bool" where
  "sys_frame s s' \<longleftrightarrow> same_rest (threads s) (threads s') \<and> remaining (threads s') = remaining (threads s) \<and>
     cpu_num s' = cpu_num s \<and> this_cpu s' = this_cpu s \<and> mutexes s' = mutexes s \<and> conds s' = conds s \<and>
     exclusion s' = exclusion s \<and> exclusion_mutex s' = exclusion_mutex s \<and>
     global_epoch_mutex s' = global_epoch_mutex s \<and> timer_off s' = timer_off s \<and> cpu_space s' = cpu_space s \<and>
     (\<forall>d. same_current (sched s d) (sched s' d))"

lemma sys_frame_trans: "sys_frame s s' \<Longrightarrow> sys_frame s' s'' \<Longrightarrow> sys_frame s s''"
  unfolding sys_frame_def same_current_def by (metis same_rest_trans)

lemma step_frame_sys_frame:
  assumes "step_frame c T s s'" "remaining (threads s') = remaining (threads s)" "same_current (sched s c) (sched s' c)"
  shows "sys_frame s s'"
  using assms unfolding sys_frame_def step_frame_def by (metis mutex_update_simps(3))

lemma mutex_sys_frame: "sys_frame s (upd_sched c (\<lambda>sc. sc\<lparr>sched_mutex := b\<rparr>) s)"
  by (rule step_frame_sys_frame [of c UNIV]) simp_all

definition locked_only :: "nat \<Rightarrow> kstate \<Rightarrow> bool" where
  "locked_only c s \<longleftrightarrow> sched_mutex (sched s c) \<and> (\<forall>d<cpu_num s. d \<noteq> c \<longrightarrow> \<not> sched_mutex (sched s d))"

lemma sys_inv_mutex: "sys_inv s \<Longrightarrow> sys_inv (upd_sched c (\<lambda>sc. sc\<lparr>sched_mutex := b\<rparr>) s)"
  by (rule sys_inv_same [of s]) auto

text \<open>Taking a thread from \<open>mx\<close>, whose lock is held, and giving it to \<open>c\<close>.\<close>

text \<open>Giving a thread away and taking one on, seen from the whole system.\<close>

lemma eschew_sys:
  assumes inv: "sys_inv s" and mx: "mx < cpu_num s" and some: "\<not> run s mx \<union> fin s mx \<subseteq> {current_thread (sched s mx)}"
  obtains t s' where "sched_eschew_thread mx s = Some (t, s')" "t \<noteq> NULL"
    "lowest_affinity (threads s) (run s mx \<union> fin s mx - {current_thread (sched s mx)}) t"
    "sys_inv s'" "sys_frame s s'" "run s' mx = run s mx - {t}" "fin s' mx = fin s mx - {t}"
    "\<And>d. d < cpu_num s \<Longrightarrow> d \<noteq> mx \<Longrightarrow> run s' d = run s d \<and> fin s' d = fin s d"
    "\<And>d. d \<noteq> mx \<Longrightarrow> sched s' d = sched s d" "\<And>d. d < cpu_num s \<Longrightarrow> t \<notin> run s' d \<union> fin s' d"
proof -
  have inv_mx: "sched_inv s mx" using inv mx by (simp add: sys_inv_def)
  obtain t s1 where e: "sched_eschew_thread mx s = Some (t, s1)" "t \<noteq> NULL"
    "lowest_affinity (threads s) (run s mx \<union> fin s mx - {current_thread (sched s mx)}) t"
    "sched_inv s1 mx" "run s1 mx = run s mx - {t}" "fin s1 mx = fin s mx - {t}"
    "step_frame mx (- (run s mx \<union> fin s mx - {t})) s s1" "same_vals (threads s) (threads s1)"
    "same_current (sched s mx) (sched s1 mx)" "sched_mutex (sched s1 mx) = sched_mutex (sched s mx)"
    by (rule sched_eschew_some [OF inv_mx some])
  have t: "t \<in> run s mx \<union> fin s mx" using e(3) by (simp add: lowest_affinity_def)
  have disj: "run s d \<union> fin s d \<subseteq> - (run s mx \<union> fin s mx)" if "d < cpu_num s" "d \<noteq> mx" for d
    using sys_inv_disjoint [OF inv that(1) mx that(2)] by blast
  have "run s d \<union> fin s d \<subseteq> - (run s mx \<union> fin s mx - {t})" if "d < cpu_num s" "d \<noteq> mx" for d
    using disj [OF that] by blast
  then have inv1: "sys_inv s1" "\<And>d. d < cpu_num s \<Longrightarrow> d \<noteq> mx \<Longrightarrow> run s1 d = run s d \<and> fin s1 d = fin s d"
    using sys_inv_step [OF inv mx e(7,4)] by simp_all
  have "t \<notin> run s1 d \<union> fin s1 d" if "d < cpu_num s" for d
    using inv1(2) [OF that] disj [OF that] t e(5,6) by (cases "d = mx") auto
  moreover have "sys_frame s s1"
    using e(8) by (intro step_frame_sys_frame [OF e(7) _ e(9)]) (simp add: same_vals_def)
  moreover have "sched s1 d = sched s d" if "d \<noteq> mx" for d using e(7) that by (simp add: step_frame_def)
  ultimately show ?thesis using that [OF e(1,2,3) inv1(1) _ e(5,6) inv1(2)] by blast
qed

lemma reassign_sys:
  assumes inv: "sys_inv s" and c: "c < cpu_num s" and t: "\<And>d. d < cpu_num s \<Longrightarrow> t \<notin> run s d \<union> fin s d" "t \<noteq> NULL"
    and space: "spare_slot s c"
  obtains s' where "sched_reassign_thread c t s = Some s'" "sys_inv s'" "sys_frame s s'"
    "run s' c = insert t (run s c)" "fin s' c = fin s c"
    "\<And>d. d < cpu_num s \<Longrightarrow> d \<noteq> c \<Longrightarrow> run s' d = run s d \<and> fin s' d = fin s d"
    "\<And>d. sched_mutex (sched s' d) = sched_mutex (sched s d)"
proof -
  have "sched_inv s c" using inv c by (simp add: sys_inv_def)
  from sched_reassign_step [OF this t(1) [OF c] t(2) space] obtain s' where r: "sched_reassign_thread c t s = Some s'"
    "sched_inv s' c" "run s' c = insert t (run s c)" "fin s' c = fin s c"
    "step_frame c (- insert t (run s c \<union> fin s c)) s s'" "remaining (threads s') = remaining (threads s)"
    "same_current (sched s c) (sched s' c)" "sched_mutex (sched s' c) = sched_mutex (sched s c)" by blast
  have "run s d \<union> fin s d \<subseteq> - insert t (run s c \<union> fin s c)" if d: "d < cpu_num s" "d \<noteq> c" for d
    using t(1) [OF d(1)] sys_inv_disjoint [OF inv d(1) c d(2)] by auto
  then have inv': "sys_inv s'" "\<And>d. d < cpu_num s \<Longrightarrow> d \<noteq> c \<Longrightarrow> run s' d = run s d \<and> fin s' d = fin s d"
    using sys_inv_step [OF inv c r(5,2)] by simp_all
  have "sched_mutex (sched s' d) = sched_mutex (sched s d)" for d
    using r(5,8) by (cases "d = c") (simp_all add: step_frame_def)
  then show ?thesis using that [OF r(1) inv'(1) step_frame_sys_frame [OF r(5-7)] r(3,4) inv'(2)] by blast
qed

lemma steal_step:
  assumes inv: "sys_inv s" and c: "c < cpu_num s" "mx < cpu_num s" "mx \<noteq> c"
    and locks: "\<forall>d<cpu_num s. d \<noteq> mx \<longrightarrow> \<not> sched_mutex (sched s d)"
    and some: "\<not> run s mx \<union> fin s mx \<subseteq> {current_thread (sched s mx)}" and space: "spare_slot s c"
  obtains t s1 s2 s3 where "sched_eschew_thread mx s = Some (t, s1)" "t \<noteq> NULL"
    "lock_sched c (unlock_sched mx s1) = Some s2" "sched_reassign_thread c t s2 = Some s3"
    "sys_inv s3" "sys_frame s s3" "locked_only c s3"
    "lowest_affinity (threads s) (run s mx \<union> fin s mx - {current_thread (sched s mx)}) t"
    "\<forall>d<cpu_num s. run s3 d = (if d = c then insert t (run s c) else if d = mx then run s mx - {t} else run s d) \<and>
        fin s3 d = (if d = mx then fin s mx - {t} else fin s d)"
proof -
  obtain t s1 where e: "sched_eschew_thread mx s = Some (t, s1)" "t \<noteq> NULL"
    "lowest_affinity (threads s) (run s mx \<union> fin s mx - {current_thread (sched s mx)}) t"
    "sys_inv s1" "sys_frame s s1" "run s1 mx = run s mx - {t}" "fin s1 mx = fin s mx - {t}"
    "\<And>d. d < cpu_num s \<Longrightarrow> d \<noteq> mx \<Longrightarrow> run s1 d = run s d \<and> fin s1 d = fin s d"
    "\<And>d. d \<noteq> mx \<Longrightarrow> sched s1 d = sched s d" "\<And>d. d < cpu_num s \<Longrightarrow> t \<notin> run s1 d \<union> fin s1 d"
    by (rule eschew_sys [OF inv c(2) some]) blast
  define s2 where "s2 = upd_sched c (\<lambda>sc. sc\<lparr>sched_mutex := True\<rparr>) (unlock_sched mx s1)"
  have lock: "lock_sched c (unlock_sched mx s1) = Some s2"
    using c locks e(9) by (simp add: lock_sched_def s2_def unlock_sched_def)
  have s2: "sys_inv s2" "sys_frame s1 s2" "run s2 d = run s1 d" "fin s2 d = fin s1 d" for d
    using e(4) sys_frame_trans [OF mutex_sys_frame mutex_sys_frame] by (simp_all add: s2_def unlock_sched_def sys_inv_mutex)
  have n2: "cpu_num s2 = cpu_num s" using e(5) s2(2) by (simp add: sys_frame_def)
  have c2: "c < cpu_num s2" using c n2 by simp
  have sp: "spare_slot s2 c"
    using space e(9) [of c] c(3) by (simp add: spare_slot_def s2_def unlock_sched_def heaps_alloc_def)
  have t2: "t \<notin> run s2 d \<union> fin s2 d" if "d < cpu_num s2" for d using that e(10) s2(3,4) n2 by simp
  obtain s3 where r: "sched_reassign_thread c t s2 = Some s3" "sys_inv s3" "sys_frame s2 s3" "run s3 c = insert t (run s2 c)" "fin s3 c = fin s2 c"
    "\<And>d. d < cpu_num s2 \<Longrightarrow> d \<noteq> c \<Longrightarrow> run s3 d = run s2 d \<and> fin s3 d = fin s2 d"
    "\<And>d. sched_mutex (sched s3 d) = sched_mutex (sched s2 d)"
    by (rule reassign_sys [OF s2(1) c2 t2 e(2) sp]) blast+
  have frame: "sys_frame s s3" by (rule sys_frame_trans [OF e(5) sys_frame_trans [OF s2(2) r(3)]])
  have "\<not> sched_mutex (sched s3 d)" if "d < cpu_num s" "d \<noteq> c" for d
    using that r(7) [of d] e(9) [of d] locks by (cases "d = mx") (auto simp: s2_def unlock_sched_def)
  moreover have "sched_mutex (sched s3 c)" using r(7) by (simp add: s2_def)
  ultimately have lo: "locked_only c s3" using frame by (simp add: locked_only_def sys_frame_def)
  have sets: "run s3 d = (if d = c then insert t (run s c) else if d = mx then run s mx - {t} else run s d) \<and>
        fin s3 d = (if d = mx then fin s mx - {t} else fin s d)" if "d < cpu_num s" for d
    using that r(4,5) r(6) [of d] s2(3,4) e(6,7) e(8) [of d] e(8) [OF c(1)] c(3) n2 by auto
  show ?thesis
    by (rule that [OF e(1,2) lock r(1,2) frame lo e(3)]) (use sets in blast)
qed

lemma rebalance_load_step:
  assumes inv: "sys_inv s" and c: "c < cpu_num s"
    and locks: "\<forall>d<cpu_num s. d \<noteq> c \<longrightarrow> \<not> sched_mutex (sched s d)" and space: "spare_slot s c"
  obtains s' where "rebalance_load c s = Some s'" "sys_inv s'" "sys_frame s s'" "locked_only c s'"
    "same_threads s s' \<or> moved_thread c s s'"
proof -
  define s0 where "s0 = unlock_sched c s"
  have s0: "sys_inv s0" "sys_frame s s0" "locks_free s0" "cpu_num s0 = cpu_num s" "threads s0 = threads s"
    "\<And>d. run s0 d = run s d" "\<And>d. fin s0 d = fin s d" "\<And>d. total_count (sched s0 d) = total_count (sched s d)"
    "\<And>d. current_thread (sched s0 d) = current_thread (sched s d)"
    using inv locks by (simp_all add: s0_def unlock_sched_def sys_inv_mutex mutex_sys_frame locks_free_def)
  obtain mx where mx: "highest_load s0 = Some (mx, s0)" "mx < cpu_num s"
    "\<And>d. d < cpu_num s \<Longrightarrow> sint (total_count (sched s d)) \<le> sint (total_count (sched s mx))"
    using highest_load_max [OF s0(3)] c s0(4,8) by (metis gr_implies_not0 neq0_conv)
  define s' where "s' = upd_sched c (\<lambda>sc. sc\<lparr>sched_mutex := True\<rparr>) s0"
  have relock: "lock_sched c s0 = Some s'"
    using s0(3,4) c by (simp add: lock_sched_def locks_free_def s'_def)
  have idle: "sys_inv s'" "sys_frame s s'" "locked_only c s'" "same_threads s s'"
    using s0 sys_frame_trans [OF s0(2) mutex_sys_frame]
    by (auto simp: s'_def sys_inv_mutex locked_only_def same_threads_def locks_free_def)
  let ?steal = "mx \<noteq> c \<and> sint (total_count (sched s0 mx) - total_count (sched s c)) > LOAD_DIFF_TOLERANCE"
  define s1 where "s1 = upd_sched mx (\<lambda>sc. sc\<lparr>sched_mutex := True\<rparr>) s0"
  have lock: "lock_sched mx s0 = Some s1"
    using s0(3,4) mx(2) by (simp add: lock_sched_def locks_free_def s1_def)
  have s1: "sys_inv s1" "sys_frame s s1" "cpu_num s1 = cpu_num s" "threads s1 = threads s"
    "\<And>d. run s1 d = run s d" "\<And>d. fin s1 d = fin s d" "unlock_sched mx s1 = s0"
    "\<And>d. current_thread (sched s1 d) = current_thread (sched s d)"
    "\<forall>d<cpu_num s1. d \<noteq> mx \<longrightarrow> \<not> sched_mutex (sched s1 d)"
    using s0 sys_frame_trans [OF s0(2) mutex_sys_frame] unlock_lock_sched [OF lock]
    by (simp_all add: s1_def sys_inv_mutex locks_free_def)
  consider (idle) "\<not> ?steal" | (none) "?steal" "run s mx \<union> fin s mx \<subseteq> {current_thread (sched s mx)}"
    | (steal) "?steal" "\<not> run s mx \<union> fin s mx \<subseteq> {current_thread (sched s mx)}" by blast
  then show ?thesis
  proof cases
    case idle
    then have "rebalance_load c s = Some s'"
      using mx(1) relock by (auto simp: rebalance_load_def Let_def simp flip: s0_def)
    then show ?thesis using that \<open>sys_inv s'\<close> \<open>sys_frame s s'\<close> \<open>locked_only c s'\<close>
        \<open>same_threads s s'\<close> by blast
  next
    case none
    have "sched_inv s1 mx" using s1(1,3) mx(2) by (simp add: sys_inv_def)
    then have "sched_eschew_thread mx s1 = Some (NULL, s1)"
      using none(2) s1 by (intro sched_eschew_none) auto
    then have "rebalance_load c s = Some s'"
      using mx(1) relock none(1) lock s1(7) by (simp add: rebalance_load_def Let_def flip: s0_def)
    then show ?thesis using that idle by blast
  next
    case steal
    have mx': "c < cpu_num s1" "mx < cpu_num s1" "mx \<noteq> c" using steal(1) c mx(2) s1(3) by auto
    have sp: "spare_slot s1 c"
      using space mx'(3) by (simp add: spare_slot_def s1_def s0_def unlock_sched_def heaps_alloc_def)
    have some: "\<not> run s1 mx \<union> fin s1 mx \<subseteq> {current_thread (sched s1 mx)}" using steal(2) s1 by simp
    obtain t s2 s3 s4 where t: "sched_eschew_thread mx s1 = Some (t, s2)" "t \<noteq> NULL"
      "lock_sched c (unlock_sched mx s2) = Some s3" "sched_reassign_thread c t s3 = Some s4"
      "sys_inv s4" "sys_frame s1 s4" "locked_only c s4"
      "lowest_affinity (threads s1) (run s1 mx \<union> fin s1 mx - {current_thread (sched s1 mx)}) t"
      "\<forall>d<cpu_num s1. run s4 d = (if d = c then insert t (run s1 c) else if d = mx then run s1 mx - {t} else run s1 d) \<and>
        fin s4 d = (if d = mx then fin s1 mx - {t} else fin s1 d)"
      by (rule steal_step [OF s1(1) mx' s1(9) some sp])
    have "rebalance_load c s = Some s4"
      using mx(1) steal(1) lock t(1-4) by (simp add: rebalance_load_def Let_def flip: s0_def)
    moreover have "moved_thread c s s4"
      unfolding moved_thread_def
      by (intro exI [of _ mx] exI [of _ t]) (use mx mx'(3) t(8,9) s1(3-6,8) in simp)
    ultimately show ?thesis using that t(5,7) sys_frame_trans [OF s1(2) t(6)] by blast
  qed
qed

end
