(* ===== verification/Sched_Current.thy ===== *)
theory Sched_Current
  imports Sched_Balance
begin

text \<open>
  Choosing the thread to run: retiring the current thread, the end of an epoch, preemption,
  and the timer tick \<^verbatim>\<open>sched_resched\<close>.
\<close>

lemma retire_current_step:
  assumes inv: "sched_inv s c" "cur_ok s c" and cur: "cur = current_thread (sched s c)" "cur \<noteq> NULL"
  obtains s' where "retire_current_thread c s = Some s'"
    "cpu_queues s' c None (run s c - {cur}) (insert cur (fin s c)) (run s c \<union> fin s c)"
    "step_frame c (- (run s c \<union> fin s c)) s s'"
    "remaining (threads s') = (remaining (threads s))(cur := (remaining (threads s) cur + soft_priority (threads s) cur) div 2)"
    "cpu_id (threads s') = cpu_id (threads s)"
    "same_sched (sched s c\<lparr>running_count := running_count (sched s' c)\<rparr>) (sched s' c)"
proof -
  note I = sched_invD [OF inv(1)]
  let ?A = "run s c \<union> fin s c" and ?v = "(remaining (threads s) cur + soft_priority (threads s) cur) div 2"
  have R: "cur \<in> run s c" "cur \<in> ?A" "cur \<notin> fin s c" using I(4) inv(2) cur by (auto simp: cur_ok_def)
  define s1 where "s1 = upd_threads (\<lambda>m. m\<lparr>epoch := (epoch m)(cur := sched_epoch (sched s c) + 1),
     remaining := (remaining m)(cur := (remaining m cur + soft_priority m cur) div 2)\<rparr>) s"
  define s2 where "s2 = upd_sched c (\<lambda>sc. sc\<lparr>running_count := running_count sc + remaining (threads s1) cur\<rparr>) s1"
  have q2: "cpu_queues s2 c (Some cur) (run s c) (fin s c) ?A"
    using queues_cong [OF queues_write_key [OF I(1) R(1), of ?v], of "threads s1"]
    by (simp add: s2_def s1_def same_keys_def queues_def)
  define s3 where "s3 = on_affinity c (\<lambda>m h. affinity_heap_set_key m h (affinity_heap_pos m cur) (affinity_count (sched s2 c))) s2"
  note k = affinity_set_key_step [OF q2 R(2) s3_def]
  define s4 where "s4 = on_running c (pri_delete (priority_heap_pos (threads s3) cur)) s3"
  have "Some cur = None \<or> Some cur = Some cur" by simp
  note d = running_delete_step [OF k(1) R(1) this s4_def]
  have "same_sched (sched s2 c) (sched s4 c)" using qstep_trans [OF k(2) qstep_mono [OF d(2)]] R by (auto simp: qstep_def)
  from heaps_alloc_same [OF this] have "heaps_alloc (sched s4 c) (card ?A)" using I(6) by (simp add: s2_def s1_def heaps_alloc_def)
  moreover have "card (fin s c) < card ?A" using R by (intro psubset_card_mono) auto
  ultimately have alloc: "room (finished_queue (sched s4 c)) (Suc (card (fin s c)))"
    by (auto simp: heaps_alloc_def intro: room_mono)
  obtain s5 where f: "finished_insert c cur s4 = Some s5"
    "cpu_queues s5 c None (run s c - {cur}) (insert cur (fin s c)) ?A" "qstep c (- insert cur (fin s c)) s4 s5"
    "same_vals (threads s4) (threads s5)"
    using finished_insert_step [OF d(1) _ alloc, of cur] R(3) by blast
  have run: "retire_current_thread c s = Some s5"
    using f(1) unfolding retire_current_thread_def cur(1) [symmetric] Let_def s4_def s3_def s2_def s1_def .
  have "step_frame c (- ?A) s s2"
    using R(2) by (auto simp: s2_def s1_def step_frame_def same_keys_def same_rest_def)
  moreover have "qstep c (- ?A) s2 s5"
    by (rule qstep_trans [OF k(2) qstep_trans [OF qstep_mono [OF d(2)] qstep_mono [OF f(3)]]]) (use R in auto)
  ultimately have frame: "step_frame c (- ?A) s s5" "same_sched (sched s2 c) (sched s5 c)"
    using step_frame_trans by (auto simp: qstep_def)
  show ?thesis
  proof (rule that [OF run f(2) frame(1)])
    show "remaining (threads s5) = (remaining (threads s))(cur := ?v)" "cpu_id (threads s5) = cpu_id (threads s)"
      using f(4) d(3) k(3,5) by (simp_all add: same_vals_def s2_def s1_def)
    show "same_sched (sched s c\<lparr>running_count := running_count (sched s5 c)\<rparr>) (sched s5 c)"
      using frame(2) by (simp add: same_sched_def s2_def s1_def)
  qed
qed

lemma do_epoch_step:
  assumes "cpu_queues s c None R F A" "\<not> global_epoch_mutex s"
  obtains s' where "do_epoch c s = Some s'" "cpu_queues s' c None F R A" "step_frame c UNIV s s'"
    "threads s' = threads s" "current_thread (sched s' c) = current_thread (sched s c)"
    "sched_cpu_id (sched s' c) = sched_cpu_id (sched s c)" "sched_mutex (sched s' c) = sched_mutex (sched s c)"
    "sched_flags (sched s' c) = sched_flags (sched s c)"
    "\<And>n. heaps_alloc (sched s c) n \<Longrightarrow> heaps_alloc (sched s' c) n" "current_remaining (sched s' c) = current_remaining (sched s c)"
proof -
  define s1 where "s1 = upd_sched c (\<lambda>sc. sc\<lparr>finished_queue := running_queue sc, running_queue := finished_queue sc\<rparr>) s"
  obtain e s2 where u: "update_epoch (sched_epoch (sched s1 c) + 1) s1 = Some (e, s2)" "s2 = s1\<lparr>global_epoch := e\<rparr>"
    using assms(2) by (auto simp: update_epoch_def s1_def Let_def)
  define s3 where "s3 = upd_sched c (\<lambda>sc. sc\<lparr>sched_epoch := e, total_count := running_count sc, running_count := 0\<rparr>) s2"
  have "do_epoch c s = Some s3" using u(1) by (simp add: do_epoch_def s3_def flip: s1_def)
  then show ?thesis
    by (rule that) (use assms(1) u(2) in \<open>auto simp: s3_def s1_def queues_def run_ok_def step_frame_def heaps_alloc_def\<close>)
qed

text \<open>
  The choice of the scheduler.  The running queue is ordered by the stored times, and the stored time
  of the running thread is the one it had when it was chosen: what it has left since is in
  \<^verbatim>\<open>current_remaining\<close> only.  So either no queued thread has more time than the current thread had
  when it was chosen, or none has more than five ticks, the boost of a running thread, above what
  the current thread has left.
\<close>

definition well_chosen :: "kstate \<Rightarrow> nat \<Rightarrow> bool" where
  "well_chosen s c \<longleftrightarrow> current_thread (sched s c) \<in> run s c \<and>
     ((\<forall>x\<in>run s c. sint (remaining (threads s) x) \<le> sint (remaining (threads s) (current_thread (sched s c)))) \<or>
      (\<forall>x\<in>run s c. sint (remaining (threads s) x) \<le> sint (current_remaining (sched s c) + PRIORITY_BOOST)))"

definition keys_nonneg :: "kstate \<Rightarrow> nat \<Rightarrow> bool" where
  "keys_nonneg s c \<longleftrightarrow> (\<forall>t\<in>run s c \<union> fin s c. 0 \<le> sint (remaining (threads s) t))"

lemma running_head:
  assumes "cpu_queues s c None R F A" "R \<noteq> {}" "NULL \<notin> R"
  shows "priority_heap_head (running_queue (sched s c)) \<in> R"
    "priority_heap_head (running_queue (sched s c)) \<noteq> NULL"
    "\<And>x. x \<in> R \<Longrightarrow> sint (remaining (threads s) x) \<le> sint (remaining (threads s) (priority_heap_head (running_queue (sched s c))))"
proof -
  have q: "pri_ok (threads s) (running_queue (sched s c))" "run s c = R" using assms(1) by (auto simp: queues_def run_ok_def)
  show 1: "priority_heap_head (running_queue (sched s c)) \<in> R" using pri_queue.head_mem q(2) assms(2) by blast
  then show "priority_heap_head (running_queue (sched s c)) \<noteq> NULL"
    using assms(3) by metis
  show "\<And>x. x \<in> R \<Longrightarrow> sint (remaining (threads s) x) \<le> sint (remaining (threads s) (priority_heap_head (running_queue (sched s c))))"
    using pri_queue.head_best [OF q(1)] q(2) by (auto simp: pri_gt_def not_less)
qed

text \<open>The new current thread is the head of the running queue.\<close>

definition pick_head :: "nat \<Rightarrow> kstate \<Rightarrow> kstate" where
  "pick_head c s = (let new = priority_heap_head (running_queue (sched s c)) in
     upd_sched c (\<lambda>sc. sc\<lparr>current_thread := new, current_remaining := remaining (threads s) new\<rparr>) s)"

lemma pick_head_step:
  assumes "cpu_queues s c None R F (R \<union> F)" "R \<noteq> {}" "NULL \<notin> R \<union> F"
    "\<And>t. t \<in> R \<union> F \<Longrightarrow> cpu_id (threads s) t = c" "sched_cpu_id (sched s c) = c" "heaps_alloc (sched s c) (card (R \<union> F))"
  shows "sched_inv (pick_head c s) c" "cur_ok (pick_head c s) c" "run (pick_head c s) c = R" "fin (pick_head c s) c = F" "well_chosen (pick_head c s) c"
    "step_frame c UNIV s (pick_head c s)" "threads (pick_head c s) = threads s"
    "sched_mutex (sched (pick_head c s) c) = sched_mutex (sched s c)"
proof -
  have null: "NULL \<notin> R" using assms(3) by blast
  note h = running_head [OF assms(1,2) null]
  have q: "cpu_queues (pick_head c s) c None R F (R \<union> F)" using assms(1) by (simp add: pick_head_def Let_def queues_def)
  show "sched_inv (pick_head c s) c"
    by (rule sched_invI [OF q assms(3)]) (use assms h(1) in \<open>auto simp: pick_head_def Let_def heaps_alloc_def\<close>)
  show "cur_ok (pick_head c s) c" using h(1) queues_sets [OF q] by (simp add: cur_ok_def pick_head_def Let_def)
  show sets: "run (pick_head c s) c = R" "fin (pick_head c s) c = F" using queues_sets [OF q] by auto
  show "well_chosen (pick_head c s) c"
    using h(1,3) sets(1) by (simp add: well_chosen_def pick_head_def Let_def)
  show "step_frame c UNIV s (pick_head c s)" "threads (pick_head c s) = threads s"
    "sched_mutex (sched (pick_head c s) c) = sched_mutex (sched s c)"
    by (simp_all add: pick_head_def Let_def)
qed

text \<open>What every outcome of the choice has in common.\<close>

definition chosen :: "nat \<Rightarrow> kstate \<Rightarrow> kstate \<Rightarrow> bool" where
  "chosen c s s' \<longleftrightarrow> sched_inv s' c \<and> cur_ok s' c \<and> well_chosen s' c \<and> step_frame c (- (run s c \<union> fin s c)) s s' \<and>
     run s' c \<union> fin s' c = run s c \<union> fin s c \<and> sched_mutex (sched s' c) = sched_mutex (sched s c) \<and>
     keys_nonneg s' c"

lemma keep_current_step:
  assumes inv: "sched_inv s c" "cur_ok s c" and cur: "cur = current_thread (sched s c)" "cur \<noteq> NULL"
    and nn: "keys_nonneg s c" "0 < sint (current_remaining (sched s c))"
  obtains s' where "keep_current_thread c s = Some s'" "chosen c s s'"
proof -
  note I = sched_invD [OF inv(1)]
  let ?A = "run s c \<union> fin s c" and ?rem = "current_remaining (sched s c)"
  let ?head = "priority_heap_head (running_queue (sched s c))"
  have R: "cur \<in> run s c" "cur \<in> ?A" "run s c \<noteq> {}" "NULL \<notin> run s c" using I(2) inv(2) cur by (auto simp: cur_ok_def)
  note h = running_head [OF I(1) R(3,4)]
  show ?thesis
  proof (cases "sint (?rem + PRIORITY_BOOST) < sint (remaining (threads s) ?head) \<and> ?head \<noteq> cur")
    case False
    then have "keep_current_thread c s = Some s" using h(2) cur(1) by (auto simp: keep_current_thread_def Let_def)
    moreover have "well_chosen s c" using False h(3) R(1) cur(1) by (fastforce simp: well_chosen_def)
    ultimately show ?thesis using that inv nn by (simp add: chosen_def)
  next
    case True
    define s1 where "s1 = on_affinity c (\<lambda>m h. affinity_heap_set_key m h (affinity_heap_pos m cur) (cpu_page_faults s)) s"
    note k = affinity_set_key_step [OF I(1) R(2) s1_def]
    have rem1: "current_remaining (sched s1 c) = ?rem" by (simp add: s1_def)
    define s2 where "s2 = on_running c (\<lambda>m h. priority_heap_set_key m h (priority_heap_pos m cur) (current_remaining (sched s1 c))) s1"
    have sign: "(sint (remaining (threads s1) cur) < 0) = (sint (current_remaining (sched s1 c)) < 0)"
      using nn(2) bspec [OF nn(1) [unfolded keys_nonneg_def] R(2)] k(3) rem1 by simp
    note p = running_set_key_step [OF k(1) R(1) sign s2_def]
    have frame: "step_frame c (- ?A) s s2" and same: "same_sched (sched s c) (sched s2 c)"
      using qstep_trans [OF k(2) qstep_mono [OF p(2)]] by (auto simp: qstep_def)
    have alloc: "heaps_alloc (sched s2 c) (card ?A)" using I(6) heaps_alloc_same [OF same] by simp
    have pick: "sched_inv (pick_head c s2) c" "cur_ok (pick_head c s2) c" "run (pick_head c s2) c = run s c" "fin (pick_head c s2) c = fin s c"
      "well_chosen (pick_head c s2) c" "step_frame c UNIV s2 (pick_head c s2)" "threads (pick_head c s2) = threads s2"
      "sched_mutex (sched (pick_head c s2) c) = sched_mutex (sched s2 c)"
      by (rule pick_head_step [OF p(1) R(3) I(2)];
        use I p(4) k(5) same alloc in \<open>auto simp: same_sched_def\<close>)+
    have "keep_current_thread c s = Some (pick_head c s2)"
      using h(2) True running_head(2) [OF p(1) R(3,4)]
      unfolding keep_current_thread_def pick_head_def Let_def cur(1) [symmetric]
      by (simp del: on_queue_simps flip: s1_def s2_def)
    moreover have "step_frame c (- ?A) s (pick_head c s2)"
      by (rule step_frame_trans [OF frame step_frame_mono [OF pick(6)]]) simp
    moreover have "keys_nonneg (pick_head c s2) c"
      using nn p(3) k(3) rem1 pick(3,4,7) by (auto simp: keys_nonneg_def)
    ultimately show ?thesis using that pick same by (simp add: chosen_def same_sched_def)
  qed
qed

text \<open>The end of the running queue ends the epoch; then the head of the running queue is chosen.\<close>

lemma epoch_pick_step:
  assumes q: "cpu_queues s c None R F (R \<union> F)" and ne: "R \<union> F \<noteq> {}" "NULL \<notin> R \<union> F"
    and m: "\<And>t. t \<in> R \<union> F \<Longrightarrow> cpu_id (threads s) t = c" "sched_cpu_id (sched s c) = c" "heaps_alloc (sched s c) (card (R \<union> F))"
    and g: "\<not> global_epoch_mutex s"
  obtains s1 where "(if check_for_epoch (sched s c) then do_epoch c s else Some s) = Some s1"
    "priority_heap_head (running_queue (sched s1 c)) \<noteq> NULL"
    "sched_inv (pick_head c s1) c" "cur_ok (pick_head c s1) c" "well_chosen (pick_head c s1) c" "step_frame c UNIV s (pick_head c s1)"
    "run (pick_head c s1) c \<union> fin (pick_head c s1) c = R \<union> F" "threads (pick_head c s1) = threads s"
    "sched_mutex (sched (pick_head c s1) c) = sched_mutex (sched s c)"
proof -
  have empty: "check_for_epoch (sched s c) \<longleftrightarrow> R = {}"
    using contents_empty_iff [of "running_queue (sched s c)"] queues_sets [OF q] by (auto simp: check_for_epoch_def)
  obtain s1 R1 F1 where s1: "(if check_for_epoch (sched s c) then do_epoch c s else Some s) = Some s1"
    "cpu_queues s1 c None R1 F1 (R1 \<union> F1)" "R1 \<union> F1 = R \<union> F" "R1 \<noteq> {}" "step_frame c UNIV s s1" "threads s1 = threads s"
    "sched_cpu_id (sched s1 c) = c" "heaps_alloc (sched s1 c) (card (R \<union> F))" "sched_mutex (sched s1 c) = sched_mutex (sched s c)"
  proof (cases "R = {}")
    case True
    obtain s1 where "do_epoch c s = Some s1" "cpu_queues s1 c None F R (R \<union> F)" "step_frame c UNIV s s1"
      "threads s1 = threads s" "sched_cpu_id (sched s1 c) = sched_cpu_id (sched s c)"
      "sched_mutex (sched s1 c) = sched_mutex (sched s c)" "heaps_alloc (sched s1 c) (card (R \<union> F))"
      using do_epoch_step [OF q g] m(3) by metis
    then show ?thesis using that [of s1 F R] True empty ne(1) m(2) by (simp add: Un_commute)
  next
    case False
    then show ?thesis using that [of s R F] empty q m by simp
  qed
  note p = pick_head_step [OF s1(2,4)]
  show ?thesis
  proof (rule that [OF s1(1)])
    show "priority_heap_head (running_queue (sched s1 c)) \<noteq> NULL"
      using running_head(2) [OF s1(2,4)] ne(2) s1(3) by blast
    show "step_frame c UNIV s (pick_head c s1)"
      using step_frame_trans [OF s1(5) p(6)] s1 ne m by simp
  qed (use p s1 ne m in simp_all)
qed

lemma sint_half: "0 \<le> sint ((x :: u32) div 2)"
proof -
  have "uint x < 2 ^ 32" using uint_lt2p [of x] by simp
  then have "uint (x div 2) < 2 ^ 31" by (simp add: uint_div_distrib)
  then show ?thesis by (simp add: sint_eq_uint_32)
qed

definition pinned :: "kstate \<Rightarrow> nat \<Rightarrow> bool" where
  "pinned s c \<longleftrightarrow> (let cur = current_thread (sched s c) in
     NULL \<noteq> cur \<and> (SCHED_ATOMIC = status (threads s) cur \<or> SCHED_NO_RESCHED = status (threads s) cur))"

lemma retire_if_current:
  assumes inv: "sched_inv s c" "cur_ok s c" and nn: "keys_nonneg s c"
  obtains s1 R F where "(if NULL \<noteq> current_thread (sched s c) then retire_current_thread c s else Some s) = Some s1"
    "cpu_queues s1 c None R F (R \<union> F)" "R \<union> F = (run s c \<union> fin s c)" "step_frame c (- (run s c \<union> fin s c)) s s1" "cpu_id (threads s1) = cpu_id (threads s)"
    "sched_cpu_id (sched s1 c) = c" "heaps_alloc (sched s1 c) (card (run s c \<union> fin s c))" "sched_mutex (sched s1 c) = sched_mutex (sched s c)"
    "\<And>t. t \<in> (run s c \<union> fin s c) \<Longrightarrow> 0 \<le> sint (remaining (threads s1) t)"
proof -
  note I = sched_invD [OF inv(1)]
  let ?A = "run s c \<union> fin s c" and ?cur = "current_thread (sched s c)"
  show ?thesis
  proof (cases "?cur = NULL")
    case True
    then show ?thesis using that [of s "run s c" "fin s c"] I nn by (simp add: keys_nonneg_def)
  next
    case False
    have union: "run s c - {?cur} \<union> insert ?cur (fin s c) = ?A" using inv(2) False by (auto simp: cur_ok_def)
    obtain s' where r: "retire_current_thread c s = Some s'"
      "cpu_queues s' c None (run s c - {?cur}) (insert ?cur (fin s c)) ?A" "step_frame c (- ?A) s s'"
      "remaining (threads s') = (remaining (threads s))(?cur := (remaining (threads s) ?cur + soft_priority (threads s) ?cur) div 2)"
      "cpu_id (threads s') = cpu_id (threads s)"
      "same_sched (sched s c\<lparr>running_count := running_count (sched s' c)\<rparr>) (sched s' c)"
      by (rule retire_current_step [OF inv refl False])
    have "0 \<le> sint (remaining (threads s') t)" if "t \<in> ?A" for t
      using that nn r(4) sint_half by (auto simp: keys_nonneg_def)
    moreover have "heaps_alloc (sched s' c) (card ?A)" using I(6) heaps_alloc_same [OF r(6)] by (simp add: heaps_alloc_def)
    ultimately show ?thesis
      using that [of s' "run s c - {?cur}" "insert ?cur (fin s c)"] r False union I(5)
      by (simp add: same_sched_def)
  qed
qed

lemma check_current_step:
  assumes inv: "sched_inv s c" "cur_ok s c" and nn: "keys_nonneg s c" and ne: "run s c \<union> fin s c \<noteq> {}"
    and g: "\<not> global_epoch_mutex s"
  obtains s' where "check_current_thread c s = Some s'" "chosen c s s' \<or> s' = s \<and> pinned s c"
proof -
  note I = sched_invD [OF inv(1)]
  let ?A = "run s c \<union> fin s c" and ?cur = "current_thread (sched s c)"
  consider (pinned) "pinned s c" | (keep) "\<not> pinned s c" "?cur \<noteq> NULL" "0 < sint (current_remaining (sched s c))"
    | (retire) "\<not> pinned s c" "?cur = NULL \<or> sint (current_remaining (sched s c)) \<le> 0" by linarith
  then show ?thesis
  proof cases
    case pinned
    then show ?thesis using that [of s] by (simp add: check_current_thread_def pinned_def Let_def)
  next
    case keep
    then obtain s' where "keep_current_thread c s = Some s'" "chosen c s s'"
      using keep_current_step [OF inv refl _ nn] by blast
    then show ?thesis using that keep by (auto simp: check_current_thread_def pinned_def Let_def)
  next
    case retire
    obtain s1 R F where s1: "(if NULL \<noteq> ?cur then retire_current_thread c s else Some s) = Some s1"
      "cpu_queues s1 c None R F (R \<union> F)" "R \<union> F = ?A" "step_frame c (- ?A) s s1" "cpu_id (threads s1) = cpu_id (threads s)"
      "sched_cpu_id (sched s1 c) = c" "heaps_alloc (sched s1 c) (card ?A)" "sched_mutex (sched s1 c) = sched_mutex (sched s c)"
      "\<And>t. t \<in> ?A \<Longrightarrow> 0 \<le> sint (remaining (threads s1) t)"
      by (rule retire_if_current [OF inv nn]) blast
    have "\<not> global_epoch_mutex s1" "R \<union> F \<noteq> {}" "NULL \<notin> R \<union> F" "\<And>t. t \<in> R \<union> F \<Longrightarrow> cpu_id (threads s1) t = c"
      using g s1(3,4,5) ne I(2,3) by (auto simp: step_frame_def)
    then obtain s2 where s2: "(if check_for_epoch (sched s1 c) then do_epoch c s1 else Some s1) = Some s2"
      "priority_heap_head (running_queue (sched s2 c)) \<noteq> NULL"
      "sched_inv (pick_head c s2) c" "cur_ok (pick_head c s2) c" "well_chosen (pick_head c s2) c" "step_frame c UNIV s1 (pick_head c s2)"
      "run (pick_head c s2) c \<union> fin (pick_head c s2) c = R \<union> F" "threads (pick_head c s2) = threads s1"
      "sched_mutex (sched (pick_head c s2) c) = sched_mutex (sched s1 c)"
      using epoch_pick_step [OF s1(2)] s1(3,6,7) by metis
    have "check_current_thread c s = Some (pick_head c s2)"
      using retire s1(1) s2(1,2) by (auto simp: check_current_thread_def pinned_def Let_def pick_head_def)
    moreover have "step_frame c (- ?A) s (pick_head c s2)"
      by (rule step_frame_trans [OF s1(4) step_frame_mono [OF s2(6)]]) simp
    moreover have "keys_nonneg (pick_head c s2) c"
      using s1(3,9) s2(7,8) by (simp add: keys_nonneg_def)
    ultimately show ?thesis using that s1(3,8) s2(3,4,5,7,9) by (simp add: chosen_def)
  qed
qed

end
