(* ===== verification/Sched_Tick.thy ===== *)
theory Sched_Tick
  imports Sched_Current
begin

text \<open>
  The invariant of the whole system of schedulers, and that the timer tick and the removal of
  threads keep it.
\<close>

definition sys_ok :: "kstate \<Rightarrow> bool" where
  "sys_ok s \<longleftrightarrow> sys_inv s \<and> (\<forall>c<cpu_num s. cur_ok s c \<and> keys_nonneg s c)"

definition others_free :: "nat \<Rightarrow> kstate \<Rightarrow> bool" where
  "others_free c s \<longleftrightarrow> (\<forall>d<cpu_num s. d \<noteq> c \<longrightarrow> \<not> sched_mutex (sched s d))"

definition members :: "kstate \<Rightarrow> ptr set" where
  "members s = (\<Union>d<cpu_num s. run s d \<union> fin s d)"

lemma members_same:
  assumes "cpu_num s' = cpu_num s" "\<And>d. run s' d = run s d" "\<And>d. fin s' d = fin s d"
  shows "members s' = members s"
  using assms by (simp add: members_def)

lemma balance_members:
  assumes "same_threads s s' \<or> moved_thread c s s'" "cpu_num s' = cpu_num s"
    "c < cpu_num s"
  shows "members s' = members s"
  using assms(1)
proof
  assume "same_threads s s'"
  then show ?thesis using assms(2) by (auto simp: same_threads_def members_def)
next
  assume "moved_thread c s s'"
  then obtain mx t where m: "mx < cpu_num s" "mx \<noteq> c" "t \<in> run s mx \<union> fin s mx"
    "\<forall>d<cpu_num s. run s' d = (if d = c then insert t (run s c) else if d = mx then run s mx - {t} else run s d) \<and>
        fin s' d = (if d = mx then fin s mx - {t} else fin s d)"
    by (auto simp: moved_thread_def lowest_affinity_def)
  show ?thesis
  proof (rule set_eqI)
    fix x
    have "(\<exists>d<cpu_num s. x \<in> run s' d \<union> fin s' d) \<longleftrightarrow> (\<exists>d<cpu_num s. x \<in> run s d \<union> fin s d)"
    proof (cases "x = t")
      case True
      then show ?thesis using m assms(3) by auto
    next
      case False
      then have "x \<in> run s' d \<union> fin s' d \<longleftrightarrow> x \<in> run s d \<union> fin s d" if "d < cpu_num s" for d
        using m that by auto
      then show ?thesis by blast
    qed
    then show "x \<in> members s' \<longleftrightarrow> x \<in> members s" using assms(2) by (auto simp: members_def)
  qed
qed

lemma balance_cur_ok:
  assumes "same_threads s s' \<or> moved_thread c s s'" "d < cpu_num s" "d \<noteq> c" "cur_ok s d"
    "current_thread (sched s' d) = current_thread (sched s d)"
  shows "cur_ok s' d"
  using assms(1)
proof
  assume "moved_thread c s s'"
  then obtain mx t where "mx \<noteq> c" "t \<noteq> current_thread (sched s mx)"
    "run s' d = (if d = mx then run s mx - {t} else run s d)"
    using assms(2,3) by (auto simp: moved_thread_def lowest_affinity_def)
  then show ?thesis using assms(4,5) by (auto simp: cur_ok_def)
qed (use assms in \<open>auto simp: cur_ok_def same_threads_def\<close>)

lemma members_nonneg:
  "(\<forall>c<cpu_num s. keys_nonneg s c) \<longleftrightarrow> (\<forall>t\<in>members s. 0 \<le> sint (remaining (threads s) t))"
  by (auto simp: keys_nonneg_def members_def)

subsection \<open>Removing the current thread\<close>

lemma unqueue_current:
  assumes inv: "sys_inv s" "cur_ok s c" and c: "c < cpu_num s" and cur: "cur = current_thread (sched s c)" "cur \<noteq> NULL"
  obtains s1 where "remove_current c s = do { s2 \<leftarrow> rebalance_load c s1;
      Some (upd_sched c (\<lambda>sc. sc\<lparr>current_thread := priority_heap_head (running_queue sc)\<rparr>) s2) }"
    "sys_inv s1" "run s1 c = run s c - {cur}" "fin s1 c = fin s c"
    "\<And>d. d < cpu_num s \<Longrightarrow> d \<noteq> c \<Longrightarrow> run s1 d = run s d \<and> fin s1 d = fin s d"
    "remaining (threads s1) = (remaining (threads s))(cur := current_remaining (sched s c))"
    "step_frame c (- (run s c \<union> fin s c)) s s1"
    "total_count (sched s1 c) = total_count (sched s c) - remaining (threads s) cur"
    "current_remaining (sched s1 c) = current_remaining (sched s c)" "spare_slot s1 c"
proof -
  have ic: "sched_inv s c" using inv(1) c by (simp add: sys_inv_def)
  note I = sched_invD [OF ic]
  let ?A = "run s c \<union> fin s c" and ?v = "current_remaining (sched s c)"
  have R: "cur \<in> run s c" "cur \<in> ?A" "cur \<notin> fin s c" using I(4) inv(2) cur by (auto simp: cur_ok_def)
  define s1 where "s1 = upd_sched c (\<lambda>sc. sc\<lparr>total_count := total_count sc - remaining (threads s) cur\<rparr>) s"
  define s2 where "s2 = upd_threads (\<lambda>m. m\<lparr>epoch := (epoch m)(cur := sched_epoch (sched s1 c)),
     remaining := (remaining m)(cur := current_remaining (sched s1 c))\<rparr>) s1"
  define s3 where "s3 = cpu_clear_page_faults (upd_sched c (\<lambda>sc. sc\<lparr>affinity_count := affinity_count sc + cpu_page_faults s2\<rparr>) s2)"
  define s4 where "s4 = on_affinity c (aff_delete (affinity_heap_pos (threads s3) cur)) s3"
  define s5 where "s5 = on_running c (pri_delete (priority_heap_pos (threads s4) cur)) s4"
  have q3: "cpu_queues s3 c (Some cur) (run s c) (fin s c) ?A"
    using queues_cong [OF queues_write_key [OF I(1) R(1), of ?v], of "threads s3"]
    by (simp add: s3_def s2_def s1_def same_keys_def queues_def cpu_clear_page_faults_def)
  note a = affinity_delete_step [OF q3 R(2) s4_def]
  have "Some cur = None \<or> Some cur = Some cur" by simp
  note p = running_delete_step [OF a(1) R(1) this s5_def]
  have q5: "cpu_queues s5 c None (run s c - {cur}) (fin s c) (run s c - {cur} \<union> fin s c)"
    using p(1) R(3) by (simp add: Un_Diff)
  have f3: "step_frame c (- ?A) s s3"
    using R(2) by (auto simp: s3_def s2_def s1_def step_frame_def same_keys_def same_rest_def cpu_clear_page_faults_def)
  have qs: "qstep c (- ?A) s3 s5"
    by (rule qstep_trans [OF qstep_mono [OF a(2)] qstep_mono [OF p(2)]]) auto
  have frame: "step_frame c (- ?A) s s5" using step_frame_trans [OF f3] qs by (auto simp: qstep_def)
  have vals: "remaining (threads s5) = (remaining (threads s))(cur := ?v)" "cpu_id (threads s5) = cpu_id (threads s)"
    using a(3) p(3) by (simp_all add: same_vals_def s3_def s2_def s1_def cpu_clear_page_faults_def)
  have same: "same_sched (sched s3 c) (sched s5 c)" using qs by (simp add: qstep_def)
  have alloc: "heaps_alloc (sched s5 c) (card ?A)"
    using I(6) heaps_alloc_same [OF same] by (simp add: heaps_alloc_def s3_def s2_def s1_def cpu_clear_page_faults_def)
  have "sched_inv s5 c"
    by (rule sched_invI [OF q5 _ _ _ heaps_alloc_subset [OF alloc]])
      (use I same vals(2) in \<open>auto simp: same_sched_def s3_def s2_def s1_def cpu_clear_page_faults_def\<close>)
  moreover have "run s d \<union> fin s d \<subseteq> - ?A" if "d < cpu_num s" "d \<noteq> c" for d
    using sys_inv_disjoint [OF inv(1) that(1) c that(2)] by blast
  ultimately have sys: "sys_inv s5" "\<And>d. d < cpu_num s \<Longrightarrow> d \<noteq> c \<Longrightarrow> run s5 d = run s d \<and> fin s5 d = fin s d"
    using sys_inv_step [OF inv(1) c frame] by simp_all
  have cid: "sched_cpu_id (sched s5 c) = c" using \<open>sched_inv s5 c\<close> sched_invD(5) by blast
  show ?thesis
  proof (rule that [of s5])
    show "remove_current c s = do { s2 \<leftarrow> rebalance_load c s5;
      Some (upd_sched c (\<lambda>sc. sc\<lparr>current_thread := priority_heap_head (running_queue sc)\<rparr>) s2) }"
      by (subst (2) cid [symmetric]) (simp only: remove_current_def cur(1) [symmetric] Let_def
        s5_def s4_def s3_def s2_def s1_def deref_ok [OF cur(2)] Option.bind.bind_lunit)
    show "spare_slot s5 c"
      by (rule spare_after_removal [OF alloc _ R(2)]) (use queues_sets [OF q5] R(3) in auto)
    show "total_count (sched s5 c) = total_count (sched s c) - remaining (threads s) cur"
      "current_remaining (sched s5 c) = current_remaining (sched s c)"
      using same by (simp_all add: same_sched_def s3_def s2_def s1_def cpu_clear_page_faults_def)
  qed (use sys queues_sets [OF q5] vals frame in auto)
qed

text \<open>What no scheduler operation touches.\<close>

definition tick_frame :: "kstate \<Rightarrow> kstate \<Rightarrow> bool" where
  "tick_frame s s' \<longleftrightarrow> same_rest (threads s) (threads s') \<and> cpu_num s' = cpu_num s \<and> this_cpu s' = this_cpu s \<and>
     mutexes s' = mutexes s \<and> conds s' = conds s \<and> exclusion s' = exclusion s \<and>
     exclusion_mutex s' = exclusion_mutex s \<and> global_epoch_mutex s' = global_epoch_mutex s \<and>
     timer_off s' = timer_off s \<and> cpu_space s' = cpu_space s"

lemma tick_frame_trans: "tick_frame s s' \<Longrightarrow> tick_frame s' s'' \<Longrightarrow> tick_frame s s''"
  unfolding tick_frame_def by (metis same_rest_trans)

lemma tick_frameI:
  "step_frame c T s s' \<Longrightarrow> tick_frame s s'" "sys_frame s s' \<Longrightarrow> tick_frame s s'" "tick_frame s (upd_sched c f s)"
  by (simp_all add: step_frame_def sys_frame_def tick_frame_def)

lemma sys_ok_nonneg: "sys_ok s \<Longrightarrow> t \<in> members s \<Longrightarrow> 0 \<le> sint (remaining (threads s) t)"
  unfolding sys_ok_def using members_nonneg [of s] by blast

lemma members_without:
  assumes "sys_inv s" "c < cpu_num s" "cpu_num s' = cpu_num s" "run s' c = run s c - {t}" "fin s' c = fin s c"
    and "\<And>d. d < cpu_num s \<Longrightarrow> d \<noteq> c \<Longrightarrow> run s' d = run s d \<and> fin s' d = fin s d" and t: "t \<in> run s c" "t \<notin> fin s c"
  shows "members s' = members s - {t}"
proof -
  have "run s' d \<union> fin s' d = run s d \<union> fin s d - {t}" if "d < cpu_num s" for d
    using that assms(4-6) t sys_inv_disjoint [OF assms(1) that assms(2)] by (cases "d = c") auto
  then show ?thesis using assms(3) by (auto simp: members_def)
qed

lemma cur_ok_head: "cur_ok (upd_sched c (\<lambda>sc. sc\<lparr>current_thread := priority_heap_head (running_queue sc)\<rparr>) s) c"
proof -
  have "0 = hp_size (running_queue (sched s c)) \<or> priority_heap_head (running_queue (sched s c)) \<in> run s c"
    using pri_queue.head_mem [of "running_queue (sched s c)"] contents_empty_iff [of "running_queue (sched s c)"] by auto
  then show ?thesis by (auto simp: cur_ok_def priority_heap_head_def)
qed


lemma remove_current_step:
  assumes ok: "sys_ok s" "others_free c s" and c: "c < cpu_num s"
    and cur: "cur = current_thread (sched s c)" "cur \<noteq> NULL"
  obtains s' where "remove_current c s = Some s'" "sys_ok s'" "locked_only c s'" "tick_frame s s'"
    "current_thread (sched s' c) = priority_heap_head (running_queue (sched s' c))"
    "members s' = members s - {cur}"
    "remaining (threads s') = (remaining (threads s))(cur := current_remaining (sched s c))"
proof -
  have inv: "sys_inv s" "cur_ok s c" using ok c by (auto simp: sys_ok_def)
  obtain s1 where s1: "remove_current c s = do { s2 \<leftarrow> rebalance_load c s1;
      Some (upd_sched c (\<lambda>sc. sc\<lparr>current_thread := priority_heap_head (running_queue sc)\<rparr>) s2) }"
    "sys_inv s1" "run s1 c = run s c - {cur}" "fin s1 c = fin s c"
    "\<And>d. d < cpu_num s \<Longrightarrow> d \<noteq> c \<Longrightarrow> run s1 d = run s d \<and> fin s1 d = fin s d"
    "remaining (threads s1) = (remaining (threads s))(cur := current_remaining (sched s c))"
    "step_frame c (- (run s c \<union> fin s c)) s s1" "spare_slot s1 c"
    by (rule unqueue_current [OF inv c cur]) blast
  have n1: "cpu_num s1 = cpu_num s" and sch: "\<And>d. d \<noteq> c \<Longrightarrow> sched s1 d = sched s d"
    using s1(7) by (auto simp: step_frame_def)
  have free: "\<forall>d<cpu_num s1. d \<noteq> c \<longrightarrow> \<not> sched_mutex (sched s1 d)" using ok(2) n1 sch by (auto simp: others_free_def)
  have c1: "c < cpu_num s1" using c n1 by simp
  obtain s2 where s2: "rebalance_load c s1 = Some s2" "sys_inv s2" "sys_frame s1 s2" "locked_only c s2"
    "same_threads s1 s2 \<or> moved_thread c s1 s2"
    by (rule rebalance_load_step [OF s1(2) c1 free s1(8)])
  define s3 where "s3 = upd_sched c (\<lambda>sc. sc\<lparr>current_thread := priority_heap_head (running_queue sc)\<rparr>) s2"
  have run: "remove_current c s = Some s3" using s1(1) s2(1) by (simp add: s3_def)
  have inv3: "sys_inv s3" by (rule sys_inv_same [OF s2(2)]) (auto simp: s3_def core_def)
  have cur_in: "cur \<in> run s c" "cur \<notin> fin s c"
    using inv cur c sched_invD(4) [of s c] by (auto simp: cur_ok_def sys_inv_def)
  have mem: "members s3 = members s - {cur}"
  proof -
    have "members s3 = members s2" by (rule members_same) (simp_all add: s3_def)
    also have "\<dots> = members s1" using s2(3) by (intro balance_members [OF s2(5) _ c1]) (simp add: sys_frame_def)
    also have "\<dots> = members s - {cur}" by (rule members_without [OF inv(1) c n1 s1(3-5) cur_in])
    finally show ?thesis .
  qed
  have rem: "remaining (threads s3) = (remaining (threads s))(cur := current_remaining (sched s c))"
    using s1(6) s2(3) by (simp add: s3_def sys_frame_def)
  have n3: "cpu_num s3 = cpu_num s" using n1 s2(3) by (simp add: s3_def sys_frame_def)
  have "0 \<le> sint (remaining (threads s3) t)" if "t \<in> members s3" for t
    using that mem rem sys_ok_nonneg [OF ok(1)] by auto
  moreover have "cur_ok s3 d" if d: "d < cpu_num s" for d
  proof (cases "d = c")
    case True
    then show ?thesis unfolding s3_def by (simp add: cur_ok_head)
  next
    case False
    have "cur_ok s1 d" using ok(1) d False sch [of d] by (auto simp: sys_ok_def cur_ok_def)
    then have "cur_ok s2 d"
      using balance_cur_ok [OF s2(5) _ False] d n1 s2(3) by (simp add: sys_frame_def same_current_def)
    then show ?thesis using False by (simp add: cur_ok_def s3_def)
  qed
  ultimately have "sys_ok s3" using inv3 members_nonneg [of s3] n3 by (auto simp: sys_ok_def)
  moreover have "tick_frame s s3"
    unfolding s3_def using tick_frameI s1(7) s2(3) tick_frame_trans by metis
  moreover have "locked_only c s3" using s2(4) by (simp add: s3_def locked_only_def)
  ultimately show ?thesis using that [OF run] mem rem by (simp add: s3_def)
qed

subsection \<open>The timer tick\<close>

lemma test_runnable_step:
  assumes ok: "sys_ok s" "others_free c s" and c: "c < cpu_num s"
  obtains s' where "test_runnable c s = Some s'" "sys_ok s'" "others_free c s'" "tick_frame s s'"
    "members s' \<subseteq> members s"
proof (cases "current_thread (sched s c) \<noteq> NULL \<and> \<not> RUNNABLE_STATE (status (threads s) (current_thread (sched s c)))")
  case False
  then have "test_runnable c s = Some s" by (auto simp: test_runnable_def)
  then show ?thesis using that ok by (simp add: tick_frame_def)
next
  case True
  let ?cur = "current_thread (sched s c)"
  obtain s1 where r: "remove_current c s = Some s1" "sys_ok s1" "locked_only c s1" "tick_frame s s1"
    "current_thread (sched s1 c) = priority_heap_head (running_queue (sched s1 c))" "members s1 = members s - {?cur}"
    "remaining (threads s1) = (remaining (threads s))(?cur := current_remaining (sched s c))"
    by (rule remove_current_step [OF ok c refl]) (use True in auto)
  define s2 where "s2 = upd_sched c (\<lambda>sc. sc\<lparr>current_thread := NULL\<rparr>) s1"
  have same: "run s2 d = run s1 d" "fin s2 d = fin s1 d" "cpu_num s2 = cpu_num s1" for d by (simp_all add: s2_def)
  have run: "test_runnable c s = Some s2" using True r(1) by (simp add: test_runnable_def s2_def)
  have "sys_inv s1" using r(2) by (simp add: sys_ok_def)
  then have "sys_inv s2" by (rule sys_inv_same) (simp_all add: s2_def core_def)
  moreover have "cur_ok s2 d \<longleftrightarrow> d = c \<or> cur_ok s1 d" "keys_nonneg s2 d \<longleftrightarrow> keys_nonneg s1 d" for d
    unfolding cur_ok_def keys_nonneg_def same by (simp_all add: s2_def)
  ultimately have "sys_ok s2" using r(2) same(3) by (simp add: sys_ok_def)
  moreover have "others_free c s2" using r(3) by (simp add: s2_def others_free_def locked_only_def)
  moreover have "members s2 = members s1" by (rule members_same) (simp_all add: s2_def)
  moreover have "tick_frame s s2" unfolding s2_def by (rule tick_frame_trans [OF r(4) tick_frameI(3)])
  ultimately show ?thesis using that [OF run] r(6) by simp
qed

text \<open>A step on one CPU that keeps its threads keeps the invariant of the system.\<close>

lemma sys_ok_local:
  assumes ok: "sys_ok s" and c: "c < cpu_num s" and f: "step_frame c (- (run s c \<union> fin s c)) s s'"
    and inv: "sched_inv s' c" "cur_ok s' c" "keys_nonneg s' c"
  shows "sys_ok s'"
proof -
  have sys: "sys_inv s" using ok by (simp add: sys_ok_def)
  have "run s d \<union> fin s d \<subseteq> - (run s c \<union> fin s c)" if "d < cpu_num s" "d \<noteq> c" for d
    using sys_inv_disjoint [OF sys that(1) c that(2)] by blast
  then have s': "sys_inv s'" "\<And>d. d < cpu_num s \<Longrightarrow> d \<noteq> c \<Longrightarrow> run s' d = run s d \<and> fin s' d = fin s d"
    and keys: "\<And>d. d < cpu_num s \<Longrightarrow> d \<noteq> c \<Longrightarrow> same_keys (run s d \<union> fin s d) (threads s) (threads s')"
    using sys_inv_step [OF sys c f inv(1)] f same_keys_mono by (auto simp: step_frame_def)
  have "cur_ok s' d \<and> keys_nonneg s' d" if d: "d < cpu_num s" for d
  proof (cases "d = c")
    case False
    then show ?thesis
      using ok d s'(2) [OF d False] keys [OF d False] f
      by (auto simp: sys_ok_def cur_ok_def keys_nonneg_def step_frame_def same_keys_def)
  qed (use inv in simp)
  then show ?thesis using s'(1) f by (simp add: sys_ok_def step_frame_def)
qed

text \<open>Exclusion only writes \<^verbatim>\<open>exclusion\<close> and the flags of a scheduler.\<close>

definition excl_frame :: "kstate \<Rightarrow> kstate \<Rightarrow> bool" where
  "excl_frame s s' \<longleftrightarrow> threads s' = threads s \<and> cpu_num s' = cpu_num s \<and>
     (\<forall>d. (sched s' d)\<lparr>sched_flags := 0\<rparr> = (sched s d)\<lparr>sched_flags := 0\<rparr>)"

lemma excl_frame_simps [simp]:
  "excl_frame s s" "excl_frame s (s\<lparr>exclusion := e\<rparr>)"
  "excl_frame s (upd_sched c (\<lambda>sc. sc\<lparr>sched_flags := f sc\<rparr>) s)"
  "excl_frame s (upd_sched c (\<lambda>sc. sc\<lparr>sched_flags := f sc\<rparr>) (s\<lparr>exclusion := e\<rparr>))"
  by (simp_all add: excl_frame_def)

lemma excl_frame_trans: "excl_frame s s' \<Longrightarrow> excl_frame s' s'' \<Longrightarrow> excl_frame s s''"
  by (simp add: excl_frame_def)

lemma excl_frame_sched:
  assumes "excl_frame s s'"
  shows "core (sched s' d) = core (sched s d)" "current_thread (sched s' d) = current_thread (sched s d)"
    "current_remaining (sched s' d) = current_remaining (sched s d)" "sched_mutex (sched s' d) = sched_mutex (sched s d)"
    "running_queue (sched s' d) = running_queue (sched s d)" "finished_queue (sched s' d) = finished_queue (sched s d)"
proof -
  have eq: "(sched s' d)\<lparr>sched_flags := 0\<rparr> = (sched s d)\<lparr>sched_flags := 0\<rparr>" using assms by (simp add: excl_frame_def)
  show "core (sched s' d) = core (sched s d)" "current_thread (sched s' d) = current_thread (sched s d)"
    "current_remaining (sched s' d) = current_remaining (sched s d)" "sched_mutex (sched s' d) = sched_mutex (sched s d)"
    "running_queue (sched s' d) = running_queue (sched s d)" "finished_queue (sched s' d) = finished_queue (sched s d)"
    using arg_cong [OF eq, of core] arg_cong [OF eq, of current_thread] arg_cong [OF eq, of current_remaining]
      arg_cong [OF eq, of sched_mutex] arg_cong [OF eq, of running_queue] arg_cong [OF eq, of finished_queue]
    by (simp_all add: core_def)
qed

lemma do_exclusion_frame:
  assumes j: "join_frame j1" "join_frame j2" and run: "do_exclusion j1 j2 c s = Some (ok, s')"
  shows "excl_frame s s'"
proof -
  define st where "st = status (threads s) (current_thread (sched s c))"
  define held where "held = (sched_flags (sched s c) AND HOLDING_EXCLUSION \<noteq> 0)"
  have cur: "current_thread (sched s c) \<noteq> NULL"
    using run by (auto simp: do_exclusion_def deref_def split: if_splits)
  show ?thesis
  proof (cases "SCHED_ATOMIC \<noteq> st \<or> held")
    case False
    then show ?thesis using run cur by (auto simp: do_exclusion_def st_def held_def)
  next
    case True
    then obtain s1 s2 where s1: "(if SCHED_ATOMIC \<noteq> st \<and> held then clear_exclusion j1 s else Some s) = Some s1"
      and s2: "(if \<not> held then if SCHED_EXCLUSIVE \<noteq> st \<and> SCHED_ATOMIC \<noteq> st then set_exclusion j2 (-1) s1
           else set_exclusion j2 (int (sched_cpu_id (sched s1 c))) s1 else Some s1) = Some s2"
      and s': "s' = s2 \<or> (\<exists>w. s' = upd_sched c (\<lambda>sc. sc\<lparr>sched_flags := sched_flags sc OR w\<rparr>) s2)"
      using run cur unfolding do_exclusion_def
      by (auto simp: Let_def simp flip: st_def held_def split: if_splits Option.bind_splits)
    have "excl_frame s s1" using s1 by (auto split: if_splits dest!: clear_exclusion_frame [OF j(1)])
    moreover have "excl_frame s1 s2" using s2 by (auto split: if_splits dest!: set_exclusion_frame [OF j(2)])
    moreover have "excl_frame s2 s'" using s' by auto
    ultimately show ?thesis using excl_frame_trans by blast
  qed
qed

lemma sys_ok_same:
  assumes "sys_ok s" "threads s' = threads s" "cpu_num s' = cpu_num s" "\<And>d. core (sched s' d) = core (sched s d)"
    "\<And>d. current_thread (sched s' d) = current_thread (sched s d)"
  shows "sys_ok s'"
proof -
  have "run s' d = run s d" "fin s' d = fin s d" for d using assms(4) [of d] by (simp_all add: core_def)
  then show ?thesis
    using assms sys_inv_same [OF _ assms(3,4,2)] by (simp add: sys_ok_def cur_ok_def keys_nonneg_def)
qed

lemma chosen_sys:
  assumes ok: "sys_ok s" and c: "c < cpu_num s" and ch: "chosen c s s'"
  shows "sys_ok s'" "tick_frame s s'" "members s' = members s" "others_free c s \<Longrightarrow> others_free c s'"
    "current_thread (sched s' c) \<in> run s' c"
proof -
  have f: "step_frame c (- (run s c \<union> fin s c)) s s'" "run s' c \<union> fin s' c = run s c \<union> fin s c"
    using ch by (auto simp: chosen_def)
  show "sys_ok s'" using sys_ok_local [OF ok c f(1)] ch by (simp add: chosen_def)
  show "tick_frame s s'" by (rule tick_frameI(1) [OF f(1)])
  have "run s' d \<union> fin s' d = run s d \<union> fin s d" for d
    using f by (cases "d = c") (auto simp: step_frame_def)
  then show "members s' = members s" using f(1) by (simp add: members_def step_frame_def)
  show "others_free c s \<Longrightarrow> others_free c s'" using f(1) by (simp add: others_free_def step_frame_def)
  show "current_thread (sched s' c) \<in> run s' c" using ch by (simp add: chosen_def well_chosen_def)
qed

text \<open>The state in which a tick looks for the next thread, and that one is found.\<close>

lemma heads_null_iff:
  assumes "sched_inv s c"
  shows "(NULL = priority_heap_head (running_queue (sched s c)) \<and> NULL = priority_heap_head (finished_queue (sched s c)))
    \<longleftrightarrow> run s c \<union> fin s c = {}"
  using sched_invD(2) [OF assms] pri_queue.head_mem [of "running_queue (sched s c)"] pri_queue.head_mem [of "finished_queue (sched s c)"]
  by (auto simp: contents_empty_iff priority_heap_head_def)

text \<open>The choice of the current thread, seen from the whole system.\<close>

lemma check_current_sys:
  assumes ok: "sys_ok s" "others_free c s" and c: "c < cpu_num s" and g: "\<not> global_epoch_mutex s" and ne: "run s c \<union> fin s c \<noteq> {}"
  obtains s' where "check_current_thread c s = Some s'" "sys_ok s'" "others_free c s'" "tick_frame s s'" "members s' = members s"
    "current_thread (sched s' c) \<in> run s' c" "current_thread (sched s' c) \<noteq> NULL" "well_chosen s' c \<or> pinned s' c"
proof -
  have ic: "sched_inv s c" "cur_ok s c" "keys_nonneg s c" using ok(1) c by (auto simp: sys_ok_def sys_inv_def)
  obtain s' where ch: "check_current_thread c s = Some s'" "chosen c s s' \<or> s' = s \<and> pinned s c"
    by (rule check_current_step [OF ic ne g])
  have 1: "P s'" if "chosen c s s' \<Longrightarrow> P s'" "pinned s c \<Longrightarrow> P s" for P
    using ch(2) that by blast
  note k = chosen_sys [OF ok(1) c]
  have ok': "sys_ok s'" by (rule 1 [where P = sys_ok]) (use k(1) ok(1) in simp_all)
  moreover have "others_free c s'" by (rule 1) (use k(4) ok(2) in simp_all)
  moreover have tf: "tick_frame s s'" by (rule 1) (use k(2) in \<open>simp_all add: tick_frame_def\<close>)
  moreover have "members s' = members s" by (rule 1) (use k(3) in simp_all)
  moreover have cur: "current_thread (sched s' c) \<in> run s' c"
    by (rule 1) (use k(5) ic(2) in \<open>auto simp: pinned_def Let_def cur_ok_def\<close>)
  moreover have "well_chosen s' c \<or> pinned s' c" by (rule 1) (simp_all add: chosen_def)
  moreover have "current_thread (sched s' c) \<noteq> NULL"
    using ok' tf cur c sched_invD(2) [of s' c] by (auto simp: sys_ok_def sys_inv_def tick_frame_def)
  ultimately show ?thesis using that ch(1) by blast
qed


lemma resched_prefix:
  assumes ok: "sys_ok s" "others_free c s" and c: "c < cpu_num s" and g: "\<not> global_epoch_mutex s"
  obtains (idle) s1 where "\<And>j1 j2. sched_resched j1 j2 c s = Some (NULL, s1)" "sys_ok s1" "run s1 c \<union> fin s1 c = {}"
  | (pick) s2 where "\<And>j1 j2. sched_resched j1 j2 c s = do {
       (ok, s) \<leftarrow> do_exclusion j1 j2 c s2;
       if ok then Some (current_thread (sched s c), s)
       else Some (NULL, upd_sched c (\<lambda>sc. sc\<lparr>current_thread := NULL\<rparr>)
         (upd_threads (\<lambda>m. m\<lparr>remaining := (remaining m)(current_thread (sched s c) := current_remaining (sched s c))\<rparr>) s)) }"
     "sys_ok s2" "others_free c s2" "tick_frame s s2" "members s2 \<subseteq> members s" "current_thread (sched s2 c) \<in> run s2 c"
     "well_chosen s2 c \<or> pinned s2 c"
proof -
  define s0 where "s0 = cpu_clear_page_faults (upd_sched c (\<lambda>sc. sc\<lparr>affinity_count := affinity_count sc + cpu_page_faults s\<rparr>) s)"
  have s0: "sys_ok s0" by (rule sys_ok_same [OF ok(1)]) (auto simp: s0_def cpu_clear_page_faults_def core_def)
  have f0: "others_free c s0" "tick_frame s s0" "cpu_num s0 = cpu_num s"
    using ok(2) by (auto simp: s0_def cpu_clear_page_faults_def others_free_def tick_frame_def)
  have m0: "members s0 = members s" by (rule members_same) (simp_all add: s0_def cpu_clear_page_faults_def)
  have c0: "c < cpu_num s0" using c f0 by simp
  obtain s1 where t: "test_runnable c s0 = Some s1" "sys_ok s1" "others_free c s1" "tick_frame s0 s1" "members s1 \<subseteq> members s0"
    by (rule test_runnable_step [OF s0 f0(1) c0])
  have c1: "c < cpu_num s1" using c0 t(4) by (simp add: tick_frame_def)
  have ic: "sched_inv s1 c" "cur_ok s1 c" using t(2) c1 by (auto simp: sys_ok_def sys_inv_def)
  note empty = heads_null_iff [OF ic(1)]
  show ?thesis
  proof (cases "run s1 c \<union> fin s1 c = {}")
    case True
    then have "current_thread (sched s1 c) = NULL" using ic(2) by (simp add: cur_ok_def)
    then have "sched_resched j1 j2 c s = Some (NULL, s1)" for j1 j2
      using t(1) empty True by (simp add: sched_resched_def flip: s0_def)
    then show ?thesis using idle t(2) True by blast
  next
    case False
    define s2 where "s2 = (if NULL \<noteq> current_thread (sched s1 c)
      then upd_sched c (\<lambda>sc. sc\<lparr>current_remaining := current_remaining sc - 1\<rparr>) s1 else s1)"
    have s2: "sys_ok s2" by (rule sys_ok_same [OF t(2)]) (auto simp: s2_def core_def)
    have f2: "others_free c s2" "tick_frame s1 s2" "cpu_num s2 = cpu_num s1" "run s2 d = run s1 d" "fin s2 d = fin s1 d" for d
      using t(3) by (auto simp: s2_def others_free_def tick_frame_def)
    have c2: "c < cpu_num s2" using c1 f2 by simp
    have g2: "\<not> global_epoch_mutex s2" using g f0(2) t(4) f2(2) by (simp add: tick_frame_def)
    obtain s3 where ch: "check_current_thread c s2 = Some s3"
      and ok3: "sys_ok s3" "others_free c s3" "tick_frame s2 s3" "members s3 = members s2" "current_thread (sched s3 c) \<in> run s3 c"
        "current_thread (sched s3 c) \<noteq> NULL" "well_chosen s3 c \<or> pinned s3 c"
      by (rule check_current_sys [OF s2 f2(1) c2 g2]) (use False f2 in simp)
    have "sched_resched j1 j2 c s = do {
       (ok, s) \<leftarrow> do_exclusion j1 j2 c s3;
       if ok then Some (current_thread (sched s c), s)
       else Some (NULL, upd_sched c (\<lambda>sc. sc\<lparr>current_thread := NULL\<rparr>)
         (upd_threads (\<lambda>m. m\<lparr>remaining := (remaining m)(current_thread (sched s c) := current_remaining (sched s c))\<rparr>) s)) }" for j1 j2
      using t(1) ch ok3(6) empty [THEN iffD1] False unfolding sched_resched_def Let_def
      by (simp flip: s0_def s2_def) blast
    moreover have "members s2 = members s1" by (rule members_same) (simp_all add: f2)
    then have "members s3 \<subseteq> members s" using ok3(4) t(5) m0 by simp
    moreover have "tick_frame s s3"
      by (rule tick_frame_trans [OF f0(2) tick_frame_trans [OF t(4) tick_frame_trans [OF f2(2) ok3(3)]]])
    ultimately show ?thesis using pick ok3(1,2,5,7) by blast
  qed
qed

text \<open>With the lock of the exclusion free, only a rendezvous can keep the last part of a tick from returning.\<close>

lemma do_exclusion_returns:
  assumes cur: "current_thread (sched s c) \<noteq> NULL" and mtx: "\<not> exclusion_mutex s" and j: "join_frame j1"
    and none: "do_exclusion j1 j2 c s = None"
  shows "\<exists>x. j1 x = None \<or> j2 x = None"
proof (rule ccontr)
  assume "\<nexists>x. j1 x = None \<or> j2 x = None"
  then have "\<forall>x. j1 x \<noteq> None \<and> j2 x \<noteq> None" by simp
  then have ret: "j1 x \<noteq> None" "j2 x \<noteq> None" for x by simp_all
  have clear: "\<exists>s'. clear_exclusion j1 s = Some s' \<and> \<not> exclusion_mutex s'"
  proof -
    obtain s' where s': "clear_exclusion j1 s = Some s'" using ret(1) by (auto simp: clear_exclusion_def)
    then show ?thesis using clear_exclusion_frame [OF j s'] mtx by auto
  qed
  have set: "set_exclusion j2 n s' \<noteq> None" if "\<not> exclusion_mutex s'" for n s'
    using that ret(2) by (auto simp: set_exclusion_def)
  show False
  proof (cases "sched_flags (sched s c) AND HOLDING_EXCLUSION = 0")
    case True
    then show False using none cur set [OF mtx, of "-1"] set [OF mtx, of "int (sched_cpu_id (sched s c))"] unfolding do_exclusion_def Let_def
      by (auto split: Option.bind_splits if_splits)
  next
    case False
    then show False using none cur clear unfolding do_exclusion_def Let_def
      by (auto split: Option.bind_splits if_splits)
  qed
qed

end
