(* ===== verification/Sched_Insert.thy ===== *)
theory Sched_Insert
  imports Sched_Tick
begin

text \<open>
  Putting a thread into the queues of a CPU: \<^verbatim>\<open>sched_insert_thread\<close> and \<^verbatim>\<open>sched_restart_thread\<close>.
  Both grow the arrays before they insert, which gives room for the thread when the reallocation works.
\<close>

text \<open>
  What an insertion needs of \<^verbatim>\<open>kern_realloc\<close> when it is asked to double the array of a heap: an address, at
  least the size that was asked for, and the threads the array held.
\<close>

definition grows :: "reallocator \<Rightarrow> heap_t \<Rightarrow> bool" where
  "grows kern_realloc h \<longleftrightarrow>
     (\<forall>d. case kern_realloc (data_ptr h) (hp_max h * 2) (hp_max h) d of (p, new_max, d') \<Rightarrow>
        p \<noteq> NULL \<and> 2 * unat (hp_max h) \<le> unat new_max \<and> (\<forall>i<capacity h. d' i = d i))"

definition can_grow :: "reallocator \<Rightarrow> scheduler_t \<Rightarrow> bool" where
  "can_grow kern_realloc sc \<longleftrightarrow> grows kern_realloc (running_queue sc) \<and>
     grows kern_realloc (finished_queue sc) \<and> grows kern_realloc (affinity_queue sc)"

definition realloc_ok :: "reallocator \<Rightarrow> kstate \<Rightarrow> bool" where
  "realloc_ok kern_realloc s \<longleftrightarrow> (\<forall>c<cpu_num s. can_grow kern_realloc (sched s c))"

lemma grows_same: "same_array h h' \<Longrightarrow> grows r h' = grows r h"
  by (simp add: same_array_def grows_def capacity_def)

lemma heap_grow_keeps:
  assumes "grows r h"
  shows "hp_size (heap_grow r h n) = hp_size h" "room h k \<Longrightarrow> room (heap_grow r h n) k"
    "room h k \<Longrightarrow> room (heap_grow r h (Suc k)) (Suc k)" "i < capacity h \<Longrightarrow> data_name (heap_grow r h n) i = data_name h i"
proof -
  obtain p m d where r: "r (data_ptr h) (hp_max h * 2) (hp_max h) (data_name h) = (p, m, d)" by (metis prod_cases3)
  have pm: "p \<noteq> NULL" "2 * unat (hp_max h) \<le> unat m" "\<forall>i<capacity h. d i = data_name h i"
    using assms [unfolded grows_def, rule_format, of "data_name h"] r by simp_all
  have cap: "2 * capacity h \<le> unat m div 4" using pm(2) by (simp add: capacity_def unat_div)
  show "hp_size (heap_grow r h n) = hp_size h" "i < capacity h \<Longrightarrow> data_name (heap_grow r h n) i = data_name h i"
    using pm(3) by (simp_all add: heap_grow_def r)
  show "room h k \<Longrightarrow> room (heap_grow r h n) k" "room h k \<Longrightarrow> room (heap_grow r h (Suc k)) (Suc k)"
    using pm(1) cap by (auto simp: heap_grow_def r room_def capacity_def unat_div)
qed

lemma heap_grow_heap:
  assumes "grows r h" "hp_size h \<le> capacity h"
  shows "contents (heap_grow r h n) = contents h" "heap_ok gt pos (heap_grow r h n) = heap_ok gt pos h"
proof -
  have d: "data_name (heap_grow r h n) i = data_name h i" if "i < hp_size h" for i
    using heap_grow_keeps(4) [OF assms(1)] assms(2) that by simp
  have up: "Suc i div 2 - Suc 0 < hp_size h" if "i < hp_size h" for i using that by simp
  show "contents (heap_grow r h n) = contents h"
    unfolding contents_def elems_def heap_grow_keeps(1) [OF assms(1)] by (rule image_cong) (auto simp: d)
  show "heap_ok gt pos (heap_grow r h n) = heap_ok gt pos h"
    unfolding heap_ok_code heap_grow_keeps(1) [OF assms(1)] 
    by (intro conj_cong list.pred_cong refl) (simp_all add: d up)
qed

text \<open>A heap that holds no more threads than its array has room for can be grown.\<close>

lemma room_size: "heap_ok gt pos h \<Longrightarrow> room h k \<Longrightarrow> card (contents h) \<le> k \<Longrightarrow> hp_size h \<le> capacity h"
  using card_contents [of gt pos h] by (simp add: room_def)

lemma queues_grow_affinity:
  assumes "queues m sc None R F A" "grows r (affinity_queue sc)" "room (affinity_queue sc) (card A)"
  shows "queues m (sc\<lparr>affinity_queue := affinity_heap_grow r (affinity_queue sc) n\<rparr>) None R F A"
proof -
  have "hp_size (affinity_queue sc) \<le> capacity (affinity_queue sc)"
    using assms by (auto simp: queues_def intro: room_size)
  then show ?thesis
    using assms(1,2) by (simp add: queues_def run_ok_def affinity_heap_grow_def heap_grow_heap)
qed

lemma queues_grow_running:
  assumes "queues m sc None R F A" "grows r (running_queue sc)" "grows r (finished_queue sc)"
    "room (running_queue sc) k" "room (finished_queue sc) k" "card R \<le> k" "card F \<le> k"
  shows "queues m (sc\<lparr>running_queue := priority_heap_grow r (running_queue sc) n,
    finished_queue := priority_heap_grow r (finished_queue sc) n\<rparr>) None R F A"
proof -
  have "hp_size (running_queue sc) \<le> capacity (running_queue sc)" "hp_size (finished_queue sc) \<le> capacity (finished_queue sc)"
    using assms by (auto simp: queues_def run_ok_def intro: room_size)
  then show ?thesis
    using assms(1-3) by (simp add: queues_def run_ok_def priority_heap_grow_def heap_grow_heap)
qed

text \<open>A neutral step: no thread moves, no key of a thread in \<open>T\<close> changes and no array loses room.\<close>

definition keeps_room :: "scheduler_t \<Rightarrow> scheduler_t \<Rightarrow> bool" where
  "keeps_room sc sc' \<longleftrightarrow> (\<forall>n. (room (running_queue sc) n \<longrightarrow> room (running_queue sc') n) \<and>
     (room (finished_queue sc) n \<longrightarrow> room (finished_queue sc') n) \<and>
     (room (affinity_queue sc) n \<longrightarrow> room (affinity_queue sc') n))"

lemma keeps_room_alloc: "keeps_room sc sc' \<Longrightarrow> heaps_alloc sc n \<Longrightarrow> heaps_alloc sc' n"
  by (simp add: keeps_room_def heaps_alloc_def)

definition quiet :: "nat \<Rightarrow> ptr set \<Rightarrow> kstate \<Rightarrow> kstate \<Rightarrow> bool" where
  "quiet c T s s' \<longleftrightarrow> step_frame c T s s' \<and> same_current (sched s c) (sched s' c) \<and>
     sched_mutex (sched s' c) = sched_mutex (sched s c) \<and> keeps_room (sched s c) (sched s' c)"

lemma quiet_refl [simp]: "quiet c T s s"
  by (simp add: quiet_def keeps_room_def)

lemma quiet_trans: "quiet c T s s' \<Longrightarrow> quiet c T s' s'' \<Longrightarrow> quiet c T s s''"
  unfolding quiet_def same_current_def keeps_room_def by (metis step_frame_trans)

lemma quiet_mono: "quiet c T s s' \<Longrightarrow> T' \<subseteq> T \<Longrightarrow> quiet c T' s s'"
  unfolding quiet_def using step_frame_mono by blast

lemma quiet_qstep: "qstep c T s s' \<Longrightarrow> quiet c T s s'"
  by (auto simp: quiet_def qstep_def same_sched_def same_current_def keeps_room_def room_same)

lemma quiet_total: "quiet c T s (upd_sched c (\<lambda>sc. sc\<lparr>total_count := f sc\<rparr>) s)"
  by (simp add: quiet_def same_current_def keeps_room_def)

lemma quiet_epoch: "quiet c T s (upd_threads (\<lambda>m. m\<lparr>epoch := f m\<rparr>) s)"
  by (simp add: quiet_def keeps_room_def)

text \<open>An insertion behind the growing of its array finds room.\<close>

lemma grow_affinity_insert:
  assumes q: "cpu_queues s c None R F A" and t: "t \<notin> A" and grow: "can_grow r (sched s c)"
    and alloc: "heaps_alloc (sched s c) (card A)"
    and s1: "s1 = upd_sched c (\<lambda>sc. sc\<lparr>affinity_queue := affinity_heap_grow r (affinity_queue sc) (Suc (card A))\<rparr>) s"
  obtains s' where "affinity_insert c t s1 = Some s'" "cpu_queues s' c None R F (insert t A)"
    "quiet c (- insert t A) s s'" "same_vals (threads s) (threads s')"
    "room (affinity_queue (sched s' c)) (Suc (card A))"
    "grows r (running_queue (sched s' c))" "grows r (finished_queue (sched s' c))"
proof -
  note G = grow [unfolded can_grow_def] and L = alloc [unfolded heaps_alloc_def]
  have g: "affinity_heap_grow r = heap_grow r" by (simp add: affinity_heap_grow_def fun_eq_iff)
  have q1: "cpu_queues s1 c None R F A" using queues_grow_affinity [OF q] G L by (simp add: s1)
  have room: "room (affinity_queue (sched s1 c)) (Suc (card A))"
    using heap_grow_keeps(3) [of r "affinity_queue (sched s c)" "card A"] G L by (simp add: s1 g)
  obtain s' where s': "affinity_insert c t s1 = Some s'" "cpu_queues s' c None R F (insert t A)"
    "qstep c (- insert t A) s1 s'" "same_vals (threads s1) (threads s')"
    using affinity_insert_step [OF q1 t room] by blast
  have arr: "same_array (affinity_queue (sched s1 c)) (affinity_queue (sched s' c))"
    "same_array (running_queue (sched s c)) (running_queue (sched s' c))"
    "same_array (finished_queue (sched s c)) (finished_queue (sched s' c))"
    using s'(3) by (simp_all add: qstep_def same_sched_def s1)
  have "quiet c (- insert t A) s s1"
    using heap_grow_keeps(2) [of r "affinity_queue (sched s c)"] G
    by (auto simp: quiet_def same_current_def keeps_room_def s1 g)
  from quiet_trans [OF this quiet_qstep [OF s'(3)]] show ?thesis
    using that [OF s'(1,2)] s'(4) room G room_same [OF arr(1)] grows_same [OF arr(2)] grows_same [OF arr(3)]
    by (simp add: s1)
qed

lemma grow_running_insert:
  assumes q: "cpu_queues s c None R F A" and t: "t \<notin> R \<union> F"
    and grow: "grows r (running_queue (sched s c))" "grows r (finished_queue (sched s c))"
    and alloc: "heaps_alloc (sched s c) k" and le: "card R \<le> k" "card F \<le> k"
  obtains s' where "running_insert c t (grow_queues r c (Suc k) s) = Some s'" "cpu_queues s' c None (insert t R) F A"
    "quiet c (- insert t R) s s'" "same_vals (threads s) (threads s')"
    "room (running_queue (sched s' c)) (Suc k)" "room (finished_queue (sched s' c)) (Suc k)"
proof -
  let ?s1 = "grow_queues r c (Suc k) s"
  note L = alloc [unfolded heaps_alloc_def]
  have eq: "sched ?s1 c = (sched s c)\<lparr>running_queue := heap_grow r (running_queue (sched s c)) (Suc k),
      finished_queue := heap_grow r (finished_queue (sched s c)) (Suc k)\<rparr>"
    by (simp add: grow_queues_def priority_heap_grow_def)
  have same: "threads ?s1 = threads s" "step_frame c (- insert t R) s ?s1"
    unfolding grow_queues_def by (simp, intro step_frame_then, simp)
  have q1: "cpu_queues ?s1 c None R F A"
    using queues_grow_running [OF q grow _ _ le, of "Suc k"] L by (simp add: eq same priority_heap_grow_def)
  have room: "room (running_queue (sched ?s1 c)) (Suc k)" "room (finished_queue (sched ?s1 c)) (Suc k)"
    using heap_grow_keeps(3) [OF grow(1)] heap_grow_keeps(3) [OF grow(2)] L by (simp_all add: eq)
  obtain s' where s': "running_insert c t ?s1 = Some s'" "cpu_queues s' c None (insert t R) F A"
    "qstep c (- insert t R) ?s1 s'" "same_vals (threads ?s1) (threads s')"
    using running_insert_step [OF q1 t room_mono [OF room(1)]] le(1) by auto
  have arr: "same_array (running_queue (sched ?s1 c)) (running_queue (sched s' c))"
    "same_array (finished_queue (sched ?s1 c)) (finished_queue (sched s' c))"
    using s'(3) by (simp_all add: qstep_def same_sched_def)
  have "quiet c (- insert t R) s ?s1"
    using same(2) heap_grow_keeps(2) [OF grow(1)] heap_grow_keeps(2) [OF grow(2)]
    by (auto simp: quiet_def eq same_current_def keeps_room_def)
  from quiet_trans [OF this quiet_qstep [OF s'(3)]] show ?thesis
    using that [OF s'(1,2)] s'(4) room room_same [OF arr(1)] room_same [OF arr(2)] by (simp add: same)
qed

subsection \<open>A new thread\<close>

text \<open>What both operations leave on CPU \<open>c\<close>: the thread runs there, and nothing else changed place.\<close>

definition queued :: "nat \<Rightarrow> ptr \<Rightarrow> kstate \<Rightarrow> kstate \<Rightarrow> bool" where
  "queued c t s s' \<longleftrightarrow> sched_inv s' c \<and> run s' c = insert t (run s c) \<and> fin s' c = fin s c \<and>
     quiet c (- insert t (run s c \<union> fin s c)) s s' \<and>
     (\<forall>p. p \<noteq> t \<longrightarrow> remaining (threads s') p = remaining (threads s) p)"

lemma queued_intro:
  assumes inv: "sched_inv s c" and t: "t \<noteq> NULL"
    and q: "cpu_queues s' c None (insert t (run s c)) (fin s c) (insert t (run s c \<union> fin s c))"
    and f: "quiet c (- insert t (run s c \<union> fin s c)) s s'"
    and cpu: "cpu_id (threads s') t = c" "\<And>p. p \<noteq> t \<Longrightarrow> cpu_id (threads s') p = cpu_id (threads s) p"
    and rem: "\<And>p. p \<noteq> t \<Longrightarrow> remaining (threads s') p = remaining (threads s) p"
    and alloc: "heaps_alloc (sched s' c) (Suc (card (run s c \<union> fin s c)))"
  shows "queued c t s s'"
proof -
  note I = sched_invD [OF inv]
  have "sched_inv s' c"
  proof (rule sched_invI)
    show "cpu_queues s' c None (insert t (run s c)) (fin s c) (insert t (run s c) \<union> fin s c)" using q by simp
    show "cpu_id (threads s') p = c" if "p \<in> insert t (run s c) \<union> fin s c" for p
      using that cpu I(3) by (cases "p = t") auto
    show "heaps_alloc (sched s' c) (card (insert t (run s c) \<union> fin s c))"
      using heaps_alloc_mono [OF alloc] card_insert_le_m1 [of "Suc (card (run s c \<union> fin s c))" "run s c \<union> fin s c" t] by simp
  qed (use I t f in \<open>auto simp: quiet_def same_current_def\<close>)
  then show ?thesis using queues_sets [OF q] f rem by (simp add: queued_def)
qed

lemma sched_insert_step:
  assumes inv: "sched_inv s c" and t: "t \<notin> run s c \<union> fin s c" "t \<noteq> NULL" and r: "can_grow r (sched s c)"
  obtains s' where "sched_insert_thread r c t s = Some s'" "queued c t s s'"
    "remaining (threads s') t = soft_priority (threads s) t div 2" "cpu_id (threads s') t = c"
proof -
  note I = sched_invD [OF inv]
  let ?A = "run s c \<union> fin s c"
  have n: "hp_size (affinity_queue (sched s c)) = card ?A"
    using I(1) card_contents [of "aff_gt (threads s)" "affinity_heap_pos (threads s)" "affinity_queue (sched s c)"] by (simp add: queues_def)
  define s1 where "s1 = upd_threads (\<lambda>m. m\<lparr>cpu_id := (cpu_id m)(t := c),
      affinity := (affinity m)(t := 0), epoch := (epoch m)(t := sched_epoch (sched s c))\<rparr>)
    (upd_threads (\<lambda>m. m\<lparr>remaining := (remaining m)(t := soft_priority m t div 2)\<rparr>)
      (upd_sched c (\<lambda>sc. sc\<lparr>total_count := total_count sc + soft_priority (threads s) t\<rparr>) s))"
  define s2 where "s2 = upd_sched c (\<lambda>sc. sc\<lparr>affinity_queue := affinity_heap_grow r (affinity_queue sc) (Suc (card ?A))\<rparr>) s1"
  have "same_keys (run s c \<union> fin s c \<union> ?A) (threads s) (threads s1)"
    using t(1) by (auto simp: s1_def same_keys_def)
  from queues_cong [OF I(1) this] have q1: "cpu_queues s1 c None (run s c) (fin s c) ?A" by (simp add: s1_def queues_def)
  have f1: "quiet c (- insert t ?A) s s1"
    by (auto simp: s1_def quiet_def step_frame_def same_keys_def same_rest_def same_current_def keeps_room_def)
  have a1: "heaps_alloc (sched s1 c) (card ?A)" "can_grow r (sched s1 c)"
    using f1 I(6) keeps_room_alloc r by (auto simp: quiet_def s1_def can_grow_def)
  obtain s3 where s3: "affinity_insert c t s2 = Some s3" "cpu_queues s3 c None (run s c) (fin s c) (insert t ?A)"
    "quiet c (- insert t ?A) s1 s3" "same_vals (threads s1) (threads s3)"
    "room (affinity_queue (sched s3 c)) (Suc (card ?A))"
    "grows r (running_queue (sched s3 c))" "grows r (finished_queue (sched s3 c))"
    using grow_affinity_insert [OF q1 t(1) a1(2,1) s2_def] by blast
  define s4 where "s4 = upd_threads (\<lambda>m. m\<lparr>epoch := (epoch m)(t := sched_epoch (sched s3 c))\<rparr>) s3"
  have q4: "cpu_queues s4 c None (run s c) (fin s c) (insert t ?A)"
    using queues_cong [OF s3(2), of "threads s4"] by (simp add: s4_def same_keys_def)
  have f4: "quiet c (- insert t ?A) s s4"
    unfolding s4_def by (rule quiet_trans [OF quiet_trans [OF f1 s3(3)] quiet_epoch])
  have a4: "heaps_alloc (sched s4 c) (card ?A)" using f4 I(6) keeps_room_alloc by (auto simp: quiet_def)
  have g4: "grows r (running_queue (sched s4 c))" "grows r (finished_queue (sched s4 c))"
    using s3(6,7) by (simp_all add: s4_def)
  obtain s5 where s5: "running_insert c t (grow_queues r c (Suc (card ?A)) s4) = Some s5"
    "cpu_queues s5 c None (insert t (run s c)) (fin s c) (insert t ?A)"
    "quiet c (- insert t (run s c)) s4 s5" "same_vals (threads s4) (threads s5)"
    "room (running_queue (sched s5 c)) (Suc (card ?A))" "room (finished_queue (sched s5 c)) (Suc (card ?A))"
    using grow_running_insert [OF q4 t(1) g4 a4 card_mono card_mono] by auto
  have a5: "heaps_alloc (sched s5 c) (Suc (card ?A))"
    using s5(5,6) s3(5) s5(3) by (simp add: heaps_alloc_def quiet_def keeps_room_def s4_def)
  have run: "sched_insert_thread r c t s = Some s5"
    using s3(1) s5(1) I(5) unfolding sched_insert_thread_def Let_def
    by (simp add: s4_def s2_def s1_def n)
  have vals: "remaining (threads s5) = remaining (threads s1)" "cpu_id (threads s5) = cpu_id (threads s1)"
    using s3(4) s5(4) by (simp_all add: same_vals_def s4_def)
  have f5: "quiet c (- insert t ?A) s s5" by (rule quiet_trans [OF f4 quiet_mono [OF s5(3)]]) auto
  have "queued c t s s5"
    by (rule queued_intro [OF inv t(2) s5(2) f5]) (use a5 in \<open>simp_all add: vals s1_def\<close>)
  then show ?thesis using that [OF run] by (simp add: vals s1_def)
qed

subsection \<open>A thread that slept\<close>

text \<open>
  Waking up gives back between half and all of what the thread lacked to its priority: with
  \<open>d\<close> missing after \<open>k\<close> epochs it gets \<open>d - d div 2 ^ (k + 1)\<close>.
\<close>

lemma sint_push_bit_2:
  assumes "k \<le> 30"
  shows "sint (push_bit k (2 :: u32)) = (if k = 30 then - (2 ^ 31) else 2 ^ (k + 1))"
proof -
  have "\<forall>k\<in>set [0..<31]. sint (push_bit k (2 :: u32)) = (if k = 30 then - (2 ^ 31) else 2 ^ (k + 1))"
    by code_simp
  from bspec [OF this, of k] show ?thesis using assms by simp
qed

lemma restart_divides:
  fixes d :: int
  assumes "0 \<le> d" "d < 2 ^ 31" "k \<le> 30"
  shows "d sdiv sint (push_bit k (2 :: u32)) = d div 2 ^ (k + 1)"
proof (cases "k = 30")
  case True
  then show ?thesis using assms by (simp add: sint_push_bit_2 signed_divide_int_def)
next
  case False
  then show ?thesis using assms by (cases "d = 0") (simp_all add: sint_push_bit_2 signed_divide_int_def)
qed

lemma restart_increase_value:
  defines "k \<equiv> \<lambda>e e'. min 30 (unat (e - e' :: u32))"
  shows "uint (restart_increase e e' soft rem) =
    max 0 (sint (soft - rem)) - max 0 (sint (soft - rem)) div 2 ^ (k e e' + 1)"
proof -
  let ?d = "max 0 (sint (soft - rem))"
  have d: "0 \<le> ?d" "?d < 2 ^ 31" using sint_lt [of "soft - rem"] by simp_all
  have w: "sint (if sint (soft - rem) < 0 then 0 else soft - rem) = ?d" by simp
  have wd: "(if sint (soft - rem) < 0 then 0 else soft - rem) = word_of_int ?d" by simp
  have pow: "unat (if e - e' > 30 then 30 else e - e') = k e e'"
    by (simp add: k_def min_def word_less_nat_alt word_le_nat_alt)
  have q: "0 \<le> ?d div 2 ^ (k e e' + 1)" "?d div 2 ^ (k e e' + 1) \<le> ?d"
    using d(1) zdiv_mono2 [of ?d 1 "2 ^ (k e e' + 1)"] one_le_power [of "2 :: int" "k e e' + 1"]
    by (simp_all add: pos_imp_zdiv_nonneg_iff del: power_Suc)
  have k: "k e e' \<le> 30" by (simp add: k_def)
  have "restart_increase e e' soft rem = (if sint (soft - rem) < 0 then 0 else soft - rem) -
      word_of_int (?d sdiv sint (push_bit (k e e') (2 :: u32)))"
    unfolding restart_increase_def Let_def w pow by (rule refl)
  also have "\<dots> = word_of_int ?d - word_of_int (?d div 2 ^ (k e e' + 1))"
    unfolding restart_divides [OF d k] wd by (rule refl)
  also have "\<dots> = word_of_int (?d - ?d div 2 ^ (k e e' + 1))" by simp
  finally have eq: "restart_increase e e' soft rem = word_of_int (?d - ?d div 2 ^ (k e e' + 1))" .
  have "(2 :: int) ^ 31 \<le> 2 ^ 32" by simp
  then have "0 \<le> ?d - ?d div 2 ^ (k e e' + 1)" "?d - ?d div 2 ^ (k e e' + 1) < 2 ^ 32"
    using d(2) q by linarith+
  from mod_pos_pos_trivial [OF this] show ?thesis unfolding eq uint_word_of_int by simp
qed

lemma sched_restart_step:
  assumes inv: "sched_inv s c" and t: "t \<notin> run s c \<union> fin s c" "t \<noteq> NULL" and r: "can_grow r (sched s c)"
  obtains s' where "sched_restart_thread r c t s = Some s'" "queued c t s s'"
    "remaining (threads s') t = (if sched_epoch (sched s c) > epoch (threads s) t
       then remaining (threads s) t + restart_increase (sched_epoch (sched s c)) (epoch (threads s) t)
         (soft_priority (threads s) t) (remaining (threads s) t)
       else remaining (threads s) t)" "cpu_id (threads s') t = c"
proof -
  note I = sched_invD [OF inv]
  let ?A = "run s c \<union> fin s c"
  have n: "hp_size (affinity_queue (sched s c)) = card ?A"
    using I(1) card_contents [of "aff_gt (threads s)" "affinity_heap_pos (threads s)" "affinity_queue (sched s c)"] by (simp add: queues_def)
  define s0 where "s0 = (if sched_epoch (sched s c) > epoch (threads s) t then
     upd_threads (\<lambda>m. m\<lparr>remaining := (remaining m)(t := remaining m t +
       restart_increase (sched_epoch (sched s c)) (epoch m t) (soft_priority m t) (remaining m t))\<rparr>) s else s)"
  have s0: "sched s0 = sched s" "\<And>p. p \<noteq> t \<Longrightarrow> remaining (threads s0) p = remaining (threads s) p"
    "cpu_id (threads s0) = cpu_id (threads s)" "soft_priority (threads s0) = soft_priority (threads s)"
    by (simp_all add: s0_def)
  define s1 where "s1 = upd_threads (\<lambda>m. m\<lparr>cpu_id := (cpu_id m)(t := c), affinity := (affinity m)(t := 0)\<rparr>) s0"
  define s2 where "s2 = upd_sched c (\<lambda>sc. sc\<lparr>affinity_queue := affinity_heap_grow r (affinity_queue sc) (Suc (card ?A))\<rparr>) s1"
  have "same_keys (run s c \<union> fin s c \<union> ?A) (threads s) (threads s1)"
    using t(1) by (auto simp: s1_def s0_def same_keys_def)
  from queues_cong [OF I(1) this] have q1: "cpu_queues s1 c None (run s c) (fin s c) ?A"
    by (simp add: s1_def s0(1))
  have f1: "quiet c (- insert t ?A) s s1"
    by (auto simp: s1_def s0_def quiet_def step_frame_def same_keys_def same_rest_def same_current_def keeps_room_def)
  have a1: "heaps_alloc (sched s1 c) (card ?A)" "can_grow r (sched s1 c)"
    using f1 I(6) keeps_room_alloc r by (auto simp: quiet_def s1_def s0_def can_grow_def)
  obtain s3 where s3: "affinity_insert c t s2 = Some s3" "cpu_queues s3 c None (run s c) (fin s c) (insert t ?A)"
    "quiet c (- insert t ?A) s1 s3" "same_vals (threads s1) (threads s3)"
    "room (affinity_queue (sched s3 c)) (Suc (card ?A))"
    "grows r (running_queue (sched s3 c))" "grows r (finished_queue (sched s3 c))"
    using grow_affinity_insert [OF q1 t(1) a1(2,1) s2_def] by blast
  define s4 where "s4 = upd_sched c (\<lambda>sc. sc\<lparr>total_count := total_count sc + soft_priority (threads s3) t\<rparr>) s3"
  have q4: "cpu_queues s4 c None (run s c) (fin s c) (insert t ?A)" using s3(2) by (simp add: s4_def queues_def)
  have f4: "quiet c (- insert t ?A) s s4"
    unfolding s4_def by (rule quiet_trans [OF quiet_trans [OF f1 s3(3)] quiet_total])
  have a4: "heaps_alloc (sched s4 c) (card ?A)" using f4 I(6) keeps_room_alloc by (auto simp: quiet_def)
  have g4: "grows r (running_queue (sched s4 c))" "grows r (finished_queue (sched s4 c))"
    using s3(6,7) by (simp_all add: s4_def)
  obtain s5 where s5: "running_insert c t (grow_queues r c (Suc (card ?A)) s4) = Some s5"
    "cpu_queues s5 c None (insert t (run s c)) (fin s c) (insert t ?A)"
    "quiet c (- insert t (run s c)) s4 s5" "same_vals (threads s4) (threads s5)"
    "room (running_queue (sched s5 c)) (Suc (card ?A))" "room (finished_queue (sched s5 c)) (Suc (card ?A))"
    using grow_running_insert [OF q4 t(1) g4 a4 card_mono card_mono] by auto
  have a5: "heaps_alloc (sched s5 c) (Suc (card ?A))"
    using s5(5,6) s3(5) s5(3) by (simp add: heaps_alloc_def quiet_def keeps_room_def s4_def)
  define s6 where "s6 = upd_threads (\<lambda>m. m\<lparr>epoch := (epoch m)(t := sched_epoch (sched s5 c))\<rparr>) s5"
  have run: "sched_restart_thread r c t s = Some s6"
    using s3(1) s5(1) I(5) s0(1) unfolding sched_restart_thread_def Let_def s6_def
    by (simp add: s4_def s2_def s1_def n flip: s0_def)
  have vals: "remaining (threads s6) = remaining (threads s0)" "cpu_id (threads s6) = (cpu_id (threads s))(t := c)"
    using s3(4) s5(4) s0 by (simp_all add: same_vals_def s6_def s4_def s1_def)
  have f6: "quiet c (- insert t ?A) s s6"
    unfolding s6_def by (rule quiet_trans [OF quiet_trans [OF f4 quiet_mono [OF s5(3)]] quiet_epoch]) auto
  have q6: "cpu_queues s6 c None (insert t (run s c)) (fin s c) (insert t ?A)"
    using queues_cong [OF s5(2), of "threads s6"] by (simp add: s6_def same_keys_def)
  have a6: "heaps_alloc (sched s6 c) (Suc (card ?A))" using a5 by (simp add: s6_def)
  have "queued c t s s6"
    by (rule queued_intro [OF inv t(2) q6 f6]) (use a6 in \<open>simp_all add: vals s0(2)\<close>)
  then show ?thesis using that [OF run] by (simp add: vals) (simp add: s0_def)
qed

end
