(* ===== verification/Thread_Sched.thy ===== *)
theory Thread_Sched
  imports Sched_Insert
begin

text \<open>
  \<^verbatim>\<open>src/sched/thread_sched.c\<close>: the schedulers of all CPUs.  Threads start on the CPU with the
  lowest load; priorities are passed on to the holders of the mutexes a thread waits for.
\<close>

definition WAIT_NONE :: u32 where "WAIT_NONE = 0"
definition WAIT_MUTEX :: u32 where "WAIT_MUTEX = 1"
definition WAIT_COND :: u32 where "WAIT_COND = 2"

subsection \<open>Initialisation\<close>

text \<open>
  \<^verbatim>\<open>static_alloc\<close> gives the arrays; what they hold before the loop is the argument \<open>raw\<close>.
\<close>

definition thread_sched_static_init :: "(nat \<Rightarrow> scheduler_t) \<Rightarrow> nat \<Rightarrow> kstate \<Rightarrow> kstate" where
  "thread_sched_static_init raw num s = s\<lparr>cpu_num := num,
     schedulers := (\<lambda>i. if i < num then sched_static_init i (raw i) else raw i)\<rparr>"

fun dynamic_loop :: "(nat \<Rightarrow> nat \<Rightarrow> u32 \<Rightarrow> ptr) \<Rightarrow> (nat \<Rightarrow> nat \<Rightarrow> allocator) \<Rightarrow> (nat \<Rightarrow> nat \<Rightarrow> nat \<Rightarrow> ptr) \<Rightarrow>
    nat list \<Rightarrow> kstate \<Rightarrow> kstate option" where
  "dynamic_loop malloc kern_malloc garbage [] s = Some s"
| "dynamic_loop malloc kern_malloc garbage (i # is) s = do {
     sc \<leftarrow> sched_dynamic_init (malloc i) (kern_malloc i) (garbage i) (sched s i);
     dynamic_loop malloc kern_malloc garbage is (upd_sched i (\<lambda>_. sc) s) }"

definition thread_sched_dynamic_init :: "(nat \<Rightarrow> nat \<Rightarrow> u32 \<Rightarrow> ptr) \<Rightarrow> (nat \<Rightarrow> nat \<Rightarrow> allocator) \<Rightarrow>
    (nat \<Rightarrow> nat \<Rightarrow> nat \<Rightarrow> ptr) \<Rightarrow> kstate \<Rightarrow> kstate option" where
  "thread_sched_dynamic_init malloc kern_malloc garbage s =
     dynamic_loop malloc kern_malloc garbage [0..<cpu_num s] s"

subsection \<open>Placing threads\<close>

fun lowest_loop :: "nat list \<Rightarrow> nat \<Rightarrow> u32 \<Rightarrow> kstate \<Rightarrow> (nat \<times> kstate) option" where
  "lowest_loop [] mn cnt s = Some (mn, s)"
| "lowest_loop (i # is) mn cnt s = do {
     s \<leftarrow> lock_sched i s;
     let tc = total_count (sched s i);
     lowest_loop is (if sint cnt > sint tc then i else mn) (if sint cnt > sint tc then tc else cnt)
       (unlock_sched i s) }"

definition lowest_load :: "kstate \<Rightarrow> (nat \<times> kstate) option" where
  "lowest_load s = do {
     s \<leftarrow> lock_sched 0 s;
     let cnt = total_count (sched s 0);
     lowest_loop [1..<cpu_num s] 0 cnt (unlock_sched 0 s) }"

definition thread_insert :: "reallocator \<Rightarrow> ptr \<Rightarrow> kstate \<Rightarrow> kstate option" where
  "thread_insert kern_realloc t s = do {
     (mn, s) \<leftarrow> lowest_load s;
     let s = upd_threads (\<lambda>m. m\<lparr>status := (status m)(t := SCHED_RUNNABLE),
               run_status := (run_status m)(t := SCHED_RUNNABLE)\<rparr>) s;
     s \<leftarrow> lock_sched mn s;
     s \<leftarrow> sched_insert_thread kern_realloc mn t s;
     Some (unlock_sched mn s) }"

definition thread_restart :: "reallocator \<Rightarrow> ptr \<Rightarrow> kstate \<Rightarrow> kstate option" where
  "thread_restart kern_realloc t s = do {
     (mn, s) \<leftarrow> lowest_load s;
     let s = upd_threads (\<lambda>m. m\<lparr>status := (status m)(t := run_status m t)\<rparr>) s;
     let own = cpu_id (threads s) t;
     if mn = own then do {
       s \<leftarrow> lock_sched mn s;
       s \<leftarrow> sched_restart_thread kern_realloc mn t s;
       Some (unlock_sched mn s) }
     else do {
       s \<leftarrow> lock_sched own s;
       (swap, s) \<leftarrow> sched_exchange_thread kern_realloc own t s;
       s \<leftarrow> lock_sched mn (unlock_sched (cpu_id (threads s) t) s);
       s \<leftarrow> sched_restart_thread kern_realloc mn swap s;
       Some (unlock_sched mn s) } }"

text \<open>\<^verbatim>\<open>thread_remove\<close> unlocks the scheduler the thread's \<^verbatim>\<open>cpu_id\<close> names after the removal.\<close>

definition thread_remove :: "ptr \<Rightarrow> kstate \<Rightarrow> kstate option" where
  "thread_remove t s = do {
     s \<leftarrow> lock_sched (cpu_id (threads s) t) (timer_disable s);
     s \<leftarrow> sched_remove_thread (cpu_id (threads s) t) t s;
     Some (timer_restore (unlock_sched (cpu_id (threads s) t) s)) }"

subsection \<open>Status and priority\<close>

definition thread_set_status :: "ptr \<Rightarrow> u32 \<Rightarrow> kstate \<Rightarrow> kstate" where
  "thread_set_status t st s =
     (if st \<in> {SCHED_RUNNABLE, SCHED_NO_RESCHED, SCHED_EXCLUSIVE, SCHED_ATOMIC} then
        upd_threads (\<lambda>m. m\<lparr>run_status := (run_status m)(t := st), status := (status m)(t := st)\<rparr>) s
      else if st \<in> {SCHED_INT_SLEEP, SCHED_UNINT_SLEEP, SCHED_STOPPED} then
        upd_threads (\<lambda>m. m\<lparr>status := (status m)(t := st)\<rparr>) s
      else s)"

definition lock_data :: "ptr \<Rightarrow> kstate \<Rightarrow> kstate option" where
  "lock_data mx s = (if mx_data_mutex (mutexes s) mx then None
     else Some (s\<lparr>mutexes := (mutexes s)\<lparr>mx_data_mutex := (mx_data_mutex (mutexes s))(mx := True)\<rparr>\<rparr>))"

definition unlock_data :: "ptr \<Rightarrow> kstate \<Rightarrow> kstate" where
  "unlock_data mx s = s\<lparr>mutexes := (mutexes s)\<lparr>mx_data_mutex := (mx_data_mutex (mutexes s))(mx := False)\<rparr>\<rparr>"

definition add_pri_count :: "ptr \<Rightarrow> u32 \<Rightarrow> kstate \<Rightarrow> kstate" where
  "add_pri_count mx d s = s\<lparr>mutexes := (mutexes s)\<lparr>mx_pri_count := (mx_pri_count (mutexes s))(mx := mx_pri_count (mutexes s) mx + d)\<rparr>\<rparr>"

text \<open>The last part of the three priority functions: the time remaining follows the priority.\<close>

definition shift_remaining :: "ptr \<Rightarrow> u32 \<Rightarrow> kstate \<Rightarrow> kstate option" where
  "shift_remaining t d s = do {
     let s = (if sint (remaining (threads s) t) < 0
              then upd_threads (\<lambda>m. m\<lparr>remaining := (remaining m)(t := 0)\<rparr>) s else s);
     if RUNNABLE_STATE (status (threads s) t) then do {
       let c = cpu_id (threads s) t;
       s \<leftarrow> lock_sched c s;
       s \<leftarrow> sched_change_remaining c t (remaining (threads s) t + d) s;
       Some (unlock_sched (cpu_id (threads s) t) s) }
     else Some s }"

partial_function (option) thread_adjust_priority :: "ptr \<Rightarrow> u32 \<Rightarrow> kstate \<Rightarrow> kstate option" where
  "thread_adjust_priority t priority s = do {
     t \<leftarrow> deref t;
     s \<leftarrow> lock_thread t (timer_disable s);
     let s = upd_threads (\<lambda>m. m\<lparr>soft_priority := (soft_priority m)(t := soft_priority m t + priority)\<rparr>) s;
     s \<leftarrow> (if WAIT_MUTEX = wait_type (threads s) t \<and> \<not> RUNNABLE_STATE (status (threads s) t) then do {
             mx \<leftarrow> deref (wait_obj (threads s) t);
             s \<leftarrow> lock_data mx s;
             let s = add_pri_count mx priority s;
             s \<leftarrow> thread_adjust_priority (mx_holder (mutexes s) mx) priority s;
             Some (unlock_data mx s) }
           else Some s);
     s \<leftarrow> shift_remaining t priority s;
     Some (timer_restore (unlock_thread t s)) }"

definition thread_set_priority :: "ptr \<Rightarrow> u32 \<Rightarrow> kstate \<Rightarrow> kstate option" where
  "thread_set_priority t priority s = do {
     t \<leftarrow> deref t;
     s \<leftarrow> lock_thread t (timer_disable s);
     let diff = soft_priority (threads s) t - priority;
     let s = upd_threads (\<lambda>m. m\<lparr>soft_priority := (soft_priority m)(t := priority)\<rparr>) s;
     s \<leftarrow> (if WAIT_MUTEX = wait_type (threads s) t \<and> \<not> RUNNABLE_STATE (status (threads s) t) then do {
             mx \<leftarrow> deref (wait_obj (threads s) t);
             s \<leftarrow> lock_data mx s;
             let s = add_pri_count mx diff s;
             s \<leftarrow> thread_adjust_priority (mx_holder (mutexes s) mx) diff s;
             Some (unlock_data mx s) }
           else Some s);
     s \<leftarrow> shift_remaining t diff s;
     Some (timer_restore (unlock_thread t s)) }"

definition thread_set_hard_priority :: "ptr \<Rightarrow> u32 \<Rightarrow> kstate \<Rightarrow> kstate option" where
  "thread_set_hard_priority t priority s = do {
     t \<leftarrow> deref t;
     s \<leftarrow> lock_thread t (timer_disable s);
     let diff = hard_priority (threads s) t - priority;
     let s = upd_threads (\<lambda>m. m\<lparr>hard_priority := (hard_priority m)(t := priority),
               soft_priority := (soft_priority m)(t := soft_priority m t + diff)\<rparr>) s;
     s \<leftarrow> (if WAIT_MUTEX = wait_type (threads s) t \<and> \<not> RUNNABLE_STATE (status (threads s) t) then do {
             mx \<leftarrow> deref (wait_obj (threads s) t);
             s \<leftarrow> lock_data mx s;
             let s = add_pri_count mx diff s;
             s \<leftarrow> thread_adjust_priority (mx_holder (mutexes s) mx) diff s;
             Some (unlock_data mx s) }
           else Some s);
     s \<leftarrow> shift_remaining t diff s;
     Some (timer_restore (unlock_thread t s)) }"

subsection \<open>The CPU with the lowest load\<close>

lemma lowest_loop_min:
  assumes "\<And>i. i \<in> set is \<Longrightarrow> \<not> sched_mutex (sched s i)" "cnt = total_count (sched s mn)"
  shows "\<exists>m. lowest_loop is mn cnt s = Some (m, s) \<and> m \<in> insert mn (set is) \<and>
    (\<forall>i\<in>insert mn (set is). sint (total_count (sched s m)) \<le> sint (total_count (sched s i)))"
  using assms
proof (induction "is" arbitrary: mn cnt)
  case Nil
  then show ?case by simp
next
  case (Cons i "is")
  let ?tc = "total_count (sched s i)" and ?lt = "sint cnt > sint (total_count (sched s i))"
  obtain s1 where s1: "lock_sched i s = Some s1" "unlock_sched i s1 = s" "total_count (sched s1 i) = ?tc"
    using Cons.prems(1) [of i] unlock_lock_sched [of i s] by (auto simp: lock_sched_def)
  show ?case
  proof (cases ?lt)
    case True
    then show ?thesis using Cons.IH [of ?tc i] Cons.prems s1 by fastforce
  next
    case False
    then show ?thesis using Cons.IH [of cnt mn] Cons.prems s1 by fastforce
  qed
qed

lemma lowest_load_min:
  assumes "locks_free s" "0 < cpu_num s"
  obtains m where "lowest_load s = Some (m, s)" "m < cpu_num s"
    "\<And>i. i < cpu_num s \<Longrightarrow> sint (total_count (sched s m)) \<le> sint (total_count (sched s i))"
proof -
  obtain s1 where s1: "lock_sched 0 s = Some s1" "unlock_sched 0 s1 = s" "total_count (sched s1 0) = total_count (sched s 0)"
    "cpu_num s1 = cpu_num s"
    using assms unlock_lock_sched [of 0 s] by (auto simp: lock_sched_def locks_free_def)
  obtain m where m: "lowest_loop [1..<cpu_num s] 0 (total_count (sched s 0)) s = Some (m, s)"
    "m \<in> insert 0 (set [1..<cpu_num s])"
    "\<And>i. i \<in> insert 0 (set [1..<cpu_num s]) \<Longrightarrow> sint (total_count (sched s m)) \<le> sint (total_count (sched s i))"
    using lowest_loop_min [of "[1..<cpu_num s]" s "total_count (sched s 0)" 0] assms(1) unfolding locks_free_def
    by (metis atLeastLessThan_iff set_upt)
  have "lowest_load s = Some (m, s)" using s1 m(1) by (simp add: lowest_load_def)
  moreover have "m < cpu_num s" using m(2) assms(2) by auto
  moreover have "i \<in> insert 0 (set [1..<cpu_num s])" if "i < cpu_num s" for i using that by (cases i) auto
  ultimately show ?thesis using that m(3) by blast
qed

subsection \<open>Placing a thread keeps the system\<close>

lemma sys_ok_queued:
  assumes ok: "sys_ok s" and c: "c < cpu_num s" and t: "t \<notin> members s" and q: "queued c t s s'"
    and nn: "0 \<le> sint (remaining (threads s') t)"
  shows "sys_ok s'" "members s' = insert t (members s)" "cpu_num s' = cpu_num s"
    "\<And>d. sched_mutex (sched s' d) = sched_mutex (sched s d)"
proof -
  have f: "step_frame c (- insert t (run s c \<union> fin s c)) s s'" "same_current (sched s c) (sched s' c)"
    and sets: "sched_inv s' c" "run s' c = insert t (run s c)" "fin s' c = fin s c"
    and mtx: "sched_mutex (sched s' c) = sched_mutex (sched s c)"
    using q by (auto simp: queued_def quiet_def)
  show n: "cpu_num s' = cpu_num s" using f(1) by (simp add: step_frame_def)
  show "sched_mutex (sched s' d) = sched_mutex (sched s d)" for d
    using f(1) mtx by (cases "d = c") (auto simp: step_frame_def)
  have sys: "sys_inv s" using ok by (simp add: sys_ok_def)
  have "run s d \<union> fin s d \<subseteq> - insert t (run s c \<union> fin s c)" if "d < cpu_num s" "d \<noteq> c" for d
    using sys_inv_disjoint [OF sys that(1) c that(2)] t that by (auto simp: members_def)
  then have s': "sys_inv s'" "\<And>d. d < cpu_num s \<Longrightarrow> d \<noteq> c \<Longrightarrow> run s' d = run s d \<and> fin s' d = fin s d"
    using sys_inv_step [OF sys c f(1) sets(1)] by simp_all
  have "run s' d \<union> fin s' d = (if d = c then insert t (run s d \<union> fin s d) else run s d \<union> fin s d)" if "d < cpu_num s" for d
    using that sets s'(2) [OF that] by auto
  then show mem: "members s' = insert t (members s)" using c n by (auto simp: members_def split: if_splits)
  have "cur_ok s' d" if d: "d < cpu_num s" for d
  proof (cases "d = c")
    case True
    then show ?thesis using ok c f(2) sets(2) by (auto simp: sys_ok_def cur_ok_def same_current_def)
  next
    case False
    then have "sched s' d = sched s d" using f(1) by (simp add: step_frame_def)
    then show ?thesis using ok d by (auto simp: sys_ok_def cur_ok_def)
  qed
  moreover have "0 \<le> sint (remaining (threads s') p)" if "p \<in> members s'" for p
    using that mem nn q sys_ok_nonneg [OF ok, of p] by (cases "p = t") (auto simp: queued_def)
  ultimately show "sys_ok s'" using s'(1) members_nonneg [of s'] n by (auto simp: sys_ok_def)
qed

lemma sys_ok_view:
  assumes "sys_ok s" "\<And>T. same_keys T (threads s) (threads s')" "sched s' = sched s" "cpu_num s' = cpu_num s"
  shows "sys_ok s'"
proof -
  have "sys_inv s'" using assms(1) sched_inv_cong(1) [of s _ s'] assms(2-4) by (auto simp: sys_ok_def sys_inv_def)
  moreover have "keys_nonneg s' d = keys_nonneg s d" for d
    using assms(2) [of UNIV] assms(3) by (simp add: keys_nonneg_def same_keys_def)
  ultimately show ?thesis using assms by (simp add: sys_ok_def cur_ok_def)
qed

lemma sys_ok_status:
  assumes "sys_ok s"
  shows "sys_ok (upd_threads (\<lambda>m. m\<lparr>status := f m\<rparr>) s)" "sys_ok (upd_threads (\<lambda>m. m\<lparr>status := f m, run_status := g m\<rparr>) s)"
  by (rule sys_ok_view [OF assms]; simp add: same_keys_def)+

lemma sys_ok_mutex: "sys_ok s \<Longrightarrow> sys_ok (upd_sched c (\<lambda>sc. sc\<lparr>sched_mutex := b\<rparr>) s)"
  by (rule sys_ok_same [of s]) auto

text \<open>Locking a scheduler, queueing a thread on it and unlocking it again.\<close>

lemma placed:
  assumes ok: "sys_ok s" "locks_free s" and c: "c < cpu_num s" and t: "t \<notin> members s"
    and lock: "s1 = upd_sched c (\<lambda>sc. sc\<lparr>sched_mutex := True\<rparr>) s"
    and q: "queued c t s1 s2" and nn: "0 \<le> sint (remaining (threads s2) t)"
  shows "sys_ok (unlock_sched c s2)" "locks_free (unlock_sched c s2)" "members (unlock_sched c s2) = insert t (members s)"
    "t \<in> run (unlock_sched c s2) c" "cpu_num (unlock_sched c s2) = cpu_num s"
proof -
  have s1: "sys_ok s1" "cpu_num s1 = cpu_num s" using ok(1) lock sys_ok_mutex by auto
  have m1: "members s1 = members s" by (rule members_same) (simp_all add: lock)
  have c1: "c < cpu_num s1" using c s1 by simp
  have t1: "t \<notin> members s1" using t m1 by simp
  note k = sys_ok_queued [OF s1(1) c1 t1 q nn]
  show "sys_ok (unlock_sched c s2)" using k(1) by (simp add: unlock_sched_def sys_ok_mutex)
  show "locks_free (unlock_sched c s2)"
    using ok(2) k(3,4) s1(2) by (auto simp: locks_free_def unlock_sched_def lock)
  have "members (unlock_sched c s2) = members s2" by (rule members_same) (simp_all add: unlock_sched_def)
  then show "members (unlock_sched c s2) = insert t (members s)" using k(2) m1 by simp
  show "t \<in> run (unlock_sched c s2) c" using q by (simp add: queued_def unlock_sched_def)
  show "cpu_num (unlock_sched c s2) = cpu_num s" using k(3) s1(2) by (simp add: unlock_sched_def)
qed

lemma thread_insert_step:
  assumes ok: "sys_ok s" "locks_free s" "0 < cpu_num s" and t: "t \<notin> members s" "t \<noteq> NULL" and r: "realloc_ok r s"
  obtains c s' where "thread_insert r t s = Some s'" "c < cpu_num s"
    "\<And>d. d < cpu_num s \<Longrightarrow> sint (total_count (sched s c)) \<le> sint (total_count (sched s d))"
    "sys_ok s'" "locks_free s'" "members s' = insert t (members s)" "t \<in> run s' c"
    "status (threads s') t = SCHED_RUNNABLE" "remaining (threads s') t = soft_priority (threads s) t div 2"
proof -
  obtain c where c: "lowest_load s = Some (c, s)" "c < cpu_num s"
    "\<And>d. d < cpu_num s \<Longrightarrow> sint (total_count (sched s c)) \<le> sint (total_count (sched s d))"
    using lowest_load_min [OF ok(2,3)] by metis
  define s1 where "s1 = upd_threads (\<lambda>m. m\<lparr>status := (status m)(t := SCHED_RUNNABLE), run_status := (run_status m)(t := SCHED_RUNNABLE)\<rparr>) s"
  have s1: "sys_ok s1" "locks_free s1" "c < cpu_num s1" "members s1 = members s" "sched s1 = sched s"
    using sys_ok_status(2) [OF ok(1)] ok(2) c(2) by (simp_all add: s1_def locks_free_def members_def)
  define s2 where "s2 = upd_sched c (\<lambda>sc. sc\<lparr>sched_mutex := True\<rparr>) s1"
  have lock: "lock_sched c s1 = Some s2" using s1(2,3) by (simp add: lock_sched_def s2_def locks_free_def)
  have inv: "sched_inv s2 c" using sys_ok_mutex [OF s1(1), of c True] s1(3) by (simp add: s2_def sys_ok_def sys_inv_def)
  have grow: "can_grow r (sched s2 c)" using r c(2) s1(5) by (simp add: realloc_ok_def can_grow_def s2_def)
  have "t \<notin> run s2 c \<union> fin s2 c" using t(1) c(2) s1(4,5) by (auto simp: s2_def members_def)
  then obtain s3 where s3: "sched_insert_thread r c t s2 = Some s3" "queued c t s2 s3"
    "remaining (threads s3) t = soft_priority (threads s2) t div 2"
    using sched_insert_step [OF inv _ t(2) grow] by blast
  have t1: "t \<notin> members s1" using t(1) s1(4) by simp
  have nn: "0 \<le> sint (remaining (threads s3) t)" by (simp add: s3(3) sint_half)
  note p = placed [OF s1(1,2,3) t1 s2_def s3(2) nn]
  have run: "thread_insert r t s = Some (unlock_sched c s3)"
    using c(1) lock s3(1) by (simp add: thread_insert_def flip: s1_def)
  have "status (threads s3) = status (threads s2)" "soft_priority (threads s2) = soft_priority (threads s)"
    using s3(2) by (auto simp: queued_def quiet_def step_frame_def same_rest_def s2_def s1_def)
  then show ?thesis
    using that [OF run c(2,3)] p s1(4) s3(3) by (simp add: unlock_sched_def s2_def s1_def)
qed

text \<open>
  \<^verbatim>\<open>thread_restart\<close> calls \<^verbatim>\<open>sched_exchange_thread\<close> on the CPU the thread belongs to, and that
  function does nothing for a thread of its own CPU.
\<close>

lemma sched_exchange_own:
  assumes "cpu_id (threads s) t = sched_cpu_id (sched s c)"
  shows "sched_exchange_thread r c t s = Some (t, s)"
  using assms by (simp add: sched_exchange_thread_def Let_def)

lemma restart_bounds:
  fixes soft rem :: u32
  assumes "0 \<le> sint rem" "uint soft < 2 ^ 31"
  shows "sint rem \<le> sint (rem + restart_increase e e' soft rem)"
    "sint (rem + restart_increase e e' soft rem) \<le> max (sint rem) (sint soft)"
proof -
  let ?i = "restart_increase e e' soft rem" and ?d = "max 0 (sint (soft - rem))"
  have r: "sint rem = uint rem" "uint rem < 2 ^ 31" "sint soft = uint soft" "0 \<le> uint rem" "0 \<le> uint soft"
    using assms uint_lt2p [of rem] by (auto simp: sint_eq_uint_32 split: if_splits)
  have "sint (soft - rem) = uint soft - uint rem"
  proof -
    have "sint (soft - rem) = signed_take_bit 31 (sint soft - sint rem)"
      by (simp add: sint_word_ariths(2) [where ?'a = 32, simplified])
    also have "\<dots> = sint soft - sint rem"
      using r assms uint_ge_0 [of soft] uint_ge_0 [of rem]
      by (intro signed_take_bit_int_eq_self) linarith+
    finally show ?thesis using r by simp
  qed
  then have d: "uint rem + ?d = max (uint rem) (uint soft)" by simp
  have "0 \<le> ?d div 2 ^ (min 30 (unat (e - e')) + 1)" by (simp add: pos_imp_zdiv_nonneg_iff)
  then have i: "0 \<le> uint ?i" "uint ?i \<le> ?d"
    using restart_increase_value [of e e' soft rem] uint_ge_0 [of ?i] by linarith+
  have "uint (rem + ?i) = uint rem + uint ?i"
    using r i d assms(2) by (simp add: uint_add_lem [symmetric])
  then have "sint (rem + ?i) = uint rem + uint ?i" using r i d assms(2) by (simp add: sint_eq_uint_32)
  then show "sint rem \<le> sint (rem + ?i)" "sint (rem + ?i) \<le> max (sint rem) (sint soft)" using r i d by simp_all
qed

text \<open>On another CPU than its own, the exchange gives the thread itself back.\<close>

lemma thread_restart_run:
  assumes ok: "sys_ok s" "locks_free s" and t: "cpu_id (threads s) t < cpu_num s" and c: "lowest_load s = Some (c, s)"
    and s1: "s1 = upd_threads (\<lambda>m. m\<lparr>status := (status m)(t := run_status m t)\<rparr>) s"
    and lock: "lock_sched c s1 = Some s2" and res: "sched_restart_thread r c t s2 = Some s3"
  shows "thread_restart r t s = Some (unlock_sched c s3)"
proof (cases "c = cpu_id (threads s) t")
  case True
  then show ?thesis using c lock res by (simp add: thread_restart_def Let_def flip: s1)
next
  case False
  let ?own = "cpu_id (threads s) t"
  define s0 where "s0 = upd_sched ?own (\<lambda>sc. sc\<lparr>sched_mutex := True\<rparr>) s1"
  have same: "sched s1 = sched s" "cpu_num s1 = cpu_num s" "cpu_id (threads s1) t = ?own" by (simp_all add: s1)
  have "sched_inv s ?own" using ok(1) t by (simp add: sys_ok_def sys_inv_def)
  then have "sched_cpu_id (sched s0 ?own) = ?own" using sched_invD(5) same(1) by (simp add: s0_def)
  moreover have l: "lock_sched ?own s1 = Some s0"
    using ok(2) t same by (simp add: lock_sched_def locks_free_def s0_def)
  moreover have "cpu_id (threads s0) t = ?own" using same(3) by (simp add: s0_def)
  ultimately have s0: "lock_sched ?own s1 = Some s0" "unlock_sched ?own s0 = s1" "cpu_id (threads s0) t = ?own"
    "sched_cpu_id (sched s0 ?own) = ?own" using unlock_lock_sched [OF l] by simp_all
  have "sched_exchange_thread r ?own t s0 = Some (t, s0)" using s0 by (simp add: sched_exchange_own)
  then show ?thesis using False c lock res same(3) s0 by (simp add: thread_restart_def Let_def flip: s1)
qed

lemma thread_restart_step:
  assumes ok: "sys_ok s" "locks_free s" and t: "t \<notin> members s" "t \<noteq> NULL" "cpu_id (threads s) t < cpu_num s"
    and r: "realloc_ok r s" and keys: "0 \<le> sint (remaining (threads s) t)" "uint (soft_priority (threads s) t) < 2 ^ 31"
  obtains c s' where "thread_restart r t s = Some s'" "c < cpu_num s"
    "\<And>d. d < cpu_num s \<Longrightarrow> sint (total_count (sched s c)) \<le> sint (total_count (sched s d))"
    "sys_ok s'" "locks_free s'" "members s' = insert t (members s)" "t \<in> run s' c"
    "status (threads s') t = run_status (threads s) t"
    "sint (remaining (threads s) t) \<le> sint (remaining (threads s') t)"
    "sint (remaining (threads s') t) \<le> max (sint (remaining (threads s) t)) (sint (soft_priority (threads s) t))"
    "queue_next (threads s') = queue_next (threads s)" "queue_last (threads s') = queue_last (threads s)"
    "conds s' = conds s" "mutexes s' = mutexes s" "timer_off s' = timer_off s"
proof -
  have n: "0 < cpu_num s" using t(3) by simp
  let ?own = "cpu_id (threads s) t"
  obtain c where c: "lowest_load s = Some (c, s)" "c < cpu_num s"
    "\<And>d. d < cpu_num s \<Longrightarrow> sint (total_count (sched s c)) \<le> sint (total_count (sched s d))"
    using lowest_load_min [OF ok(2) n] by metis
  define s1 where "s1 = upd_threads (\<lambda>m. m\<lparr>status := (status m)(t := run_status m t)\<rparr>) s"
  have s1: "sys_ok s1" "locks_free s1" "c < cpu_num s1" "members s1 = members s" "sched s1 = sched s" "cpu_id (threads s1) t = ?own"
    using sys_ok_status(1) [OF ok(1)] ok(2) c(2) by (simp_all add: s1_def locks_free_def members_def)
  define s2 where "s2 = upd_sched c (\<lambda>sc. sc\<lparr>sched_mutex := True\<rparr>) s1"
  have lock: "lock_sched c s1 = Some s2" using s1(2,3) by (simp add: lock_sched_def s2_def locks_free_def)
  have inv: "sched_inv s2 c" using sys_ok_mutex [OF s1(1), of c True] s1(3) by (simp add: s2_def sys_ok_def sys_inv_def)
  have grow: "can_grow r (sched s2 c)" using r c(2) s1(5) by (simp add: realloc_ok_def can_grow_def s2_def)
  have "t \<notin> run s2 c \<union> fin s2 c" using t(1) c(2) s1(4,5) by (auto simp: s2_def members_def)
  then obtain s3 where s3: "sched_restart_thread r c t s2 = Some s3" "queued c t s2 s3"
    "remaining (threads s3) t = (if sched_epoch (sched s2 c) > epoch (threads s2) t
       then remaining (threads s2) t + restart_increase (sched_epoch (sched s2 c)) (epoch (threads s2) t)
         (soft_priority (threads s2) t) (remaining (threads s2) t) else remaining (threads s2) t)"
    using sched_restart_step [OF inv _ t(2) grow] by blast
  have same2: "remaining (threads s2) = remaining (threads s)" "soft_priority (threads s2) = soft_priority (threads s)"
    by (simp_all add: s2_def s1_def)
  have bounds: "sint (remaining (threads s) t) \<le> sint (remaining (threads s3) t)"
    "sint (remaining (threads s3) t) \<le> max (sint (remaining (threads s) t)) (sint (soft_priority (threads s) t))"
    using s3(3) restart_bounds [OF keys] same2 by auto
  have t1: "t \<notin> members s1" using t(1) s1(4) by simp
  have nn: "0 \<le> sint (remaining (threads s3) t)" using bounds(1) keys(1) by simp
  note p = placed [OF s1(1,2,3) t1 s2_def s3(2) nn]
  have run: "thread_restart r t s = Some (unlock_sched c s3)"
    by (rule thread_restart_run [OF ok t(3) c(1) s1_def lock s3(1)])
  have "same_rest (threads s2) (threads s3)" "conds s3 = conds s2" "mutexes s3 = mutexes s2" "timer_off s3 = timer_off s2"
    using s3(2) by (simp_all add: queued_def quiet_def step_frame_def)
  then show ?thesis
    using that [OF run c(2,3)] p s1(4) bounds by (simp add: unlock_sched_def s2_def s1_def same_rest_def)
qed

end
