(* ===== verification/Sched_Props.thy ===== *)
theory Sched_Props
  imports Thread_Sched
begin

text \<open>
  The properties of the schedulers, with a concrete system of two CPUs on which they are
  applied: CPU 0 runs thread 10, with thread 20 waiting and thread 30 finished for this
  epoch; CPU 1 runs thread 40, and thread 50 is in no queue.
\<close>

definition demo_sched :: "nat \<Rightarrow> ptr list \<Rightarrow> ptr list \<Rightarrow> ptr list \<Rightarrow> ptr \<Rightarrow> u32 \<Rightarrow> u32 \<Rightarrow> scheduler_t" where
  "demo_sched c rq fq aq cur cur_rem load = \<lparr>running_queue = heap_of rq, finished_queue = heap_of fq,
     running_count = 0, total_count = load, affinity_queue = heap_of aq, affinity_count = 0,
     sched_cpu_id = c, sched_mutex = False, sched_flags = 0, current_remaining = cur_rem,
     current_thread = cur, sched_epoch = 1\<rparr>"

definition demo_threads :: thread_mem where
  "demo_threads = thread_mem0\<lparr>remaining := (\<lambda>_. 0)(10 := 9, 20 := 7, 30 := 5, 40 := 6, 50 := 2),
     soft_priority := (\<lambda>_. 0)(10 := 20, 20 := 10, 30 := 8, 40 := 12, 50 := 30),
     priority_heap_pos := (\<lambda>_. 0)(10 := 1, 20 := 2, 30 := 1, 40 := 1),
     affinity := (\<lambda>_. 0)(20 := 1, 10 := 4, 30 := 3), affinity_heap_pos := (\<lambda>_. 0)(20 := 1, 10 := 2, 30 := 3, 40 := 1),
     cpu_id := (\<lambda>_. 0)(40 := 1)\<rparr>"

definition no_mutexes :: mutex_mem where
  "no_mutexes = \<lparr>mx_mutex = \<lambda>_. False, mx_num_mutex = \<lambda>_. False, mx_data_mutex = \<lambda>_. False,
     mx_num_spin = \<lambda>_. 0, mx_pri_count = \<lambda>_. 0, mx_queue = \<lambda>_. NULL, mx_holder = \<lambda>_. NULL\<rparr>"

definition no_conds :: cond_mem where
  "no_conds = \<lparr>cd_mutex = \<lambda>_. False, cd_num_mutex = \<lambda>_. False, cd_queue_mutex = \<lambda>_. False,
     cd_type_mutex = \<lambda>_. False, cd_num_spin = \<lambda>_. 0, cd_broadcast = \<lambda>_. 0, cd_queue = \<lambda>_. NULL\<rparr>"

definition demo :: kstate where
  "demo = \<lparr>threads = demo_threads,
     schedulers = (\<lambda>c. if c = 0 then demo_sched 0 [10, 20] [30] [20, 10, 30] 10 6 21 else demo_sched 1 [40] [] [40] 40 6 6),
     cpu_num = 2, page_faults = \<lambda>_. 0, cpu_space = \<lambda>_. NULL, this_cpu = 0, global_epoch = 1,
     global_epoch_mutex = False, exclusion = -1, exclusion_mutex = False, timer_off = 0,
     mutexes = no_mutexes, conds = no_conds\<rparr>"

lemma demo_heaps:
  "pri_ok demo_threads (heap_of [10, 20])" "pri_ok demo_threads (heap_of [30])" "pri_ok demo_threads (heap_of [40])"
  "pri_ok demo_threads (heap_of [])" "aff_ok demo_threads (heap_of [20, 10, 30])" "aff_ok demo_threads (heap_of [40])"
  by code_simp+

lemma demo_sched_simps [simp]:
  "running_queue (demo_sched c rq fq aq cur w l) = heap_of rq" "finished_queue (demo_sched c rq fq aq cur w l) = heap_of fq"
  "affinity_queue (demo_sched c rq fq aq cur w l) = heap_of aq" "sched_cpu_id (demo_sched c rq fq aq cur w l) = c"
  "sched_mutex (demo_sched c rq fq aq cur w l) = False" "current_thread (demo_sched c rq fq aq cur w l) = cur"
  "current_remaining (demo_sched c rq fq aq cur w l) = w" "total_count (demo_sched c rq fq aq cur w l) = l"
  by (simp_all add: demo_sched_def)

lemma demo_simps [simp]:
  "threads demo = demo_threads" "cpu_num demo = 2" "sched demo 0 = demo_sched 0 [10, 20] [30] [20, 10, 30] 10 6 21"
  "sched demo (Suc 0) = demo_sched 1 [40] [] [40] 40 6 6" "global_epoch_mutex demo = False" "exclusion demo = -1"
  "exclusion_mutex demo = False"
  by (simp_all add: demo_def)

lemma demo_room: "room (heap_of ps) n \<longleftrightarrow> n \<le> 20"
  by (simp add: room_def NULL_def)

lemma demo_ok: "sys_ok demo"
proof -
  have "sched_inv demo 0"
    by (simp add: sched_inv_def queues_def run_ok_def demo_heaps heaps_alloc_def demo_room NULL_def insert_commute)
      (simp add: demo_threads_def thread_mem0_def)
  moreover have "sched_inv demo (Suc 0)"
    by (simp add: sched_inv_def queues_def run_ok_def demo_heaps heaps_alloc_def demo_room NULL_def)
      (simp add: demo_threads_def thread_mem0_def)
  moreover have "cur_ok demo 0" "cur_ok demo (Suc 0)" by (simp_all add: cur_ok_def)
  moreover have "keys_nonneg demo 0" "keys_nonneg demo (Suc 0)"
    by (simp_all add: keys_nonneg_def demo_threads_def)
  ultimately show ?thesis by (simp add: sys_ok_def sys_inv_def less_Suc_eq numeral_2_eq_2)
qed

lemma demo_free: "locks_free demo" "others_free 0 demo"
  by (simp_all add: locks_free_def others_free_def less_Suc_eq numeral_2_eq_2)

subsection \<open>The timer tick\<close>

text \<open>C1: Whenever a timer tick hands out a thread, every CPU's queues are still well formed and
  disjoint, the thread handed out is the CPU's current one and has time left in this epoch, no
  thread was added, and, unless the current thread is in a mode that forbids rescheduling, the
  choice is the one the stored times give: either no thread of the running queue has more time
  than the chosen one had when it was chosen, or none has more than five ticks (the boost of the
  running thread) above what the chosen one has left.  The first case is wider than the boost when
  the chosen thread has used up part of its time, as \<open>stale_key_kept\<close> shows.\<close>

theorem sched_resched_sound:
  assumes "sys_ok s" "others_free c s" "c < cpu_num s" "\<not> global_epoch_mutex s" "join_frame j1" "join_frame j2"
    and run: "sched_resched j1 j2 c s = Some (t, s')" "t \<noteq> NULL"
  shows "sys_ok s' \<and> t = current_thread (sched s' c) \<and> t \<in> run s' c \<and> members s' \<subseteq> members s \<and>
    (well_chosen s' c \<or> pinned s' c)"
proof -
  obtain s2 where s2: "\<And>j1 j2. sched_resched j1 j2 c s = do {
       (ok, s) \<leftarrow> do_exclusion j1 j2 c s2;
       if ok then Some (current_thread (sched s c), s)
       else Some (NULL, upd_sched c (\<lambda>sc. sc\<lparr>current_thread := NULL\<rparr>)
         (upd_threads (\<lambda>m. m\<lparr>remaining := (remaining m)(current_thread (sched s c) := current_remaining (sched s c))\<rparr>) s)) }"
     "sys_ok s2" "members s2 \<subseteq> members s" "current_thread (sched s2 c) \<in> run s2 c" "well_chosen s2 c \<or> pinned s2 c"
  proof (rule resched_prefix [OF assms(1-4)])
    fix s1 assume "\<And>j1 j2. sched_resched j1 j2 c s = Some (NULL, s1)"
    then show thesis using run by simp
  qed (rule that)
  obtain ok s3 where d: "do_exclusion j1 j2 c s2 = Some (ok, s3)"
    using run(1) unfolding s2(1) by (cases "do_exclusion j1 j2 c s2") auto
  have "ok" using run unfolding s2(1) d by (cases ok) simp_all
  then have "do_exclusion j1 j2 c s2 = Some (ok, s')" "t = current_thread (sched s' c)"
    using run(1) d unfolding s2(1) d by auto
  then have f: "excl_frame s2 s'" and t: "t = current_thread (sched s' c)"
    using do_exclusion_frame [OF assms(5,6)] by blast+
  note k = excl_frame_sched [OF f]
  have same: "threads s' = threads s2" "cpu_num s' = cpu_num s2" using f by (simp_all add: excl_frame_def)
  have "members s' = members s2" by (rule members_same) (simp_all add: same k)
  moreover have "well_chosen s' c \<or> pinned s' c"
    using s2(5) unfolding well_chosen_def pinned_def k same by simp
  moreover have "t \<in> run s' c" using s2(4) t k by simp
  ultimately show ?thesis using sys_ok_same [OF s2(2) same k(1,2)] t s2(3) by blast
qed

lemma join_frame_Some: "join_frame Some"
  unfolding join_frame_def
proof (intro allI impI)
  fix s s' :: kstate assume "Some s = Some s'"
  then show "\<exists>e. s' = s\<lparr>exclusion := e\<rparr>" by (intro exI [of _ "exclusion s"]) simp
qed

lemma demo_tick: "map_option fst (sched_resched Some Some 0 demo) = Some 10"
  by code_simp

theorem sched_resched_sound_witness:
  "\<exists>s'. sched_resched Some Some 0 demo = Some (10, s') \<and> sys_ok s' \<and> 10 \<in> run s' 0"
proof -
  obtain s' where run: "sched_resched Some Some 0 demo = Some (10, s')"
    using demo_tick by auto
  have c: "(0 :: nat) < cpu_num demo" "\<not> global_epoch_mutex demo" "(10 :: ptr) \<noteq> NULL" by (simp_all add: NULL_def)
  from sched_resched_sound [OF demo_ok demo_free(2) c(1,2) join_frame_Some join_frame_Some run c(3)] run show ?thesis by blast
qed

text \<open>
  The test for preemption compares what the current thread has left with the head of the running
  queue, but does nothing when the current thread itself is the head, and the queue is ordered by
  the time a thread had when it was chosen.  Here thread 10 was chosen with nine ticks and has one
  left after the tick; thread 20, with seven, has waited more than the boost and is not chosen.
\<close>

definition demo_stale :: kstate where
  "demo_stale = upd_sched 0 (\<lambda>sc. sc\<lparr>current_remaining := 2\<rparr>) demo"

lemma demo_stale_run: "case sched_resched Some Some 0 demo_stale of None \<Rightarrow> False
  | Some (t, s') \<Rightarrow> t = 10 \<and> current_remaining (sched s' 0) = 1 \<and> remaining (threads s') 20 = 7 \<and> 20 \<in> run s' 0"
  by code_simp

lemma stale_key_kept:
  "\<exists>s s' x. sys_ok s \<and> sched_resched Some Some 0 s = Some (10, s') \<and> x \<in> run s' 0 \<and>
     sint (current_remaining (sched s' 0) + PRIORITY_BOOST) < sint (remaining (threads s') x)"
proof -
  obtain s' where s': "sched_resched Some Some 0 demo_stale = Some (10, s')" "current_remaining (sched s' 0) = 1"
    "remaining (threads s') 20 = 7" "20 \<in> run s' 0"
    using demo_stale_run by (auto split: option.splits)
  have "sys_ok demo_stale" by (rule sys_ok_same [OF demo_ok]) (simp_all add: demo_stale_def core_def)
  moreover have "sint (current_remaining (sched s' 0) + PRIORITY_BOOST) < sint (remaining (threads s') 20)"
    unfolding s'(2,3) by code_simp
  ultimately show ?thesis using s'(1,4) by blast
qed

text \<open>C17: On a well-formed system with the locks of the other schedulers, of the global epoch and of
  the exclusion free, the only thing that can keep a timer tick from returning is a rendezvous:
  the tick returns, or one of the two joins of the exclusion does not return from some state.\<close>

theorem sched_resched_returns:
  assumes "sys_ok s" "others_free c s" "c < cpu_num s" "\<not> global_epoch_mutex s" "\<not> exclusion_mutex s" "join_frame j1"
  shows "(\<exists>t s'. sched_resched j1 j2 c s = Some (t, s')) \<or> (\<exists>x. j1 x = None \<or> j2 x = None)"
proof (rule resched_prefix [OF assms(1-4)])
  fix s1 assume "\<And>j1 j2. sched_resched j1 j2 c s = Some (NULL, s1)"
  then show ?thesis by blast
next
  fix s2 assume run: "\<And>j1 j2. sched_resched j1 j2 c s = do {
       (ok, s) \<leftarrow> do_exclusion j1 j2 c s2;
       if ok then Some (current_thread (sched s c), s)
       else Some (NULL, upd_sched c (\<lambda>sc. sc\<lparr>current_thread := NULL\<rparr>)
         (upd_threads (\<lambda>m. m\<lparr>remaining := (remaining m)(current_thread (sched s c) := current_remaining (sched s c))\<rparr>) s)) }"
    and s2: "sys_ok s2" "tick_frame s s2" "current_thread (sched s2 c) \<in> run s2 c"
  have "c < cpu_num s2" "\<not> exclusion_mutex s2" using s2(2) assms(3,5) by (simp_all add: tick_frame_def)
  then have cur: "current_thread (sched s2 c) \<noteq> NULL"
    using s2(1,3) sched_invD(2) [of s2 c] by (auto simp: sys_ok_def sys_inv_def)
  show ?thesis
  proof (cases "do_exclusion j1 j2 c s2")
    case None
    from do_exclusion_returns [OF cur \<open>\<not> exclusion_mutex s2\<close> assms(6) this] show ?thesis by (rule disjI2)
  next
    case (Some a)
    then show ?thesis unfolding run by (cases a) auto
  qed
qed

theorem sched_resched_returns_witness:
  "\<exists>t s'. sched_resched Some Some 0 demo = Some (t, s')"
  using sched_resched_returns [OF demo_ok demo_free(2) _ _ _ join_frame_Some, of Some] by simp

subsection \<open>Load balancing\<close>

text \<open>C10: The thread a scheduler gives away is never the one it is running, and of the others it
  is one with the lowest affinity to this CPU's cache; it leaves all three queues, which stay
  well formed, and if there is no other thread the state does not change.\<close>

theorem sched_eschew_thread_correct:
  assumes "sched_inv s c"
  shows "if run s c \<union> fin s c \<subseteq> {current_thread (sched s c)} then sched_eschew_thread c s = Some (NULL, s)
    else \<exists>t s'. sched_eschew_thread c s = Some (t, s') \<and> t \<noteq> current_thread (sched s c) \<and>
       lowest_affinity (threads s) (run s c \<union> fin s c - {current_thread (sched s c)}) t \<and>
       sched_inv s' c \<and> run s' c = run s c - {t} \<and> fin s' c = fin s c - {t}"
proof (cases "run s c \<union> fin s c \<subseteq> {current_thread (sched s c)}")
  case True
  then show ?thesis using sched_eschew_none [OF assms] by simp
next
  case False
  from sched_eschew_some [OF assms this] obtain t s' where t: "sched_eschew_thread c s = Some (t, s')"
    "lowest_affinity (threads s) (run s c \<union> fin s c - {current_thread (sched s c)}) t"
    "sched_inv s' c" "run s' c = run s c - {t}" "fin s' c = fin s c - {t}" by metis
  moreover have "t \<noteq> current_thread (sched s c)" using t(2) by (simp add: lowest_affinity_def)
  ultimately show ?thesis unfolding if_not_P [OF False] by blast
qed

lemma demo_inv: "sched_inv demo 0" "sched_inv demo (Suc 0)"
  using demo_ok by (simp_all add: sys_ok_def sys_inv_def)

theorem sched_eschew_thread_correct_witness:
  "(\<exists>t s'. sched_eschew_thread 0 demo = Some (t, s') \<and> t \<noteq> 10 \<and> t \<in> {10, 20, 30}) \<and>
   sched_eschew_thread (Suc 0) demo = Some (NULL, demo)"
proof
  show "\<exists>t s'. sched_eschew_thread 0 demo = Some (t, s') \<and> t \<noteq> 10 \<and> t \<in> {10, 20, 30}"
    using sched_eschew_thread_correct [OF demo_inv(1)] by (auto simp: lowest_affinity_def)
  show "sched_eschew_thread (Suc 0) demo = Some (NULL, demo)"
    using sched_eschew_thread_correct [OF demo_inv(2)] by simp
qed

text \<open>C18: Rebalancing for CPU \<open>c\<close> returns with the lock of \<open>c\<close> held and all others free, keeps every
  scheduler well formed, and either moves nothing or moves exactly one thread, one of lowest
  affinity among those not running on the CPU with the highest load, to the running queue of
  \<open>c\<close>; no thread's time remaining and no CPU's current thread changes.  The arrays of the queues of
  \<open>c\<close> must have a slot free, since the code does not grow them; both callers have just removed a
  thread.\<close>

theorem rebalance_load_correct:
  assumes "sys_inv s" "c < cpu_num s" "others_free c s" "spare_slot s c"
  shows "\<exists>s'. rebalance_load c s = Some s' \<and> sys_inv s' \<and> locked_only c s' \<and>
    (same_threads s s' \<or> moved_thread c s s') \<and> remaining (threads s') = remaining (threads s) \<and>
    (\<forall>d. current_thread (sched s' d) = current_thread (sched s d))"
proof -
  have free: "\<forall>d<cpu_num s. d \<noteq> c \<longrightarrow> \<not> sched_mutex (sched s d)" using assms(3) by (simp add: others_free_def)
  obtain s' where "rebalance_load c s = Some s'" "sys_inv s'" "sys_frame s s'" "locked_only c s'"
    "same_threads s s' \<or> moved_thread c s s'"
    by (rule rebalance_load_step [OF assms(1,2) free assms(4)])
  then show ?thesis by (auto simp: sys_frame_def same_current_def)
qed

theorem rebalance_load_correct_witness:
  "\<exists>s'. rebalance_load (Suc 0) demo = Some s' \<and> sys_inv s' \<and> locked_only (Suc 0) s'"
proof -
  have "sys_inv demo" "Suc 0 < cpu_num demo" "others_free (Suc 0) demo" "spare_slot demo (Suc 0)"
    using demo_ok demo_free(1) by (simp_all add: sys_ok_def others_free_def locks_free_def spare_slot_def heaps_alloc_def demo_room)
  from rebalance_load_correct [OF this] show ?thesis by blast
qed

subsection \<open>Placing threads\<close>

text \<open>C11: A new thread goes to the running queue of a CPU with the lowest load, runnable and with half
  its priority as time, and the whole system stays well formed with all scheduler locks
  released, provided the queue arrays could be enlarged where that was needed.\<close>

theorem thread_insert_correct:
  assumes "sys_ok s" "locks_free s" "0 < cpu_num s" "t \<notin> members s" "t \<noteq> NULL" "realloc_ok r s"
  shows "\<exists>c s'. thread_insert r t s = Some s' \<and> c < cpu_num s \<and>
    (\<forall>d<cpu_num s. sint (total_count (sched s c)) \<le> sint (total_count (sched s d))) \<and>
    sys_ok s' \<and> locks_free s' \<and> members s' = insert t (members s) \<and> t \<in> run s' c \<and>
    status (threads s') t = SCHED_RUNNABLE \<and> remaining (threads s') t = soft_priority (threads s) t div 2"
  by (rule thread_insert_step [OF assms]) blast

lemma demo_grows: "grows (\<lambda>p n old d. (8, n, d)) (heap_of ps)"
  by (simp add: grows_def heap_of_def NULL_def)

lemma demo_new: "50 \<notin> members demo" "(50 :: ptr) \<noteq> NULL"
  by (simp_all add: members_def lessThan_Suc numeral_2_eq_2 NULL_def)

lemma demo_realloc: "realloc_ok (\<lambda>p n old d. (8, n, d)) demo"
  by (simp add: realloc_ok_def can_grow_def demo_grows less_Suc_eq numeral_2_eq_2)

theorem thread_insert_correct_witness:
  "\<exists>c s'. thread_insert (\<lambda>p n old d. (8, n, d)) 50 demo = Some s' \<and> sys_ok s' \<and> 50 \<in> run s' c"
  using thread_insert_correct [OF demo_ok demo_free(1) _ demo_new demo_realloc] by auto

text \<open>C29: A thread that wakes up goes to a CPU with the lowest load in the state it slept from, and
  the time it gets back for the epochs it missed neither takes time away nor lifts it above its
  priority.\<close>

theorem thread_restart_correct:
  assumes "sys_ok s" "locks_free s" "t \<notin> members s" "t \<noteq> NULL" "cpu_id (threads s) t < cpu_num s" "realloc_ok r s"
    "0 \<le> sint (remaining (threads s) t)" "uint (soft_priority (threads s) t) < 2 ^ 31"
  shows "\<exists>c s'. thread_restart r t s = Some s' \<and> c < cpu_num s \<and>
    (\<forall>d<cpu_num s. sint (total_count (sched s c)) \<le> sint (total_count (sched s d))) \<and>
    sys_ok s' \<and> locks_free s' \<and> members s' = insert t (members s) \<and> t \<in> run s' c \<and>
    status (threads s') t = run_status (threads s) t \<and>
    sint (remaining (threads s) t) \<le> sint (remaining (threads s') t) \<and>
    sint (remaining (threads s') t) \<le> max (sint (remaining (threads s) t)) (sint (soft_priority (threads s) t))"
  by (rule thread_restart_step [OF assms]) blast

theorem thread_restart_correct_witness:
  "\<exists>c s'. thread_restart (\<lambda>p n old d. (8, n, d)) 50 demo = Some s' \<and> sys_ok s' \<and> 50 \<in> run s' c"
proof -
  have "cpu_id (threads demo) 50 < cpu_num demo" "0 \<le> sint (remaining (threads demo) 50)"
    "uint (soft_priority (threads demo) 50) < 2 ^ 31"
    by (simp_all add: demo_threads_def thread_mem0_def)
  from thread_restart_correct [OF demo_ok demo_free(1) demo_new this(1) demo_realloc this(2,3)]
  show ?thesis by blast
qed

text \<open>The time a sleeper gets back is exactly its deficit less a fraction that halves with every
  epoch slept: with \<open>d\<close> missing to its priority after \<open>k\<close> epochs (30 at most) it gets
  \<open>d - d div 2 ^ (k + 1)\<close>, also for the largest shift, where the divisor of the code overflows.\<close>

theorem restart_increase_exact:
  "uint (restart_increase e e' soft rem) = max 0 (sint (soft - rem)) -
     max 0 (sint (soft - rem)) div 2 ^ (min 30 (unat (e - e')) + 1)"
  by (rule restart_increase_value)

subsection \<open>Removing threads\<close>

lemma balanced_cur_ok:
  assumes "same_threads s s' \<or> moved_thread c s s'" "sys_frame s s'" "d < cpu_num s" "cur_ok s d"
  shows "cur_ok s' d"
proof (cases "d = c")
  case False
  then show ?thesis
    using balance_cur_ok [OF assms(1,3) False assms(4)] assms(2) by (simp add: sys_frame_def same_current_def)
next
  case True
  have "run s d \<subseteq> run s' d" using assms(1,3) True by (auto simp: same_threads_def moved_thread_def)
  then show ?thesis using assms(2,4) by (auto simp: sys_frame_def same_current_def cur_ok_def)
qed

lemma unqueue_thread:
  assumes sys: "sys_inv s" and c: "c < cpu_num s" and t: "t \<in> run s c \<union> fin s c" "t \<noteq> current_thread (sched s c)"
  obtains s2 where "sched_remove_thread c t s = rebalance_load c s2" "sys_inv s2"
    "run s2 c = run s c - {t}" "fin s2 c = fin s c - {t}" "step_frame c (- (run s c \<union> fin s c - {t})) s s2"
    "\<And>d. d < cpu_num s \<Longrightarrow> d \<noteq> c \<Longrightarrow> run s2 d = run s d \<and> fin s2 d = fin s d"
    "remaining (threads s2) = remaining (threads s)" "current_thread (sched s2 c) = current_thread (sched s c)" "spare_slot s2 c"
proof -
  have ic: "sched_inv s c" using sys c by (simp add: sys_inv_def)
  note I = sched_invD [OF ic]
  let ?A = "run s c \<union> fin s c"
  define s1 where "s1 = upd_threads (\<lambda>m. m\<lparr>epoch := (epoch m)(t := sched_epoch (sched s c))\<rparr>)
    (upd_sched c (\<lambda>sc. sc\<lparr>total_count := total_count sc - remaining (threads s) t\<rparr>) s)"
  have q1: "cpu_queues s1 c None (run s c) (fin s c) ?A"
    using queues_cong [OF I(1), of "threads s1"] by (simp add: s1_def same_keys_def queues_def)
  obtain s2 where d: "delete_from_queue c t s1 = Some s2" "cpu_queues s2 c None (run s c - {t}) (fin s c - {t}) (?A - {t})"
    "qstep c (- (run s c \<union> fin s c \<union> ?A - {t})) s1 s2" "same_vals (threads s1) (threads s2)"
    by (rule delete_from_queue_step [OF q1 t(1) t(1)])
  have "step_frame c (- (?A - {t})) s s1" unfolding s1_def by (intro step_frame_then) simp
  then have f: "step_frame c (- (?A - {t})) s s2" "same_sched (sched s1 c) (sched s2 c)"
    using step_frame_trans [of c "- (?A - {t})" s s1 s2] d(3) by (simp_all add: qstep_def)
  have alloc: "heaps_alloc (sched s2 c) (card ?A)"
    using I(6) heaps_alloc_same [OF f(2)] by (simp add: s1_def heaps_alloc_def)
  have inv2: "sched_inv s2 c"
  proof (rule sched_invI)
    show "cpu_queues s2 c None (run s c - {t}) (fin s c - {t}) (run s c - {t} \<union> (fin s c - {t}))"
      using d(2) by (simp add: Un_Diff)
    show "heaps_alloc (sched s2 c) (card (run s c - {t} \<union> (fin s c - {t})))"
      by (rule heaps_alloc_subset [OF alloc]) auto
  qed (use I f(2) d(4) in \<open>auto simp: same_sched_def same_vals_def s1_def\<close>)
  have sub: "run s d \<union> fin s d \<subseteq> - (?A - {t})" if "d < cpu_num s" "d \<noteq> c" for d
    using sys_inv_disjoint [OF sys that(1) c that(2)] by blast
  have cids: "sched_cpu_id (sched s c) = c" "cpu_id (threads s) t = c" "sched_cpu_id (sched s2 c) = c"
    using I(5) I(3) [OF t(1)] sched_invD(5) [OF inv2] by auto
  show ?thesis
  proof (rule that)
    show "sched_remove_thread c t s = rebalance_load c s2"
      using d(1) t(2) cids by (simp add: sched_remove_thread_def Let_def s1_def)
    show "sys_inv s2" "\<And>d. d < cpu_num s \<Longrightarrow> d \<noteq> c \<Longrightarrow> run s2 d = run s d \<and> fin s2 d = fin s d"
      using sys_inv_step [OF sys c f(1) inv2] sub by simp_all
    show "run s2 c = run s c - {t}" "fin s2 c = fin s c - {t}" using queues_sets [OF d(2)] by auto
    show "remaining (threads s2) = remaining (threads s)" using d(4) by (simp add: same_vals_def s1_def)
    show "current_thread (sched s2 c) = current_thread (sched s c)" using f(2) by (simp add: same_sched_def s1_def)
    show "spare_slot s2 c"
      by (rule spare_after_removal [OF alloc _ t(1)]) (use queues_sets [OF d(2)] in auto)
  qed (rule f(1))
qed

text \<open>C30: Removing a queued thread that is not running takes exactly that thread out of the system,
  rebalances, and leaves every scheduler well formed and the CPU's lock held as on entry.\<close>

theorem sched_remove_thread_correct:
  assumes ok: "sys_ok s" "others_free c s" and c: "c < cpu_num s"
    and t: "t \<in> run s c \<union> fin s c" "t \<noteq> current_thread (sched s c)"
  shows "\<exists>s'. sched_remove_thread c t s = Some s' \<and> sys_ok s' \<and> locked_only c s' \<and> members s' = members s - {t}"
proof -
  have sys: "sys_inv s" and cur: "\<And>d. d < cpu_num s \<Longrightarrow> cur_ok s d" using ok(1) by (auto simp: sys_ok_def)
  obtain s2 where s2: "sched_remove_thread c t s = rebalance_load c s2" "sys_inv s2"
    "run s2 c = run s c - {t}" "fin s2 c = fin s c - {t}" "step_frame c (- (run s c \<union> fin s c - {t})) s s2"
    "\<And>d. d < cpu_num s \<Longrightarrow> d \<noteq> c \<Longrightarrow> run s2 d = run s d \<and> fin s2 d = fin s d"
    "remaining (threads s2) = remaining (threads s)" "current_thread (sched s2 c) = current_thread (sched s c)" "spare_slot s2 c"
    using unqueue_thread [OF sys c t] by metis
  have n2: "cpu_num s2 = cpu_num s" "\<And>d. d \<noteq> c \<Longrightarrow> sched s2 d = sched s d" using s2(5) by (auto simp: step_frame_def)
  have c2: "c < cpu_num s2" "\<forall>d<cpu_num s2. d \<noteq> c \<longrightarrow> \<not> sched_mutex (sched s2 d)"
    using c n2 ok(2) by (auto simp: others_free_def)
  obtain s3 where r: "rebalance_load c s2 = Some s3" "sys_inv s3" "sys_frame s2 s3" "locked_only c s3"
    "same_threads s2 s3 \<or> moved_thread c s2 s3"
    by (rule rebalance_load_step [OF s2(2) c2 s2(9)])
  have n3: "cpu_num s3 = cpu_num s" using r(3) n2(1) by (simp add: sys_frame_def)
  have "members s3 = members s2"
    using r(3) by (intro balance_members [OF r(5) _ c2(1)]) (simp add: sys_frame_def)
  also have "\<dots> = members s - {t}"
  proof -
    have "run s2 d \<union> fin s2 d = run s d \<union> fin s d - {t}" if "d < cpu_num s" for d
      using that s2(6) [OF that] s2(3,4) t(1) sys_inv_disjoint [OF sys that c] by (cases "d = c") auto
    then show ?thesis using n2(1) by (auto simp: members_def)
  qed
  finally have mem: "members s3 = members s - {t}" .
  have "cur_ok s2 d" if d: "d < cpu_num s" for d
    using cur [OF d] s2(3,8) t(2) n2(2) [of d] by (cases "d = c") (auto simp: cur_ok_def)
  then have "cur_ok s3 d" if "d < cpu_num s" for d
    using balanced_cur_ok [OF r(5) r(3)] that n2(1) by simp
  moreover have "\<forall>p\<in>members s3. 0 \<le> sint (remaining (threads s3) p)"
    using mem sys_ok_nonneg [OF ok(1)] r(3) s2(7) by (simp add: sys_frame_def)
  ultimately have "sys_ok s3" using r(2) n3 members_nonneg [of s3] by (simp add: sys_ok_def)
  then show ?thesis using s2(1) r(1,4) mem by metis
qed

theorem sched_remove_thread_correct_witness:
  "\<exists>s'. sched_remove_thread 0 20 demo = Some s' \<and> sys_ok s' \<and> locked_only 0 s' \<and> members s' = members demo - {20}"
  by (rule sched_remove_thread_correct [OF demo_ok demo_free(2)]) simp_all

text \<open>Removing the running thread when it is the last one of the system does not return: unless
  this CPU holds the exclusion, the code writes through the null current thread.\<close>

theorem sched_remove_resched_last_faults:
  assumes ok: "sys_ok s" "others_free c s" and c: "c < cpu_num s"
    and last: "members s = {current_thread (sched s c)}" "current_thread (sched s c) \<noteq> NULL" "exclusion s \<noteq> int c"
  shows "sched_remove_resched c s = None"
proof -
  obtain s1 where r: "remove_current c s = Some s1" "sys_ok s1" "locked_only c s1" "tick_frame s s1"
    "current_thread (sched s1 c) = priority_heap_head (running_queue (sched s1 c))"
    "members s1 = members s - {current_thread (sched s c)}"
    using remove_current_step [OF ok c refl last(2)] by metis
  have c1: "c < cpu_num s1" using c r(4) by (simp add: tick_frame_def)
  then have "run s1 c = {}" "fin s1 c = {}" using r(6) last(1) by (auto simp: members_def)
  then have heads: "priority_heap_head (running_queue (sched s1 c)) = NULL" "priority_heap_head (finished_queue (sched s1 c)) = NULL"
    by (simp_all add: contents_empty_iff priority_heap_head_def)
  have "sched_cpu_id (sched s1 c) = c" using r(2) c1 sched_invD(5) by (simp add: sys_ok_def sys_inv_def)
  moreover have "exclusion s1 = exclusion s" using r(4) by (simp add: tick_frame_def)
  ultimately show ?thesis
    using r(1,5) heads last(3) by (simp add: sched_remove_resched_def check_exclusion_specific_def deref_def)
qed

definition demo_last :: kstate where
  "demo_last = demo\<lparr>cpu_num := 2, schedulers := (\<lambda>c. if c = 0 then demo_sched 0 [] [] [] NULL 0 0
     else demo_sched 1 [40] [] [40] 40 6 6)\<rparr>"

theorem sched_remove_resched_last_faults_witness: "sched_remove_resched (Suc 0) demo_last = None"
proof -
  have s: "sched demo_last 0 = demo_sched 0 [] [] [] NULL 0 0" "sched demo_last (Suc 0) = demo_sched 1 [40] [] [40] 40 6 6"
    "threads demo_last = demo_threads" "cpu_num demo_last = 2" "exclusion demo_last = -1"
    by (simp_all add: demo_last_def)
  have heaps: "aff_ok demo_threads (heap_of [])" by code_simp
  have "sched_inv demo_last 0" "sched_inv demo_last (Suc 0)"
    using demo_inv(2) heaps by (simp_all add: s sched_inv_def queues_def run_ok_def demo_heaps heaps_alloc_def demo_room NULL_def)
  moreover have "keys_nonneg demo_last 0" "keys_nonneg demo_last (Suc 0)"
    by (simp_all add: s keys_nonneg_def demo_threads_def)
  ultimately have ok: "sys_ok demo_last"
    by (simp add: sys_ok_def sys_inv_def less_Suc_eq numeral_2_eq_2 s cur_ok_def)
  have "others_free (Suc 0) demo_last" by (simp add: others_free_def s less_Suc_eq numeral_2_eq_2)
  from sched_remove_resched_last_faults [OF ok this] show ?thesis
    by (simp add: s members_def lessThan_Suc numeral_2_eq_2 NULL_def)
qed

subsection \<open>Two defects of the tick\<close>

definition demo_sleep :: kstate where
  "demo_sleep = upd_threads (\<lambda>m. m\<lparr>status := (status m)(10 := SCHED_INT_SLEEP)\<rparr>) demo"

lemma demo_sleep_run: "case sched_resched Some Some 0 demo_sleep of None \<Rightarrow> False
  | Some (t, s') \<Rightarrow> sched_mutex (sched s' 0) \<and> (case lowest_load s' of None \<Rightarrow> True | Some _ \<Rightarrow> False)"
  by code_simp

text \<open>The tick of a CPU whose thread has gone to sleep leaves that CPU's scheduler locked:
  \<^verbatim>\<open>rebalance_load\<close> expects its caller to hold the lock and takes it before it returns, but the
  timer interrupt never took it.  After such a tick the search for the least loaded CPU spins
  forever.\<close>

theorem tick_leaves_lock_held:
  "\<exists>s t s'. sys_ok s \<and> locks_free s \<and> sched_resched Some Some 0 s = Some (t, s') \<and>
     sched_mutex (sched s' 0) \<and> lowest_load s' = None"
proof -
  have "sys_ok demo_sleep" unfolding demo_sleep_def by (rule sys_ok_status(1) [OF demo_ok])
  moreover have "locks_free demo_sleep" using demo_free(1) by (simp add: locks_free_def demo_sleep_def)
  moreover obtain t s' where "sched_resched Some Some 0 demo_sleep = Some (t, s')" "sched_mutex (sched s' 0)" "lowest_load s' = None"
    using demo_sleep_run by (auto split: option.splits) fastforce
  ultimately show ?thesis by blast
qed

definition join_taken :: join where
  "join_taken s = Some (s\<lparr>exclusion := 1\<rparr>)"

lemma join_taken_run: "case sched_resched Some join_taken 0 demo of None \<Rightarrow> False
  | Some (t, s') \<Rightarrow> t = 0 \<and> \<not> pri_ok (threads s') (running_queue (sched s' 0))"
  by code_simp

text \<open>When another CPU has taken the exclusion, the tick writes the time left of the thread it
  just chose into that thread without moving it in the running queue, and so destroys the heap
  order it started with.\<close>

theorem exclusion_breaks_heap:
  "\<exists>s j s'. sys_ok s \<and> join_frame j \<and> sched_resched Some j 0 s = Some (NULL, s') \<and>
     \<not> pri_ok (threads s') (running_queue (sched s' 0))"
proof -
  have "join_frame join_taken" by (auto simp: join_frame_def join_taken_def)
  moreover obtain s' where "sched_resched Some join_taken 0 demo = Some (NULL, s')"
    "\<not> pri_ok (threads s') (running_queue (sched s' 0))"
    using join_taken_run by (auto simp: NULL_def split: option.splits)
  ultimately show ?thesis using demo_ok by blast
qed

subsection \<open>Changing a priority\<close>

lemma set_key_remaining:
  assumes "pri_ok m h" "x \<in> contents h"
  shows "remaining (fst (priority_heap_set_key m h (priority_heap_pos m x) val)) x = val"
    "same_rest m (fst (priority_heap_set_key m h (priority_heap_pos m x) val))"
    "cpu_id (fst (priority_heap_set_key m h (priority_heap_pos m x) val)) = cpu_id m"
  using heap_ok_mem_iff [OF assms(1), of x] assms(2)
  by (auto simp: priority_heap_set_key_def Let_def same_rest_def split: prod.splits)

lemma change_remaining_key:
  assumes q: "cpu_queues s c None R F A" "t \<in> R \<union> F" "t \<noteq> current_thread (sched s c)"
  obtains s' where "sched_change_remaining c t val s = Some s'" "remaining (threads s') t = val"
    "same_rest (threads s) (threads s')" "cpu_id (threads s') = cpu_id (threads s)"
proof -
  define s1 where "s1 = upd_sched c (\<lambda>sc. sc\<lparr>total_count := total_count sc + (val - remaining (threads s) t)\<rparr>) s"
  have q1: "cpu_queues s1 c None R F A" using q(1) by (simp add: s1_def queues_def)
  let ?f = "\<lambda>m h. priority_heap_set_key m h (priority_heap_pos (threads s1) t) val"
  have run: "sched_change_remaining c t val s = Some (if t \<in> R then on_running c ?f s1 else on_finished c ?f s1)"
    using q(3) in_running_iff [OF q1 q(2)] by (simp add: sched_change_remaining_def Let_def flip: s1_def)
  have ok: "pri_ok (threads s) (running_queue (sched s c))" "pri_ok (threads s) (finished_queue (sched s c))"
    "run s c = R" "fin s c = F" using q(1) by (auto simp: queues_def run_ok_def)
  show ?thesis
  proof (cases "t \<in> R")
    case True
    then show ?thesis using that [OF run] set_key_remaining [OF ok(1)] ok(3) by (simp add: s1_def)
  next
    case False
    then show ?thesis using that [OF run] set_key_remaining [OF ok(2)] ok(4) q(2) by (simp add: s1_def)
  qed
qed

text \<open>Setting the priority of a queued thread to \<open>p\<close> adds the old priority less \<open>p\<close> to its time
  remaining: the sign is reversed, so that a thread whose priority is raised from 10 to 15 loses
  five ticks and one whose priority is lowered gains them.\<close>

theorem thread_set_priority_effect:
  assumes ok: "sys_ok s" "locks_free s" and c: "c < cpu_num s" and t: "t \<in> run s c \<union> fin s c"
    "t \<noteq> current_thread (sched s c)" "RUNNABLE_STATE (status (threads s) t)" "\<not> sync_mutex (threads s) t"
  shows "\<exists>s'. thread_set_priority t p s = Some s' \<and> soft_priority (threads s') t = p \<and>
    remaining (threads s') t = remaining (threads s) t + (soft_priority (threads s) t - p)"
proof -
  have ic: "sched_inv s c" and nn: "0 \<le> sint (remaining (threads s) t)"
    using ok(1) c t(1) sys_ok_nonneg [OF ok(1), of t] by (auto simp: sys_ok_def sys_inv_def members_def)
  note I = sched_invD [OF ic]
  have t0: "t \<noteq> NULL" "cpu_id (threads s) t = c" using I(2) I(3) [OF t(1)] t(1) by auto
  let ?d = "soft_priority (threads s) t - p"
  define s1 where "s1 = upd_threads (\<lambda>m. m\<lparr>sync_mutex := (sync_mutex m)(t := True)\<rparr>) (timer_disable s)"
  define s2 where "s2 = upd_threads (\<lambda>m. m\<lparr>soft_priority := (soft_priority m)(t := p)\<rparr>) s1"
  define s3 where "s3 = upd_sched c (\<lambda>sc. sc\<lparr>sched_mutex := True\<rparr>) s2"
  have s2: "sched s2 = sched s" "remaining (threads s2) = remaining (threads s)" "status (threads s2) = status (threads s)"
    "cpu_id (threads s2) = cpu_id (threads s)" "soft_priority (threads s2) t = p"
    by (simp_all add: s2_def s1_def)
  have "queues (threads s2) (sched s c) None (run s c) (fin s c) (run s c \<union> fin s c)"
    using queues_cong [OF I(1), of "threads s2"] by (simp add: s2_def s1_def same_keys_def)
  then have q3: "cpu_queues s3 c None (run s c) (fin s c) (run s c \<union> fin s c)"
    by (simp add: s3_def s2(1) queues_def)
  have t3: "t \<noteq> current_thread (sched s3 c)" using t(2) s2(1) by (simp add: s3_def)
  obtain s4 where s4: "sched_change_remaining c t (remaining (threads s3) t + ?d) s3 = Some s4"
    "remaining (threads s4) t = remaining (threads s3) t + ?d" "same_rest (threads s3) (threads s4)"
    "cpu_id (threads s4) = cpu_id (threads s3)"
    by (rule change_remaining_key [OF q3 t(1) t3])
  have lock: "lock_sched c s2 = Some s3" using ok(2) c s2(1) by (simp add: lock_sched_def locks_free_def s3_def)
  have "shift_remaining t ?d s2 = Some (unlock_sched c s4)"
    using nn t(3) t0 s2 lock s4 by (simp add: shift_remaining_def Let_def s3_def)
  then have "thread_set_priority t p s = Some (timer_restore (unlock_thread t (unlock_sched c s4)))"
    using t0(1) t(3,4) by (simp add: thread_set_priority_def lock_thread_def s2_def s1_def)
  moreover have "soft_priority (threads s4) t = p" using s4(3) s2(5) by (simp add: same_rest_def s3_def)
  ultimately show ?thesis using s4(2) s2(2) by (simp add: unlock_thread_def unlock_sched_def s3_def)
qed

theorem thread_set_priority_effect_witness:
  "\<exists>s'. thread_set_priority 20 15 demo = Some s' \<and> remaining (threads s') 20 = 2"
proof -
  have "RUNNABLE_STATE (status (threads demo) 20)" "\<not> sync_mutex (threads demo) 20" by code_simp+
  moreover have "(20 :: ptr) \<in> run demo 0 \<union> fin demo 0" "20 \<noteq> current_thread (sched demo 0)" "0 < cpu_num demo" by simp_all
  moreover have "remaining (threads demo) 20 + (soft_priority (threads demo) 20 - 15) = 2"
    by (simp add: demo_threads_def)
  ultimately show ?thesis
    using thread_set_priority_effect [OF demo_ok demo_free(1), of 0 20 15] by auto
qed

subsection \<open>Start-up\<close>

definition empty_queues :: "scheduler_t \<Rightarrow> bool" where
  "empty_queues sc \<longleftrightarrow> heaps_alloc sc 0 \<and> hp_size (running_queue sc) = 0 \<and> hp_size (finished_queue sc) = 0 \<and>
     hp_size (affinity_queue sc) = 0"

lemma empty_heap: "hp_size h = 0 \<Longrightarrow> heap_ok gt pos h \<and> contents h = {}"
  by (simp add: heap_ok_def positions_def ordered_def contents_def elems_def)

lemma empty_sched_inv:
  assumes "empty_queues (sched s c)" "sched_cpu_id (sched s c) = c"
  shows "sched_inv s c" "run s c = {}" "fin s c = {}"
  using assms empty_heap by (auto simp: empty_queues_def sched_inv_def queues_def run_ok_def)

lemma dynamic_loop_inits:
  assumes "\<And>i k n. malloc i k n \<noteq> NULL" "\<And>i k n. fst (kern_malloc i k n) \<noteq> NULL" "\<And>i k n. n \<le> snd (kern_malloc i k n)"
  shows "\<exists>s'. dynamic_loop malloc kern_malloc garbage xs s = Some s' \<and> threads s' = threads s \<and> cpu_num s' = cpu_num s \<and>
    (\<forall>i. current_thread (sched s' i) = current_thread (sched s i) \<and> sched_cpu_id (sched s' i) = sched_cpu_id (sched s i) \<and>
      (i \<in> set xs \<or> empty_queues (sched s i) \<longrightarrow> empty_queues (sched s' i)))"
proof (induction xs arbitrary: s)
  case Nil
  then show ?case by simp
next
  case (Cons i xs)
  have slots: "0 < unat (snd (kern_malloc i k 80) div 4)" for k
    using assms(3) [of 80 i k] by (simp add: unat_div word_le_nat_alt)
  obtain sc where sc: "sched_dynamic_init (malloc i) (kern_malloc i) (garbage i) (sched s i) = Some sc"
    "current_thread sc = current_thread (sched s i)" "sched_cpu_id sc = sched_cpu_id (sched s i)" "empty_queues sc"
    using assms(1,2) slots by (auto simp: sched_dynamic_init_def priority_heap_init_def affinity_heap_init_def empty_queues_def
        heaps_alloc_def room_def capacity_def case_prod_unfold)
  show ?case
    using Cons.IH [of "upd_sched i (\<lambda>_. sc) s"] sc by (auto split: if_splits)
qed

text \<open>Initialisation, with memory of the size asked for available for the queues, gives a system in which every scheduler
  is well formed and no thread is queued.\<close>

theorem sched_init_correct:
  assumes "\<And>i k n. malloc i k n \<noteq> NULL" "\<And>i k n. fst (kern_malloc i k n) \<noteq> NULL" "\<And>i k n. n \<le> snd (kern_malloc i k n)"
  shows "\<exists>s'. thread_sched_dynamic_init malloc kern_malloc garbage (thread_sched_static_init raw num s) = Some s' \<and>
    cpu_num s' = num \<and> sys_ok s' \<and> members s' = {}"
proof -
  let ?s = "thread_sched_static_init raw num s"
  obtain s' where s': "dynamic_loop malloc kern_malloc garbage [0..<num] ?s = Some s'" "cpu_num s' = cpu_num ?s"
    "\<And>i. current_thread (sched s' i) = current_thread (sched ?s i)" "\<And>i. sched_cpu_id (sched s' i) = sched_cpu_id (sched ?s i)"
    "\<And>i. i < num \<Longrightarrow> empty_queues (sched s' i)"
    using dynamic_loop_inits [where malloc = malloc and kern_malloc = kern_malloc and garbage = garbage and xs = "[0..<num]" and s = ?s] assms
    by fastforce
  have n: "cpu_num ?s = num" by (simp add: thread_sched_static_init_def)
  have cpu: "sched_cpu_id (sched s' i) = i" "current_thread (sched s' i) = NULL" if "i < num" for i
    using that s'(3,4) by (simp_all add: thread_sched_static_init_def sched_static_init_def)
  have e: "sched_inv s' i" "run s' i = {}" "fin s' i = {}" if "i < num" for i
    using empty_sched_inv [OF s'(5) cpu(1)] that by simp_all
  have "sys_ok s'" using e cpu s'(2) n by (simp add: sys_ok_def sys_inv_def cur_ok_def keys_nonneg_def)
  moreover have "members s' = {}" using e s'(2) n by (auto simp: members_def)
  ultimately show ?thesis using s'(1,2) n by (simp add: thread_sched_dynamic_init_def)
qed

theorem sched_init_correct_witness:
  "\<exists>s'. thread_sched_dynamic_init (\<lambda>_ _ _. 4) (\<lambda>_ _ n. (8, n)) (\<lambda>_ _ _. 0)
     (thread_sched_static_init (\<lambda>_. demo_sched 7 [] [] [] 3 0 0) 2 demo) = Some s' \<and> cpu_num s' = 2 \<and> sys_ok s' \<and> members s' = {}"
  by (rule sched_init_correct) (simp_all add: NULL_def)

end
