(* ===== verification/Circular_List.thy ===== *)
theory Circular_List
  imports Prelude
begin

text \<open>
  \<^verbatim>\<open>CIRCULAR_LIST\<close> of \<^verbatim>\<open>include/data_structures.h\<close>: a doubly linked ring, instantiated for the
  threads that wait on a mutex or a condition variable.  The links are the two functions \<open>nxt\<close>
  and \<open>lst\<close>; a list is the pointer to its first element or \<open>NULL\<close>.
\<close>

type_synonym links = "(ptr \<Rightarrow> ptr) \<times> (ptr \<Rightarrow> ptr)"

definition clist_insert :: "ptr \<Rightarrow> ptr \<Rightarrow> links \<Rightarrow> ptr \<times> links" where
  "clist_insert list inn lk = (case lk of (nxt, lst) \<Rightarrow>
     if NULL = list then (inn, nxt(inn := inn), lst(inn := inn))
     else
       let nxt = nxt(inn := list);
           lst = lst(inn := lst list);
           nxt = nxt(lst list := inn);
           lst = lst(list := inn)
       in (inn, nxt, lst))"

definition clist_delete :: "ptr \<Rightarrow> links \<Rightarrow> ptr \<times> links" where
  "clist_delete list lk = (case lk of (nxt, lst) \<Rightarrow>
     if NULL \<noteq> list \<and> list \<noteq> nxt list then
       let nxt = nxt(lst list := nxt list);
           lst = lst(nxt list := lst list)
       in (nxt list, nxt, lst)
     else (NULL, nxt, lst))"

subsection \<open>Rings\<close>

text \<open>\<open>ring ps\<close>: following \<open>nxt\<close> from the first element of \<open>ps\<close> visits \<open>ps\<close> in order and returns.\<close>

fun linked :: "links \<Rightarrow> ptr list \<Rightarrow> bool" where
  "linked lk (x # y # zs) \<longleftrightarrow> fst lk x = y \<and> snd lk y = x \<and> linked lk (y # zs)"
| "linked lk _ \<longleftrightarrow> True"

definition ring :: "links \<Rightarrow> ptr list \<Rightarrow> bool" where
  "ring lk ps \<longleftrightarrow> distinct ps \<and> NULL \<notin> set ps \<and> linked lk ps \<and>
     (ps \<noteq> [] \<longrightarrow> fst lk (last ps) = hd ps \<and> snd lk (hd ps) = last ps)"

definition clist_head :: "ptr list \<Rightarrow> ptr" where
  "clist_head ps = (case ps of [] \<Rightarrow> NULL | p # _ \<Rightarrow> p)"

lemma linked_cong:
  assumes "\<And>x. x \<in> set (butlast ps) \<Longrightarrow> fst lk' x = fst lk x" "\<And>x. x \<in> set (tl ps) \<Longrightarrow> snd lk' x = snd lk x"
  shows "linked lk' ps = linked lk ps"
  using assms by (induction lk ps rule: linked.induct) auto

lemma linked_append_last:
  "linked lk (ps @ [x]) \<longleftrightarrow> linked lk ps \<and> (ps \<noteq> [] \<longrightarrow> fst lk (last ps) = x \<and> snd lk x = last ps)"
  by (induction lk ps rule: linked.induct) auto

lemma butlast_not_last: "distinct ps \<Longrightarrow> y \<in> set (butlast ps) \<Longrightarrow> y \<noteq> last ps"
  by (induction ps) (auto split: if_splits)

lemma ring_rotate:
  assumes "ring lk (p # ps)"
  shows "ring lk (ps @ [p])"
proof (cases ps)
  case (Cons q qs)
  then have "linked lk ps" "fst lk p = q" "snd lk q = p" "fst lk (last ps) = p" "snd lk p = last ps"
    using assms by (auto simp: ring_def)
  then have "linked lk (ps @ [p])" by (simp add: linked_append_last)
  then show ?thesis using assms Cons by (auto simp: ring_def)
qed (use assms in simp)

lemma clist_insert_ring:
  assumes "ring lk ps" "x \<notin> set ps" "x \<noteq> NULL" "clist_insert (clist_head ps) x lk = (h, lk')"
  shows "h = x" "ring lk' (x # ps)"
proof -
  obtain nxt lst where lk: "lk = (nxt, lst)" by (cases lk)
  show "h = x" using assms(4) by (simp add: clist_insert_def lk Let_def split: if_splits)
  show "ring lk' (x # ps)"
  proof (cases ps)
    case Nil
    then have "lk' = (nxt(x := x), lst(x := x))" using assms(4) by (auto simp: clist_insert_def clist_head_def lk)
    then show ?thesis using Nil assms(3) by (simp add: ring_def)
  next
    case (Cons p qs)
    have p: "p \<noteq> NULL" "x \<noteq> p" using assms(1,2) Cons by (auto simp: ring_def)
    have l: "lst p = last ps" "nxt (last ps) = p" "last ps \<in> set ps" "last ps \<noteq> x"
      using assms(1,2) Cons lk by (auto simp: ring_def)
    have lk': "lk' = (nxt(x := p, last ps := x), lst(x := last ps, p := x))"
      using assms(4) Cons p l by (auto simp: clist_insert_def clist_head_def lk Let_def)
    have "linked lk' ps = linked lk ps"
    proof (rule linked_cong)
      show "fst lk' y = fst lk y" if "y \<in> set (butlast ps)" for y
        using that assms(1,2) in_set_butlastD [OF that] butlast_not_last [of ps y] Cons
        by (auto simp: lk' lk ring_def)
      show "snd lk' y = snd lk y" if "y \<in> set (tl ps)" for y
        using that assms(1,2) Cons by (auto simp: lk' lk ring_def)
    qed
    then show ?thesis
      using assms Cons p l by (auto simp: ring_def lk')
  qed
qed

lemma clist_delete_ring:
  assumes "ring lk (p # ps)" "clist_delete p lk = (h, lk')"
  shows "h = clist_head ps" "ring lk' ps"
proof -
  obtain nxt lst where lk: "lk = (nxt, lst)" by (cases lk)
  have p: "p \<noteq> NULL" "p \<notin> set ps" using assms(1) by (auto simp: ring_def)
  show "h = clist_head ps" "ring lk' ps"
  proof (atomize (full), cases ps)
    case Nil
    then have "nxt p = p" using assms(1) lk by (simp add: ring_def)
    then show "h = clist_head ps \<and> ring lk' ps"
      using assms(2) Nil lk by (auto simp: clist_delete_def clist_head_def ring_def)
  next
    case (Cons q qs)
    have l: "nxt p = q" "lst q = p" "lst p = last ps" "nxt (last ps) = p" "last ps \<in> set ps"
      using assms(1) Cons lk by (auto simp: ring_def)
    have q: "p \<noteq> q" using p(2) Cons by auto
    have r: "h = q" "lk' = (nxt(last ps := q), lst(q := last ps))"
      using assms(2) p(1) q l by (auto simp: clist_delete_def lk Let_def)
    have "linked lk' ps = linked lk ps"
    proof (rule linked_cong)
      show "fst lk' y = fst lk y" if "y \<in> set (butlast ps)" for y
        using that assms(1) butlast_not_last [of ps y] Cons by (auto simp: r lk ring_def)
      show "snd lk' y = snd lk y" if "y \<in> set (tl ps)" for y
        using that assms(1) Cons by (auto simp: r lk ring_def)
    qed
    then show "h = clist_head ps \<and> ring lk' ps"
      using assms(1) Cons r by (auto simp: ring_def clist_head_def)
  qed
qed

text \<open>
  The queues of \<^verbatim>\<open>sync.c\<close> delete the element before the first, that is, the last of the list.
\<close>

lemma clist_delete_last:
  assumes "ring lk (p # ps)" "clist_delete (snd lk p) lk = (h, lk')"
  shows "h = clist_head (butlast (p # ps))" "ring lk' (butlast (p # ps))"
proof -
  let ?l = "last (p # ps)" and ?b = "butlast (p # ps)"
  have turned: "ring lk (?l # ?b)"
  proof -
    have dist: "distinct (?b @ [?l])" "NULL \<notin> set (?b @ [?l])" and lkd: "linked lk (?b @ [?l])"
      using assms(1) by (simp_all only: append_butlast_last_id list.simps ring_def simp_thms)
    show ?thesis
    proof (cases ps)
      case (Cons q qs)
      then have "?b \<noteq> []" by simp
      then obtain y ys where b: "?b = y # ys" by (cases "?b") auto
      have y: "y = p" using b Cons by simp
      have "linked lk (?l # ?b) \<longleftrightarrow> fst lk ?l = y \<and> snd lk y = ?l \<and> linked lk ?b" by (simp only: b linked.simps)
      moreover have "linked lk ?b" "fst lk (last ?b) = ?l" "snd lk ?l = last ?b"
        using lkd \<open>?b \<noteq> []\<close> unfolding linked_append_last by simp_all
      ultimately show ?thesis using assms(1) dist y \<open>?b \<noteq> []\<close> by (auto simp: ring_def)
    qed (use assms(1) in simp)
  qed
  have "snd lk p = ?l" using assms(1) by (simp add: ring_def)
  then show "h = clist_head ?b" "ring lk' ?b"
    using clist_delete_ring [OF turned] assms(2) by simp_all
qed

subsection \<open>Several rings in one memory\<close>

lemma ring_cong:
  assumes "\<And>x. x \<in> set ps \<Longrightarrow> fst lk' x = fst lk x \<and> snd lk' x = snd lk x"
  shows "ring lk' ps = ring lk ps"
proof -
  have "linked lk' ps = linked lk ps"
  proof (rule linked_cong)
    show "fst lk' x = fst lk x" if "x \<in> set (butlast ps)" for x using assms in_set_butlastD [OF that] by blast
    show "snd lk' x = snd lk x" if "x \<in> set (tl ps)" for x using assms that by (cases ps) auto
  qed
  moreover have "ps \<noteq> [] \<Longrightarrow> fst lk' (last ps) = fst lk (last ps) \<and> snd lk' (hd ps) = snd lk (hd ps)"
    using assms by simp
  ultimately show ?thesis by (auto simp: ring_def)
qed

lemma ring_turn: "ring lk (xs @ p # ys) \<Longrightarrow> ring lk (p # ys @ xs)"
proof (induction xs arbitrary: ys)
  case (Cons x xs)
  have "ring lk (xs @ p # ys @ [x])" using ring_rotate [of lk x "xs @ p # ys"] Cons.prems by simp
  from Cons.IH [OF this] show ?case by simp
qed simp

lemma ring_front:
  assumes "ring lk ps" "p \<in> set ps"
  obtains qs where "ring lk (p # qs)" "set (p # qs) = set ps"
proof -
  obtain xs ys where split: "ps = xs @ p # ys" using assms(2) by (meson split_list)
  then show ?thesis using that [of "ys @ xs"] ring_turn [of lk xs p ys] assms(1) by auto
qed

lemma clist_insert_frame:
  assumes "ring lk ps" "clist_insert (clist_head ps) x lk = (h, lk')" "y \<notin> insert x (set ps)"
  shows "fst lk' y = fst lk y \<and> snd lk' y = snd lk y"
proof -
  obtain nxt lst where lk: "lk = (nxt, lst)" by (cases lk)
  show ?thesis
  proof (cases ps)
    case Nil
    then show ?thesis using assms by (auto simp: clist_insert_def clist_head_def lk)
  next
    case (Cons p qs)
    then have "lst p \<in> set ps" "p \<noteq> NULL" using assms(1) lk by (auto simp: ring_def)
    then show ?thesis using assms(2,3) Cons by (auto simp: clist_insert_def clist_head_def lk Let_def)
  qed
qed

lemma clist_delete_frame:
  assumes "ring lk (p # ps)" "clist_delete p lk = (h, lk')" "y \<notin> set (p # ps)"
  shows "fst lk' y = fst lk y \<and> snd lk' y = snd lk y"
proof -
  obtain nxt lst where lk: "lk = (nxt, lst)" by (cases lk)
  have "nxt p \<in> set (p # ps)" "lst p \<in> set (p # ps)" using assms(1) lk by (cases ps; auto simp: ring_def)+
  then show ?thesis using assms(2,3) by (auto simp: clist_delete_def lk Let_def split: if_splits)
qed

subsection \<open>Families of rings\<close>

text \<open>Disjoint rings that share their links, one per index; \<open>heads\<close> is the array of the lists.\<close>

definition rings :: "links \<Rightarrow> (nat \<Rightarrow> ptr) \<Rightarrow> (nat \<Rightarrow> ptr set) \<Rightarrow> bool" where
  "rings lk heads S \<longleftrightarrow> (\<forall>i. \<exists>ps. ring lk ps \<and> heads i = clist_head ps \<and> set ps = S i) \<and> (\<forall>i j. i \<noteq> j \<longrightarrow> S i \<inter> S j = {})"

lemma ringsD:
  assumes "rings lk heads S"
  obtains ps where "ring lk ps" "heads i = clist_head ps" "set ps = S i"
  using assms unfolding rings_def by blast

lemma rings_disjoint: "rings lk heads S \<Longrightarrow> x \<in> S i \<Longrightarrow> x \<in> S j \<Longrightarrow> i = j"
  unfolding rings_def by blast

lemma rings_null: "rings lk heads S \<Longrightarrow> x \<in> S i \<Longrightarrow> x \<noteq> NULL"
  by (rule ringsD [of lk heads S i]) (auto simp: ring_def)

lemma rings_update:
  assumes ok: "rings lk heads S" and i: "ring lk' ps" "set ps = T"
    and frame: "\<And>x. x \<notin> S i \<union> T \<Longrightarrow> fst lk' x = fst lk x \<and> snd lk' x = snd lk x"
    and other: "\<And>j. j \<noteq> i \<Longrightarrow> S j \<inter> T = {}"
  shows "rings lk' (heads(i := clist_head ps)) (S(i := T))"
  unfolding rings_def
proof (intro conjI allI impI)
  fix j
  show "\<exists>qs. ring lk' qs \<and> (heads(i := clist_head ps)) j = clist_head qs \<and> set qs = (S(i := T)) j"
  proof (cases "j = i")
    case False
    obtain qs where qs: "ring lk qs" "heads j = clist_head qs" "set qs = S j" by (rule ringsD [OF ok])
    have "x \<notin> S i \<union> T" if "x \<in> set qs" for x using that qs(3) other [OF False] rings_disjoint [OF ok] False by blast
    then have "ring lk' qs" using ring_cong [of qs lk' lk] frame qs(1) by blast
    then show ?thesis using qs False by auto
  qed (use i in auto)
  show "(S(i := T)) j \<inter> (S(i := T)) k = {}" if "j \<noteq> k" for k
    using that other [of j] other [of k] ok by (auto simp: rings_def)
qed

lemma rings_insert:
  assumes ok: "rings lk heads S" and x: "\<And>j. x \<notin> S j" "x \<noteq> NULL" and c: "clist_insert (heads i) x lk = (h, lk')"
  shows "h = x" "rings lk' (heads(i := h)) (S(i := insert x (S i)))"
proof -
  obtain ps where ps: "ring lk ps" "heads i = clist_head ps" "set ps = S i" by (rule ringsD [OF ok])
  note R = clist_insert_ring [OF ps(1) _ x(2) c [unfolded ps(2)]]
  show h: "h = x" using R(1) x(1) ps(3) by blast
  have "rings lk' (heads(i := clist_head (x # ps))) (S(i := insert x (S i)))"
  proof (rule rings_update [OF ok])
    show "ring lk' (x # ps)" using R(2) x(1) ps(3) by blast
    show "fst lk' y = fst lk y \<and> snd lk' y = snd lk y" if "y \<notin> S i \<union> insert x (S i)" for y
      using clist_insert_frame [OF ps(1) c [unfolded ps(2)], of y] that ps(3) by simp
    show "S j \<inter> insert x (S i) = {}" if "j \<noteq> i" for j using that ok x(1) by (auto simp: rings_def)
  qed (use ps(3) in simp)
  then show "rings lk' (heads(i := h)) (S(i := insert x (S i)))" by (simp add: h clist_head_def)
qed

lemma rings_delete:
  assumes ok: "rings lk heads S" and x: "x \<in> S i" and c: "clist_delete x lk = (h, lk')"
  shows "rings lk' (heads(i := h)) (S(i := S i - {x}))"
proof -
  obtain ps where ps: "ring lk ps" "set ps = S i" by (rule ringsD [OF ok])
  then obtain qs where qs: "ring lk (x # qs)" "set (x # qs) = S i" using ring_front [OF ps(1), of x] x by metis
  note R = clist_delete_ring [OF qs(1) c]
  show ?thesis
    unfolding R(1)
  proof (rule rings_update [OF ok R(2)])
    show "set qs = S i - {x}" using qs by (auto simp: ring_def)
    show "fst lk' y = fst lk y \<and> snd lk' y = snd lk y" if "y \<notin> S i \<union> (S i - {x})" for y
      using clist_delete_frame [OF qs(1) c, of y] that unfolding qs(2) by blast
    show "S j \<inter> (S i - {x}) = {}" if "j \<noteq> i" for j using that ok unfolding rings_def by blast
  qed
qed

end
