(* ===== verification/Sync.thy ===== *)
theory Sync
  imports Thread_Sched Circular_List
begin

unbundle bit_operations_syntax

text \<open>
  \<^verbatim>\<open>src/sync/sync.c\<close> in its multiprocessor version: mutexes with priority inheritance, condition
  variables, the deadlock test and the call from the timer interrupt that puts a spinning thread
  to sleep.

  What an operation cannot know is an argument: \<open>cur\<close> is the pointer \<^verbatim>\<open>current_thread()\<close> computes
  from the stack pointer, \<open>junk\<close> the value of a local variable that the code reads before it has
  assigned it, \<open>wait\<close> the state in which a spin on a lock that another CPU holds ends (\<open>None\<close> when
  it never does), \<open>re\<close> the address of the reentry code (the labels \<^verbatim>\<open>lock_reentry\<close> and
  \<^verbatim>\<open>wait_reentry\<close> of \<^verbatim>\<open>ia_32_sync.s\<close> stand at the same address) and \<open>kern_realloc\<close> the
  allocator that \<^verbatim>\<open>thread_restart\<close> hands to the queues.
\<close>

definition THREAD_USE_REENTRY :: u32 where "THREAD_USE_REENTRY = 1"

type_synonym spin = "kstate \<Rightarrow> kstate option"

subsection \<open>Fields of mutexes and condition variables\<close>

definition upd_mx :: "(mutex_mem \<Rightarrow> mutex_mem) \<Rightarrow> kstate \<Rightarrow> kstate" where
  "upd_mx f s = s\<lparr>mutexes := f (mutexes s)\<rparr>"

definition upd_cd :: "(cond_mem \<Rightarrow> cond_mem) \<Rightarrow> kstate \<Rightarrow> kstate" where
  "upd_cd f s = s\<lparr>conds := f (conds s)\<rparr>"

definition set_holder :: "ptr \<Rightarrow> ptr \<Rightarrow> kstate \<Rightarrow> kstate" where
  "set_holder mx t = upd_mx (\<lambda>m. m\<lparr>mx_holder := (mx_holder m)(mx := t)\<rparr>)"

definition set_mx_queue :: "ptr \<Rightarrow> ptr \<Rightarrow> kstate \<Rightarrow> kstate" where
  "set_mx_queue mx q = upd_mx (\<lambda>m. m\<lparr>mx_queue := (mx_queue m)(mx := q)\<rparr>)"

definition add_mx_spin :: "ptr \<Rightarrow> u32 \<Rightarrow> kstate \<Rightarrow> kstate" where
  "add_mx_spin mx d = upd_mx (\<lambda>m. m\<lparr>mx_num_spin := (mx_num_spin m)(mx := mx_num_spin m mx + d)\<rparr>)"

definition trylock_mx :: "ptr \<Rightarrow> kstate \<Rightarrow> bool \<times> kstate" where
  "trylock_mx mx s = (\<not> mx_mutex (mutexes s) mx, upd_mx (\<lambda>m. m\<lparr>mx_mutex := (mx_mutex m)(mx := True)\<rparr>) s)"

definition unlock_mx :: "ptr \<Rightarrow> kstate \<Rightarrow> kstate" where
  "unlock_mx mx = upd_mx (\<lambda>m. m\<lparr>mx_mutex := (mx_mutex m)(mx := False)\<rparr>)"

definition lock_num :: "ptr \<Rightarrow> kstate \<Rightarrow> kstate option" where
  "lock_num mx s = (if mx_num_mutex (mutexes s) mx then None
     else Some (upd_mx (\<lambda>m. m\<lparr>mx_num_mutex := (mx_num_mutex m)(mx := True)\<rparr>) s))"

definition unlock_num :: "ptr \<Rightarrow> kstate \<Rightarrow> kstate" where
  "unlock_num mx = upd_mx (\<lambda>m. m\<lparr>mx_num_mutex := (mx_num_mutex m)(mx := False)\<rparr>)"

definition lock_cnum :: "ptr \<Rightarrow> kstate \<Rightarrow> kstate option" where
  "lock_cnum cd s = (if cd_num_mutex (conds s) cd then None
     else Some (upd_cd (\<lambda>m. m\<lparr>cd_num_mutex := (cd_num_mutex m)(cd := True)\<rparr>) s))"

definition unlock_cnum :: "ptr \<Rightarrow> kstate \<Rightarrow> kstate" where
  "unlock_cnum cd = upd_cd (\<lambda>m. m\<lparr>cd_num_mutex := (cd_num_mutex m)(cd := False)\<rparr>)"

definition lock_cqueue :: "ptr \<Rightarrow> kstate \<Rightarrow> kstate option" where
  "lock_cqueue cd s = (if cd_queue_mutex (conds s) cd then None
     else Some (upd_cd (\<lambda>m. m\<lparr>cd_queue_mutex := (cd_queue_mutex m)(cd := True)\<rparr>) s))"

definition unlock_cqueue :: "ptr \<Rightarrow> kstate \<Rightarrow> kstate" where
  "unlock_cqueue cd = upd_cd (\<lambda>m. m\<lparr>cd_queue_mutex := (cd_queue_mutex m)(cd := False)\<rparr>)"

definition unlock_cd :: "ptr \<Rightarrow> kstate \<Rightarrow> kstate" where
  "unlock_cd cd = upd_cd (\<lambda>m. m\<lparr>cd_mutex := (cd_mutex m)(cd := False)\<rparr>)"

definition unlock_ctype :: "ptr \<Rightarrow> kstate \<Rightarrow> kstate" where
  "unlock_ctype cd = upd_cd (\<lambda>m. m\<lparr>cd_type_mutex := (cd_type_mutex m)(cd := False)\<rparr>)"

definition set_cd_queue :: "ptr \<Rightarrow> ptr \<Rightarrow> kstate \<Rightarrow> kstate" where
  "set_cd_queue cd q = upd_cd (\<lambda>m. m\<lparr>cd_queue := (cd_queue m)(cd := q)\<rparr>)"

definition set_cd_spin :: "ptr \<Rightarrow> u32 \<Rightarrow> kstate \<Rightarrow> kstate" where
  "set_cd_spin cd n = upd_cd (\<lambda>m. m\<lparr>cd_num_spin := (cd_num_spin m)(cd := n)\<rparr>)"

definition set_broadcast :: "ptr \<Rightarrow> u32 \<Rightarrow> kstate \<Rightarrow> kstate" where
  "set_broadcast cd b = upd_cd (\<lambda>m. m\<lparr>cd_broadcast := (cd_broadcast m)(cd := b)\<rparr>)"

definition set_wait :: "ptr \<Rightarrow> u32 \<Rightarrow> ptr \<Rightarrow> kstate \<Rightarrow> kstate" where
  "set_wait t ty ob = upd_threads (\<lambda>m. m\<lparr>wait_type := (wait_type m)(t := ty), wait_obj := (wait_obj m)(t := ob)\<rparr>)"

definition set_wait_obj :: "ptr \<Rightarrow> ptr \<Rightarrow> kstate \<Rightarrow> kstate" where
  "set_wait_obj t ob = upd_threads (\<lambda>m. m\<lparr>wait_obj := (wait_obj m)(t := ob)\<rparr>)"

text \<open>The lock that the awakened thread, running on another CPU, may still hold.\<close>

definition lock_ctype :: "spin \<Rightarrow> ptr \<Rightarrow> kstate \<Rightarrow> kstate option" where
  "lock_ctype wait cd s = do {
     s \<leftarrow> (if cd_type_mutex (conds s) cd then wait s else Some s);
     Some (upd_cd (\<lambda>m. m\<lparr>cd_type_mutex := (cd_type_mutex m)(cd := True)\<rparr>) s) }"

text \<open>The queue of sleeping threads, threaded through the thread control blocks.\<close>

definition queue_links :: "thread_mem \<Rightarrow> links" where
  "queue_links m = (queue_next m, queue_last m)"

definition on_links :: "(links \<Rightarrow> ptr \<times> links) \<Rightarrow> kstate \<Rightarrow> ptr \<times> kstate" where
  "on_links f s = (case f (queue_links (threads s)) of (p, nxt, lst) \<Rightarrow>
     (p, upd_threads (\<lambda>m. m\<lparr>queue_next := nxt, queue_last := lst\<rparr>) s))"

definition thread_queue_insert :: "ptr \<Rightarrow> ptr \<Rightarrow> kstate \<Rightarrow> ptr \<times> kstate" where
  "thread_queue_insert q t = on_links (clist_insert q t)"

definition thread_queue_remove :: "ptr \<Rightarrow> kstate \<Rightarrow> ptr \<times> kstate" where
  "thread_queue_remove q s = on_links (clist_delete (queue_last (threads s) q)) s"

subsection \<open>Mutexes\<close>

definition awaken_thread :: "reallocator \<Rightarrow> ptr \<Rightarrow> kstate \<Rightarrow> kstate option" where
  "awaken_thread kern_realloc t s = do {
     t \<leftarrow> deref t;
     thread_restart kern_realloc t (upd_threads (\<lambda>m. m\<lparr>wait_type := (wait_type m)(t := WAIT_NONE)\<rparr>) s) }"

text \<open>\<^verbatim>\<open>WAIT_NONE\<close> is stored in \<^verbatim>\<open>wait_obj\<close>, a pointer, so that it becomes \<open>NULL\<close>.\<close>

definition get_priority_boost :: "ptr \<Rightarrow> ptr \<Rightarrow> kstate \<Rightarrow> kstate option" where
  "get_priority_boost mx cur s = do {
     s \<leftarrow> lock_data mx s;
     let priority = mx_pri_count (mutexes s) mx;
     let s = unlock_data mx (set_holder mx cur s);
     cur \<leftarrow> deref cur;
     thread_adjust_priority cur priority (set_wait_obj cur NULL s) }"

definition mutex_lock :: "ptr \<Rightarrow> ptr \<Rightarrow> spin \<Rightarrow> ptr \<Rightarrow> kstate \<Rightarrow> kstate option" where
  "mutex_lock junk cur wait mx s = do {
     mx \<leftarrow> deref mx;
     let (ok, s) = trylock_mx mx s;
     if \<not> ok then do {
       let s = timer_disable (set_wait_obj cur mx s);
       let s = upd_threads (\<lambda>m. m\<lparr>wait_type := (wait_type m)(cur := WAIT_MUTEX)\<rparr>) s;
       s \<leftarrow> lock_num mx s;
       let s = unlock_num mx (add_mx_spin mx 1 s);
       let (ok, s) = trylock_mx mx s;
       s \<leftarrow> (if \<not> ok then wait (timer_restore s) else Some s);
       s \<leftarrow> get_priority_boost mx cur s;
       Some (timer_restore (add_mx_spin mx (-1) s)) }
     else get_priority_boost mx junk s }"

definition async_mutex_lock :: "ptr \<Rightarrow> ptr \<Rightarrow> ptr \<Rightarrow> kstate \<Rightarrow> kstate option" where
  "async_mutex_lock junk re mx s = do {
     mx \<leftarrow> deref mx;
     let (ok, s) = trylock_mx mx s;
     if \<not> ok then do {
       s \<leftarrow> lock_data mx s;
       t \<leftarrow> deref junk;
       let (q, s) = thread_queue_insert (mx_queue (mutexes s) mx) t s;
       let s = unlock_data mx (add_pri_count mx (soft_priority (threads s) t) (set_mx_queue mx q s));
       let s = upd_threads (\<lambda>m. m\<lparr>reentry := (reentry m)(t := re),
                 stat_flags := (stat_flags m)(t := stat_flags m t OR THREAD_USE_REENTRY)\<rparr>) s;
       s \<leftarrow> lock_thread t s;
       s \<leftarrow> thread_adjust_priority (mx_holder (mutexes s) mx) (soft_priority (threads s) t) s;
       Some (unlock_thread t s) }
     else Some (set_holder mx NULL s) }"

definition mutex_trylock :: "ptr \<Rightarrow> ptr \<Rightarrow> kstate \<Rightarrow> (int \<times> kstate) option" where
  "mutex_trylock cur mx s = do {
     mx \<leftarrow> deref mx;
     let (ok, s) = trylock_mx mx (timer_disable s);
     (out, s) \<leftarrow> (if ok then do {
         s \<leftarrow> lock_data mx s;
         let priority = mx_pri_count (mutexes s) mx;
         s \<leftarrow> thread_adjust_priority cur priority (unlock_data mx (set_holder mx cur s));
         Some (1, s) }
       else Some (0, s));
     Some (out, timer_restore s) }"

definition async_mutex_trylock :: "ptr \<Rightarrow> kstate \<Rightarrow> (int \<times> kstate) option" where
  "async_mutex_trylock mx s = do {
     mx \<leftarrow> deref mx;
     let (ok, s) = trylock_mx mx s;
     if ok then do {
       s \<leftarrow> lock_data mx s;
       Some (1, unlock_data mx (set_holder mx NULL s)) }
     else Some (0, s) }"

text \<open>The part the two unlocks share: a thread that sleeps for the mutex becomes its holder.\<close>

definition hand_over :: "reallocator \<Rightarrow> ptr \<Rightarrow> kstate \<Rightarrow> kstate option" where
  "hand_over kern_realloc mx s = do {
     let t = mx_queue (mutexes s) mx;
     let (q, s) = thread_queue_remove t s;
     s \<leftarrow> lock_thread t (set_mx_queue mx q s);
     let s = add_pri_count mx (- soft_priority (threads s) t) s;
     let s = unlock_thread t (set_holder mx t (set_wait_obj t NULL s));
     s \<leftarrow> thread_adjust_priority t (mx_pri_count (mutexes s) mx) s;
     thread_restart kern_realloc t (unlock_data mx s) }"

definition mutex_unlock :: "reallocator \<Rightarrow> ptr \<Rightarrow> ptr \<Rightarrow> kstate \<Rightarrow> kstate option" where
  "mutex_unlock kern_realloc cur mx s = do {
     mx \<leftarrow> deref mx;
     s \<leftarrow> lock_num mx (timer_disable s);
     s \<leftarrow> thread_adjust_priority cur (- mx_pri_count (mutexes s) mx) s;
     if 0 \<noteq> mx_num_spin (mutexes s) mx then Some (unlock_mx mx (unlock_num mx s))
     else do {
       s \<leftarrow> lock_data mx (unlock_num mx s);
       s \<leftarrow> (if NULL \<noteq> mx_queue (mutexes s) mx then hand_over kern_realloc mx s
             else Some (unlock_mx mx (set_holder mx NULL (unlock_data mx s))));
       Some (timer_restore s) } }"

definition async_mutex_unlock :: "reallocator \<Rightarrow> ptr \<Rightarrow> kstate \<Rightarrow> kstate option" where
  "async_mutex_unlock kern_realloc mx s = do {
     mx \<leftarrow> deref mx;
     s \<leftarrow> lock_num mx s;
     if 0 \<noteq> mx_num_spin (mutexes s) mx then Some (unlock_mx mx (unlock_num mx (timer_disable s)))
     else do {
       s \<leftarrow> lock_data mx (unlock_num mx s);
       if NULL \<noteq> mx_queue (mutexes s) mx then hand_over kern_realloc mx s
       else Some (unlock_mx mx (unlock_data mx s)) } }"

subsection \<open>Condition variables\<close>

definition do_wait :: "reallocator \<Rightarrow> spin \<Rightarrow> ptr \<Rightarrow> ptr \<Rightarrow> ptr \<Rightarrow> kstate \<Rightarrow> kstate option" where
  "do_wait kern_realloc wait cur cd mx s = do {
     cd \<leftarrow> deref cd;
     s \<leftarrow> lock_cnum cd (timer_disable (set_wait cur WAIT_COND cd s));
     let s = timer_restore (unlock_cnum cd (set_cd_spin cd (cd_num_spin (conds s) cd + 1) s));
     s \<leftarrow> mutex_unlock kern_realloc cur mx s;
     s \<leftarrow> (if cd_mutex (conds s) cd then wait s else Some s);
     let s = set_wait_obj cur NULL (upd_cd (\<lambda>m. m\<lparr>cd_mutex := (cd_mutex m)(cd := True)\<rparr>) s);
     let s = (if cd_broadcast (conds s) cd = 0 then timer_restore s else s);
     Some (unlock_ctype cd s) }"

definition cond_wait :: "reallocator \<Rightarrow> ptr \<Rightarrow> spin \<Rightarrow> spin \<Rightarrow> ptr \<Rightarrow> ptr \<Rightarrow> ptr \<Rightarrow> kstate \<Rightarrow> kstate option" where
  "cond_wait kern_realloc junk wait_c wait_m cur cd mx s = do {
     s \<leftarrow> do_wait kern_realloc wait_c cur cd mx s;
     mutex_lock junk cur wait_m mx s }"

definition do_async_wait :: "reallocator \<Rightarrow> ptr \<Rightarrow> ptr \<Rightarrow> ptr \<Rightarrow> ptr \<Rightarrow> kstate \<Rightarrow> kstate option" where
  "do_async_wait kern_realloc junk re cd mx s = do {
     t \<leftarrow> deref junk;
     let s = upd_threads (\<lambda>m. m\<lparr>reentry := (reentry m)(t := re),
               stat_flags := (stat_flags m)(t := stat_flags m t OR THREAD_USE_REENTRY),
               status := (status m)(t := SCHED_INT_SLEEP)\<rparr>) s;
     cd \<leftarrow> deref cd;
     s \<leftarrow> lock_cqueue cd s;
     let (q, s) = thread_queue_insert (cd_queue (conds s) cd) t s;
     async_mutex_unlock kern_realloc mx (unlock_cqueue cd (set_cd_queue cd q s)) }"

definition async_cond_wait :: "reallocator \<Rightarrow> ptr \<Rightarrow> ptr \<Rightarrow> spin \<Rightarrow> ptr \<Rightarrow> ptr \<Rightarrow> ptr \<Rightarrow> ptr \<Rightarrow> kstate \<Rightarrow> kstate option" where
  "async_cond_wait kern_realloc junk junk' wait cur re cd mx s = do {
     s \<leftarrow> do_async_wait kern_realloc junk re cd mx s;
     mutex_lock junk' cur wait mx s }"

text \<open>
  \<^verbatim>\<open>cond_signal\<close> and its asynchronous version differ in the timer only.  When nobody sleeps the
  thread that is awakened is the uninitialised local variable.
\<close>

definition async_cond_signal :: "reallocator \<Rightarrow> ptr \<Rightarrow> spin \<Rightarrow> ptr \<Rightarrow> kstate \<Rightarrow> kstate option" where
  "async_cond_signal kern_realloc junk wait cd s = do {
     cd \<leftarrow> deref cd;
     s \<leftarrow> lock_cnum cd s;
     if 0 \<noteq> cd_num_spin (conds s) cd then do {
       let s = unlock_cnum cd (set_cd_spin cd (cd_num_spin (conds s) cd - 1) s);
       s \<leftarrow> lock_ctype wait cd s;
       Some (unlock_cd cd (set_broadcast cd 0 s)) }
     else do {
       s \<leftarrow> lock_cqueue cd (unlock_cnum cd s);
       let (t, s) = (if NULL \<noteq> cd_queue (conds s) cd then
           let t = cd_queue (conds s) cd; (q, s) = thread_queue_remove t s in (t, set_cd_queue cd q s)
         else (junk, s));
       awaken_thread kern_realloc t (unlock_cqueue cd s) } }"

definition cond_signal :: "reallocator \<Rightarrow> ptr \<Rightarrow> spin \<Rightarrow> ptr \<Rightarrow> kstate \<Rightarrow> kstate option" where
  "cond_signal kern_realloc junk wait cd s = do {
     cd \<leftarrow> deref cd;
     s \<leftarrow> lock_cnum cd (timer_disable s);
     if 0 \<noteq> cd_num_spin (conds s) cd then do {
       let s = unlock_cnum cd (set_cd_spin cd (cd_num_spin (conds s) cd - 1) s);
       s \<leftarrow> lock_ctype wait cd s;
       Some (unlock_cd cd (set_broadcast cd 0 s)) }
     else do {
       s \<leftarrow> lock_cqueue cd (unlock_cnum cd s);
       let (t, s) = (if NULL \<noteq> cd_queue (conds s) cd then
           let t = cd_queue (conds s) cd; (q, s) = thread_queue_remove t s in (t, set_cd_queue cd q s)
         else (junk, s));
       s \<leftarrow> awaken_thread kern_realloc t (unlock_cqueue cd s);
       Some (timer_restore s) } }"

text \<open>
  \<^verbatim>\<open>cond_broadcast\<close>: one round of the first loop per spinning thread (the counter does not change
  while its lock is held), then the sleepers until the queue is empty.
\<close>

primrec release_spinners :: "spin \<Rightarrow> ptr \<Rightarrow> nat \<Rightarrow> kstate \<Rightarrow> kstate option" where
  "release_spinners wait cd 0 s = Some s"
| "release_spinners wait cd (Suc n) s = do {
     s \<leftarrow> lock_ctype wait cd s;
     release_spinners wait cd n (unlock_cd cd (set_broadcast cd 1 s)) }"

partial_function (option) release_sleepers :: "reallocator \<Rightarrow> ptr \<Rightarrow> kstate \<Rightarrow> kstate option" where
  "release_sleepers kern_realloc cd s =
     (if NULL \<noteq> cd_queue (conds s) cd then do {
        let t = cd_queue (conds s) cd;
        let (q, s) = thread_queue_remove t s;
        s \<leftarrow> awaken_thread kern_realloc t (set_cd_queue cd q s);
        release_sleepers kern_realloc cd s }
      else Some s)"

definition async_cond_broadcast :: "reallocator \<Rightarrow> spin \<Rightarrow> ptr \<Rightarrow> kstate \<Rightarrow> kstate option" where
  "async_cond_broadcast kern_realloc wait cd s = do {
     cd \<leftarrow> deref cd;
     s \<leftarrow> lock_cnum cd s;
     s \<leftarrow> release_spinners wait cd (unat (cd_num_spin (conds s) cd)) s;
     s \<leftarrow> lock_cqueue cd (unlock_cnum cd (set_cd_spin cd 0 s));
     if NULL \<noteq> cd_queue (conds s) cd then do {
       s \<leftarrow> release_sleepers kern_realloc cd s;
       Some (unlock_cqueue cd s) }
     else Some s }"

definition cond_broadcast :: "reallocator \<Rightarrow> spin \<Rightarrow> ptr \<Rightarrow> kstate \<Rightarrow> kstate option" where
  "cond_broadcast kern_realloc wait cd s = do {
     s \<leftarrow> async_cond_broadcast kern_realloc wait cd (timer_disable s);
     Some (timer_restore s) }"

subsection \<open>Going to sleep\<close>

text \<open>The loop over the queue, a do-while that ends where it started.\<close>

partial_function (option) find_waiter :: "thread_mem \<Rightarrow> ptr \<Rightarrow> ptr \<Rightarrow> ptr \<Rightarrow> bool option" where
  "find_waiter m t first at =
     (if at = t then Some True
      else let at = queue_next m at in
        if at \<noteq> first then find_waiter m t first at else Some False)"

partial_function (option) detect_deadlock :: "ptr \<Rightarrow> ptr \<Rightarrow> kstate \<Rightarrow> (bool \<times> kstate) option" where
  "detect_deadlock t mx s = do {
     mx \<leftarrow> deref mx;
     s \<leftarrow> lock_data mx s;
     let at = mx_queue (mutexes s) mx;
     found \<leftarrow> (if NULL \<noteq> at then find_waiter (threads s) t at at else Some False);
     if found then Some (True, unlock_data mx s)
     else if mx_holder (mutexes s) mx \<noteq> t then do {
       h \<leftarrow> deref (mx_holder (mutexes s) mx);
       if WAIT_MUTEX \<noteq> wait_type (threads s) h then Some (False, unlock_data mx s)
       else detect_deadlock t (wait_obj (threads s) h) (unlock_data mx s) }
     else Some (True, unlock_data mx s) }"

definition put_to_sleep :: "ptr \<Rightarrow> ptr \<Rightarrow> kstate \<Rightarrow> kstate option" where
  "put_to_sleep re cur s = do {
     s \<leftarrow> lock_thread cur s;
     let s = upd_threads (\<lambda>m. m\<lparr>reentry := (reentry m)(cur := re),
               stat_flags := (stat_flags m)(cur := stat_flags m cur OR THREAD_USE_REENTRY),
               status := (status m)(cur := SCHED_INT_SLEEP)\<rparr>) s;
     Some (unlock_thread cur s) }"

definition lock_sleep :: "ptr \<Rightarrow> ptr \<Rightarrow> kstate \<Rightarrow> kstate option" where
  "lock_sleep re cur s = do {
     mx \<leftarrow> deref (wait_obj (threads s) cur);
     s \<leftarrow> lock_data mx (add_mx_spin mx (-1) s);
     let (q, s) = thread_queue_insert (mx_queue (mutexes s) mx) cur s;
     let s = unlock_data mx (add_pri_count mx (soft_priority (threads s) cur) (set_mx_queue mx q s));
     s \<leftarrow> put_to_sleep re cur s;
     if NULL \<noteq> mx_holder (mutexes s) mx
     then thread_adjust_priority (mx_holder (mutexes s) mx) (soft_priority (threads s) cur) s
     else Some s }"

definition wait_sleep :: "ptr \<Rightarrow> ptr \<Rightarrow> kstate \<Rightarrow> kstate option" where
  "wait_sleep re cur s = do {
     s \<leftarrow> put_to_sleep re cur s;
     cd \<leftarrow> deref (wait_obj (threads s) cur);
     s \<leftarrow> lock_cqueue cd (set_cd_spin cd (cd_num_spin (conds s) cd - 1) s);
     let (q, s) = thread_queue_insert (cd_queue (conds s) cd) cur s;
     Some (unlock_cqueue cd (set_cd_queue cd q s)) }"

definition sync_check :: "ptr \<Rightarrow> ptr \<Rightarrow> kstate \<Rightarrow> kstate option" where
  "sync_check re cur s =
     (if wait_type (threads s) cur = WAIT_MUTEX then do {
        (dead, s) \<leftarrow> detect_deadlock cur (wait_obj (threads s) cur) s;
        if dead then Some s else lock_sleep re cur s }
      else if wait_type (threads s) cur = WAIT_COND then wait_sleep re cur s
      else Some s)"

subsection \<open>The timer interrupt\<close>

text \<open>
  \<^verbatim>\<open>timer_interrupt\<close> of \<^verbatim>\<open>thread_sched.c\<close>: the interrupted thread goes to sleep if it must, then the
  scheduler chooses.  \<^verbatim>\<open>context_load\<close> does not return: the outcome says which context is loaded
  and whether the address space was.  \<open>spc_id\<close> is the \<^verbatim>\<open>id\<close> field of the address spaces.
\<close>

datatype tick = Continue | Idle | Load ptr "ptr option"

definition timer_interrupt :: "join \<Rightarrow> join \<Rightarrow> (ptr \<Rightarrow> u32) \<Rightarrow> ptr \<Rightarrow> ptr \<Rightarrow> nat \<Rightarrow> kstate \<Rightarrow> (tick \<times> kstate) option" where
  "timer_interrupt j1 j2 spc_id re cur c s = do {
     s \<leftarrow> sync_check re cur s;
     (new, s) \<leftarrow> sched_resched j1 j2 c s;
     if cur = new then Some (Continue, s)
     else if NULL \<noteq> new then do {
       let spc = addr_spc (threads s) new;
       if cpu_space s c \<noteq> spc then do {
         spc \<leftarrow> deref spc;
         if 0 \<noteq> spc_id spc then Some (Load new (Some spc), s\<lparr>cpu_space := (cpu_space s)(c := spc)\<rparr>)
         else Some (Load new None, s) }
       else Some (Load new None, s) }
     else Some (Idle, s) }"

end
