(* ===== verification/Sync_Boost.thy ===== *)
theory Sync_Boost
  imports Sync Sched_Props
begin

text \<open>
  Priority inheritance: \<^verbatim>\<open>thread_adjust_priority\<close> follows the chain from a thread to the mutex it
  sleeps for, to the holder of that mutex, and so on.
\<close>

lemmas sync_field_defs = upd_mx_def upd_cd_def set_holder_def set_mx_queue_def add_mx_spin_def unlock_mx_def
  unlock_num_def unlock_cnum_def unlock_cqueue_def unlock_cd_def unlock_ctype_def set_cd_queue_def
  set_cd_spin_def set_broadcast_def set_wait_def set_wait_obj_def trylock_mx_def
  unlock_data_def add_pri_count_def unlock_thread_def unlock_sched_def

subsection \<open>What an adjustment leaves alone\<close>

definition adj_frame :: "kstate \<Rightarrow> kstate \<Rightarrow> bool" where
  "adj_frame s s' \<longleftrightarrow> status (threads s') = status (threads s) \<and> wait_type (threads s') = wait_type (threads s) \<and>
     wait_obj (threads s') = wait_obj (threads s) \<and> queue_next (threads s') = queue_next (threads s) \<and>
     queue_last (threads s') = queue_last (threads s) \<and> conds s' = conds s \<and>
     mx_mutex (mutexes s') = mx_mutex (mutexes s) \<and> mx_num_mutex (mutexes s') = mx_num_mutex (mutexes s) \<and>
     mx_num_spin (mutexes s') = mx_num_spin (mutexes s) \<and> mx_queue (mutexes s') = mx_queue (mutexes s) \<and>
     mx_holder (mutexes s') = mx_holder (mutexes s) \<and> timer_off s' = timer_off s"

lemma adj_frame_refl [simp]: "adj_frame s s"
  by (simp add: adj_frame_def)

lemma adj_frame_trans: "adj_frame s s' \<Longrightarrow> adj_frame s' s'' \<Longrightarrow> adj_frame s s''"
  by (simp add: adj_frame_def)

text \<open>A stronger frame for the part that only moves the thread in its queue.\<close>

definition rest_frame :: "kstate \<Rightarrow> kstate \<Rightarrow> bool" where
  "rest_frame s s' \<longleftrightarrow> same_rest (threads s) (threads s') \<and> mutexes s' = mutexes s \<and> conds s' = conds s \<and>
     timer_off s' = timer_off s"

lemma rest_frame_trans: "rest_frame s s' \<Longrightarrow> rest_frame s' s'' \<Longrightarrow> rest_frame s s''"
  by (simp add: rest_frame_def same_rest_def)

lemma rest_frame_upd_sched [simp]:
  "rest_frame s (upd_sched c f s') = rest_frame s s'" "rest_frame (upd_sched c f s) s' = rest_frame s s'" "rest_frame s s"
  by (simp_all add: rest_frame_def)

lemma rest_frame_adj: "rest_frame s s' \<Longrightarrow> adj_frame s s'"
  by (simp add: rest_frame_def adj_frame_def same_rest_def)

lemma set_key_rest: "same_rest m (fst (priority_heap_set_key m h pos val))"
  by (auto simp: priority_heap_set_key_def Let_def same_rest_def split: prod.splits)

lemma set_key_queue_frame:
  "rest_frame s (on_running c (\<lambda>m h. priority_heap_set_key m h pos val) s)"
  "rest_frame s (on_finished c (\<lambda>m h. priority_heap_set_key m h pos val) s)"
  using set_key_rest [of "threads s" "running_queue (sched s c)" pos val]
    set_key_rest [of "threads s" "finished_queue (sched s c)" pos val]
  by (auto simp: on_running_def on_finished_def rest_frame_def upd_sched_def split: prod.splits)

lemma change_remaining_frame:
  assumes "sched_change_remaining c t val s = Some s'"
  shows "rest_frame s s'"
proof -
  let ?s = "upd_sched c (\<lambda>sc. sc\<lparr>total_count := total_count sc + (val - remaining (threads s) t)\<rparr>) s"
  have "rest_frame s ?s" by simp
  then show ?thesis
    using assms rest_frame_trans [OF _ set_key_queue_frame(1), of s ?s] rest_frame_trans [OF _ set_key_queue_frame(2), of s ?s]
    by (auto simp: sched_change_remaining_def Let_def split: if_splits bind_splits)
qed

lemma shift_remaining_frame:
  assumes "shift_remaining t d s = Some s'"
  shows "rest_frame s s'"
proof -
  let ?s = "if sint (remaining (threads s) t) < 0 then upd_threads (\<lambda>m. m\<lparr>remaining := (remaining m)(t := 0)\<rparr>) s else s"
  have s: "rest_frame s ?s" by (simp add: rest_frame_def same_rest_def)
  have "rest_frame ?s s'"
  proof (cases "RUNNABLE_STATE (status (threads ?s) t)")
    case True
    then obtain s1 s2 where "lock_sched (cpu_id (threads ?s) t) ?s = Some s1"
      "sched_change_remaining (cpu_id (threads ?s) t) t (remaining (threads s1) t + d) s1 = Some s2"
      "s' = unlock_sched (cpu_id (threads s2) t) s2"
      using assms unfolding shift_remaining_def Let_def by (auto split: bind_splits)
    then show ?thesis using change_remaining_frame [of _ _ _ s1 s2] by (auto simp: lock_sched_def unlock_sched_def split: if_splits)
  next
    case False
    then show ?thesis using assms by (simp add: shift_remaining_def Let_def)
  qed
  then show ?thesis using s rest_frame_trans by blast
qed

lemma thread_adjust_priority_frame:
  assumes "thread_adjust_priority t p s = Some s'"
  shows "adj_frame s s'"
  using _ assms
proof (rule thread_adjust_priority.raw_induct [where P = "\<lambda>t p s s'. adj_frame s s'"], goal_cases)
  case (1 rec t p s s')
  let ?w = "\<lambda>s. WAIT_MUTEX = wait_type (threads s) t \<and> \<not> RUNNABLE_STATE (status (threads s) t)"
  let ?up = "upd_threads (\<lambda>m. m\<lparr>soft_priority := (soft_priority m)(t := soft_priority m t + p)\<rparr>)"
  from "1"(2) obtain s1 s2 s3 where l: "lock_thread t (timer_disable s) = Some s1"
    and w: "(if ?w (?up s1) then do {
             mx \<leftarrow> deref (wait_obj (threads (?up s1)) t);
             s \<leftarrow> lock_data mx (?up s1);
             let s = add_pri_count mx p s;
             s \<leftarrow> rec (mx_holder (mutexes s) mx) p s;
             Some (unlock_data mx s) }
           else Some (?up s1)) = Some s2"
    and sh: "shift_remaining t p s2 = Some s3" and s': "s' = timer_restore (unlock_thread t s3)"
    unfolding Let_def Option.bind_eq_Some_conv option.inject deref_Some by blast
  have f1: "adj_frame (timer_disable s) (?up s1)" using l by (auto simp: lock_thread_def adj_frame_def split: if_splits)
  have "adj_frame (?up s1) s2"
  proof (cases "?w (?up s1)")
    case True
    then obtain mx s4 s5 where "lock_data mx (?up s1) = Some s4"
      "rec (mx_holder (mutexes (add_pri_count mx p s4)) mx) p (add_pri_count mx p s4) = Some s5" "s2 = unlock_data mx s5"
      using w unfolding Let_def if_P [OF True] Option.bind_eq_Some_conv option.inject by blast
    then show ?thesis using "1"(1) [of _ _ "add_pri_count mx p s4" s5]
      by (auto simp: lock_data_def add_pri_count_def unlock_data_def adj_frame_def split: if_splits)
  next
    case False
    then have "s2 = ?up s1" using w by (simp only: if_False option.inject)
    then show ?thesis by simp
  qed
  with f1 have "adj_frame (timer_disable s) s3" using rest_frame_adj [OF shift_remaining_frame [OF sh]] adj_frame_trans by blast
  then show ?case by (simp add: s' adj_frame_def unlock_thread_def timer_disable_def timer_restore_def)
qed

subsection \<open>The chain of holders\<close>

definition passes :: "kstate \<Rightarrow> ptr \<Rightarrow> bool" where
  "passes s t \<longleftrightarrow> WAIT_MUTEX = wait_type (threads s) t \<and> \<not> RUNNABLE_STATE (status (threads s) t)"

text \<open>
  \<open>boost_chain s t ms\<close>: \<open>t\<close> sleeps for the first mutex of \<open>ms\<close>, whose holder sleeps for the second,
  and so on; the holder of the last one does not sleep for a mutex.  \<open>holders\<close> lists the threads.
\<close>

fun boost_chain :: "kstate \<Rightarrow> ptr \<Rightarrow> ptr list \<Rightarrow> bool" where
  "boost_chain s t [] \<longleftrightarrow> t \<noteq> NULL \<and> \<not> passes s t"
| "boost_chain s t (mx # ms) \<longleftrightarrow> t \<noteq> NULL \<and> passes s t \<and> wait_obj (threads s) t = mx \<and> mx \<noteq> NULL \<and>
     boost_chain s (mx_holder (mutexes s) mx) ms"

fun holders :: "kstate \<Rightarrow> ptr \<Rightarrow> ptr list \<Rightarrow> ptr list" where
  "holders s t [] = [t]"
| "holders s t (mx # ms) = t # holders s (mx_holder (mutexes s) mx) ms"

definition shiftable :: "kstate \<Rightarrow> ptr \<Rightarrow> bool" where
  "shiftable s t \<longleftrightarrow> (RUNNABLE_STATE (status (threads s) t) \<longrightarrow>
     \<not> sched_mutex (sched s (cpu_id (threads s) t)) \<and>
     (t = current_thread (sched s (cpu_id (threads s) t)) \<or> priority_heap_pos (threads s) t \<noteq> 0))"

definition chain_view :: "kstate \<Rightarrow> (ptr \<Rightarrow> u32) \<times> (ptr \<Rightarrow> u32) \<times> (ptr \<Rightarrow> ptr) \<times> (ptr \<Rightarrow> ptr)" where
  "chain_view s = (status (threads s), wait_type (threads s), wait_obj (threads s), mx_holder (mutexes s))"

lemma boost_chain_cong:
  assumes "chain_view s' = chain_view s"
  shows "boost_chain s' t ms = boost_chain s t ms" "holders s' t ms = holders s t ms"
  using assms by (induction s t ms rule: boost_chain.induct) (auto simp: chain_view_def passes_def)

lemma holders_not_Nil [simp]: "holders s t ms \<noteq> []"
  by (cases ms) simp_all

lemma shift_remaining_returns:
  assumes "shiftable s t"
  shows "\<exists>s'. shift_remaining t d s = Some s'"
proof -
  define s1 where "s1 = (if sint (remaining (threads s) t) < 0
    then upd_threads (\<lambda>m. m\<lparr>remaining := (remaining m)(t := 0)\<rparr>) s else s)"
  let ?c = "cpu_id (threads s) t"
  have s1: "status (threads s1) = status (threads s)" "cpu_id (threads s1) = cpu_id (threads s)" "sched s1 = sched s"
    "priority_heap_pos (threads s1) = priority_heap_pos (threads s)" by (simp_all add: s1_def)
  define s2 where "s2 = upd_sched ?c (\<lambda>sc. sc\<lparr>sched_mutex := True\<rparr>) s1"
  show ?thesis
  proof (cases "RUNNABLE_STATE (status (threads s) t)")
    case True
    then have c: "\<not> sched_mutex (sched s ?c)" "t = current_thread (sched s ?c) \<or> priority_heap_pos (threads s) t \<noteq> 0"
      using assms by (auto simp: shiftable_def)
    have "\<exists>s'. sched_change_remaining ?c t (remaining (threads s2) t + d) s2 = Some s'"
      using c(2) s1 by (auto simp: sched_change_remaining_def in_running_def Let_def s2_def)
    moreover have "lock_sched ?c s1 = Some s2" using c(1) s1 by (simp add: lock_sched_def s2_def)
    ultimately show ?thesis using True s1 by (auto simp: shift_remaining_def Let_def simp flip: s1_def)
  next
    case False
    then show ?thesis using s1 by (simp add: shift_remaining_def Let_def flip: s1_def)
  qed
qed

text \<open>The state in which the recursion starts, one link further down the chain.\<close>

definition boosted :: "ptr \<Rightarrow> u32 \<Rightarrow> kstate \<Rightarrow> kstate" where
  "boosted t p s = upd_threads (\<lambda>m. m\<lparr>sync_mutex := (sync_mutex m)(t := True),
     soft_priority := (soft_priority m)(t := soft_priority m t + p)\<rparr>) (timer_disable s)"

lemma adjust_unfold:
  assumes "t \<noteq> NULL" "\<not> sync_mutex (threads s) t"
  shows "thread_adjust_priority t p s = do {
     s \<leftarrow> (if passes s t then do {
             mx \<leftarrow> deref (wait_obj (threads s) t);
             s \<leftarrow> lock_data mx (boosted t p s);
             s \<leftarrow> thread_adjust_priority (mx_holder (mutexes s) mx) p (add_pri_count mx p s);
             Some (unlock_data mx s) }
           else Some (boosted t p s));
     s \<leftarrow> shift_remaining t p s;
     Some (timer_restore (unlock_thread t s)) }"
proof -
  have b: "lock_thread t (timer_disable s) = Some (upd_threads (\<lambda>m. m\<lparr>sync_mutex := (sync_mutex m)(t := True)\<rparr>) (timer_disable s))"
    "upd_threads (\<lambda>m. m\<lparr>soft_priority := (soft_priority m)(t := soft_priority m t + p)\<rparr>)
       (upd_threads (\<lambda>m. m\<lparr>sync_mutex := (sync_mutex m)(t := True)\<rparr>) (timer_disable s)) = boosted t p s"
    using assms by (simp_all add: lock_thread_def boosted_def upd_threads_def timer_disable_def)
  have [simp]: "wait_type (threads (boosted t p s)) = wait_type (threads s)" "status (threads (boosted t p s)) = status (threads s)"
    "wait_obj (threads (boosted t p s)) = wait_obj (threads s)" "mx_holder (mutexes (add_pri_count mx p s')) = mx_holder (mutexes s')" for mx s'
    by (simp_all add: boosted_def add_pri_count_def)
  show ?thesis
    by (subst thread_adjust_priority.simps) (simp add: assms(1) b Let_def passes_def cong: if_cong)
qed

definition adjusted :: "ptr set \<Rightarrow> ptr set \<Rightarrow> u32 \<Rightarrow> kstate \<Rightarrow> kstate \<Rightarrow> bool" where
  "adjusted T M p s s' \<longleftrightarrow> adj_frame s s' \<and>
     soft_priority (threads s') = (\<lambda>x. if x \<in> T then soft_priority (threads s) x + p else soft_priority (threads s) x) \<and>
     mx_pri_count (mutexes s') = (\<lambda>m. if m \<in> M then mx_pri_count (mutexes s) m + p else mx_pri_count (mutexes s) m) \<and>
     sync_mutex (threads s') = sync_mutex (threads s) \<and> mx_data_mutex (mutexes s') = mx_data_mutex (mutexes s)"

lemma adjust_end:
  assumes "t \<noteq> NULL" "\<not> passes s t" "\<not> sync_mutex (threads s) t" "shiftable s t"
  obtains s' where "thread_adjust_priority t p s = Some s'" "adjusted {t} {} p s s'"
proof -
  have "shiftable (boosted t p s) t" using assms(4) by (simp add: shiftable_def boosted_def)
  then obtain s1 where s1: "shift_remaining t p (boosted t p s) = Some s1" using shift_remaining_returns by blast
  then have run: "thread_adjust_priority t p s = Some (timer_restore (unlock_thread t s1))"
    using assms by (simp add: adjust_unfold)
  have f: "rest_frame (boosted t p s) s1" by (rule shift_remaining_frame [OF s1])
  show ?thesis
  proof (rule that [OF run], unfold adjusted_def, intro conjI)
    show "adj_frame s (timer_restore (unlock_thread t s1))" by (rule thread_adjust_priority_frame [OF run])
  qed (use f assms(3) in \<open>auto simp: rest_frame_def same_rest_def unlock_thread_def boosted_def timer_disable_def timer_restore_def fun_upd_idem\<close>)
qed


lemma adjust_step:
  assumes "t \<noteq> NULL" "passes s t" "\<not> sync_mutex (threads s) t" "wait_obj (threads s) t = mx" "mx \<noteq> NULL"
    "\<not> mx_data_mutex (mutexes s) mx" "mx \<notin> M" "t \<notin> T"
    and s1: "s1 = add_pri_count mx p (boosted t p s\<lparr>mutexes := (mutexes s)\<lparr>mx_data_mutex := (mx_data_mutex (mutexes s))(mx := True)\<rparr>\<rparr>)"
    and s2: "thread_adjust_priority (mx_holder (mutexes s) mx) p s1 = Some s2" "adjusted T M p s1 s2"
  obtains s' where "thread_adjust_priority t p s = Some s'" "adjusted (insert t T) (insert mx M) p s s'"
proof -
  let ?l = "boosted t p s\<lparr>mutexes := (mutexes s)\<lparr>mx_data_mutex := (mx_data_mutex (mutexes s))(mx := True)\<rparr>\<rparr>"
  have lock: "lock_data mx (boosted t p s) = Some ?l"
    using assms(6) by (simp add: lock_data_def boosted_def timer_disable_def)
  have st: "status (threads (unlock_data mx s2)) = status (threads s)"
    using s2(2) by (simp add: adjusted_def adj_frame_def s1 boosted_def add_pri_count_def unlock_data_def)
  then have "shiftable (unlock_data mx s2) t" using assms(2) by (simp add: shiftable_def passes_def)
  then obtain s3 where s3: "shift_remaining t p (unlock_data mx s2) = Some s3" using shift_remaining_returns by blast
  have run: "thread_adjust_priority t p s = Some (timer_restore (unlock_thread t s3))"
    using assms(1-5) lock s2(1) s3 by (simp add: adjust_unfold s1)
  have f: "rest_frame (unlock_data mx s2) s3" by (rule shift_remaining_frame [OF s3])
  show ?thesis
  proof (rule that [OF run], unfold adjusted_def, intro conjI)
    show "adj_frame s (timer_restore (unlock_thread t s3))" by (rule thread_adjust_priority_frame [OF run])
  qed (use f s2(2) assms(3,6-8) in \<open>auto simp: rest_frame_def same_rest_def adjusted_def s1 unlock_thread_def
        unlock_data_def boosted_def add_pri_count_def timer_disable_def timer_restore_def fun_upd_idem fun_eq_iff\<close>)
qed

lemma adjust_chain:
  assumes "boost_chain s t ms" "distinct ms" "distinct (holders s t ms)"
    "\<forall>x\<in>set (holders s t ms). \<not> sync_mutex (threads s) x" "\<forall>mx\<in>set ms. \<not> mx_data_mutex (mutexes s) mx"
    "shiftable s (last (holders s t ms))"
  shows "\<exists>s'. thread_adjust_priority t p s = Some s' \<and> adjusted (set (holders s t ms)) (set ms) p s s'"
  using assms
proof (induction ms arbitrary: s t)
  case Nil
  then show ?case using adjust_end [of t s p] by auto
next
  case (Cons mx ms)
  let ?h = "mx_holder (mutexes s) mx"
  define s1 where "s1 = add_pri_count mx p (boosted t p s\<lparr>mutexes := (mutexes s)\<lparr>mx_data_mutex := (mx_data_mutex (mutexes s))(mx := True)\<rparr>\<rparr>)"
  have v: "chain_view s1 = chain_view s" by (simp add: chain_view_def s1_def boosted_def add_pri_count_def)
  have sh: "shiftable s1 x = shiftable s x" for x by (simp add: shiftable_def s1_def boosted_def add_pri_count_def timer_disable_def)
  have lk: "sync_mutex (threads s1) = (sync_mutex (threads s))(t := True)" "mx_data_mutex (mutexes s1) = (mx_data_mutex (mutexes s))(mx := True)"
    by (simp_all add: s1_def boosted_def add_pri_count_def)
  have "\<exists>s2. thread_adjust_priority ?h p s1 = Some s2 \<and> adjusted (set (holders s1 ?h ms)) (set ms) p s1 s2"
  proof (rule Cons.IH)
    show "boost_chain s1 ?h ms" "distinct ms" "distinct (holders s1 ?h ms)" "shiftable s1 (last (holders s1 ?h ms))"
      using Cons.prems by (simp_all add: boost_chain_cong [OF v] sh)
    show "\<forall>x\<in>set (holders s1 ?h ms). \<not> sync_mutex (threads s1) x" "\<forall>mx\<in>set ms. \<not> mx_data_mutex (mutexes s1) mx"
      using Cons.prems by (auto simp: boost_chain_cong [OF v] lk)
  qed
  then obtain s2 where s2: "thread_adjust_priority ?h p s1 = Some s2" "adjusted (set (holders s ?h ms)) (set ms) p s1 s2"
    by (auto simp: boost_chain_cong [OF v])
  have "\<exists>s'. thread_adjust_priority t p s = Some s' \<and> adjusted (insert t (set (holders s ?h ms))) (insert mx (set ms)) p s s'"
    using adjust_step [OF _ _ _ _ _ _ _ _ s1_def s2] Cons.prems by (metis boost_chain.simps(2) distinct.simps(2) holders.simps(2) list.set_intros(1))
  then show ?case by simp
qed

end
