(* ===== verification/Sync_Props.thy ===== *)
theory Sync_Props
  imports Sync_Boost
begin

text \<open>
  Properties of mutexes and condition variables.  A queue of sleepers is the ring of
  \<open>Circular_List\<close> through the thread control blocks; the examples extend the two-CPU system of
  \<open>Sched_Props\<close>.
\<close>

definition waiters :: "kstate \<Rightarrow> ptr \<Rightarrow> ptr list \<Rightarrow> bool" where
  "waiters s q ps \<longleftrightarrow> ring (queue_links (threads s)) ps \<and> q = clist_head ps"

lemma waiters_Nil [simp]: "waiters s q [] \<longleftrightarrow> q = NULL"
  by (auto simp: waiters_def ring_def clist_head_def)

lemma waiters_head: "waiters s q (p # ps) \<Longrightarrow> q = p \<and> p \<noteq> NULL"
  by (auto simp: waiters_def ring_def clist_head_def)

lemma waiters_null: "waiters s q ps \<Longrightarrow> (q = NULL) = (ps = [])"
  by (cases ps) (auto dest: waiters_head)

lemma waiters_insert:
  assumes "waiters s q ps" "t \<notin> set ps" "t \<noteq> NULL" "thread_queue_insert q t s = (q', s')"
  shows "waiters s' q' (t # ps)"
    "\<exists>nxt lst. s' = upd_threads (\<lambda>m. m\<lparr>queue_next := nxt, queue_last := lst\<rparr>) s"
proof -
  obtain h lk where r: "clist_insert q t (queue_links (threads s)) = (h, lk)" by (metis surj_pair)
  have k: "h = t" "ring lk (t # ps)"
    using clist_insert_ring [of "queue_links (threads s)" ps t h lk] assms(1-3) r by (auto simp: waiters_def)
  have s': "q' = h" "s' = upd_threads (\<lambda>m. m\<lparr>queue_next := fst lk, queue_last := snd lk\<rparr>) s"
    using assms(4) r by (auto simp: thread_queue_insert_def on_links_def split: prod.splits)
  show "waiters s' q' (t # ps)" using k by (simp add: waiters_def s' queue_links_def clist_head_def)
  show "\<exists>nxt lst. s' = upd_threads (\<lambda>m. m\<lparr>queue_next := nxt, queue_last := lst\<rparr>) s" using s' by blast
qed

text \<open>The thread that leaves the queue is its last one.\<close>

lemma waiters_remove:
  assumes "waiters s p (p # ps)" "thread_queue_remove p s = (q', s')"
  shows "waiters s' q' (butlast (p # ps))"
    "\<exists>nxt lst. s' = upd_threads (\<lambda>m. m\<lparr>queue_next := nxt, queue_last := lst\<rparr>) s"
proof -
  obtain h lk where r: "clist_delete (queue_last (threads s) p) (queue_links (threads s)) = (h, lk)" by (metis surj_pair)
  have k: "h = clist_head (butlast (p # ps))" "ring lk (butlast (p # ps))"
    using clist_delete_last [of "queue_links (threads s)" p ps h lk] assms(1) r by (auto simp: waiters_def queue_links_def)
  have s': "q' = h" "s' = upd_threads (\<lambda>m. m\<lparr>queue_next := fst lk, queue_last := snd lk\<rparr>) s"
    using assms(2) r by (auto simp: thread_queue_remove_def on_links_def split: prod.splits)
  show "waiters s' q' (butlast (p # ps))" using k by (simp add: waiters_def s' queue_links_def)
  show "\<exists>nxt lst. s' = upd_threads (\<lambda>m. m\<lparr>queue_next := nxt, queue_last := lst\<rparr>) s" using s' by blast
qed

subsection \<open>Priority inheritance\<close>

text \<open>C15: Adjusting the priority of a thread adjusts, by the same amount, exactly the threads on the
  chain of holders it waits for and the priority counts of the mutexes on the chain, and returns
  with all locks as they were; the end of the chain may be running, queued or asleep for another
  reason.\<close>

theorem thread_adjust_priority_inherits:
  assumes "boost_chain s t ms" "distinct ms" "distinct (holders s t ms)"
    "\<forall>x\<in>set (holders s t ms). \<not> sync_mutex (threads s) x" "\<forall>mx\<in>set ms. \<not> mx_data_mutex (mutexes s) mx"
    "shiftable s (last (holders s t ms))"
  shows "\<exists>s'. thread_adjust_priority t p s = Some s' \<and>
    (\<forall>x. soft_priority (threads s') x = soft_priority (threads s) x + (if x \<in> set (holders s t ms) then p else 0)) \<and>
    (\<forall>m. mx_pri_count (mutexes s') m = mx_pri_count (mutexes s) m + (if m \<in> set ms then p else 0)) \<and>
    sync_mutex (threads s') = sync_mutex (threads s) \<and> mx_data_mutex (mutexes s') = mx_data_mutex (mutexes s) \<and>
    timer_off s' = timer_off s"
proof -
  obtain s' where "thread_adjust_priority t p s = Some s'" "adjusted (set (holders s t ms)) (set ms) p s s'"
    using adjust_chain [OF assms] by blast
  then show ?thesis by (simp add: adjusted_def adj_frame_def)
qed

text \<open>Threads 50 and 60 sleep: 50 for mutex 200, held by 60, and 60 for mutex 300, held by the running 10.\<close>

definition demo_chain :: kstate where
  "demo_chain = demo\<lparr>threads := demo_threads\<lparr>status := (\<lambda>_. 0)(50 := SCHED_INT_SLEEP, 60 := SCHED_INT_SLEEP),
       wait_type := (\<lambda>_. 0)(50 := WAIT_MUTEX, 60 := WAIT_MUTEX), wait_obj := (\<lambda>_. 0)(50 := 200, 60 := 300),
       queue_next := (\<lambda>_. 0)(50 := 50, 60 := 60), queue_last := (\<lambda>_. 0)(50 := 50, 60 := 60)\<rparr>,
     mutexes := no_mutexes\<lparr>mx_mutex := (\<lambda>_. False)(200 := True, 300 := True),
       mx_holder := (\<lambda>_. 0)(200 := 60, 300 := 10), mx_queue := (\<lambda>_. 0)(200 := 50, 300 := 60)\<rparr>\<rparr>"

lemma demo_chain_simps [simp]:
  "status (threads demo_chain) = (\<lambda>_. 0)(50 := SCHED_INT_SLEEP, 60 := SCHED_INT_SLEEP)"
  "wait_type (threads demo_chain) = (\<lambda>_. 0)(50 := WAIT_MUTEX, 60 := WAIT_MUTEX)"
  "wait_obj (threads demo_chain) = (\<lambda>_. 0)(50 := 200, 60 := 300)"
  "queue_links (threads demo_chain) = ((\<lambda>_. 0)(50 := 50, 60 := 60), (\<lambda>_. 0)(50 := 50, 60 := 60))"
  "mx_holder (mutexes demo_chain) = (\<lambda>_. 0)(200 := 60, 300 := 10)" "sync_mutex (threads demo_chain) = (\<lambda>_. False)"
  "mx_data_mutex (mutexes demo_chain) = (\<lambda>_. False)" "soft_priority (threads demo_chain) = soft_priority demo_threads"
  "cpu_id (threads demo_chain) = cpu_id demo_threads" "sched demo_chain = sched demo"
  "mx_queue (mutexes demo_chain) = (\<lambda>_. 0)(200 := 50, 300 := 60)"
  by (simp_all add: demo_chain_def demo_threads_def thread_mem0_def no_mutexes_def queue_links_def)

lemma demo_chain_boost: "boost_chain demo_chain 50 [200, 300]" "holders demo_chain 50 [200, 300] = [50, 60, 10]"
  "shiftable demo_chain 10"
proof -
  have "passes demo_chain 50" "passes demo_chain 60" "\<not> passes demo_chain 10"
    by (simp_all add: passes_def runnable_states) (simp_all add: WAIT_MUTEX_def)
  then show "boost_chain demo_chain 50 [200, 300]" by (simp add: NULL_def)
  show "holders demo_chain 50 [200, 300] = [50, 60, 10]" by simp
  show "shiftable demo_chain 10" by (simp add: shiftable_def demo_threads_def thread_mem0_def)
qed

theorem thread_adjust_priority_inherits_witness:
  "\<exists>s'. thread_adjust_priority 50 5 demo_chain = Some s' \<and> soft_priority (threads s') 10 = 25 \<and> mx_pri_count (mutexes s') 200 = 5"
proof -
  have "mx_pri_count (mutexes demo_chain) 200 = 0" by (simp add: demo_chain_def no_mutexes_def)
  then show ?thesis
    using thread_adjust_priority_inherits [OF demo_chain_boost(1), of 5] demo_chain_boost(2,3)
    by (auto simp: demo_threads_def)
qed


subsection \<open>The deadlock test\<close>

lemma ring_next:
  assumes "ring lk (xs @ c # ys)"
  shows "fst lk c = clist_head (ys @ xs @ [c])"
proof -
  have "ring lk (c # ys @ xs)" by (rule ring_turn [OF assms])
  moreover have "clist_head (ys @ xs @ [c]) = clist_head ((ys @ xs) @ [c])" by simp
  ultimately show ?thesis by (cases "ys @ xs") (auto simp: ring_def clist_head_def)
qed

lemma find_waiter_from:
  assumes "ring (queue_links m) (xs @ c # ys)" "t \<notin> set xs"
  shows "find_waiter m t (clist_head (xs @ [c])) c = Some (t \<in> set (c # ys))"
  using assms
proof (induction ys arbitrary: xs c)
  case Nil
  have "queue_next m c = clist_head (xs @ [c])" using ring_next [OF Nil.prems(1)] by (simp add: queue_links_def)
  then show ?case by (subst find_waiter.simps) simp
next
  case (Cons y ys)
  have nxt: "queue_next m c = y" using ring_next [OF Cons.prems(1)] by (simp add: queue_links_def clist_head_def)
  have y: "y \<noteq> clist_head (xs @ [c])"
    using Cons.prems(1) by (cases xs) (auto simp: ring_def clist_head_def)
  have rest: "t \<noteq> c \<Longrightarrow> find_waiter m t (clist_head ((xs @ [c]) @ [y])) y = Some (t \<in> set (y # ys))"
    using Cons.IH [of "xs @ [c]" y] Cons.prems by simp
  have "clist_head ((xs @ [c]) @ [y]) = clist_head (xs @ [c])" by (cases xs) (simp_all add: clist_head_def)
  then show ?case using rest nxt y by (subst find_waiter.simps) auto
qed

lemma find_waiter_ring:
  "waiters s q ps \<Longrightarrow> q \<noteq> NULL \<Longrightarrow> find_waiter (threads s) t q q = Some (t \<in> set ps)"
  using find_waiter_from [of "threads s" "[]" _ _ t] by (cases ps) (auto simp: waiters_def clist_head_def)

text \<open>
  \<open>lock_chain t s mx ch\<close>: the mutexes from \<open>mx\<close> on, each with its queue, until \<open>t\<close> is met or a
  holder does not wait for a mutex.  That there is such a finite chain is the assumption the
  code states in its comment, that the waiting threads form no cycle.
\<close>

fun lock_chain :: "ptr \<Rightarrow> kstate \<Rightarrow> ptr \<Rightarrow> (ptr \<times> ptr list) list \<Rightarrow> bool" where
  "lock_chain t s mx [] \<longleftrightarrow> False"
| "lock_chain t s mx ((m, ps) # ch) \<longleftrightarrow> mx = m \<and> m \<noteq> NULL \<and> \<not> mx_data_mutex (mutexes s) m \<and>
     waiters s (mx_queue (mutexes s) m) ps \<and>
     (if t \<in> set ps \<or> mx_holder (mutexes s) m = t then ch = []
      else mx_holder (mutexes s) m \<noteq> NULL \<and>
        (if wait_type (threads s) (mx_holder (mutexes s) m) = WAIT_MUTEX
         then lock_chain t s (wait_obj (threads s) (mx_holder (mutexes s) m)) ch else ch = []))"

lemma data_mutex_idem:
  assumes "\<not> mx_data_mutex (mutexes s) m"
  shows "s\<lparr>mutexes := (mutexes s)\<lparr>mx_data_mutex := (mx_data_mutex (mutexes s))(m := False)\<rparr>\<rparr> = s"
proof -
  have "(mx_data_mutex (mutexes s))(m := False) = mx_data_mutex (mutexes s)" using assms by (simp add: fun_upd_idem)
  then show ?thesis by simp
qed

lemma detect_deadlock_chain:
  "lock_chain t s mx ch \<Longrightarrow>
   detect_deadlock t mx s = Some (\<exists>(m, ps)\<in>set ch. t \<in> set ps \<or> mx_holder (mutexes s) m = t, s)"
proof (induction ch arbitrary: mx)
  case (Cons x ch)
  obtain m ps where x: "x = (m, ps)" by (cases x)
  have m: "mx = m" "m \<noteq> NULL" "\<not> mx_data_mutex (mutexes s) m" "waiters s (mx_queue (mutexes s) m) ps"
    using Cons.prems by (simp_all add: x)
  define s1 where "s1 = s\<lparr>mutexes := (mutexes s)\<lparr>mx_data_mutex := (mx_data_mutex (mutexes s))(m := True)\<rparr>\<rparr>"
  have lock: "lock_data m s = Some s1" "unlock_data m s1 = s"
    using m(3) by (simp_all add: lock_data_def unlock_data_def s1_def data_mutex_idem)
  have s1: "mx_queue (mutexes s1) = mx_queue (mutexes s)" "mx_holder (mutexes s1) = mx_holder (mutexes s)" "threads s1 = threads s"
    by (simp_all add: s1_def)
  have find: "(if NULL \<noteq> mx_queue (mutexes s) m then find_waiter (threads s) t (mx_queue (mutexes s) m) (mx_queue (mutexes s) m)
      else Some False) = Some (t \<in> set ps)"
    using find_waiter_ring [OF m(4)] waiters_null [OF m(4)] by auto
  show ?case
  proof (cases "t \<in> set ps \<or> mx_holder (mutexes s) m = t")
    case True
    then show ?thesis using m lock s1 find by (subst detect_deadlock.simps) (auto simp: Let_def x)
  next
    case False
    have h: "mx_holder (mutexes s) m \<noteq> NULL" using False Cons.prems by (simp add: x)
    show ?thesis
    proof (cases "wait_type (threads s) (mx_holder (mutexes s) m) = WAIT_MUTEX")
      case True
      then have "lock_chain t s (wait_obj (threads s) (mx_holder (mutexes s) m)) ch" using False Cons.prems by (simp add: x)
      from Cons.IH [OF this] show ?thesis
        using True False m lock s1 find h by (subst detect_deadlock.simps) (auto simp: Let_def x)
    next
      case not: False
      then have "ch = []" using False Cons.prems by (simp add: x)
      then show ?thesis
        using not False m lock s1 find h by (subst detect_deadlock.simps) (auto simp: Let_def x)
    qed
  qed
qed simp

text \<open>C14: The deadlock test returns, changes nothing, and answers yes exactly when the thread is
  queued on, or holds, one of the mutexes on the chain from the mutex it is about to sleep for.\<close>

theorem detect_deadlock_exact:
  assumes "lock_chain t s mx ch"
  shows "detect_deadlock t mx s = Some (\<exists>(m, ps)\<in>set ch. t \<in> set ps \<or> mx_holder (mutexes s) m = t, s)"
  using assms by (rule detect_deadlock_chain)

theorem detect_deadlock_exact_witness:
  "detect_deadlock 10 200 demo_chain = Some (True, demo_chain) \<and> detect_deadlock 40 200 demo_chain = Some (False, demo_chain)"
proof -
  have w: "waiters demo_chain 50 [50]" "waiters demo_chain 60 [60]"
    by (simp_all add: waiters_def ring_def clist_head_def NULL_def)
  have "lock_chain 10 demo_chain 200 [(200, [50]), (300, [60])]" "lock_chain 40 demo_chain 200 [(200, [50]), (300, [60])]"
    using w by (simp_all add: NULL_def) (simp add: WAIT_MUTEX_def)
  from this [THEN detect_deadlock_exact] show ?thesis by simp
qed

end
