(* ===== verification/Sync_Ops.thy ===== *)
theory Sync_Ops
  imports Sync_Props
begin

text \<open>
  What happens when a mutex or a condition variable is taken, released or signalled.
\<close>

lemma timer_fields [simp]:
  "mutexes (timer_disable s) = mutexes s" "conds (timer_disable s) = conds s" "cpu_num (timer_disable s) = cpu_num s"
  "mutexes (timer_restore s) = mutexes s" "conds (timer_restore s) = conds s" "cpu_num (timer_restore s) = cpu_num s"
  by (simp_all add: timer_disable_def timer_restore_def)

subsection \<open>Running threads\<close>

definition running :: "kstate \<Rightarrow> ptr \<Rightarrow> bool" where
  "running s t \<longleftrightarrow> t \<noteq> NULL \<and> RUNNABLE_STATE (status (threads s) t) \<and> \<not> sync_mutex (threads s) t \<and>
     t = current_thread (sched s (cpu_id (threads s) t)) \<and> \<not> sched_mutex (sched s (cpu_id (threads s) t))"

lemma running_ends: "running s t \<Longrightarrow> t \<noteq> NULL \<and> \<not> passes s t \<and> \<not> sync_mutex (threads s) t \<and> shiftable s t"
  by (simp add: running_def passes_def shiftable_def)

lemma shift_current:
  assumes "RUNNABLE_STATE (status (threads s) t)" "t = current_thread (sched s (cpu_id (threads s) t))"
    "\<not> sched_mutex (sched s (cpu_id (threads s) t))" "shift_remaining t d s = Some s'"
  shows "cpu_id (threads s') t = cpu_id (threads s) t \<and> current_thread (sched s' (cpu_id (threads s) t)) = t \<and>
    \<not> sched_mutex (sched s' (cpu_id (threads s) t))"
proof -
  let ?c = "cpu_id (threads s) t"
  define s1 where "s1 = (if sint (remaining (threads s) t) < 0
    then upd_threads (\<lambda>m. m\<lparr>remaining := (remaining m)(t := 0)\<rparr>) s else s)"
  have s1: "status (threads s1) = status (threads s)" "cpu_id (threads s1) = cpu_id (threads s)" "sched s1 = sched s"
    by (simp_all add: s1_def)
  define s2 where "s2 = upd_sched ?c (\<lambda>sc. sc\<lparr>sched_mutex := True\<rparr>) s1"
  have lock: "lock_sched ?c s1 = Some s2" using assms(3) s1 by (simp add: lock_sched_def s2_def)
  have cur: "current_thread (sched s2 ?c) = t" using assms(2) s1 by (simp add: s2_def)
  obtain s3 where s3: "sched_change_remaining ?c t (remaining (threads s2) t + d) s2 = Some s3"
    "threads s3 = threads s2" "current_thread (sched s3 ?c) = t"
    using cur by (simp add: sched_change_remaining_def)
  have "s' = unlock_sched (cpu_id (threads s3) t) s3"
    using assms(1,4) s1 lock s3(1) by (simp add: shift_remaining_def Let_def flip: s1_def)
  moreover have "threads s2 = threads s1" by (simp add: s2_def)
  ultimately show ?thesis using s3 s1 by (simp add: unlock_sched_def)
qed

lemma adjust_running:
  assumes "running s t"
  obtains s' where "thread_adjust_priority t p s = Some s'" "adjusted {t} {} p s s'" "running s' t"
proof -
  have t: "t \<noteq> NULL" "\<not> passes s t" "\<not> sync_mutex (threads s) t" "shiftable s t" using running_ends [OF assms] by auto
  obtain s' where s': "thread_adjust_priority t p s = Some s'" "adjusted {t} {} p s s'" by (rule adjust_end [OF t])
  obtain s1 where s1: "shift_remaining t p (boosted t p s) = Some s1" "s' = timer_restore (unlock_thread t s1)"
    using s'(1) t by (auto simp: adjust_unfold split: bind_splits)
  have b: "cpu_id (threads (boosted t p s)) = cpu_id (threads s)" "sched (boosted t p s) = sched s"
    "status (threads (boosted t p s)) = status (threads s)" by (simp_all add: boosted_def)
  have "cpu_id (threads s1) t = cpu_id (threads s) t \<and> current_thread (sched s1 (cpu_id (threads s) t)) = t \<and>
    \<not> sched_mutex (sched s1 (cpu_id (threads s) t))"
    using shift_current [OF _ _ _ s1(1)] assms by (simp add: b running_def)
  then have "running s' t"
    using assms s'(2) by (simp add: running_def s1(2) unlock_thread_def adjusted_def adj_frame_def)
  then show ?thesis using that s' by blast
qed

subsection \<open>Taking and releasing a free mutex\<close>

lemma mutex_trylock_free:
  assumes cur: "running s cur" and mx: "mx \<noteq> NULL" "\<not> mx_mutex (mutexes s) mx" "\<not> mx_data_mutex (mutexes s) mx"
  obtains s' where "mutex_trylock cur mx s = Some (1, s')" "running s' cur" "timer_off s' = timer_off s"
    "soft_priority (threads s') = (soft_priority (threads s))(cur := soft_priority (threads s) cur + mx_pri_count (mutexes s) mx)"
    "mutexes s' = (mutexes s)\<lparr>mx_mutex := (mx_mutex (mutexes s))(mx := True), mx_holder := (mx_holder (mutexes s))(mx := cur)\<rparr>"
proof -
  let ?p = "mx_pri_count (mutexes s) mx"
  define a where "a = upd_mx (\<lambda>m. m\<lparr>mx_mutex := (mx_mutex m)(mx := True), mx_holder := (mx_holder m)(mx := cur)\<rparr>) (timer_disable s)"
  have ra: "running a cur" using cur by (simp add: running_def a_def upd_mx_def)
  obtain b where b: "thread_adjust_priority cur ?p a = Some b" "adjusted {cur} {} ?p a b" "running b cur"
    by (rule adjust_running [OF ra])
  have "\<exists>l. lock_data mx (upd_mx (\<lambda>m. m\<lparr>mx_mutex := (mx_mutex m)(mx := True)\<rparr>) (timer_disable s)) = Some l \<and>
      mx_pri_count (mutexes l) mx = ?p \<and> unlock_data mx (set_holder mx cur l) = a"
    using mx(3) by (simp add: lock_data_def unlock_data_def set_holder_def upd_mx_def a_def timer_disable_def fun_upd_idem)
  then have run: "mutex_trylock cur mx s = Some (1, timer_restore b)"
    using mx(1,2) b(1) by (auto simp: mutex_trylock_def trylock_mx_def Let_def timer_disable_def upd_mx_def)
  have "mutexes (timer_restore b) =
      (mutexes s)\<lparr>mx_mutex := (mx_mutex (mutexes s))(mx := True), mx_holder := (mx_holder (mutexes s))(mx := cur)\<rparr>"
    using b(2) by (intro mutex_mem.equality) (auto simp: adjusted_def adj_frame_def a_def upd_mx_def)
  then show ?thesis using that [OF run] b(2,3)
    by (auto simp: running_def adjusted_def adj_frame_def a_def upd_mx_def timer_disable_def timer_restore_def fun_eq_iff)
qed

lemma mutex_unlock_free:
  assumes cur: "running s cur" and mx: "mx \<noteq> NULL" "\<not> mx_num_mutex (mutexes s) mx"
    "\<not> mx_data_mutex (mutexes s) mx" "mx_num_spin (mutexes s) mx = 0" "mx_queue (mutexes s) mx = NULL"
  obtains s' where "mutex_unlock r cur mx s = Some s'" "running s' cur" "timer_off s' = timer_off s" "conds s' = conds s"
    "soft_priority (threads s') = (soft_priority (threads s))(cur := soft_priority (threads s) cur - mx_pri_count (mutexes s) mx)"
    "mutexes s' = (mutexes s)\<lparr>mx_mutex := (mx_mutex (mutexes s))(mx := False), mx_holder := (mx_holder (mutexes s))(mx := NULL)\<rparr>"
proof -
  let ?p = "mx_pri_count (mutexes s) mx"
  define c where "c = upd_mx (\<lambda>m. m\<lparr>mx_num_mutex := (mx_num_mutex m)(mx := True)\<rparr>) (timer_disable s)"
  have rc: "running c cur" using cur by (simp add: running_def c_def upd_mx_def)
  obtain d where d: "thread_adjust_priority cur (- ?p) c = Some d" "adjusted {cur} {} (- ?p) c d" "running d cur"
    by (rule adjust_running [OF rc])
  have fd: "mutexes d = (mutexes s)\<lparr>mx_num_mutex := (mx_num_mutex (mutexes s))(mx := True)\<rparr>"
    using d(2) by (intro mutex_mem.equality) (auto simp: adjusted_def adj_frame_def c_def upd_mx_def)
  define e where "e = timer_restore (unlock_mx mx (set_holder mx NULL (unlock_data mx
      (unlock_num mx d\<lparr>mutexes := (mutexes (unlock_num mx d))\<lparr>mx_data_mutex := (mx_data_mutex (mutexes d))(mx := True)\<rparr>\<rparr>))))"
  have "lock_num mx (timer_disable s) = Some c" "mx_pri_count (mutexes c) mx = ?p"
    using mx(2) by (simp_all add: lock_num_def c_def upd_mx_def)
  then have run: "mutex_unlock r cur mx s = Some e"
    using d(1) fd mx by (simp add: mutex_unlock_def lock_data_def unlock_num_def upd_mx_def e_def)
  have "mutexes e = (mutexes s)\<lparr>mx_mutex := (mx_mutex (mutexes s))(mx := False), mx_holder := (mx_holder (mutexes s))(mx := NULL)\<rparr>"
    using fd mx by (intro mutex_mem.equality)
      (auto simp: e_def unlock_mx_def set_holder_def unlock_data_def unlock_num_def upd_mx_def fun_upd_idem)
  then show ?thesis using that [OF run] d(2,3)
    by (auto simp: e_def unlock_mx_def set_holder_def unlock_data_def unlock_num_def upd_mx_def timer_restore_def timer_disable_def
        running_def adjusted_def adj_frame_def c_def fun_eq_iff)
qed

text \<open>Trying to lock a free mutex that nobody waits for succeeds and makes the caller its holder;
  unlocking it then gives back the state of all mutexes, the caller's priority and the timer.\<close>

theorem mutex_trylock_unlock:
  assumes cur: "running s cur" and mx: "mx \<noteq> NULL" "\<not> mx_mutex (mutexes s) mx" "\<not> mx_num_mutex (mutexes s) mx"
    "\<not> mx_data_mutex (mutexes s) mx" "mx_num_spin (mutexes s) mx = 0" "mx_queue (mutexes s) mx = NULL"
    "mx_holder (mutexes s) mx = NULL"
  shows "\<exists>s1 s2. mutex_trylock cur mx s = Some (1, s1) \<and> mx_mutex (mutexes s1) mx \<and> mx_holder (mutexes s1) mx = cur \<and>
    mutex_unlock r cur mx s1 = Some s2 \<and> mutexes s2 = mutexes s \<and>
    soft_priority (threads s2) = soft_priority (threads s) \<and> timer_off s2 = timer_off s"
proof -
  obtain s1 where s1: "mutex_trylock cur mx s = Some (1, s1)" "running s1 cur" "timer_off s1 = timer_off s"
    "soft_priority (threads s1) = (soft_priority (threads s))(cur := soft_priority (threads s) cur + mx_pri_count (mutexes s) mx)"
    "mutexes s1 = (mutexes s)\<lparr>mx_mutex := (mx_mutex (mutexes s))(mx := True), mx_holder := (mx_holder (mutexes s))(mx := cur)\<rparr>"
    by (rule mutex_trylock_free [OF cur mx(1,2,4)])
  have f: "\<not> mx_num_mutex (mutexes s1) mx" "\<not> mx_data_mutex (mutexes s1) mx" "mx_num_spin (mutexes s1) mx = 0"
    "mx_queue (mutexes s1) mx = NULL" using mx s1(5) by simp_all
  obtain s2 where s2: "mutex_unlock r cur mx s1 = Some s2" "timer_off s2 = timer_off s1"
    "soft_priority (threads s2) = (soft_priority (threads s1))(cur := soft_priority (threads s1) cur - mx_pri_count (mutexes s1) mx)"
    "mutexes s2 = (mutexes s1)\<lparr>mx_mutex := (mx_mutex (mutexes s1))(mx := False), mx_holder := (mx_holder (mutexes s1))(mx := NULL)\<rparr>"
    by (rule mutex_unlock_free [OF s1(2) mx(1) f])
  have "mutexes s2 = mutexes s" using s1(5) s2(4) mx by (simp add: fun_upd_idem)
  then show ?thesis using s1 s2 by (simp add: fun_upd_idem)
qed

theorem mutex_trylock_unlock_witness:
  "\<exists>s1 s2. mutex_trylock 10 400 demo = Some (1, s1) \<and> mx_holder (mutexes s1) 400 = 10 \<and>
    mutex_unlock (\<lambda>p n old d. (8, n, d)) 10 400 s1 = Some s2 \<and> mutexes s2 = mutexes demo"
proof -
  have "running demo 10"
    by (simp add: running_def NULL_def demo_threads_def thread_mem0_def runnable_states(1) [unfolded SCHED_RUNNABLE_def])
  moreover have "(400 :: ptr) \<noteq> NULL" "mutexes demo = no_mutexes" by (simp_all add: NULL_def demo_def)
  ultimately show ?thesis
    using mutex_trylock_unlock [of demo 10 400 "\<lambda>p n old d. (8, n, d)"] by (auto simp: no_mutexes_def)
qed

subsection \<open>Handing a mutex to a sleeper\<close>

lemma adjust_null_wait:
  assumes "passes s t" "wait_obj (threads s) t = NULL"
  shows "thread_adjust_priority t p s = None"
proof (cases "t \<noteq> NULL \<and> \<not> sync_mutex (threads s) t")
  case True
  then show ?thesis using assms by (simp add: adjust_unfold deref_def)
next
  case False
  then show ?thesis by (subst thread_adjust_priority.simps) (auto simp: lock_thread_def deref_def)
qed

lemma hand_over_faults:
  assumes "passes s (mx_queue (mutexes s) mx)"
  shows "hand_over r mx s = None"
proof -
  let ?t = "mx_queue (mutexes s) mx"
  obtain q s1 where rm: "thread_queue_remove ?t s = (q, s1)" by (metis surj_pair)
  have s1: "status (threads s1) = status (threads s)" "wait_type (threads s1) = wait_type (threads s)"
    using rm by (auto simp: thread_queue_remove_def on_links_def split: prod.splits)
  show ?thesis
  proof (cases "lock_thread ?t (set_mx_queue mx q s1)")
    case None
    then show ?thesis by (simp add: hand_over_def rm)
  next
    case (Some s2)
    let ?s3 = "unlock_thread ?t (set_holder mx ?t (set_wait_obj ?t NULL (add_pri_count mx (- soft_priority (threads s2) ?t) s2)))"
    have "status (threads s2) = status (threads s)" "wait_type (threads s2) = wait_type (threads s)"
      using Some s1 by (auto simp: lock_thread_def set_mx_queue_def upd_mx_def split: if_splits)
    then have "passes ?s3 ?t" "wait_obj (threads ?s3) ?t = NULL"
      using assms by (simp_all add: passes_def unlock_thread_def set_holder_def upd_mx_def set_wait_obj_def add_pri_count_def)
    from adjust_null_wait [OF this] show ?thesis by (simp add: hand_over_def rm Some Let_def)
  qed
qed

text \<open>Releasing a mutex that a thread sleeps for never succeeds: the code clears \<^verbatim>\<open>wait_obj\<close> where it
  means \<^verbatim>\<open>wait_type\<close>, so that the priority boost of the thread it wakes follows a null mutex.\<close>

theorem mutex_unlock_sleeper_faults:
  assumes "mx_num_spin (mutexes s) mx = 0" "mx_queue (mutexes s) mx \<noteq> NULL" "passes s (mx_queue (mutexes s) mx)"
  shows "mutex_unlock r cur mx s = None \<and> async_mutex_unlock r mx s = None"
proof
  have hand: "hand_over r mx s' = None"
    if "status (threads s') = status (threads s)" "wait_type (threads s') = wait_type (threads s)"
      "mx_queue (mutexes s') = mx_queue (mutexes s)" for s'
    using that assms(3) hand_over_faults [of s' mx r] by (simp add: passes_def)
  show "async_mutex_unlock r mx s = None"
    using assms(1,2) hand by (auto simp: async_mutex_unlock_def lock_num_def lock_data_def unlock_num_def upd_mx_def deref_def split: bind_splits)
  show "mutex_unlock r cur mx s = None"
  proof (cases "mx = NULL \<or> mx_num_mutex (mutexes s) mx")
    case True
    then show ?thesis by (auto simp: mutex_unlock_def lock_num_def deref_def timer_disable_def)
  next
    case False
    define a where "a = upd_mx (\<lambda>m. m\<lparr>mx_num_mutex := (mx_num_mutex m)(mx := True)\<rparr>) (timer_disable s)"
    have lock: "lock_num mx (timer_disable s) = Some a" using False by (simp add: lock_num_def a_def timer_disable_def)
    show ?thesis
    proof (cases "thread_adjust_priority cur (- mx_pri_count (mutexes a) mx) a")
      case None
      then show ?thesis using False lock by (simp add: mutex_unlock_def)
    next
      case (Some b)
      have f: "adj_frame a b" by (rule thread_adjust_priority_frame [OF Some])
      have "hand_over r mx s' = None" if "lock_data mx (unlock_num mx b) = Some s'" for s'
        using that f hand [of s'] by (auto simp: lock_data_def adj_frame_def a_def upd_mx_def unlock_num_def split: if_splits)
      moreover have "mx_queue (mutexes s') = mx_queue (mutexes s)" if "lock_data mx (unlock_num mx b) = Some s'" for s'
        using that f by (auto simp: lock_data_def adj_frame_def a_def upd_mx_def unlock_num_def timer_disable_def split: if_splits)
      moreover have "mx_num_spin (mutexes b) mx = 0" using f assms(1) by (simp add: adj_frame_def a_def upd_mx_def timer_disable_def)
      ultimately show ?thesis using False lock Some assms(2) by (auto simp: mutex_unlock_def split: bind_splits)
    qed
  qed
qed

theorem mutex_unlock_sleeper_faults_witness: 
  "mutex_unlock (\<lambda>p n old d. (8, n, d)) 10 300 demo_chain = None \<and> async_mutex_unlock (\<lambda>p n old d. (8, n, d)) 300 demo_chain = None"
proof -
  have "passes demo_chain 60" by (simp add: passes_def runnable_states)
  moreover have "mx_num_spin (mutexes demo_chain) 300 = 0" by (simp add: demo_chain_def no_mutexes_def)
  ultimately show ?thesis using mutex_unlock_sleeper_faults [of demo_chain 300] by (simp add: NULL_def)
qed

subsection \<open>A contended lock\<close>

text \<open>A thread that had to wait for a mutex and got it is killed by its next timer tick: it still
  counts as waiting for a mutex, now the null one, which the deadlock test dereferences.  The
  only assumption on the other CPUs is that they do not change what the thread waits for.\<close>

theorem contended_lock_then_tick_faults:
  assumes "mx_mutex (mutexes s) mx" "mutex_lock junk cur wait mx s = Some s'"
    "\<And>a b. wait a = Some b \<Longrightarrow> wait_type (threads b) cur = wait_type (threads a) cur"
  shows "sync_check re cur s' = None \<and> timer_interrupt j1 j2 spc_id re cur c s' = None"
proof -
  define a where "a = upd_threads (\<lambda>m. m\<lparr>wait_type := (wait_type m)(cur := WAIT_MUTEX)\<rparr>)
    (timer_disable (set_wait_obj cur mx (upd_mx (\<lambda>m. m\<lparr>mx_mutex := (mx_mutex m)(mx := True)\<rparr>) s)))"
  obtain b where b: "lock_num mx a = Some b"
    using assms(1,2) by (auto simp: mutex_lock_def trylock_mx_def a_def Let_def split: bind_splits)
  define d where "d = timer_restore (upd_mx (\<lambda>m. m\<lparr>mx_mutex := (mx_mutex m)(mx := True)\<rparr>) (unlock_num mx (add_mx_spin mx 1 b)))"
  have wd: "wait_type (threads d) cur = WAIT_MUTEX"
    using b by (auto simp: d_def a_def lock_num_def unlock_num_def add_mx_spin_def upd_mx_def split: if_splits)
  have held: "mx_mutex (mutexes (unlock_num mx (add_mx_spin mx 1 b))) mx"
    using b by (auto simp: a_def lock_num_def unlock_num_def add_mx_spin_def upd_mx_def set_wait_obj_def split: if_splits)
  obtain e f where e: "wait d = Some e" "get_priority_boost mx cur e = Some f" "s' = timer_restore (add_mx_spin mx (-1) f)"
    using assms(1,2) b held by (auto simp: mutex_lock_def trylock_mx_def Let_def simp flip: a_def d_def split: bind_splits)
  have we: "wait_type (threads e) cur = WAIT_MUTEX" using assms(3) [OF e(1)] wd by simp
  obtain g p where g: "thread_adjust_priority cur p (set_wait_obj cur NULL g) = Some f" "wait_type (threads g) = wait_type (threads e)"
  proof -
    obtain l where l: "lock_data mx e = Some l" using e(2) by (auto simp: get_priority_boost_def split: bind_splits)
    have "thread_adjust_priority cur (mx_pri_count (mutexes l) mx) (set_wait_obj cur NULL (unlock_data mx (set_holder mx cur l))) = Some f"
      using e(2) l by (auto simp: get_priority_boost_def Let_def split: bind_splits)
    moreover have "wait_type (threads (unlock_data mx (set_holder mx cur l))) = wait_type (threads e)"
      using l by (auto simp: lock_data_def unlock_data_def set_holder_def upd_mx_def split: if_splits)
    ultimately show ?thesis by (rule that)
  qed
  have "wait_type (threads s') cur = WAIT_MUTEX" "wait_obj (threads s') cur = NULL"
    using thread_adjust_priority_frame [OF g(1)] we g(2) by (simp_all add: e(3) adj_frame_def set_wait_obj_def add_mx_spin_def upd_mx_def)
  then have "sync_check re cur s' = None" by (simp add: sync_check_def) (subst detect_deadlock.simps, simp add: deref_def)
  then show ?thesis by (simp add: timer_interrupt_def)
qed

text \<open>Thread 40 on CPU 1 holds mutex 400; thread 10 waits for it and gets it.\<close>

definition demo_held :: kstate where
  "demo_held = demo\<lparr>mutexes := no_mutexes\<lparr>mx_mutex := (\<lambda>_. False)(400 := True), mx_holder := (\<lambda>_. 0)(400 := 40)\<rparr>\<rparr>"

lemma boost_running:
  assumes "running s cur" "\<not> mx_data_mutex (mutexes s) mx"
  obtains s' where "get_priority_boost mx cur s = Some s'" "mx_holder (mutexes s') mx = cur"
proof -
  define l where "l = s\<lparr>mutexes := (mutexes s)\<lparr>mx_data_mutex := (mx_data_mutex (mutexes s))(mx := True)\<rparr>\<rparr>"
  define g where "g = set_wait_obj cur NULL (unlock_data mx (set_holder mx cur l))"
  have "running g cur" "mx_holder (mutexes g) mx = cur"
    using assms(1) by (simp_all add: running_def g_def l_def set_wait_obj_def unlock_data_def set_holder_def upd_mx_def)
  moreover have "lock_data mx s = Some l" "cur \<noteq> NULL" using assms by (simp_all add: lock_data_def l_def running_def)
  moreover obtain s' where "thread_adjust_priority cur (mx_pri_count (mutexes l) mx) g = Some s'"
    "adjusted {cur} {} (mx_pri_count (mutexes l) mx) g s'" using \<open>running g cur\<close> by (rule adjust_running)
  ultimately show ?thesis using that [of s'] by (simp add: get_priority_boost_def g_def adjusted_def adj_frame_def)
qed

theorem contended_lock_then_tick_faults_witness:
  "\<exists>s'. mutex_lock 0 10 Some 400 demo_held = Some s' \<and> sync_check 1 10 s' = None \<and>
     timer_interrupt Some Some (\<lambda>_. 0) 1 10 0 s' = None"
proof -
  define a where "a = upd_threads (\<lambda>m. m\<lparr>wait_type := (wait_type m)(10 := WAIT_MUTEX)\<rparr>)
    (timer_disable (set_wait_obj 10 400 (upd_mx (\<lambda>m. m\<lparr>mx_mutex := (mx_mutex m)(400 := True)\<rparr>) demo_held)))"
  define b where "b = upd_mx (\<lambda>m. m\<lparr>mx_num_mutex := (mx_num_mutex m)(400 := True)\<rparr>) a"
  define d where "d = timer_restore (upd_mx (\<lambda>m. m\<lparr>mx_mutex := (mx_mutex m)(400 := True)\<rparr>) (unlock_num 400 (add_mx_spin 400 1 b)))"
  have held: "mx_mutex (mutexes demo_held) 400" by (simp add: demo_held_def)
  have ab: "threads a = demo_threads\<lparr>wait_type := (\<lambda>_. 0)(10 := WAIT_MUTEX), wait_obj := (\<lambda>_. 0)(10 := 400)\<rparr>"
    "sched a = sched demo" "mutexes a = mutexes demo_held"
    by (simp_all add: a_def demo_held_def set_wait_obj_def upd_mx_def demo_threads_def thread_mem0_def)
  have "running d 10"
    using ab by (simp add: running_def d_def b_def upd_mx_def unlock_num_def add_mx_spin_def NULL_def demo_threads_def
        thread_mem0_def runnable_states(1) [unfolded SCHED_RUNNABLE_def])
  moreover have "\<not> mx_data_mutex (mutexes d) 400"
    using ab by (simp add: d_def b_def upd_mx_def unlock_num_def add_mx_spin_def demo_held_def no_mutexes_def)
  ultimately obtain f where f: "get_priority_boost 400 10 d = Some f" using boost_running by blast
  have "lock_num 400 a = Some b" using ab by (simp add: lock_num_def b_def demo_held_def no_mutexes_def)
  moreover have "mx_mutex (mutexes (unlock_num 400 (add_mx_spin 400 1 b))) 400"
    using ab by (simp add: b_def upd_mx_def unlock_num_def add_mx_spin_def demo_held_def)
  ultimately have "mutex_lock 0 10 Some 400 demo_held = Some (timer_restore (add_mx_spin 400 (-1) f))"
    using held f by (simp add: mutex_lock_def trylock_mx_def Let_def NULL_def flip: a_def d_def)
  then show ?thesis using contended_lock_then_tick_faults [OF held, of 0 10 Some] by simp
qed

end
