(* ===== verification/Sync_Sleep.thy ===== *)
theory Sync_Sleep
  imports Sync_Ops
begin

text \<open>
  Threads that go to sleep on a mutex or a condition variable, and the signals that wake them.
\<close>

subsection \<open>Sleeping for a mutex\<close>

text \<open>C31: Going to sleep for a mutex puts the thread at the head of the mutex's queue, counts it as
  no longer spinning, marks it asleep, and passes its priority on to the holder and into the
  mutex's priority count.\<close>

theorem lock_sleep_correct:
  assumes w: "wait_obj (threads s) cur = mx" "mx \<noteq> NULL" "waiters s (mx_queue (mutexes s) mx) ps" "cur \<notin> set ps" "cur \<noteq> NULL"
    and l: "\<not> mx_data_mutex (mutexes s) mx" "\<not> sync_mutex (threads s) cur"
    and h: "h = mx_holder (mutexes s) mx" "h \<noteq> NULL" "h \<noteq> cur" "\<not> passes s h" "\<not> sync_mutex (threads s) h" "shiftable s h"
  shows "\<exists>s'. lock_sleep re cur s = Some s' \<and> waiters s' (mx_queue (mutexes s') mx) (cur # ps) \<and>
    status (threads s') cur = SCHED_INT_SLEEP \<and> mx_num_spin (mutexes s') mx = mx_num_spin (mutexes s) mx - 1 \<and>
    soft_priority (threads s') h = soft_priority (threads s) h + soft_priority (threads s) cur \<and>
    mx_pri_count (mutexes s') mx = mx_pri_count (mutexes s) mx + soft_priority (threads s) cur"
proof -
  define a where "a = (add_mx_spin mx (-1) s)\<lparr>mutexes := (mutexes (add_mx_spin mx (-1) s))\<lparr>mx_data_mutex := (mx_data_mutex (mutexes s))(mx := True)\<rparr>\<rparr>"
  have a: "threads a = threads s" "mx_queue (mutexes a) = mx_queue (mutexes s)" by (simp_all add: a_def add_mx_spin_def upd_mx_def)
  have lock: "lock_data mx (add_mx_spin mx (-1) s) = Some a" using l(1) by (simp add: lock_data_def a_def add_mx_spin_def upd_mx_def)
  obtain q b where ins: "thread_queue_insert (mx_queue (mutexes a) mx) cur a = (q, b)" by (metis surj_pair)
  have "waiters a (mx_queue (mutexes a) mx) ps" using w(3) a by (simp add: waiters_def)
  note I = waiters_insert [OF this w(4,5) ins]
  obtain nxt lst where b: "b = upd_threads (\<lambda>m. m\<lparr>queue_next := nxt, queue_last := lst\<rparr>) a" using I(2) by blast
  define c where "c = unlock_data mx (add_pri_count mx (soft_priority (threads b) cur) (set_mx_queue mx q b))"
  define d where "d = upd_threads (\<lambda>m. m\<lparr>sync_mutex := (sync_mutex m)(cur := False), reentry := (reentry m)(cur := re),
    stat_flags := (stat_flags m)(cur := stat_flags m cur OR THREAD_USE_REENTRY), status := (status m)(cur := SCHED_INT_SLEEP)\<rparr>) c"
  have sleep: "put_to_sleep re cur c = Some d"
    using l(2) a by (simp add: put_to_sleep_def lock_thread_def unlock_thread_def c_def d_def b unlock_data_def add_pri_count_def
        set_mx_queue_def upd_mx_def upd_threads_def)
  have d: "mx_holder (mutexes d) = mx_holder (mutexes s)" "soft_priority (threads d) = soft_priority (threads s)"
    "status (threads d) = (status (threads s))(cur := SCHED_INT_SLEEP)" "wait_type (threads d) = wait_type (threads s)"
    "cpu_id (threads d) = cpu_id (threads s)" "sched d = sched s" "priority_heap_pos (threads d) = priority_heap_pos (threads s)"
    "sync_mutex (threads d) h = sync_mutex (threads s) h" "queue_next (threads d) = nxt" "queue_last (threads d) = lst"
    "mx_queue (mutexes d) mx = q" "mx_num_spin (mutexes d) mx = mx_num_spin (mutexes s) mx - 1"
    "mx_pri_count (mutexes d) mx = mx_pri_count (mutexes s) mx + soft_priority (threads s) cur"
    using h(3) by (simp_all add: d_def c_def b a_def unlock_data_def add_pri_count_def set_mx_queue_def upd_mx_def add_mx_spin_def)
  have "\<not> passes d h" "shiftable d h" "\<not> sync_mutex (threads d) h" using h d by (simp_all add: passes_def shiftable_def)
  then obtain s' where s': "thread_adjust_priority h (soft_priority (threads s) cur) d = Some s'"
    "adjusted {h} {} (soft_priority (threads s) cur) d s'" using adjust_end h(2) by metis
  have run: "lock_sleep re cur s = Some s'"
    using w(1,2) lock ins sleep d(1,2) h(1,2) s'(1) by (simp add: lock_sleep_def Let_def flip: c_def)
  have "waiters s' (mx_queue (mutexes s') mx) (cur # ps)"
    using I(1) s'(2) d by (simp add: waiters_def queue_links_def adjusted_def adj_frame_def b)
  then show ?thesis using run s'(2) d by (simp add: adjusted_def adj_frame_def)
qed

text \<open>Thread 20 spins for mutex 400, which thread 40 holds and thread 50 already sleeps for.\<close>

definition demo_spin :: kstate where
  "demo_spin = demo_held\<lparr>threads := demo_threads\<lparr>wait_obj := (\<lambda>_. 0)(20 := 400), wait_type := (\<lambda>_. 0)(20 := WAIT_MUTEX),
       queue_next := (\<lambda>_. 0)(50 := 50), queue_last := (\<lambda>_. 0)(50 := 50)\<rparr>,
     mutexes := (mutexes demo_held)\<lparr>mx_queue := (\<lambda>_. 0)(400 := 50), mx_num_spin := (\<lambda>_. 0)(400 := 1)\<rparr>\<rparr>"

theorem lock_sleep_correct_witness:
  "\<exists>s'. lock_sleep 1 20 demo_spin = Some s' \<and> waiters s' (mx_queue (mutexes s') 400) [20, 50] \<and>
     soft_priority (threads s') 40 = 22"
proof -
  have s: "wait_obj (threads demo_spin) = (\<lambda>_. 0)(20 := 400)" "mx_queue (mutexes demo_spin) = (\<lambda>_. 0)(400 := 50)"
    "queue_links (threads demo_spin) = ((\<lambda>_. 0)(50 := 50), (\<lambda>_. 0)(50 := 50))" "mx_holder (mutexes demo_spin) = (\<lambda>_. 0)(400 := 40)"
    "mx_data_mutex (mutexes demo_spin) = (\<lambda>_. False)" "sync_mutex (threads demo_spin) = (\<lambda>_. False)"
    "status (threads demo_spin) = (\<lambda>_. 0)" "wait_type (threads demo_spin) = (\<lambda>_. 0)(20 := WAIT_MUTEX)"
    "soft_priority (threads demo_spin) = soft_priority demo_threads" "sched demo_spin = sched demo"
    "cpu_id (threads demo_spin) = cpu_id demo_threads"
    by (simp_all add: demo_spin_def demo_held_def queue_links_def demo_threads_def thread_mem0_def no_mutexes_def)
  have "waiters demo_spin 50 [50]" by (simp add: waiters_def ring_def clist_head_def s NULL_def)
  moreover have "\<not> passes demo_spin 40" "shiftable demo_spin 40"
    by (simp_all add: passes_def shiftable_def s runnable_states(1) [unfolded SCHED_RUNNABLE_def] demo_threads_def thread_mem0_def)
  ultimately show ?thesis
    using lock_sleep_correct [of demo_spin 20 400 "[50]" 40 1] by (auto simp: s NULL_def demo_threads_def)
qed

subsection \<open>Signals\<close>

lemma sys_ok_links:
  assumes "sys_ok s" "sched s' = sched s" "cpu_num s' = cpu_num s"
    "threads s' = (threads s)\<lparr>queue_next := nxt, queue_last := lst, wait_type := wt\<rparr>"
  shows "sys_ok s'" "members s' = members s" "locks_free s' = locks_free s"
  using sys_ok_view [OF assms(1), of s'] assms(2-4) by (simp_all add: same_keys_def members_def locks_free_def)

text \<open>C32: Signalling a condition variable on which only sleepers wait wakes the thread at the head of the
  queue: it becomes a runnable thread of the system, which stays well formed.  But the thread
  that leaves the queue is the one at its end; the two are the same only when there is a single
  sleeper.\<close>

theorem cond_signal_correct:
  assumes ok: "sys_ok s" "locks_free s" "realloc_ok r s"
    and c: "cd \<noteq> NULL" "\<not> cd_num_mutex (conds s) cd" "\<not> cd_queue_mutex (conds s) cd" "cd_num_spin (conds s) cd = 0"
    and w: "waiters s (cd_queue (conds s) cd) (p # ps)" "p \<notin> members s" "cpu_id (threads s) p < cpu_num s"
    "0 \<le> sint (remaining (threads s) p)" "uint (soft_priority (threads s) p) < 2 ^ 31"
  shows "\<exists>s'. cond_signal r junk wait cd s = Some s' \<and> sys_ok s' \<and> locks_free s' \<and> members s' = insert p (members s) \<and>
    status (threads s') p = run_status (threads s) p \<and> waiters s' (cd_queue (conds s') cd) (butlast (p # ps)) \<and>
    timer_off s' = timer_off s"
proof -
  have p: "cd_queue (conds s) cd = p" "p \<noteq> NULL" using waiters_head [OF w(1)] by auto
  define a where "a = upd_cd (\<lambda>m. m\<lparr>cd_num_mutex := (cd_num_mutex m)(cd := False), cd_queue_mutex := (cd_queue_mutex m)(cd := True)\<rparr>) (timer_disable s)"
  have a: "threads a = threads s" "cd_queue (conds a) = cd_queue (conds s)" "cpu_num a = cpu_num s" "sched a = sched s"
    by (simp_all add: a_def upd_cd_def)
  have lock: "lock_cnum cd (timer_disable s) = Some (upd_cd (\<lambda>m. m\<lparr>cd_num_mutex := (cd_num_mutex m)(cd := True)\<rparr>) (timer_disable s))"
    "lock_cqueue cd (unlock_cnum cd (upd_cd (\<lambda>m. m\<lparr>cd_num_mutex := (cd_num_mutex m)(cd := True)\<rparr>) (timer_disable s))) = Some a"
    using c by (simp_all add: lock_cnum_def lock_cqueue_def unlock_cnum_def upd_cd_def a_def)
  obtain q b where rm: "thread_queue_remove p a = (q, b)" by (metis surj_pair)
  have "waiters a p (p # ps)" using w(1) p(1) a by (simp add: waiters_def)
  note R = waiters_remove [OF this rm]
  obtain nxt lst where b: "b = upd_threads (\<lambda>m. m\<lparr>queue_next := nxt, queue_last := lst\<rparr>) a" using R(2) by blast
  define d where "d = upd_threads (\<lambda>m. m\<lparr>wait_type := (wait_type m)(p := WAIT_NONE)\<rparr>) (unlock_cqueue cd (set_cd_queue cd q b))"
  have d: "sched d = sched s" "cpu_num d = cpu_num s"
    "threads d = (threads s)\<lparr>queue_next := nxt, queue_last := lst, wait_type := (wait_type (threads s))(p := WAIT_NONE)\<rparr>"
    "cd_queue (conds d) cd = q" "timer_off d = Suc (timer_off s)"
    by (simp_all add: d_def b a unlock_cqueue_def set_cd_queue_def upd_cd_def) (simp add: a_def upd_cd_def timer_disable_def)
  note D = sys_ok_links [OF ok(1) d(1-3)]
  have t: "p \<notin> members d" "cpu_id (threads d) p < cpu_num d" "0 \<le> sint (remaining (threads d) p)" "uint (soft_priority (threads d) p) < 2 ^ 31"
    using w(2-5) d D(2) by simp_all
  have grow: "realloc_ok r d" using ok(3) d(1,2) by (simp add: realloc_ok_def)
  have "locks_free d" using D(3) ok(2) by simp
  then obtain e where e: "thread_restart r p d = Some e" "sys_ok e" "locks_free e" "members e = insert p (members d)"
    "status (threads e) p = run_status (threads d) p" "queue_next (threads e) = queue_next (threads d)"
    "queue_last (threads e) = queue_last (threads d)" "conds e = conds d" "timer_off e = timer_off d"
    using thread_restart_step [OF D(1) _ t(1) p(2) t(2) grow t(3,4)] by metis
  have run: "cond_signal r junk wait cd s = Some (timer_restore e)"
    using c(1,4) lock rm p a e(1) by (simp add: cond_signal_def Let_def awaken_thread_def upd_cd_def flip: d_def)
  have "sys_ok (timer_restore e)" "members (timer_restore e) = members e" "locks_free (timer_restore e) = locks_free e"
    using sys_ok_view [OF e(2), of "timer_restore e"] by (simp_all add: same_keys_def members_def locks_free_def)
  moreover have "waiters (timer_restore e) (cd_queue (conds (timer_restore e)) cd) (butlast (p # ps))"
    using R(1) e(6-8) d(3,4) by (simp add: waiters_def queue_links_def b)
  moreover have "timer_off (timer_restore e) = timer_off s" using e(9) d(5) by (simp add: timer_restore_def)
  ultimately show ?thesis using run e(3-5) D(2) d(3) by simp
qed

text \<open>Threads 50 and 60 sleep on the condition variable 500.\<close>

definition demo_cond :: kstate where
  "demo_cond = demo\<lparr>threads := demo_threads\<lparr>queue_next := (\<lambda>_. 0)(50 := 60, 60 := 50), queue_last := (\<lambda>_. 0)(50 := 60, 60 := 50)\<rparr>,
     conds := no_conds\<lparr>cd_queue := (\<lambda>_. 0)(500 := 50)\<rparr>\<rparr>"

theorem cond_signal_correct_witness:
  "\<exists>s'. cond_signal (\<lambda>p n old d. (8, n, d)) 0 Some 500 demo_cond = Some s' \<and> members s' = {10, 20, 30, 40, 50} \<and>
     waiters s' (cd_queue (conds s') 500) [50]"
proof -
  have s: "threads demo_cond = demo_threads\<lparr>queue_next := (\<lambda>_. 0)(50 := 60, 60 := 50), queue_last := (\<lambda>_. 0)(50 := 60, 60 := 50)\<rparr>"
    "sched demo_cond = sched demo" "cpu_num demo_cond = 2" "cd_queue (conds demo_cond) 500 = 50"
    by (simp_all add: demo_cond_def)
  have wf: "sys_ok demo_cond" by (rule sys_ok_view [OF demo_ok]) (simp_all add: s same_keys_def)
  have mem: "members demo_cond = {10, 20, 30, 40}" by (auto simp: members_def s lessThan_Suc numeral_2_eq_2)
  have l: "locks_free demo_cond" using demo_free(1) by (simp add: locks_free_def s)
  have w: "waiters demo_cond (cd_queue (conds demo_cond) 500) [50, 60]"
    by (simp add: waiters_def ring_def clist_head_def queue_links_def s NULL_def)
  have c: "\<not> cd_num_mutex (conds demo_cond) 500" "\<not> cd_queue_mutex (conds demo_cond) 500" "cd_num_spin (conds demo_cond) 500 = 0"
    by (simp_all add: demo_cond_def no_conds_def)
  have t: "50 \<notin> members demo_cond" "cpu_id (threads demo_cond) 50 < cpu_num demo_cond"
    "0 \<le> sint (remaining (threads demo_cond) 50)" "uint (soft_priority (threads demo_cond) 50) < 2 ^ 31"
    using mem by (simp_all add: s demo_threads_def thread_mem0_def)
  have "realloc_ok (\<lambda>p n old d. (8, n, d)) demo_cond" "(500 :: ptr) \<noteq> NULL"
    using demo_realloc by (simp_all add: realloc_ok_def s NULL_def)
  from cond_signal_correct [OF wf l this c w t, of 0 Some] mem
  show ?thesis by (auto simp: insert_commute)
qed

text \<open>A broadcast on a condition variable that nobody waits on leaves the lock of its queue taken, so
  that the next broadcast, and the next signal, spin forever.\<close>

theorem cond_broadcast_nobody:
  assumes "cd \<noteq> NULL" "\<not> cd_num_mutex (conds s) cd" "\<not> cd_queue_mutex (conds s) cd" "cd_num_spin (conds s) cd = 0"
    "cd_queue (conds s) cd = NULL"
  shows "\<exists>s'. cond_broadcast r wait cd s = Some s' \<and> cond_broadcast r wait cd s' = None \<and> cond_signal r junk wait cd s' = None"
proof -
  define s' where "s' = upd_cd (\<lambda>m. m\<lparr>cd_num_mutex := (cd_num_mutex m)(cd := False), cd_num_spin := (cd_num_spin m)(cd := 0),
    cd_queue_mutex := (cd_queue_mutex m)(cd := True)\<rparr>) s"
  have "cond_broadcast r wait cd s = Some s'"
    using assms by (simp add: cond_broadcast_def async_cond_broadcast_def lock_cnum_def lock_cqueue_def unlock_cnum_def set_cd_spin_def
        upd_cd_def s'_def timer_disable_def timer_restore_def)
  moreover have "cd_queue_mutex (conds s') cd" "cd_num_spin (conds s') cd = 0" "\<not> cd_num_mutex (conds s') cd"
    by (simp_all add: s'_def upd_cd_def)
  then have "cond_broadcast r wait cd s' = None" "cond_signal r junk wait cd s' = None"
    using assms(1) by (simp_all add: cond_broadcast_def async_cond_broadcast_def cond_signal_def lock_cnum_def lock_cqueue_def
        unlock_cnum_def set_cd_spin_def upd_cd_def)
  ultimately show ?thesis by blast
qed

theorem cond_broadcast_nobody_witness:
  "\<exists>s'. cond_broadcast (\<lambda>p n old d. (8, n, d)) Some 500 demo = Some s' \<and> cond_broadcast (\<lambda>p n old d. (8, n, d)) Some 500 s' = None"
proof -
  have "conds demo = no_conds" "(500 :: ptr) \<noteq> NULL" by (simp_all add: demo_def NULL_def)
  then show ?thesis using cond_broadcast_nobody [of 500 demo "\<lambda>p n old d. (8, n, d)" Some 0] by (auto simp: no_conds_def)
qed

subsection \<open>Waiting on a fresh condition variable\<close>

text \<open>The first wait on a condition variable does not wait.  Its core lock must be taken for a thread to
  block on it, but initialisation leaves it free: the wait releases the mutex, takes the core
  lock and returns, although nobody has signalled (the argument for the spin is the one that
  never ends).\<close>

theorem first_wait_does_not_block:
  assumes cur: "running s cur" and cd: "cd \<noteq> NULL" "\<not> cd_mutex (conds s) cd" "\<not> cd_num_mutex (conds s) cd"
    and mx: "mx \<noteq> NULL" "\<not> mx_num_mutex (mutexes s) mx" "\<not> mx_data_mutex (mutexes s) mx" "mx_num_spin (mutexes s) mx = 0"
    "mx_queue (mutexes s) mx = NULL"
  shows "\<exists>s'. do_wait r (\<lambda>_. None) cur cd mx s = Some s' \<and> cd_mutex (conds s') cd \<and> \<not> mx_mutex (mutexes s') mx"
proof -
  define a where "a = upd_cd (\<lambda>m. m\<lparr>cd_num_mutex := (cd_num_mutex m)(cd := False), cd_num_spin := (cd_num_spin m)(cd := cd_num_spin m cd + 1)\<rparr>)
    (set_wait cur WAIT_COND cd s)"
  have pre: "\<exists>l. lock_cnum cd (timer_disable (set_wait cur WAIT_COND cd s)) = Some l \<and>
      timer_restore (unlock_cnum cd (set_cd_spin cd (cd_num_spin (conds l) cd + 1) l)) = a"
    using cd(3) by (simp add: lock_cnum_def unlock_cnum_def set_cd_spin_def upd_cd_def a_def set_wait_def upd_threads_def timer_disable_def timer_restore_def)
  have ra: "running a cur" using cur by (simp add: running_def a_def upd_cd_def set_wait_def)
  have ma: "mutexes a = mutexes s" "cd_mutex (conds a) = cd_mutex (conds s)" by (simp_all add: a_def upd_cd_def set_wait_def)
  have f: "\<not> mx_num_mutex (mutexes a) mx" "\<not> mx_data_mutex (mutexes a) mx" "mx_num_spin (mutexes a) mx = 0" "mx_queue (mutexes a) mx = NULL"
    using mx ma by simp_all
  obtain b where b: "mutex_unlock r cur mx a = Some b" "conds b = conds a"
    "mutexes b = (mutexes a)\<lparr>mx_mutex := (mx_mutex (mutexes a))(mx := False), mx_holder := (mx_holder (mutexes a))(mx := NULL)\<rparr>"
    by (rule mutex_unlock_free [OF ra mx(1) f])
  have "\<exists>s'. do_wait r (\<lambda>_. None) cur cd mx s = Some s' \<and> cd_mutex (conds s') cd \<and> mutexes s' = mutexes b"
    using cd(1,2) pre b(1,2) ma(2) by (auto simp: do_wait_def Let_def upd_cd_def set_wait_obj_def unlock_ctype_def)
  then show ?thesis using b(3) by auto
qed

theorem first_wait_does_not_block_witness:
  "\<exists>s'. do_wait (\<lambda>p n old d. (8, n, d)) (\<lambda>_. None) 10 500 400 demo = Some s' \<and> cd_mutex (conds s') 500"
proof -
  have "running demo 10"
    by (simp add: running_def NULL_def demo_threads_def thread_mem0_def runnable_states(1) [unfolded SCHED_RUNNABLE_def])
  moreover have "conds demo = no_conds" "mutexes demo = no_mutexes" "(500 :: ptr) \<noteq> NULL" "(400 :: ptr) \<noteq> NULL" by (simp_all add: demo_def NULL_def)
  ultimately show ?thesis
    using first_wait_does_not_block [of demo 10 500 400 "\<lambda>p n old d. (8, n, d)"] by (auto simp: no_conds_def no_mutexes_def)
qed

end
