(* ===== verification/Hash_Table.thy ===== *)
theory Hash_Table
  imports Prelude
begin

text \<open>
  \<^verbatim>\<open>STAT_HASH_TABLE\<close> of \<^verbatim>\<open>include/data_structures.h\<close>: an array of bucket heads and a link field in
  the nodes.  The macro's parameters are arguments of the operations: \<open>unique_id\<close> reads the key
  of a node, \<open>unique_eq\<close> compares two keys, \<open>hash\<close> is the hash function and \<open>slots\<close> the number of
  buckets.  A search that runs into a cycle of links never ends and is \<open>None\<close>.

  The locale \<open>hash_keys\<close> states what the macro's comment asks of its parameters and proves that a
  table then behaves as a finite map from keys to nodes; every table of the kernel is an
  interpretation.
\<close>

record htab =
  ht_table :: "nat \<Rightarrow> ptr"
  ht_next :: "ptr \<Rightarrow> ptr"

definition hash_index :: "('k \<Rightarrow> u32) \<Rightarrow> nat \<Rightarrow> 'k \<Rightarrow> nat" where
  "hash_index hash slots key = unat (hash key) mod slots"

definition hash_table_insert :: "(ptr \<Rightarrow> 'k) \<Rightarrow> ('k \<Rightarrow> u32) \<Rightarrow> nat \<Rightarrow> htab \<Rightarrow> ptr \<Rightarrow> 'k \<times> htab" where
  "hash_table_insert unique_id hash slots table inn = (let
     key = unique_id inn;
     index = hash_index hash slots key;
     table = table\<lparr>ht_next := (ht_next table)(inn := ht_table table index)\<rparr>;
     table = table\<lparr>ht_table := (ht_table table)(index := inn)\<rparr>
   in (key, table))"

partial_function (option) chain_lookup :: "(ptr \<Rightarrow> 'k) \<Rightarrow> ('k \<Rightarrow> 'k \<Rightarrow> bool) \<Rightarrow> (ptr \<Rightarrow> ptr) \<Rightarrow> 'k \<Rightarrow> ptr \<Rightarrow> ptr option" where
  "chain_lookup unique_id unique_eq nxt key at =
     (if NULL \<noteq> at then
        if unique_eq (unique_id at) key then Some at
        else chain_lookup unique_id unique_eq nxt key (nxt at)
      else Some NULL)"

definition hash_table_lookup :: "(ptr \<Rightarrow> 'k) \<Rightarrow> ('k \<Rightarrow> 'k \<Rightarrow> bool) \<Rightarrow> ('k \<Rightarrow> u32) \<Rightarrow> nat \<Rightarrow> htab \<Rightarrow> 'k \<Rightarrow> ptr option" where
  "hash_table_lookup unique_id unique_eq hash slots table key =
     chain_lookup unique_id unique_eq (ht_next table) key (ht_table table (hash_index hash slots key))"

partial_function (option) chain_delete :: "(ptr \<Rightarrow> 'k) \<Rightarrow> ('k \<Rightarrow> 'k \<Rightarrow> bool) \<Rightarrow> (ptr \<Rightarrow> ptr) \<Rightarrow> 'k \<Rightarrow> ptr \<Rightarrow> ptr \<Rightarrow>
    (ptr \<times> (ptr \<Rightarrow> ptr)) option" where
  "chain_delete unique_id unique_eq nxt key prev at =
     (if NULL \<noteq> at then
        if unique_eq (unique_id at) key then Some (at, nxt(prev := nxt at))
        else chain_delete unique_id unique_eq nxt key at (nxt at)
      else Some (NULL, nxt))"

definition hash_table_delete :: "(ptr \<Rightarrow> 'k) \<Rightarrow> ('k \<Rightarrow> 'k \<Rightarrow> bool) \<Rightarrow> ('k \<Rightarrow> u32) \<Rightarrow> nat \<Rightarrow> htab \<Rightarrow> 'k \<Rightarrow>
    (ptr \<times> htab) option" where
  "hash_table_delete unique_id unique_eq hash slots table key = (let
     index = hash_index hash slots key;
     at = ht_table table index
   in if NULL = at then Some (NULL, table)
      else if unique_eq (unique_id at) key
      then Some (at, table\<lparr>ht_table := (ht_table table)(index := ht_next table at)\<rparr>)
      else do {
        (out, nxt) \<leftarrow> chain_delete unique_id unique_eq (ht_next table) key at (ht_next table at);
        Some (out, table\<lparr>ht_next := nxt\<rparr>) })"

text \<open>A table in static memory, before anything is inserted.\<close>

definition empty_table :: htab where
  "empty_table = \<lparr>ht_table = \<lambda>_. NULL, ht_next = \<lambda>_. NULL\<rparr>"

subsection \<open>Chains\<close>

fun chain :: "(ptr \<Rightarrow> ptr) \<Rightarrow> ptr \<Rightarrow> ptr list \<Rightarrow> bool" where
  "chain nxt p [] \<longleftrightarrow> p = NULL"
| "chain nxt p (x # xs) \<longleftrightarrow> p = x \<and> x \<noteq> NULL \<and> chain nxt (nxt x) xs"

lemma chain_cong: "(\<And>x. x \<in> set xs \<Longrightarrow> nxt' x = nxt x) \<Longrightarrow> chain nxt' p xs = chain nxt p xs"
  by (induction xs arbitrary: p) auto

lemma chain_null: "chain nxt p xs \<Longrightarrow> NULL \<notin> set xs \<and> (p = NULL \<longleftrightarrow> xs = [])"
  by (induction xs arbitrary: p) auto

lemma find_sound: "find P xs = Some x \<Longrightarrow> x \<in> set xs \<and> P x"
  by (induction xs) (auto split: if_splits)

lemma chain_lookup_find:
  "chain nxt p xs \<Longrightarrow> chain_lookup unique_id unique_eq nxt key p =
     Some (case find (\<lambda>x. unique_eq (unique_id x) key) xs of None \<Rightarrow> NULL | Some x \<Rightarrow> x)"
proof (induction xs arbitrary: p)
  case Nil
  then show ?case by (subst chain_lookup.simps) simp
next
  case (Cons x xs)
  then show ?case by (subst chain_lookup.simps) auto
qed

lemma chain_delete_removes:
  assumes "chain nxt p (p # xs)" "distinct (p # xs)"
  shows "\<exists>r nxt'. chain_delete unique_id unique_eq nxt key p (nxt p) = Some (r, nxt') \<and>
    (\<forall>y. y \<notin> set (p # xs) \<longrightarrow> nxt' y = nxt y) \<and>
    (case find (\<lambda>x. unique_eq (unique_id x) key) xs of None \<Rightarrow> r = NULL \<and> nxt' = nxt
     | Some x \<Rightarrow> r = x \<and> chain nxt' p (p # remove1 x xs))"
  using assms
proof (induction xs arbitrary: p)
  case Nil
  then show ?case by (subst chain_delete.simps) simp
next
  case (Cons x xs)
  have x: "nxt p = x" "x \<noteq> NULL" "chain nxt (nxt x) xs" "p \<noteq> NULL" using Cons.prems by auto
  show ?case
  proof (cases "unique_eq (unique_id x) key")
    case True
    then have "chain_delete unique_id unique_eq nxt key p (nxt p) = Some (x, nxt(p := nxt x))"
      using x by (subst chain_delete.simps) simp
    moreover have "chain (nxt(p := nxt x)) p (p # xs)"
    proof -
      have "chain (nxt(p := nxt x)) (nxt x) xs = chain nxt (nxt x) xs" using Cons.prems by (intro chain_cong) auto
      then show ?thesis using x by simp
    qed
    ultimately show ?thesis using True by auto
  next
    case False
    have step: "chain_delete unique_id unique_eq nxt key p (nxt p) = chain_delete unique_id unique_eq nxt key x (nxt x)"
      using False x by (subst chain_delete.simps) simp
    obtain r nxt' where r: "chain_delete unique_id unique_eq nxt key x (nxt x) = Some (r, nxt')"
      "\<And>y. y \<notin> set (x # xs) \<Longrightarrow> nxt' y = nxt y"
      "case find (\<lambda>x. unique_eq (unique_id x) key) xs of None \<Rightarrow> r = NULL \<and> nxt' = nxt
       | Some z \<Rightarrow> r = z \<and> chain nxt' x (x # remove1 z xs)"
      using Cons.IH [of x] Cons.prems by auto
    have "nxt' p = x" using r(2) [of p] Cons.prems x by simp
    then show ?thesis
      using step r False x Cons.prems by (auto split: option.splits dest: find_sound)
  qed
qed

text \<open>
  \<open>table_ok good\<close>: the nodes of the set \<open>S\<close> are exactly those on the chains, each in the bucket
  its key hashes to, and no two of them have the same good key.  The good keys are those that
  \<open>unique_eq\<close> recognises; in most tables these are all.
\<close>

definition table_ok :: "('k \<Rightarrow> bool) \<Rightarrow> (ptr \<Rightarrow> 'k) \<Rightarrow> ('k \<Rightarrow> u32) \<Rightarrow> nat \<Rightarrow> htab \<Rightarrow> ptr set \<Rightarrow> bool" where
  "table_ok good unique_id hash slots table S \<longleftrightarrow>
     (\<forall>p\<in>S. \<forall>q\<in>S. good (unique_id p) \<longrightarrow> unique_id p = unique_id q \<longrightarrow> p = q) \<and>
     (\<exists>bs. \<forall>i < slots. chain (ht_next table) (ht_table table i) (bs i) \<and> distinct (bs i) \<and>
        set (bs i) = {p \<in> S. hash_index hash slots (unique_id p) = i})"

lemma table_ok_cong:
  assumes "table_ok good uid hash slots table S" "\<And>p. p \<in> S \<Longrightarrow> uid' p = uid p"
  shows "table_ok good uid' hash slots table S"
proof -
  have "{p \<in> S. hash_index hash slots (uid' p) = i} = {p \<in> S. hash_index hash slots (uid p) = i}" for i
    using assms(2) by auto
  then show ?thesis using assms by (simp add: table_ok_def) blast
qed

locale hash_keys =
  fixes good :: "'k \<Rightarrow> bool" and unique_id :: "ptr \<Rightarrow> 'k" and unique_eq :: "'k \<Rightarrow> 'k \<Rightarrow> bool"
    and hash :: "'k \<Rightarrow> u32" and slots :: nat
  assumes unique_eq_iff: "good k \<Longrightarrow> unique_eq a k \<longleftrightarrow> a = k" and slots_pos: "0 < slots"
begin

abbreviation ok :: "htab \<Rightarrow> ptr set \<Rightarrow> bool" where
  "ok \<equiv> table_ok good unique_id hash slots"

lemma index_less: "hash_index hash slots k < slots"
  using slots_pos by (simp add: hash_index_def)

lemma empty_ok: "ok empty_table {}"
  unfolding table_ok_def by (intro conjI exI [of _ "\<lambda>_. []"]) (simp_all add: empty_table_def)

lemma not_null: "ok h S \<Longrightarrow> p \<in> S \<Longrightarrow> p \<noteq> NULL"
  using index_less [of "unique_id p"] by (fastforce simp: table_ok_def dest: chain_null)

lemma ok_unique: "ok h S \<Longrightarrow> good k \<Longrightarrow> p \<in> S \<Longrightarrow> q \<in> S \<Longrightarrow> unique_id p = k \<Longrightarrow> unique_id q = k \<Longrightarrow> p = q"
  by (auto simp: table_ok_def)

text \<open>The bucket that the key of a search belongs to.\<close>

lemma bucket:
  assumes "ok h S"
  obtains xs where "chain (ht_next h) (ht_table h (hash_index hash slots k)) xs" "distinct xs"
    "set xs = {p \<in> S. hash_index hash slots (unique_id p) = hash_index hash slots k}"
  using assms index_less [of k] by (auto simp: table_ok_def)

lemma find_absent:
  assumes "good k" "k \<notin> unique_id ` set xs"
  shows "find (\<lambda>x. unique_eq (unique_id x) k) xs = None"
  using assms by (auto simp: find_None_iff unique_eq_iff)

lemma find_member:
  assumes "good (unique_id p)" "p \<in> set xs" "\<And>x. x \<in> set xs \<Longrightarrow> unique_id x = unique_id p \<Longrightarrow> x = p"
  shows "find (\<lambda>x. unique_eq (unique_id x) (unique_id p)) xs = Some p"
  using assms by (cases "find (\<lambda>x. unique_eq (unique_id x) (unique_id p)) xs")
    (auto simp: unique_eq_iff find_None_iff dest: find_sound)

lemma lookup_member:
  assumes "ok h S" "p \<in> S" "good (unique_id p)"
  shows "hash_table_lookup unique_id unique_eq hash slots h (unique_id p) = Some p"
proof -
  obtain xs where xs: "chain (ht_next h) (ht_table h (hash_index hash slots (unique_id p))) xs" "distinct xs"
    "set xs = {q \<in> S. hash_index hash slots (unique_id q) = hash_index hash slots (unique_id p)}" by (rule bucket [OF assms(1)])
  have "find (\<lambda>x. unique_eq (unique_id x) (unique_id p)) xs = Some p"
    by (rule find_member) (use assms xs(3) ok_unique [OF assms(1)] in auto)
  then show ?thesis using chain_lookup_find [OF xs(1), of unique_id unique_eq "unique_id p"] by (simp add: hash_table_lookup_def)
qed

lemma lookup_absent:
  assumes "ok h S" "k \<notin> unique_id ` S" "good k"
  shows "hash_table_lookup unique_id unique_eq hash slots h k = Some NULL"
proof -
  obtain xs where xs: "chain (ht_next h) (ht_table h (hash_index hash slots k)) xs" "distinct xs"
    "set xs = {p \<in> S. hash_index hash slots (unique_id p) = hash_index hash slots k}" by (rule bucket [OF assms(1)])
  have "find (\<lambda>x. unique_eq (unique_id x) k) xs = None" by (rule find_absent) (use assms(2,3) xs(3) in auto)
  then show ?thesis using chain_lookup_find [OF xs(1), of unique_id unique_eq k] by (simp add: hash_table_lookup_def)
qed

lemma insert_ok:
  assumes "ok h S" "p \<noteq> NULL" "p \<notin> S" "good (unique_id p) \<Longrightarrow> unique_id p \<notin> unique_id ` S"
  shows "ok (snd (hash_table_insert unique_id hash slots h p)) (insert p S)"
proof -
  let ?i = "hash_index hash slots (unique_id p)"
  obtain bs where bs: "\<And>i. i < slots \<Longrightarrow> chain (ht_next h) (ht_table h i) (bs i) \<and> distinct (bs i) \<and>
        set (bs i) = {p \<in> S. hash_index hash slots (unique_id p) = i}"
    using assms(1) by (auto simp: table_ok_def)
  let ?nxt = "(ht_next h)(p := ht_table h ?i)"
  have "chain ?nxt q (bs i) = chain (ht_next h) q (bs i)" if "i < slots" for i q
    using bs [OF that] assms(3) by (intro chain_cong) auto
  then have "\<forall>i < slots. chain ?nxt (((ht_table h)(?i := p)) i) ((bs(?i := p # bs ?i)) i) \<and> distinct ((bs(?i := p # bs ?i)) i) \<and>
        set ((bs(?i := p # bs ?i)) i) = {q \<in> insert p S. hash_index hash slots (unique_id q) = i}"
    using bs assms(2,3) by auto
  moreover have "\<forall>a\<in>insert p S. \<forall>b\<in>insert p S. good (unique_id a) \<longrightarrow> unique_id a = unique_id b \<longrightarrow> a = b"
    using ok_unique [OF assms(1)] assms(4) by (metis imageI insert_iff)
  ultimately have "ok (h\<lparr>ht_next := ?nxt, ht_table := (ht_table h)(?i := p)\<rparr>) (insert p S)"
    unfolding table_ok_def by (intro conjI exI [of _ "bs(?i := p # bs ?i)"]) simp_all
  then show ?thesis by (simp add: hash_table_insert_def Let_def)
qed

lemma delete_absent:
  assumes "ok h S" "k \<notin> unique_id ` S" "good k"
  shows "hash_table_delete unique_id unique_eq hash slots h k = Some (NULL, h)"
proof -
  let ?p = "ht_table h (hash_index hash slots k)"
  obtain xs where xs: "chain (ht_next h) ?p xs" "distinct xs"
    "set xs = {p \<in> S. hash_index hash slots (unique_id p) = hash_index hash slots k}" by (rule bucket [OF assms(1)])
  have none: "\<And>x. x \<in> set xs \<Longrightarrow> \<not> unique_eq (unique_id x) k" using xs(3) assms(2,3) by (auto simp: unique_eq_iff)
  show ?thesis
  proof (cases xs)
    case Nil
    then show ?thesis using xs(1) by (simp add: hash_table_delete_def Let_def)
  next
    case (Cons x ys)
    then have x: "?p = x" "x \<noteq> NULL" "chain (ht_next h) x (x # ys)" "distinct (x # ys)" using xs by auto
    have "find (\<lambda>x. unique_eq (unique_id x) k) ys = None" using none Cons by (auto simp: find_None_iff)
    then show ?thesis
      using chain_delete_removes [OF x(3,4), of unique_id unique_eq k] none [of x] x(1,2) Cons
      by (auto simp: hash_table_delete_def Let_def)
  qed
qed

lemma delete_ok:
  assumes "ok h S" "p \<in> S" "good (unique_id p)"
  shows "\<exists>h'. hash_table_delete unique_id unique_eq hash slots h (unique_id p) = Some (p, h') \<and> ok h' (S - {p})"
proof -
  let ?i = "hash_index hash slots (unique_id p)"
  let ?q = "ht_table h ?i"
  obtain bs where bs: "\<And>i. i < slots \<Longrightarrow> chain (ht_next h) (ht_table h i) (bs i) \<and> distinct (bs i) \<and>
        set (bs i) = {p \<in> S. hash_index hash slots (unique_id p) = i}"
    using assms(1) by (auto simp: table_ok_def)
  have b: "chain (ht_next h) ?q (bs ?i)" "distinct (bs ?i)" "p \<in> set (bs ?i)" "set (bs ?i) \<subseteq> S"
    using bs [OF index_less] assms(2) by auto
  have eq: "unique_eq (unique_id x) (unique_id p) \<longleftrightarrow> x = p" if "x \<in> set (bs ?i)" for x
    using that b(4) assms ok_unique [OF assms(1,3)] by (auto simp: unique_eq_iff)
  have other: "chain nxt (ht_table h i) (bs i)" if "i < slots" "i \<noteq> ?i" "\<And>y. y \<notin> set (bs ?i) \<Longrightarrow> nxt y = ht_next h y" for i nxt
    using that bs [OF that(1)] bs [OF index_less] chain_cong [of "bs i" nxt "ht_next h" "ht_table h i"] by auto
  have build: "ok h' (S - {p})"
    if "chain (ht_next h') (ht_table h' ?i) (remove1 p (bs ?i))" "\<And>i. i \<noteq> ?i \<Longrightarrow> ht_table h' i = ht_table h i"
      "\<And>y. y \<notin> set (bs ?i) \<Longrightarrow> ht_next h' y = ht_next h y" for h'
  proof -
    have "\<forall>i < slots. chain (ht_next h') (ht_table h' i) ((bs(?i := remove1 p (bs ?i))) i) \<and> distinct ((bs(?i := remove1 p (bs ?i))) i) \<and>
        set ((bs(?i := remove1 p (bs ?i))) i) = {q \<in> S - {p}. hash_index hash slots (unique_id q) = i}"
      using that other bs b by auto
    moreover have "\<forall>a\<in>S - {p}. \<forall>b\<in>S - {p}. good (unique_id a) \<longrightarrow> unique_id a = unique_id b \<longrightarrow> a = b"
      using ok_unique [OF assms(1)] by (metis DiffD1)
    ultimately show ?thesis unfolding table_ok_def by blast
  qed
  obtain x ys where x: "bs ?i = x # ys" using b(3) by (cases "bs ?i") auto
  then have q: "?q = x" "x \<noteq> NULL" "chain (ht_next h) x (x # ys)" "distinct (x # ys)" using b(1,2) by auto
  show ?thesis
  proof (cases "x = p")
    case True
    then have "hash_table_delete unique_id unique_eq hash slots h (unique_id p) =
        Some (p, h\<lparr>ht_table := (ht_table h)(?i := ht_next h p)\<rparr>)"
      using q eq x by (simp add: hash_table_delete_def Let_def)
    moreover have "chain (ht_next h) (ht_next h p) (remove1 p (bs ?i))" using True q x by simp
    ultimately show ?thesis using build by simp
  next
    case False
    have "find (\<lambda>z. unique_eq (unique_id z) (unique_id p)) ys = Some p"
      by (rule find_member) (use b(3) x False assms(3) eq in \<open>auto simp: unique_eq_iff\<close>)
    then obtain nxt' where r: "chain_delete unique_id unique_eq (ht_next h) (unique_id p) x (ht_next h x) = Some (p, nxt')"
      "\<forall>y. y \<notin> set (x # ys) \<longrightarrow> nxt' y = ht_next h y" "chain nxt' x (x # remove1 p ys)"
      using chain_delete_removes [OF q(3,4), of unique_id unique_eq "unique_id p"] by auto
    have "hash_table_delete unique_id unique_eq hash slots h (unique_id p) = Some (p, h\<lparr>ht_next := nxt'\<rparr>)"
      using q eq [of x] x False r(1) by (simp add: hash_table_delete_def Let_def)
    then show ?thesis using build [of "h\<lparr>ht_next := nxt'\<rparr>"] r(2,3) q x False by auto
  qed
qed

end

end
