(* ===== verification/Util.thy ===== *)
theory Util
  imports Prelude
begin

unbundle bit_operations_syntax

text \<open>
  \<^verbatim>\<open>src/sys/util.c\<close> and \<^verbatim>\<open>src/sys/static_alloc.c\<close>: copying and filling memory, the string hash, the
  random numbers, and the allocator that the start-up code uses before there is a heap.  Memory
  is a function from addresses to bytes.
\<close>

type_synonym bytes = "ptr \<Rightarrow> 8 word"

text \<open>A 32-bit word in memory, least significant byte first.\<close>

definition store32 :: "ptr \<Rightarrow> u32 \<Rightarrow> bytes \<Rightarrow> bytes" where
  "store32 p w m = m(p := ucast w, p + 1 := ucast (drop_bit 8 w), p + 2 := ucast (drop_bit 16 w), p + 3 := ucast (drop_bit 24 w))"

definition load32 :: "ptr \<Rightarrow> bytes \<Rightarrow> u32" where
  "load32 p m = ucast (m p) OR push_bit 8 (ucast (m (p + 1))) OR push_bit 16 (ucast (m (p + 2))) OR push_bit 24 (ucast (m (p + 3)))"

subsection \<open>Copying\<close>

primrec copy_up :: "ptr \<Rightarrow> ptr \<Rightarrow> nat \<Rightarrow> nat \<Rightarrow> bytes \<Rightarrow> bytes" where
  "copy_up dst src i 0 m = m"
| "copy_up dst src i (Suc n) m = copy_up dst src (Suc i) n (m(dst + i := m (src + i)))"

definition memcpy_lo_hi :: "ptr \<Rightarrow> ptr \<Rightarrow> u32 \<Rightarrow> bytes \<Rightarrow> bytes" where
  "memcpy_lo_hi dst src sz m = copy_up dst src 0 (unat sz) m"

primrec copy_down :: "ptr \<Rightarrow> ptr \<Rightarrow> nat \<Rightarrow> bytes \<Rightarrow> bytes" where
  "copy_down dst src 0 m = m"
| "copy_down dst src (Suc n) m = copy_down dst src n (m(dst + n := m (src + n)))"

text \<open>The counter is a signed \<^verbatim>\<open>int\<close>: a size of more than \<open>2 ^ 31\<close> makes it negative at the start.\<close>

definition memcpy_hi_lo :: "ptr \<Rightarrow> ptr \<Rightarrow> u32 \<Rightarrow> bytes \<Rightarrow> bytes" where
  "memcpy_hi_lo dst src sz m = copy_down dst src (nat (sint (sz - 1) + 1)) m"

definition memmove :: "ptr \<Rightarrow> ptr \<Rightarrow> u32 \<Rightarrow> bytes \<Rightarrow> bytes" where
  "memmove dst src sz m = (if dst < src then memcpy_lo_hi dst src sz m else memcpy_hi_lo dst src sz m)"

primrec fill :: "ptr \<Rightarrow> 8 word \<Rightarrow> nat \<Rightarrow> bytes \<Rightarrow> bytes" where
  "fill p val 0 m = m"
| "fill p val (Suc n) m = (fill p val n m)(p + n := val)"

text \<open>The loop of \<^verbatim>\<open>memset\<close> is bounded by the value, not by the size.\<close>

definition memset :: "ptr \<Rightarrow> 8 word \<Rightarrow> u32 \<Rightarrow> bytes \<Rightarrow> bytes" where
  "memset p val sz m = fill p val (unat val) m"

subsection \<open>Hashing and random numbers\<close>

fun strhash_from :: "u32 \<Rightarrow> 16 word list \<Rightarrow> u32" where
  "strhash_from out [] = out"
| "strhash_from out (c # cs) = (if c = 0 then out else strhash_from (out + ucast c) cs)"

definition strhash :: "16 word list \<Rightarrow> u32" where
  "strhash s = strhash_from 0 s"

definition RAND_MOD :: u32 where "RAND_MOD = 0xfffffffa"

definition rand :: "u32 \<Rightarrow> u32 \<times> u32" where
  "rand rand_seed = (let out = (rand_seed * rand_seed) mod RAND_MOD in (out, out))"

subsection \<open>Static allocation\<close>

text \<open>
  \<open>expand\<close> is the assembly routine \<^verbatim>\<open>static_alloc_expand\<close>, which maps one more page and returns the
  new limit.
\<close>

record static_state =
  st_limit :: u32
  st_addr :: u32

definition static_alloc_init :: "u32 \<Rightarrow> u32 \<Rightarrow> static_state \<Rightarrow> static_state" where
  "static_alloc_init p lim s = s\<lparr>st_addr := p, st_limit := lim\<rparr>"

partial_function (option) expand_loop :: "(u32 \<Rightarrow> u32) \<Rightarrow> u32 \<Rightarrow> u32 \<Rightarrow> u32 option" where
  "expand_loop expand addr limit = (if addr > limit then expand_loop expand addr (expand limit) else Some limit)"

definition align_up :: "u32 \<Rightarrow> u32 \<Rightarrow> u32" where
  "align_up a align = ((a - 1) div align + 1) * align"

definition static_alloc :: "(u32 \<Rightarrow> u32) \<Rightarrow> u32 \<Rightarrow> u32 \<Rightarrow> static_state \<Rightarrow> bytes \<Rightarrow> (u32 \<times> static_state \<times> bytes) option" where
  "static_alloc expand sz align s m = do {
     let out = align_up (st_addr s) align;
     let s = s\<lparr>st_addr := out + sz\<rparr>;
     lim \<leftarrow> expand_loop expand (st_addr s) (st_limit s);
     Some (out, s\<lparr>st_limit := lim\<rparr>, memset (unat out) 0 sz m) }"

subsection \<open>Copying is exact\<close>

lemma copy_up_apply:
  assumes "dst < src"
  shows "copy_up dst src i n m a = (if dst + i \<le> a \<and> a < dst + i + n then m (src + (a - dst)) else m a)"
  using assms by (induction n arbitrary: i m) auto

lemma copy_down_apply:
  assumes "src \<le> dst"
  shows "copy_down dst src n m a = (if dst \<le> a \<and> a < dst + n then m (src + (a - dst)) else m a)"
  using assms by (induction n arbitrary: m) auto

lemma fill_apply: "fill p val n m a = (if p \<le> a \<and> a < p + n then val else m a)"
  by (induction n) auto

lemma hi_lo_count:
  fixes sz :: u32
  assumes "unat sz < 2 ^ 31"
  shows "nat (sint (sz - 1) + 1) = unat sz"
proof (cases "sz = 0")
  case False
  have 1: "0 < uint sz" using False uint_ge_0 [of sz] word_uint_eqI [of sz 0] unfolding uint_0_eq by linarith
  have 2: "uint sz < 2 ^ 31" using assms by (simp only: unat_eq_nat_uint nat_less_iff [OF uint_ge_0] of_nat_power of_nat_numeral)
  have "uint (sz - 1) = uint sz - 1" using 1 uint_sub_lem [of 1 sz] by simp
  then have "sint (sz - 1) = uint sz - 1" using 1 2 by (simp only: sint_eq_uint_32) simp
  then show ?thesis by (simp only: unat_eq_nat_uint)
qed simp

text \<open>C35: \<^verbatim>\<open>memmove\<close> of less than two gigabytes is exact for overlapping areas in either direction: every byte of
  the destination is the byte the source had before, and no other byte changes.\<close>

theorem memmove_exact:
  assumes "unat sz < 2 ^ 31"
  shows "memmove dst src sz m a = (if dst \<le> a \<and> a < dst + unat sz then m (src + (a - dst)) else m a)"
  using assms copy_up_apply [of dst src 0 "unat sz" m a] copy_down_apply [of src dst "unat sz" m a]
  by (simp add: memmove_def memcpy_lo_hi_def memcpy_hi_lo_def hi_lo_count)

theorem memmove_exact_witness: "memmove 11 10 3 (\<lambda>a. word_of_nat a) 13 = 12 \<and> memmove 9 10 3 (\<lambda>a. word_of_nat a) 9 = 10"
  using memmove_exact [of 3 11 10 "\<lambda>a. word_of_nat a" 13] memmove_exact [of 3 9 10 "\<lambda>a. word_of_nat a" 9] by simp

text \<open>\<^verbatim>\<open>memset\<close> fills as many bytes as its value says, whatever size it is given; clearing memory, which
  is all the kernel uses it for, does nothing.\<close>

theorem memset_ignores_size:
  "memset p val sz m a = (if p \<le> a \<and> a < p + unat val then val else m a) \<and> memset p 0 sz m = m"
  by (simp add: memset_def fill_apply)

subsection \<open>Random numbers\<close>

text \<open>Squaring never leaves zero, the value the seed has in uninitialised static memory.\<close>

lemma rand_zero: "rand 0 = (0, 0)"
  by (simp add: rand_def RAND_MOD_def)

subsection \<open>Alignment\<close>

lemma align_up_bounds:
  assumes "0 < a" "0 < align" "uint a + uint align \<le> 2 ^ 32"
  shows "uint a \<le> uint (align_up a align)" "uint (align_up a align) < uint a + uint align"
    "uint align dvd uint (align_up a align)"
proof -
  let ?x = "uint a" and ?n = "uint align"
  have x: "0 < ?x" "0 < ?n" using assms(1,2) by (simp_all add: word_less_def)
  have m1: "uint (a - 1) = ?x - 1" using x uint_sub_lem [of 1 a] by simp
  let ?q = "(?x - 1) div ?n"
  have q: "?q * ?n \<le> ?x - 1" "?x - 1 < ?q * ?n + ?n"
    using x div_mult_mod_eq [of "?x - 1" ?n] pos_mod_bound [of ?n "?x - 1"] pos_mod_sign [of ?n "?x - 1"] by linarith+
  have "(?q + 1) * ?n < 2 ^ 32" using q(1) assms(3) x by (simp add: distrib_right)
  then have v: "uint (align_up a align) = (?q + 1) * ?n"
  proof -
    have "align_up a align = word_of_int ((?q + 1) * ?n)" by (simp add: align_up_def word_div_def m1)
    then have "uint (align_up a align) = (?q + 1) * ?n mod 2 ^ 32" by (simp only: uint_word_of_int_eq take_bit_eq_mod) simp
    moreover have "0 \<le> (?q + 1) * ?n" using x by (simp add: pos_imp_zdiv_nonneg_iff)
    ultimately show ?thesis using \<open>(?q + 1) * ?n < 2 ^ 32\<close> by (simp only: mod_pos_pos_trivial)
  qed
  then show "?x \<le> uint (align_up a align)" "uint (align_up a align) < ?x + ?n" "?n dvd uint (align_up a align)"
    using q by (simp_all add: distrib_right)
qed

lemma expand_loop_reaches:
  assumes "addr \<le> (expand ^^ n) limit"
  shows "\<exists>lim. expand_loop expand addr limit = Some lim \<and> addr \<le> lim"
  using assms
proof (induction n arbitrary: limit)
  case 0
  then have "\<not> limit < addr" by simp
  then show ?case using 0 by (subst expand_loop.simps) simp
next
  case (Suc n)
  show ?case
  proof (cases "addr > limit")
    case True
    have "addr \<le> (expand ^^ n) (expand limit)" using Suc.prems by (simp add: funpow_swap1)
    from Suc.IH [OF this] show ?thesis using True by (subst expand_loop.simps) simp
  next
    case False
    then show ?thesis by (subst expand_loop.simps) simp
  qed
qed

text \<open>The start-up allocator returns an aligned block behind everything it gave out before and moves its
  mark to the end of the block, provided the address space does not overflow and expansion
  eventually covers the block.  The memory is as it was: it is not cleared.\<close>

theorem static_alloc_correct:
  assumes "0 < st_addr s" "0 < align" "uint (st_addr s) + uint align + uint sz \<le> 2 ^ 32"
    "align_up (st_addr s) align + sz \<le> (expand ^^ n) (st_limit s)"
  shows "\<exists>out s'. static_alloc expand sz align s m = Some (out, s', m) \<and> uint align dvd uint out \<and>
    uint (st_addr s) \<le> uint out \<and> uint (st_addr s') = uint out + uint sz \<and> st_addr s' \<le> st_limit s'"
proof -
  let ?out = "align_up (st_addr s) align"
  have b: "uint (st_addr s) + uint align \<le> 2 ^ 32" using assms(3) uint_ge_0 [of sz] by linarith
  note a = align_up_bounds [OF assms(1,2) b]
  have "uint ?out + uint sz < 2 ^ 32" using a(2) assms(3) by linarith
  then have sum: "uint (?out + sz) = uint ?out + uint sz" using uint_add_lem [of ?out sz] by simp
  obtain lim where "expand_loop expand (?out + sz) (st_limit s) = Some lim" "?out + sz \<le> lim"
    using expand_loop_reaches [OF assms(4)] by blast
  then have "static_alloc expand sz align s m = Some (?out, s\<lparr>st_addr := ?out + sz, st_limit := lim\<rparr>, m)"
    by (simp add: static_alloc_def memset_def Let_def)
  then show ?thesis using a(1,3) sum \<open>?out + sz \<le> lim\<close> by auto
qed

theorem static_alloc_correct_witness:
  "\<exists>out s'. static_alloc (\<lambda>l. l + 0x1000) 100 16 \<lparr>st_limit = 0x1000, st_addr = 0xff8\<rparr> (\<lambda>_. 0) = Some (out, s', \<lambda>_. 0) \<and>
     st_addr s' \<le> st_limit s'"
  using static_alloc_correct [of "\<lparr>st_limit = 0x1000, st_addr = 0xff8\<rparr>" 16 100 1 "\<lambda>l. l + 0x1000" "\<lambda>_. 0"]
  by (auto simp: align_up_def)

end
