(* ===== verification/Malloc.thy ===== *)
theory Malloc
  imports Circular_List Hash_Table Util
begin

unbundle bit_operations_syntax

text \<open>
  \<^verbatim>\<open>src/mem/malloc/malloc.c\<close>: the kernel heap.  Free blocks carry a \<^verbatim>\<open>mem_node\<close> in their own memory; they are
  on a circular list per power of two and in a hash table by address.  The state keeps the
  fields of the nodes, the list heads, the hash table, the globals, and the bytes of the heap for
  what the callers store.  The file's two mutexes are held around each access; an operation is
  one sequential step.

  \<^verbatim>\<open>bsf\<close> and \<^verbatim>\<open>bsr\<close>, on which \<^verbatim>\<open>ia_32_round.s\<close> is built, have no defined result for 0; the functions
  below give 0 there and no theorem depends on it.
\<close>

definition SMALLEST_BLOCK :: u32 where "SMALLEST_BLOCK = 16"
definition BLOCK_MASK :: u32 where "BLOCK_MASK = 0xf"
definition LIST_OFFSET :: u32 where "LIST_OFFSET = 4"
definition LARGEST_BLOCK :: u32 where "LARGEST_BLOCK = 1024 * 1024"
definition MN_TABLE_SIZE :: nat where "MN_TABLE_SIZE = 65535"
definition EMERGENCY_STORE :: u32 where "EMERGENCY_STORE = 0x100000"

lemmas malloc_consts = SMALLEST_BLOCK_def BLOCK_MASK_def LIST_OFFSET_def LARGEST_BLOCK_def EMERGENCY_STORE_def

subsection \<open>Powers of two\<close>

fun bsr :: "nat \<Rightarrow> nat" where
  "bsr n = (if n < 2 then 0 else Suc (bsr (n div 2)))"

fun bsf :: "nat \<Rightarrow> nat" where
  "bsf n = (if n = 0 \<or> odd n then 0 else Suc (bsf (n div 2)))"

declare bsr.simps [simp del] bsf.simps [simp del]

definition addr_size :: "ptr \<Rightarrow> u32" where "addr_size p = word_of_nat (2 ^ bsf p)"
definition round_down :: "u32 \<Rightarrow> u32" where "round_down x = word_of_nat (2 ^ bsr (unat x))"
definition round_up :: "u32 \<Rightarrow> u32" where "round_up x = word_of_nat (2 ^ (bsr (unat (x - 1)) + 1))"
definition ilog :: "u32 \<Rightarrow> u32" where "ilog x = word_of_nat (bsr (unat x))"
definition addr_power :: "u32 \<Rightarrow> u32" where "addr_power x = word_of_nat (bsr (unat x))"

subsection \<open>State\<close>

record heap_mem =
  mn_next :: "ptr \<Rightarrow> ptr"
  mn_last :: "ptr \<Rightarrow> ptr"
  mn_size :: "ptr \<Rightarrow> u32"
  mn_table :: htab
  block_lists :: "nat \<Rightarrow> ptr"
  lists_ptr :: ptr
  high_list :: u32
  heap_size :: u32
  heap_free :: u32
  kern_heap_start :: ptr
  kern_heap_end :: ptr
  heap_data :: bytes

definition mn_hash :: "ptr \<Rightarrow> u32" where
  "mn_hash p = word_of_nat p"

definition list_of_size :: "u32 \<Rightarrow> nat" where
  "list_of_size sz = unat (addr_power sz - LIST_OFFSET)"

definition lookup_addr :: "ptr \<Rightarrow> heap_mem \<Rightarrow> bool option" where
  "lookup_addr p h = do {
     a \<leftarrow> hash_table_lookup (\<lambda>x. x) (=) mn_hash MN_TABLE_SIZE (mn_table h) p;
     Some (a \<noteq> NULL) }"

definition insert_addr :: "ptr \<Rightarrow> heap_mem \<Rightarrow> heap_mem option" where
  "insert_addr p h = do {
     let list = list_of_size (mn_size h p);
     _ \<leftarrow> deref (lists_ptr h);
     let (q, nxt, lst) = clist_insert (block_lists h list) p (mn_next h, mn_last h);
     let h = h\<lparr>mn_next := nxt, mn_last := lst, block_lists := (block_lists h)(list := q)\<rparr>;
     let h = h\<lparr>mn_table := snd (hash_table_insert (\<lambda>x. x) mn_hash MN_TABLE_SIZE (mn_table h) p)\<rparr>;
     Some (h\<lparr>heap_free := heap_free h + mn_size h p\<rparr>) }"

definition delete_addr :: "ptr \<Rightarrow> heap_mem \<Rightarrow> heap_mem option" where
  "delete_addr p h = do {
     let list = list_of_size (mn_size h p);
     _ \<leftarrow> deref (lists_ptr h);
     let (q, nxt, lst) = clist_delete p (mn_next h, mn_last h);
     let h = h\<lparr>mn_next := nxt, mn_last := lst, block_lists := (block_lists h)(list := q)\<rparr>;
     (_, t) \<leftarrow> hash_table_delete (\<lambda>x. x) (=) mn_hash MN_TABLE_SIZE (mn_table h) p;
     let h = h\<lparr>mn_table := t\<rparr>;
     Some (h\<lparr>heap_free := heap_free h - mn_size h p\<rparr>) }"

text \<open>\<^verbatim>\<open>delete_addr_nolock\<close> subtracts before it deletes from the table, which gives the same state.\<close>

definition delete_addr_nolock :: "ptr \<Rightarrow> heap_mem \<Rightarrow> heap_mem option" where
  "delete_addr_nolock p h = do {
     let list = list_of_size (mn_size h p);
     _ \<leftarrow> deref (lists_ptr h);
     let (q, nxt, lst) = clist_delete p (mn_next h, mn_last h);
     let h = h\<lparr>mn_next := nxt, mn_last := lst, block_lists := (block_lists h)(list := q)\<rparr>;
     let h = h\<lparr>heap_free := heap_free h - mn_size h p\<rparr>;
     (_, t) \<leftarrow> hash_table_delete (\<lambda>x. x) (=) mn_hash MN_TABLE_SIZE (mn_table h) p;
     Some (h\<lparr>mn_table := t\<rparr>) }"

definition set_size :: "ptr \<Rightarrow> u32 \<Rightarrow> heap_mem \<Rightarrow> heap_mem" where
  "set_size p sz h = h\<lparr>mn_size := (mn_size h)(p := sz)\<rparr>"

subsection \<open>Merging\<close>

partial_function (option) merge_forward_loop :: "ptr \<Rightarrow> (u32 \<Rightarrow> bool) \<Rightarrow> u32 \<Rightarrow> heap_mem \<Rightarrow> (u32 \<times> heap_mem) option" where
  "merge_forward_loop p wanted sz h =
     (if sz < addr_size p \<and> wanted sz then do {
        let f = p + unat sz;
        found \<leftarrow> lookup_addr f h;
        if found then do {
          h \<leftarrow> delete_addr f h;
          merge_forward_loop p wanted (sz + mn_size h f) h }
        else Some (sz, h) }
      else Some (sz, h))"

definition merge_block_forward :: "ptr \<Rightarrow> u32 \<Rightarrow> heap_mem \<Rightarrow> (u32 \<times> heap_mem) option" where
  "merge_block_forward p sz h = do {
     (sz, h) \<leftarrow> merge_forward_loop p (\<lambda>_. True) sz h;
     Some (sz, set_size p sz h) }"

definition live_merge_forward :: "ptr \<Rightarrow> u32 \<Rightarrow> u32 \<Rightarrow> heap_mem \<Rightarrow> (u32 \<times> heap_mem) option" where
  "live_merge_forward p sz limit h = merge_forward_loop p (\<lambda>sz. sz < limit) sz h"

partial_function (option) merge_block :: "ptr \<Rightarrow> u32 \<Rightarrow> heap_mem \<Rightarrow> (ptr \<times> heap_mem) option" where
  "merge_block p sz h =
     (if sz < LARGEST_BLOCK then do {
        (sz, h) \<leftarrow> merge_block_forward p sz h;
        if sz = addr_size p then do {
          let b = p - unat sz;
          found \<leftarrow> lookup_addr b h;
          if found \<and> mn_size h b = sz \<and> sz < LARGEST_BLOCK then do {
            h \<leftarrow> delete_addr b h;
            let h = set_size b (mn_size h b * 2) h;
            merge_block b (mn_size h b) h }
          else Some (p, h) }
        else Some (p, h) }
      else Some (p, h))"

partial_function (option) grow_block :: "ptr \<Rightarrow> u32 \<Rightarrow> u32 \<Rightarrow> heap_mem \<Rightarrow> (ptr \<times> u32 \<times> heap_mem) option" where
  "grow_block p sz new_size h =
     (if sz < new_size then do {
        (sz, h) \<leftarrow> live_merge_forward p sz new_size h;
        if sz = addr_size p \<and> sz < new_size then do {
          let b = p - unat sz;
          found \<leftarrow> lookup_addr b h;
          if found \<and> mn_size h b = sz then do {
            h \<leftarrow> delete_addr b h;
            let h = set_size b (mn_size h b * 2) h;
            grow_block b (mn_size h b) new_size h }
          else Some (p, sz, h) }
        else Some (p, sz, h) }
      else Some (p, sz, h))"

subsection \<open>Allocating\<close>

partial_function (option) split_loop :: "ptr \<Rightarrow> u32 \<Rightarrow> heap_mem \<Rightarrow> (u32 \<times> heap_mem) option" where
  "split_loop front diff h =
     (if diff \<ge> SMALLEST_BLOCK then do {
        let pow_size = round_down diff;
        let front = front - unat pow_size;
        h \<leftarrow> insert_addr front (set_size front pow_size h);
        split_loop front (diff - pow_size) h }
      else Some (diff, h))"

definition split_block :: "ptr \<Rightarrow> u32 \<Rightarrow> u32 \<Rightarrow> heap_mem \<Rightarrow> (u32 \<times> heap_mem) option" where
  "split_block p sz min_size h = do {
     (diff, h) \<leftarrow> split_loop (p + unat sz) (sz - min_size) h;
     Some (min_size + diff, h) }"

partial_function (option) acquire_loop :: "u32 \<Rightarrow> heap_mem \<Rightarrow> (ptr \<times> heap_mem) option" where
  "acquire_loop list h =
     (if list \<le> high_list h then do {
        _ \<leftarrow> deref (lists_ptr h);
        if NULL \<noteq> block_lists h (unat list) then do {
          let out = mn_last h (block_lists h (unat list));
          h \<leftarrow> delete_addr_nolock out h;
          Some (out, h) }
        else acquire_loop (list + 1) h }
      else Some (NULL, h))"

definition acquire_block :: "u32 \<Rightarrow> heap_mem \<Rightarrow> (ptr \<times> heap_mem) option" where
  "acquire_block sz h = acquire_loop (ilog sz - LIST_OFFSET) h"

text \<open>The pointer argument \<^verbatim>\<open>size\<close> is an argument and a second result.\<close>

definition setup_block :: "ptr \<Rightarrow> u32 \<Rightarrow> heap_mem \<Rightarrow> (ptr \<times> u32 \<times> heap_mem) option" where
  "setup_block p sz h = do {
     (sz', h) \<leftarrow> split_block p (mn_size h p) sz h;
     Some (p, sz', h) }"

text \<open>\<^verbatim>\<open>empty_caches\<close> has an empty body, so that the second attempts find the same heap.\<close>

definition empty_caches :: "heap_mem \<Rightarrow> heap_mem" where
  "empty_caches h = h"

definition kern_malloc :: "u32 \<Rightarrow> u32 \<Rightarrow> heap_mem \<Rightarrow> (ptr \<times> u32 \<times> heap_mem) option" where
  "kern_malloc sz priority h = do {
     let block_size = round_up sz;
     if block_size \<le> heap_free h - EMERGENCY_STORE \<or> priority \<noteq> 0 then do {
       (out, h) \<leftarrow> acquire_block block_size h;
       if NULL \<noteq> out then setup_block out sz h
       else do {
         (out, h) \<leftarrow> acquire_block block_size (empty_caches h);
         if NULL \<noteq> out then setup_block out sz h else Some (NULL, sz, h) } }
     else do {
       let h = empty_caches h;
       if block_size \<le> heap_free h - EMERGENCY_STORE then do {
         (out, h) \<leftarrow> acquire_block block_size h;
         if NULL \<noteq> out then setup_block out sz h else Some (NULL, sz, h) }
       else Some (NULL, sz, h) } }"

subsection \<open>Freeing and resizing\<close>

partial_function (option) free_loop :: "ptr \<Rightarrow> u32 \<Rightarrow> u32 \<Rightarrow> heap_mem \<Rightarrow> heap_mem option" where
  "free_loop p i sz h =
     (if i < sz then do {
        let pow_size = round_down (sz - i);
        let pow_size = (if pow_size > LARGEST_BLOCK then LARGEST_BLOCK else pow_size);
        h \<leftarrow> insert_addr p (set_size p pow_size h);
        free_loop (p + unat pow_size) (i + pow_size) sz h }
      else Some h)"

definition kern_free :: "ptr \<Rightarrow> u32 \<Rightarrow> heap_mem \<Rightarrow> heap_mem option" where
  "kern_free p sz h =
     (if NULL \<noteq> p \<and> 0 \<noteq> sz then do {
        (p, h) \<leftarrow> merge_block p sz (set_size p sz h);
        free_loop p 0 (mn_size h p) h }
      else Some h)"

partial_function (option) cut_loop :: "ptr \<Rightarrow> u32 \<Rightarrow> heap_mem \<Rightarrow> heap_mem option" where
  "cut_loop p free_size h =
     (if free_size \<noteq> 0 then do {
        let in_size = (if free_size > addr_size p then addr_size p else round_down free_size);
        h \<leftarrow> insert_addr p (set_size p in_size h);
        cut_loop (p + unat in_size) (free_size - in_size) h }
      else Some h)"

definition cut_block_end :: "ptr \<Rightarrow> u32 \<Rightarrow> u32 \<Rightarrow> heap_mem \<Rightarrow> (u32 \<times> heap_mem) option" where
  "cut_block_end p mn sz h = do {
     let start = (mn AND NOT BLOCK_MASK) + SMALLEST_BLOCK;
     h \<leftarrow> cut_loop (p + unat start) (sz - start) h;
     Some (start, h) }"

definition trim_block :: "ptr \<Rightarrow> u32 \<Rightarrow> u32 \<Rightarrow> heap_mem \<Rightarrow> (ptr \<times> u32 \<times> heap_mem) option" where
  "trim_block p sz old_size h = do {
     (old_size, h) \<leftarrow> live_merge_forward p old_size sz h;
     (sz, h) \<leftarrow> cut_block_end p sz old_size h;
     Some (p, sz, h) }"

definition on_data :: "(bytes \<Rightarrow> bytes) \<Rightarrow> heap_mem \<Rightarrow> heap_mem" where
  "on_data f h = h\<lparr>heap_data := f (heap_data h)\<rparr>"

text \<open>The branch that has enough memory, which the code has twice, and the part of it that allocates anew.\<close>

definition realloc_move :: "ptr \<Rightarrow> ptr \<Rightarrow> u32 \<Rightarrow> u32 \<Rightarrow> u32 \<Rightarrow> heap_mem \<Rightarrow> (ptr \<times> u32 \<times> heap_mem) option" where
  "realloc_move p grown sz copy_size old_size h = do {
     (out, sz, h) \<leftarrow> kern_malloc sz 1 h;
     if NULL \<noteq> out then do {
       h \<leftarrow> kern_free grown old_size (on_data (memcpy_lo_hi out p copy_size) h);
       Some (out, sz, h) }
     else do {
       (out, sz, h) \<leftarrow> kern_malloc sz 1 (empty_caches h);
       if NULL \<noteq> out then do {
         h \<leftarrow> kern_free grown old_size (on_data (memcpy_lo_hi out p copy_size) h);
         Some (out, sz, h) }
       else Some (NULL, old_size, h) } }"

definition realloc_grow :: "ptr \<Rightarrow> u32 \<Rightarrow> u32 \<Rightarrow> heap_mem \<Rightarrow> (ptr \<times> u32 \<times> heap_mem) option" where
  "realloc_grow p sz old_size h = do {
     let copy_size = old_size;
     (grown, old_size, h) \<leftarrow> grow_block p old_size sz h;
     if old_size \<ge> sz then do {
       let h = (if grown \<noteq> p then on_data (memmove grown p copy_size) h else h);
       (sz, h) \<leftarrow> cut_block_end grown sz old_size h;
       Some (grown, sz, h) }
     else realloc_move p grown sz copy_size old_size h }"

definition kern_realloc :: "ptr \<Rightarrow> u32 \<Rightarrow> u32 \<Rightarrow> u32 \<Rightarrow> heap_mem \<Rightarrow> (ptr \<times> u32 \<times> heap_mem) option" where
  "kern_realloc p sz old_size priority h =
     (if old_size \<ge> sz then trim_block p sz old_size h
      else if sz - old_size \<le> heap_free h - EMERGENCY_STORE \<or> priority \<noteq> 0 then realloc_grow p sz old_size h
      else let h = empty_caches h in
        if sz - old_size \<le> heap_free h - EMERGENCY_STORE \<or> priority \<noteq> 0 then realloc_grow p sz old_size h
        else Some (NULL, old_size, h))"

subsection \<open>The interface with a size header\<close>

definition malloc :: "u32 \<Rightarrow> heap_mem \<Rightarrow> (ptr \<times> heap_mem) option" where
  "malloc sz h = do {
     (out, sz, h) \<leftarrow> kern_malloc (sz + 4) 0 h;
     Some (if NULL \<noteq> out then (out + 4, on_data (store32 out sz) h) else (out, h)) }"

definition realloc :: "ptr \<Rightarrow> u32 \<Rightarrow> heap_mem \<Rightarrow> (ptr \<times> heap_mem) option" where
  "realloc p sz h = do {
     p \<leftarrow> deref p;
     (out, sz, h) \<leftarrow> kern_realloc (p - 4) (sz + 4) (load32 (p - 4) (heap_data h)) 0 h;
     Some (if NULL \<noteq> out then (out + 4, on_data (store32 out sz) h) else (out, h)) }"

definition free :: "ptr \<Rightarrow> heap_mem \<Rightarrow> heap_mem option" where
  "free p h = do {
     p \<leftarrow> deref p;
     kern_free (p - 4) (load32 (p - 4) (heap_data h)) h }"

definition kern_heap_init :: "ptr \<Rightarrow> u32 \<Rightarrow> heap_mem \<Rightarrow> heap_mem" where
  "kern_heap_init start sz h = h\<lparr>kern_heap_start := start, kern_heap_end := start + unat sz, heap_size := sz, heap_free := sz\<rparr>"

end
