(* ===== verification/Malloc_Inv.thy ===== *)
theory Malloc_Inv
  imports Malloc
begin

text \<open>
  The invariant of the kernel heap and the lists and the table that keep it: the free blocks are in
  their lists and in the hash table, do not overlap, and add up to \<^verbatim>\<open>heap_free\<close>.
\<close>

subsection \<open>Powers of two\<close>

lemma bsr_bounds: "0 < n \<Longrightarrow> 2 ^ bsr n \<le> n \<and> n < 2 ^ Suc (bsr n)"
proof (induction n rule: bsr.induct)
  case (1 n)
  show ?case
  proof (cases "n < 2")
    case True
    then show ?thesis using 1 by (subst bsr.simps, simp)+
  next
    case False
    then have "2 ^ bsr (n div 2) \<le> n div 2 \<and> n div 2 < 2 ^ Suc (bsr (n div 2))" using 1 by simp
    then show ?thesis using False by (subst (1 2) bsr.simps) auto
  qed
qed

lemma bsr_unique:
  assumes "2 ^ k \<le> n" "n < 2 ^ Suc k"
  shows "bsr n = k"
proof -
  have n: "2 ^ bsr n \<le> n" "n < 2 ^ Suc (bsr n)" using bsr_bounds [of n] less_le_trans [OF _ assms(1), of 0] by auto
  have "(2::nat) ^ k < 2 ^ Suc (bsr n)" "(2::nat) ^ bsr n < 2 ^ Suc k" using n assms by linarith+
  then have "k < Suc (bsr n)" "bsr n < Suc k" using nat_power_less_imp_less [of 2 k "Suc (bsr n)"] nat_power_less_imp_less [of 2 "bsr n" "Suc k"] by simp_all
  then show ?thesis by simp
qed

lemma bsr_power [simp]: "bsr (2 ^ k) = k"
  by (rule bsr_unique) simp_all

lemma bsr_mono: "0 < m \<Longrightarrow> m \<le> n \<Longrightarrow> bsr m \<le> bsr n"
proof -
  assume m: "0 < m" "m \<le> n"
  have "2 ^ bsr m \<le> m" "n < 2 ^ Suc (bsr n)" using bsr_bounds [of m] bsr_bounds [of n] m by auto
  then have "(2::nat) ^ bsr m < 2 ^ Suc (bsr n)" using m by linarith
  then show ?thesis using nat_power_less_imp_less [of 2 "bsr m" "Suc (bsr n)"] by simp
qed

lemma bsr_word: "unat (x :: u32) \<noteq> 0 \<Longrightarrow> bsr (unat x) < 32"
proof -
  assume x: "unat x \<noteq> 0"
  have "2 ^ bsr (unat x) \<le> unat x" using bsr_bounds x by simp
  also have "unat x < 2 ^ 32" using unsigned_less [of x] by simp
  finally show ?thesis using nat_power_less_imp_less [of 2 "bsr (unat x)" 32] by simp
qed

lemma unat_pow: "k < 32 \<Longrightarrow> unat (word_of_nat (2 ^ k) :: u32) = 2 ^ k"
proof -
  assume "k < 32"
  then have "(2::nat) ^ k < 2 ^ 32" by (simp only: power_strict_increasing_iff)
  then show ?thesis by (simp only: unat_of_nat mod_less) simp
qed

lemma round_down_bounds:
  assumes "x \<noteq> 0"
  shows "unat (round_down x) = 2 ^ bsr (unat x)" "unat (round_down x) \<le> unat x" "0 < unat (round_down x)"
proof -
  have x: "unat x \<noteq> 0" using assms by (simp add: unat_eq_0)
  show "unat (round_down x) = 2 ^ bsr (unat x)" using bsr_word [OF x] unfolding round_down_def by (rule unat_pow)
  then show "unat (round_down x) \<le> unat x" "0 < unat (round_down x)" using bsr_bounds [of "unat x"] x by simp_all
qed

lemma round_up_bounds:
  assumes "2 \<le> unat sz" "unat sz \<le> 2 ^ 31"
  shows "unat (round_up sz) = 2 ^ (bsr (unat sz - 1) + 1)" "unat sz \<le> unat (round_up sz)" "bsr (unat sz - 1) < 31"
proof -
  have m1: "unat (sz - 1) = unat sz - 1" using assms(1) unat_sub [of 1 sz] by (simp add: word_le_nat_alt)
  have b: "2 ^ bsr (unat sz - 1) \<le> unat sz - 1" "unat sz - 1 < 2 ^ Suc (bsr (unat sz - 1))"
    using bsr_bounds [of "unat sz - 1"] assms(1) by auto
  then have "(2::nat) ^ bsr (unat sz - 1) < 2 ^ 31" using assms by linarith
  then show l: "bsr (unat sz - 1) < 31" by (rule nat_power_less_imp_less [rotated]) simp
  show "unat (round_up sz) = 2 ^ (bsr (unat sz - 1) + 1)"
    unfolding round_up_def m1 using l by (intro unat_pow) simp
  then show "unat sz \<le> unat (round_up sz)" using b(2) assms(1) by simp
qed

lemma list_of_size_eq:
  assumes "16 \<le> unat sz"
  shows "list_of_size sz = bsr (unat sz) - 4" "4 \<le> bsr (unat sz)"
proof -
  have "bsr 16 \<le> bsr (unat sz)" using bsr_mono [of 16 "unat sz"] assms by simp
  then show four: "4 \<le> bsr (unat sz)" using bsr_power [of 4] by simp
  have "bsr (unat sz) < 32" using bsr_word [of sz] assms by simp
  then have "unat (word_of_nat (bsr (unat sz)) :: u32) = bsr (unat sz)" by (simp add: unat_of_nat)
  then show "list_of_size sz = bsr (unat sz) - 4"
    using four by (simp add: list_of_size_def addr_power_def LIST_OFFSET_def unat_sub word_le_nat_alt)
qed

subsection \<open>The invariant\<close>

interpretation mn: hash_keys "\<lambda>_. True" "\<lambda>x. x" "(=)" mn_hash MN_TABLE_SIZE
  by unfold_locales (simp_all add: MN_TABLE_SIZE_def)

definition links_of :: "heap_mem \<Rightarrow> links" where
  "links_of h = (mn_next h, mn_last h)"

definition in_list :: "heap_mem \<Rightarrow> ptr set \<Rightarrow> nat \<Rightarrow> ptr set" where
  "in_list h B i = {p \<in> B. list_of_size (mn_size h p) = i}"

definition lists_ok :: "heap_mem \<Rightarrow> ptr set \<Rightarrow> bool" where
  "lists_ok h B \<longleftrightarrow> rings (links_of h) (block_lists h) (in_list h B)"

definition block :: "heap_mem \<Rightarrow> ptr \<Rightarrow> ptr set" where
  "block h p = {p ..< p + unat (mn_size h p)}"

text \<open>A block is whole units of 16 bytes on a boundary of 16 bytes, and lies in the address space.\<close>

definition fits :: "ptr \<Rightarrow> u32 \<Rightarrow> bool" where
  "fits p sz \<longleftrightarrow> 16 dvd p \<and> 16 dvd unat sz \<and> 16 \<le> unat sz \<and> p + unat sz \<le> 2 ^ 32"

definition kheap_ok :: "heap_mem \<Rightarrow> ptr set \<Rightarrow> bool" where
  "kheap_ok h B \<longleftrightarrow> lists_ptr h \<noteq> NULL \<and> unat (high_list h) < 28 \<and> finite B \<and>
     table_ok (\<lambda>_. True) (\<lambda>x. x) mn_hash MN_TABLE_SIZE (mn_table h) B \<and> lists_ok h B \<and>
     (\<forall>p\<in>B. fits p (mn_size h p)) \<and> heap_free h = (\<Sum>p\<in>B. mn_size h p) \<and>
     (\<forall>p\<in>B. \<forall>q\<in>B. p \<noteq> q \<longrightarrow> block h p \<inter> block h q = {})"

lemma lists_okD:
  assumes "lists_ok h B"
  obtains ps where "ring (links_of h) ps" "block_lists h i = clist_head ps" "set ps = in_list h B i"
  using assms unfolding lists_ok_def by (rule ringsD)

lemma kheap_ok_not_null: "kheap_ok h B \<Longrightarrow> p \<in> B \<Longrightarrow> p \<noteq> NULL"
  using mn.not_null by (auto simp: kheap_ok_def)

text \<open>A size written into memory that is not a free block.\<close>

lemma set_size_ok:
  assumes "kheap_ok h B" "p \<notin> B"
  shows "kheap_ok (set_size p sz h) B"
proof -
  have s: "mn_size (set_size p sz h) x = mn_size h x" if "x \<in> B" for x using that assms(2) by (auto simp: set_size_def)
  have "in_list (set_size p sz h) B = in_list h B" using s by (auto simp: fun_eq_iff in_list_def)
  moreover have "links_of (set_size p sz h) = links_of h" by (simp add: links_of_def set_size_def)
  moreover have "(\<Sum>x\<in>B. mn_size (set_size p sz h) x) = (\<Sum>x\<in>B. mn_size h x)" using s by (intro sum.cong) auto
  ultimately show ?thesis using assms(1) s by (auto simp: kheap_ok_def lists_ok_def block_def) (simp_all add: set_size_def)
qed

lemma insert_addr_ok:
  assumes ok: "kheap_ok h B" and p: "p \<notin> B" "p \<noteq> NULL" "fits p (mn_size h p)"
    and d: "\<And>q. q \<in> B \<Longrightarrow> block h p \<inter> block h q = {}"
  obtains h' where "insert_addr p h = Some h'" "kheap_ok h' (insert p B)" "mn_size h' = mn_size h"
    "high_list h' = high_list h" "heap_free h' = heap_free h + mn_size h p"
proof -
  let ?i = "list_of_size (mn_size h p)"
  have o: "rings (links_of h) (block_lists h) (in_list h B)" using ok by (simp add: kheap_ok_def lists_ok_def)
  obtain q nxt lst where c: "clist_insert (block_lists h ?i) p (links_of h) = (q, nxt, lst)" by (metis surj_pair)
  define h' where "h' = h\<lparr>mn_next := nxt, mn_last := lst, block_lists := (block_lists h)(?i := q),
     mn_table := snd (hash_table_insert (\<lambda>x. x) mn_hash MN_TABLE_SIZE (mn_table h) p), heap_free := heap_free h + mn_size h p\<rparr>"
  have run: "insert_addr p h = Some h'"
    using ok c by (simp add: insert_addr_def h'_def Let_def kheap_ok_def links_of_def)
  have "in_list h' (insert p B) = (in_list h B)(?i := insert p (in_list h B ?i))" by (auto simp: fun_eq_iff in_list_def h'_def)
  then have "lists_ok h' (insert p B)"
    using rings_insert(2) [OF o _ p(2) c] p(1) by (simp add: lists_ok_def links_of_def h'_def in_list_def)
  moreover have "table_ok (\<lambda>_. True) (\<lambda>x. x) mn_hash MN_TABLE_SIZE (mn_table h') (insert p B)"
    using mn.insert_ok [of "mn_table h" B p] ok p by (simp add: h'_def kheap_ok_def)
  moreover have "heap_free h' = (\<Sum>x\<in>insert p B. mn_size h' x)" using ok p(1) by (simp add: h'_def kheap_ok_def add.commute)
  moreover have "block h' = block h" by (simp add: fun_eq_iff block_def h'_def)
  ultimately have "kheap_ok h' (insert p B)" using ok p(3) d by (auto simp: kheap_ok_def h'_def)
  then show ?thesis using that [OF run] by (simp add: h'_def)
qed

lemma delete_addr_nolock_ok:
  assumes ok: "kheap_ok h B" and p: "p \<in> B"
  obtains h' where "delete_addr_nolock p h = Some h'" "kheap_ok h' (B - {p})" "mn_size h' = mn_size h"
    "high_list h' = high_list h" "heap_free h' = heap_free h - mn_size h p"
proof -
  let ?i = "list_of_size (mn_size h p)"
  have o: "rings (links_of h) (block_lists h) (in_list h B)" using ok by (simp add: kheap_ok_def lists_ok_def)
  obtain q nxt lst where c: "clist_delete p (links_of h) = (q, nxt, lst)" by (metis surj_pair)
  obtain t where t: "hash_table_delete (\<lambda>x. x) (=) mn_hash MN_TABLE_SIZE (mn_table h) p = Some (p, t)"
    "table_ok (\<lambda>_. True) (\<lambda>x. x) mn_hash MN_TABLE_SIZE t (B - {p})"
    using mn.delete_ok [of "mn_table h" B p] ok p by (auto simp: kheap_ok_def)
  define h' where "h' = h\<lparr>mn_next := nxt, mn_last := lst, block_lists := (block_lists h)(?i := q),
     heap_free := heap_free h - mn_size h p, mn_table := t\<rparr>"
  have run: "delete_addr_nolock p h = Some h'"
    using ok c t(1) by (simp add: delete_addr_nolock_def h'_def Let_def kheap_ok_def links_of_def)
  have "in_list h' (B - {p}) = (in_list h B)(?i := in_list h B ?i - {p})" by (auto simp: fun_eq_iff in_list_def h'_def)
  then have "lists_ok h' (B - {p})"
    using rings_delete [OF o _ c, of ?i] p by (simp add: lists_ok_def links_of_def h'_def in_list_def)
  moreover have "heap_free h' = (\<Sum>x\<in>B - {p}. mn_size h' x)"
    using ok p sum.remove [of B p "mn_size h"] by (simp add: h'_def kheap_ok_def)
  moreover have "block h' = block h" by (simp add: fun_eq_iff block_def h'_def)
  ultimately have "kheap_ok h' (B - {p})" using ok t(2) by (auto simp: kheap_ok_def h'_def)
  then show ?thesis using that [OF run] by (simp add: h'_def)
qed

lemma delete_addr_same: "delete_addr p h = delete_addr_nolock p h"
  by (cases h) (simp add: delete_addr_def delete_addr_nolock_def Let_def split: prod.splits)

end
