(* ===== verification/Malloc_Held.thy ===== *)
theory Malloc_Held
  imports Malloc_Inv
begin

text \<open>
  What the operations on the kernel heap have in common: they hold a block that is in no list, join free
  neighbours to it or return parts of it, and every byte is either in the block or free.
\<close>

subsection \<open>A block in the hand\<close>

definition memory :: "heap_mem \<Rightarrow> ptr set \<Rightarrow> ptr set" where
  "memory h B = (\<Union>q\<in>B. block h q)"

text \<open>
  Beside the free blocks \<open>B\<close>, the code holds the \<open>sz\<close> bytes at \<open>p\<close>, which no free block overlaps;
  together they are the memory \<open>M\<close> and add up to \<open>F\<close>, and \<open>D\<close> is what the memory holds.
\<close>

definition held :: "ptr set \<Rightarrow> u32 \<Rightarrow> bytes \<Rightarrow> heap_mem \<Rightarrow> ptr set \<Rightarrow> ptr \<Rightarrow> u32 \<Rightarrow> bool" where
  "held M F D h B p sz \<longleftrightarrow> kheap_ok h B \<and> p \<noteq> NULL \<and> fits p sz \<and> (\<forall>q\<in>B. block h q \<inter> {p ..< p + unat sz} = {}) \<and>
     memory h B \<union> {p ..< p + unat sz} = M \<and> heap_free h + sz = F \<and> heap_data h = D"

lemma block_start: "fits p sz \<Longrightarrow> p \<in> {p ..< p + unat sz}"
  by (simp add: fits_def)

lemma free_block_start: "kheap_ok h B \<Longrightarrow> p \<in> B \<Longrightarrow> p \<in> block h p"
  using block_start by (auto simp: kheap_ok_def block_def)

lemma heldD:
  assumes "held M F D h B p sz"
  shows "kheap_ok h B" "p \<noteq> NULL" "fits p sz" "\<And>q. q \<in> B \<Longrightarrow> block h q \<inter> {p ..< p + unat sz} = {}"
    "memory h B \<union> {p ..< p + unat sz} = M" "heap_free h + sz = F" "p \<notin> B" "finite B" "heap_data h = D"
proof -
  show h: "kheap_ok h B" "p \<noteq> NULL" "fits p sz" "\<And>q. q \<in> B \<Longrightarrow> block h q \<inter> {p ..< p + unat sz} = {}"
    "memory h B \<union> {p ..< p + unat sz} = M" "heap_free h + sz = F" "heap_data h = D" using assms by (simp_all add: held_def)
  show "finite B" using h(1) by (simp add: kheap_ok_def)
  show "p \<notin> B" using h(4) [of p] free_block_start [OF h(1), of p] block_start [OF h(3)] by blast
qed

lemma memory_cong: "(\<And>q. q \<in> B \<Longrightarrow> mn_size h' q = mn_size h q) \<Longrightarrow> memory h' B = memory h B"
  by (simp add: memory_def block_def)

lemma memory_disjoint: "(\<forall>q\<in>B. block h q \<inter> X = {}) \<longleftrightarrow> memory h B \<inter> X = {}"
  by (auto simp: memory_def)

lemma held_set_size:
  assumes "held M F D h B p sz" "q \<notin> B"
  shows "held M F D (set_size q n h) B p sz"
proof -
  have s: "mn_size (set_size q n h) x = mn_size h x" if "x \<in> B" for x using that assms(2) by (auto simp: set_size_def)
  then have "memory (set_size q n h) B = memory h B" by (rule memory_cong)
  moreover have "heap_free (set_size q n h) = heap_free h" "heap_data (set_size q n h) = heap_data h" by (simp_all add: set_size_def)
  ultimately show ?thesis using assms set_size_ok [of h B q n] s by (simp add: held_def block_def)
qed

lemma kheap_ok_on_data [simp]: "kheap_ok (on_data f h) B = kheap_ok h B"
proof -
  have "in_list (on_data f h) B = in_list h B" by (simp add: in_list_def on_data_def fun_eq_iff)
  then show ?thesis by (simp add: kheap_ok_def lists_ok_def) (simp add: on_data_def links_of_def block_def)
qed

lemma on_data_fields [simp]: "mn_size (on_data f h) = mn_size h" "heap_free (on_data f h) = heap_free h"
    "heap_data (on_data f h) = f (heap_data h)" "memory (on_data f h) B = memory h B" "block (on_data f h) q = block h q"
  by (simp_all add: on_data_def memory_def block_def)

lemma lookup_addr_eq: "kheap_ok h B \<Longrightarrow> lookup_addr p h = Some (p \<in> B)"
  using mn.lookup_member [of "mn_table h" B p] mn.lookup_absent [of "mn_table h" B p] kheap_ok_not_null [of h B p]
  by (cases "p \<in> B") (auto simp: lookup_addr_def kheap_ok_def)

lemma insert_addr_data: "insert_addr p h = Some h' \<Longrightarrow> heap_data h' = heap_data h"
  by (auto simp: insert_addr_def Let_def bind_eq_Some_conv split: prod.splits)

lemma delete_addr_data: "delete_addr p h = Some h' \<Longrightarrow> heap_data h' = heap_data h"
  by (auto simp: delete_addr_def Let_def bind_eq_Some_conv split: prod.splits)

subsection \<open>Joining neighbours\<close>

lemma delete_addr_ok:
  assumes "kheap_ok h B" "q \<in> B"
  obtains h' where "delete_addr q h = Some h'" "kheap_ok h' (B - {q})" "mn_size h' = mn_size h" "heap_free h' = heap_free h - mn_size h q"
    "memory h B = memory h' (B - {q}) \<union> block h q" "heap_data h' = heap_data h"
proof -
  obtain h' where h': "delete_addr_nolock q h = Some h'" "kheap_ok h' (B - {q})" "mn_size h' = mn_size h"
    "high_list h' = high_list h" "heap_free h' = heap_free h - mn_size h q"
    by (rule delete_addr_nolock_ok [OF assms])
  have "memory h B = memory h' (B - {q}) \<union> block h q" using assms(2) h'(3) by (auto simp: memory_def block_def)
  then show ?thesis using that h' delete_addr_data [of q h h'] by (simp add: delete_addr_same)
qed

text \<open>A free block in the hand.\<close>

lemma held_take:
  assumes "kheap_ok h B" "q \<in> B" "delete_addr q h = Some h'"
  shows "held (memory h B) (heap_free h) (heap_data h) h' (B - {q}) q (mn_size h q)"
proof -
  obtain h2 where h2: "delete_addr q h = Some h2" "kheap_ok h2 (B - {q})" "mn_size h2 = mn_size h" "heap_free h2 = heap_free h - mn_size h q"
    "memory h B = memory h2 (B - {q}) \<union> block h q" "heap_data h2 = heap_data h"
    by (rule delete_addr_ok [OF assms(1,2)])
  have "block h2 r \<inter> {q ..< q + unat (mn_size h q)} = {}" if "r \<in> B - {q}" for r
    using that assms(1,2) h2(3) by (auto simp: kheap_ok_def block_def)
  moreover have "fits q (mn_size h q)" "q \<noteq> NULL" using assms(1,2) kheap_ok_not_null by (auto simp: kheap_ok_def)
  ultimately show ?thesis using h2 assms(3) by (simp add: held_def block_def)
qed

text \<open>The block that follows the one in the hand, and the one before it.\<close>

lemma unat_add_size:
  assumes "fits p sz" "fits (p + unat sz) n" "p \<noteq> NULL"
  shows "unat (sz + n) = unat sz + unat n"
  using assms by (simp add: fits_def NULL_def unat_word_ariths)

lemma held_absorb:
  assumes "held M F D h B p sz" "p + unat sz \<in> B"
  obtains h' where "delete_addr (p + unat sz) h = Some h'" "mn_size h' = mn_size h"
    "held M F D h' (B - {p + unat sz}) p (sz + mn_size h (p + unat sz))"
proof -
  let ?f = "p + unat sz"
  note h = heldD [OF assms(1)]
  obtain h' where h': "delete_addr ?f h = Some h'" "kheap_ok h' (B - {?f})" "mn_size h' = mn_size h"
    "heap_free h' = heap_free h - mn_size h ?f" "memory h B = memory h' (B - {?f}) \<union> block h ?f" "heap_data h' = heap_data h"
    by (rule delete_addr_ok [OF h(1) assms(2)])
  have ff: "fits ?f (mn_size h ?f)" using h(1) assms(2) by (simp add: kheap_ok_def)
  note u = unat_add_size [OF h(3) ff h(2)]
  have reg: "{p ..< p + unat (sz + mn_size h ?f)} = {p ..< p + unat sz} \<union> block h ?f" using u by (auto simp: block_def)
  have b: "block h' q = block h q" for q using h'(3) by (simp add: block_def)
  have "held M F D h' (B - {?f}) p (sz + mn_size h ?f)"
    unfolding held_def
  proof (intro conjI ballI)
    show "fits p (sz + mn_size h ?f)" using h(3) ff u by (simp add: fits_def)
    show "block h' q \<inter> {p ..< p + unat (sz + mn_size h ?f)} = {}" if "q \<in> B - {?f}" for q
      using that h(1) h(4) [of q] assms(2) unfolding b reg kheap_ok_def by blast
    show "memory h' (B - {?f}) \<union> {p ..< p + unat (sz + mn_size h ?f)} = M" using h(5) h'(5) unfolding reg by blast
    show "heap_free h' + (sz + mn_size h ?f) = F" using h(6) h'(4) by simp
  qed (use h'(2,6) h(2,9) in simp_all)
  then show ?thesis by (rule that [OF h'(1,3)])
qed

lemma held_absorb_before:
  assumes "held M F D h B p sz" "p - unat sz \<in> B" "mn_size h (p - unat sz) = sz"
  obtains h' where "delete_addr (p - unat sz) h = Some h'" "mn_size h' = mn_size h" "p - unat sz < p" "unat (sz * 2) = unat sz + unat sz"
    "held M F D (set_size (p - unat sz) (sz * 2) h') (B - {p - unat sz}) (p - unat sz) (sz * 2)"
proof -
  define b where "b = p - unat sz"
  note h = heldD [OF assms(1)]
  have bB: "b \<in> B" "mn_size h b = sz" using assms(2,3) by (simp_all add: b_def)
  obtain h' where h': "delete_addr b h = Some h'" "kheap_ok h' (B - {b})" "mn_size h' = mn_size h"
    "heap_free h' = heap_free h - mn_size h b" "memory h B = memory h' (B - {b}) \<union> block h b" "heap_data h' = heap_data h"
    by (rule delete_addr_ok [OF h(1) bB(1)])
  have b0: "b \<noteq> NULL" by (rule kheap_ok_not_null [OF h(1) bB(1)])
  then have p: "b + unat sz = p" by (simp add: b_def NULL_def)
  have fb: "fits b sz" using h(1) bB by (auto simp: kheap_ok_def)
  have u: "unat (sz * 2) = unat sz + unat sz" using unat_add_size [OF fb _ b0, of sz] h(3) p by (simp flip: mult_2_right)
  have reg: "{b ..< b + unat (sz * 2)} = block h b \<union> {p ..< p + unat sz}" using u p bB(2) by (auto simp: block_def)
  have bl: "block h' q = block h q" for q using h'(3) by (simp add: block_def)
  have "held M F D h' (B - {b}) b (sz * 2)"
    unfolding held_def
  proof (intro conjI ballI)
    show "fits b (sz * 2)" using h(3) fb u p by (simp add: fits_def)
    show "block h' q \<inter> {b ..< b + unat (sz * 2)} = {}" if "q \<in> B - {b}" for q
      using that h(1) h(4) [of q] bB(1) unfolding bl reg kheap_ok_def by blast
    show "memory h' (B - {b}) \<union> {b ..< b + unat (sz * 2)} = M" using h(5) h'(5) unfolding reg by blast
    show "heap_free h' + sz * 2 = F" using h(6) h'(4) bB(2) by (simp add: mult_2_right add.commute)
  qed (use h'(2,6) b0 h(9) in simp_all)
  then have "held M F D (set_size b (sz * 2) h') (B - {b}) b (sz * 2)" by (rule held_set_size) simp
  moreover have "b < p" using p fb by (simp add: fits_def)
  ultimately show ?thesis using that h'(1,3) u by (simp add: b_def)
qed

subsection \<open>Returning parts\<close>

text \<open>Entering \<open>n\<close> bytes at \<open>r\<close>, a part of the block in the hand, into the lists.\<close>

lemma held_enter:
  assumes "held M F D h B p sz" "fits r n" "r \<noteq> NULL" "{r ..< r + unat n} \<subseteq> {p ..< p + unat sz}"
  obtains h' where "insert_addr r (set_size r n h) = Some h'" "kheap_ok h' (insert r B)" "r \<notin> B"
    "mn_size h' = (mn_size h)(r := n)" "memory h' (insert r B) = memory h B \<union> {r ..< r + unat n}" "heap_free h' = heap_free h + n"
    "heap_data h' = D" "\<And>q. q \<in> insert r B \<Longrightarrow> block h' q = (if q = r then {r ..< r + unat n} else block h q)"
proof -
  note h = heldD [OF assms(1)]
  have r: "r \<notin> B" using h(4) [of r] free_block_start [OF h(1), of r] block_start [OF assms(2)] assms(4) by blast
  define h1 where "h1 = set_size r n h"
  have h1: "kheap_ok h1 B" "mn_size h1 = (mn_size h)(r := n)" "heap_free h1 = heap_free h" "heap_data h1 = D"
    using set_size_ok [OF h(1) r] h(9) by (simp_all add: h1_def set_size_def)
  have b1: "block h1 q = (if q = r then {r ..< r + unat n} else block h q)" for q by (simp add: block_def h1(2))
  obtain h' where h': "insert_addr r h1 = Some h'" "kheap_ok h' (insert r B)" "mn_size h' = mn_size h1"
    "high_list h' = high_list h1" "heap_free h' = heap_free h1 + mn_size h1 r"
  proof (rule insert_addr_ok [OF h1(1) r assms(3)])
    show "fits r (mn_size h1 r)" using assms(2) h1(2) by simp
    show "block h1 r \<inter> block h1 q = {}" if "q \<in> B" for q using h(4) [OF that] assms(4) that r unfolding b1 by auto
  qed
  have b2: "block h' q = block h1 q" for q using h'(3) by (simp add: block_def)
  have "memory h' (insert r B) = memory h B \<union> {r ..< r + unat n}" using r by (auto simp: memory_def b2 b1 split: if_splits)
  then show ?thesis using that h' h1 r insert_addr_data [OF h'(1)] b1 b2 by (simp add: h1_def)
qed

text \<open>The front of the block goes back; the rest stays in the hand.\<close>

lemma held_return:
  assumes "held M F D h B p rest" "16 dvd unat n" "16 \<le> unat n" "unat n \<le> unat rest"
  obtains h' where "insert_addr p (set_size p n h) = Some h'" "kheap_ok h' (insert p B)" "heap_data h' = D"
    "\<forall>q\<in>B. mn_size h' q = mn_size h q"
    "rest = n \<longrightarrow> memory h' (insert p B) = M \<and> heap_free h' = F"
    "rest \<noteq> n \<longrightarrow> held M F D h' (insert p B) (p + unat n) (rest - n)"
proof -
  note h = heldD [OF assms(1)]
  have "fits p n" using assms(2-4) h(3) by (simp add: fits_def)
  moreover have "{p ..< p + unat n} \<subseteq> {p ..< p + unat rest}" using assms(4) by auto
  ultimately obtain h' where h': "insert_addr p (set_size p n h) = Some h'" "kheap_ok h' (insert p B)" "p \<notin> B"
    "mn_size h' = (mn_size h)(p := n)" "memory h' (insert p B) = memory h B \<union> {p ..< p + unat n}" "heap_free h' = heap_free h + n"
    "heap_data h' = D" "\<And>q. q \<in> insert p B \<Longrightarrow> block h' q = (if q = p then {p ..< p + unat n} else block h q)"
    by (rule held_enter [OF assms(1) _ h(2)]) blast
  have held': "held M F D h' (insert p B) (p + unat n) (rest - n)" if "rest \<noteq> n"
  proof -
    have u: "unat (rest - n) = unat rest - unat n" using assms(4) by (simp add: unat_sub word_le_nat_alt)
    have "unat rest \<noteq> unat n" using that by (simp add: word_unat_eq_iff)
    then have lt: "unat n < unat rest" using assms(4) by simp
    have dv: "16 dvd unat rest - unat n" using assms(2) h(3) by (simp add: fits_def)
    have reg: "{p + unat n ..< p + unat n + unat (rest - n)} \<subseteq> {p ..< p + unat rest}"
      "{p ..< p + unat n} \<union> {p + unat n ..< p + unat n + unat (rest - n)} = {p ..< p + unat rest}" using u lt by auto
    show ?thesis
      unfolding held_def
    proof (intro conjI ballI)
      show "fits (p + unat n) (rest - n)" using u lt dv dvd_imp_le [OF dv] h(3) assms(2) by (simp add: fits_def)
      show "block h' q \<inter> {p + unat n ..< p + unat n + unat (rest - n)} = {}" if "q \<in> insert p B" for q
        using that h(4) [of q] reg(1) h'(8) [OF that] by (cases "q = p") auto
      show "memory h' (insert p B) \<union> {p + unat n ..< p + unat n + unat (rest - n)} = M"
        using h(5) reg(2) unfolding h'(5) by blast
      show "heap_free h' + (rest - n) = F" using h'(6) h(6) by simp
      show "p + unat n \<noteq> NULL" using assms(3) by (simp add: NULL_def)
    qed (rule h'(2) h'(7))+
  qed
  have "rest = n \<longrightarrow> memory h' (insert p B) = M \<and> heap_free h' = F" using h'(5,6) h(5,6) by blast
  then show ?thesis using that h'(1,2,3,4,7) held' by auto
qed

text \<open>The end of the block goes back.\<close>

lemma held_return_end:
  assumes "held M F D h B p sz" "16 dvd unat n" "16 \<le> unat n" "unat n < unat sz"
  obtains h' where "insert_addr (p + unat sz - unat n) (set_size (p + unat sz - unat n) n h) = Some h'"
    "unat (sz - n) = unat sz - unat n" "\<forall>q\<in>B. mn_size h' q = mn_size h q"
    "held M F D h' (insert (p + unat sz - unat n) B) p (sz - n)"
proof -
  note h = heldD [OF assms(1)]
  define r where "r = p + unat sz - unat n"
  have r: "r + unat n = p + unat sz" "p < r" using assms(4) by (simp_all add: r_def)
  have u: "unat (sz - n) = unat sz - unat n" using assms(4) by (simp add: unat_sub word_le_nat_alt)
  have "16 dvd r" using assms(2) h(3) unfolding r_def fits_def by (intro dvd_diff_nat dvd_add) auto
  then have "fits r n" "r \<noteq> NULL" using assms(2,3) h(3) r by (simp_all add: fits_def NULL_def)
  moreover have "{r ..< r + unat n} \<subseteq> {p ..< p + unat sz}" using r by auto
  ultimately obtain h' where h': "insert_addr r (set_size r n h) = Some h'" "kheap_ok h' (insert r B)" "r \<notin> B"
    "mn_size h' = (mn_size h)(r := n)" "memory h' (insert r B) = memory h B \<union> {r ..< r + unat n}" "heap_free h' = heap_free h + n"
    "heap_data h' = D" "\<And>q. q \<in> insert r B \<Longrightarrow> block h' q = (if q = r then {r ..< r + unat n} else block h q)"
    by (rule held_enter [OF assms(1)]) blast
  have reg: "p + unat (sz - n) = r" "{p ..< r} \<union> {r ..< r + unat n} = {p ..< p + unat sz}" using u r by (auto simp: r_def)
  have dv: "16 dvd unat sz - unat n" using assms(2) h(3) by (simp add: fits_def)
  have "held M F D h' (insert r B) p (sz - n)"
    unfolding held_def reg(1)
  proof (intro conjI ballI)
    have "unat (sz - n) \<le> unat sz" using u by simp
    then show "fits p (sz - n)" using u assms(4) dv dvd_imp_le [OF dv] h(3) by (auto simp: fits_def)
    show "block h' q \<inter> {p ..< r} = {}" if "q \<in> insert r B" for q
      using that h(4) [of q] reg(2) h'(8) [OF that] by (cases "q = r") auto
    show "memory h' (insert r B) \<union> {p ..< r} = M" using h(5) reg(2) unfolding h'(5) by blast
    show "heap_free h' + (sz - n) = F" using h'(6) h(6) by simp
  qed (rule h'(2) h'(7) h(2))+
  moreover have "\<forall>q\<in>B. mn_size h' q = mn_size h q" using h'(3,4) by auto
  ultimately show ?thesis using that h'(1) u by (simp add: r_def)
qed

end
