(* ===== verification/Malloc_Alloc.thy ===== *)
theory Malloc_Alloc
  imports Malloc_Held
begin

text \<open>
  Allocation from the kernel heap, and what the start-up code leaves it to allocate from.
\<close>

subsection \<open>Taking a block\<close>

text \<open>The lists from \<open>l\<close> to the highest one hold a block.\<close>

definition available :: "heap_mem \<Rightarrow> ptr set \<Rightarrow> nat \<Rightarrow> bool" where
  "available h B l \<longleftrightarrow> (\<exists>p\<in>B. l \<le> list_of_size (mn_size h p) \<and> list_of_size (mn_size h p) \<le> unat (high_list h))"

lemma acquire_loop_none:
  assumes "kheap_ok h B" "\<not> available h B (unat l)"
  shows "acquire_loop l h = Some (NULL, h)"
  using assms(2)
proof (induction "unat (high_list h) + 1 - unat l" arbitrary: l rule: less_induct)
  case less
  have o: "lists_ok h B" "lists_ptr h \<noteq> NULL" "unat (high_list h) < 28" using assms(1) by (auto simp: kheap_ok_def)
  show ?case
  proof (cases "l \<le> high_list h")
    case True
    then have l: "unat l \<le> unat (high_list h)" by (simp add: word_le_nat_alt)
    obtain ps where ps: "block_lists h (unat l) = clist_head ps" "set ps = in_list h B (unat l)" by (rule lists_okD [OF o(1)])
    have "in_list h B (unat l) = {}" using less.prems l unfolding available_def in_list_def by fastforce
    then have "ps = []" using ps(2) by simp
    then have "block_lists h (unat l) = NULL" using ps(1) by (simp add: clist_head_def)
    moreover have s: "unat (l + 1) = unat l + 1" using l o(3) by (simp add: unat_word_ariths)
    have "\<not> available h B (unat (l + 1))" using less.prems s by (auto simp: available_def)
    then have "acquire_loop (l + 1) h = Some (NULL, h)" using less.hyps [of "l + 1"] s l by simp
    ultimately show ?thesis using True o(2) by (subst acquire_loop.simps) simp
  next
    case False
    then show ?thesis by (subst acquire_loop.simps) simp
  qed
qed

lemma acquire_loop_some:
  assumes "kheap_ok h B" "available h B (unat l)"
  shows "\<exists>p h'. acquire_loop l h = Some (p, h') \<and> p \<in> B \<and> unat l \<le> list_of_size (mn_size h p) \<and>
    delete_addr p h = Some h' \<and> mn_size h' = mn_size h"
  using assms(2)
proof (induction "unat (high_list h) + 1 - unat l" arbitrary: l rule: less_induct)
  case less
  have o: "lists_ok h B" "lists_ptr h \<noteq> NULL" "unat (high_list h) < 28" using assms(1) by (auto simp: kheap_ok_def)
  have l: "unat l \<le> unat (high_list h)" "l \<le> high_list h" using less.prems by (auto simp: available_def word_le_nat_alt)
  obtain ps where ps: "ring (links_of h) ps" "block_lists h (unat l) = clist_head ps" "set ps = in_list h B (unat l)"
    by (rule lists_okD [OF o(1)])
  show ?case
  proof (cases ps)
    case Nil
    have s: "unat (l + 1) = unat l + 1" using l o(3) by (simp add: unat_word_ariths)
    have "in_list h B (unat l) = {}" using ps(3) Nil by simp
    moreover obtain p where p: "p \<in> B" "unat l \<le> list_of_size (mn_size h p)" "list_of_size (mn_size h p) \<le> unat (high_list h)"
      using less.prems by (auto simp: available_def)
    ultimately have "unat l \<noteq> list_of_size (mn_size h p)" by (auto simp: in_list_def)
    then have "unat (l + 1) \<le> list_of_size (mn_size h p)" using p(2) s by simp
    then have "available h B (unat (l + 1))" using p unfolding available_def by blast
    then have "\<exists>p h'. acquire_loop (l + 1) h = Some (p, h') \<and> p \<in> B \<and> unat (l + 1) \<le> list_of_size (mn_size h p) \<and>
      delete_addr p h = Some h' \<and> mn_size h' = mn_size h"
      using less.hyps [of "l + 1"] s l(1) by simp
    moreover have "acquire_loop l h = acquire_loop (l + 1) h"
      using Nil ps(2) l(2) o(2) by (subst acquire_loop.simps) (simp add: clist_head_def)
    ultimately show ?thesis using s by fastforce
  next
    case (Cons q qs)
    have q: "block_lists h (unat l) = q" "q \<noteq> NULL" using ps Cons by (auto simp: clist_head_def ring_def)
    have "mn_last h q = last ps" using ps(1) Cons by (simp add: ring_def links_of_def)
    then have "mn_last h q \<in> in_list h B (unat l)" using ps(3) Cons by (metis last_in_set list.discI)
    then have p: "mn_last h q \<in> B" "list_of_size (mn_size h (mn_last h q)) = unat l" by (simp_all add: in_list_def)
    obtain h' where h': "delete_addr_nolock (mn_last h q) h = Some h'" "kheap_ok h' (B - {mn_last h q})" "mn_size h' = mn_size h"
      "high_list h' = high_list h" "heap_free h' = heap_free h - mn_size h (mn_last h q)"
      by (rule delete_addr_nolock_ok [OF assms(1) p(1)])
    have "acquire_loop l h = Some (mn_last h q, h')"
      using l(2) o(2) q h'(1) by (subst acquire_loop.simps) (simp add: Let_def)
    then show ?thesis using p h' by (simp add: delete_addr_same)
  qed
qed

subsection \<open>Splitting a block\<close>

lemma round_down_units:
  assumes "16 \<le> unat n"
  shows "16 dvd unat (round_down n)" "16 \<le> unat (round_down n)" "unat (round_down n) \<le> unat n"
proof -
  have "n \<noteq> 0" using assms by auto
  note rd = round_down_bounds [OF this]
  have "(2::nat) ^ 4 dvd 2 ^ bsr (unat n)" using list_of_size_eq(2) [OF assms] by (rule le_imp_power_dvd)
  then show "16 dvd unat (round_down n)" using rd(1) by simp
  then show "16 \<le> unat (round_down n)" using rd(3) by (simp add: dvd_imp_le)
  show "unat (round_down n) \<le> unat n" by (rule rd(2))
qed

text \<open>
  The loop breaks pieces off the end of the block in the hand until less than 16 bytes of \<open>diff\<close> are
  left, which stay with the block.
\<close>

lemma split_loop_ok:
  assumes "held M F D h B p sz" "unat diff < unat sz"
  shows "\<exists>d h' B'. split_loop (p + unat sz) diff h = Some (d, h') \<and> unat d < 16 \<and> unat d \<le> unat diff \<and>
    B \<subseteq> B' \<and> (\<forall>q\<in>B. mn_size h' q = mn_size h q) \<and> held M F D h' B' p (sz - (diff - d))"
  using assms
proof (induction "unat diff" arbitrary: diff sz h B rule: less_induct)
  case less
  show ?case
  proof (cases "diff \<ge> SMALLEST_BLOCK")
    case False
    then have "unat diff < 16" by (simp add: SMALLEST_BLOCK_def word_le_nat_alt)
    moreover have "split_loop (p + unat sz) diff h = Some (diff, h)" using False by (subst split_loop.simps) simp
    ultimately show ?thesis using less.prems(1) by auto
  next
    case True
    let ?n = "round_down diff"
    let ?r = "p + unat sz - unat ?n"
    have "16 \<le> unat diff" using True by (simp add: SMALLEST_BLOCK_def word_le_nat_alt)
    note n = round_down_units [OF this]
    obtain h2 where h2: "insert_addr ?r (set_size ?r ?n h) = Some h2" "unat (sz - ?n) = unat sz - unat ?n"
      "\<forall>q\<in>B. mn_size h2 q = mn_size h q" "held M F D h2 (insert ?r B) p (sz - ?n)"
      by (rule held_return_end [OF less.prems(1) n(1,2)]) (use n(3) less.prems(2) in simp)
    have sub: "unat (diff - ?n) = unat diff - unat ?n" using n(3) by (simp add: unat_sub word_le_nat_alt)
    have r: "?r = p + unat (sz - ?n)" using h2(2) n(3) less.prems(2) by simp
    have step: "split_loop (p + unat sz) diff h = split_loop (p + unat (sz - ?n)) (diff - ?n) h2"
      using True h2(1) by (subst split_loop.simps) (simp add: Let_def flip: r)
    have "\<exists>d h' B'. split_loop (p + unat (sz - ?n)) (diff - ?n) h2 = Some (d, h') \<and> unat d < 16 \<and> unat d \<le> unat (diff - ?n) \<and>
      insert ?r B \<subseteq> B' \<and> (\<forall>q\<in>insert ?r B. mn_size h' q = mn_size h2 q) \<and> held M F D h' B' p (sz - ?n - (diff - ?n - d))"
      by (rule less.hyps [OF _ h2(4)]) (use sub h2(2) n less.prems(2) in linarith)+
    then obtain d h' B' where r: "split_loop (p + unat (sz - ?n)) (diff - ?n) h2 = Some (d, h')" "unat d < 16" "unat d \<le> unat (diff - ?n)"
      "insert ?r B \<subseteq> B'" "\<forall>q\<in>insert ?r B. mn_size h' q = mn_size h2 q" "held M F D h' B' p (sz - ?n - (diff - ?n - d))"
      by blast
    moreover have "sz - ?n - (diff - ?n - d) = sz - (diff - d)" by simp
    moreover have "unat d \<le> unat diff" using r(3) sub by simp
    ultimately show ?thesis unfolding step using h2(3) by auto
  qed
qed

subsection \<open>\<^verbatim>\<open>kern_malloc\<close>\<close>

lemma request_list:
  assumes "2 \<le> unat sz" "unat sz \<le> 2 ^ 31"
  shows "ilog (round_up sz) = word_of_nat (bsr (unat sz - 1) + 1)" "unat (ilog (round_up sz)) = bsr (unat sz - 1) + 1"
proof -
  have "bsr (unat (round_up sz)) = bsr (unat sz - 1) + 1"
    using round_up_bounds(1) [OF assms] bsr_power [of "bsr (unat sz - 1) + 1"] by metis
  then show w: "ilog (round_up sz) = word_of_nat (bsr (unat sz - 1) + 1)" by (simp add: ilog_def)
  have "bsr (unat sz - 1) + 1 < 2 ^ 32" using round_up_bounds(3) [OF assms] by simp
  then show "unat (ilog (round_up sz)) = bsr (unat sz - 1) + 1" unfolding w by (simp only: unat_of_nat len_of_numeral_defs) simp
qed

lemma request_list_offset:
  assumes "9 \<le> unat sz" "unat sz \<le> 2 ^ 31"
  shows "unat (ilog (round_up sz) - LIST_OFFSET) = bsr (unat sz - 1) - 3" "3 \<le> bsr (unat sz - 1)"
proof -
  have "bsr (2 ^ 3) \<le> bsr (unat sz - 1)" by (rule bsr_mono) (use assms in simp_all)
  then show three: "3 \<le> bsr (unat sz - 1)" by (simp only: bsr_power)
  have "unat (ilog (round_up sz)) = bsr (unat sz - 1) + 1" by (rule request_list(2)) (use assms in simp_all)
  then show "unat (ilog (round_up sz) - LIST_OFFSET) = bsr (unat sz - 1) - 3"
    using three by (simp add: LIST_OFFSET_def unat_sub word_le_nat_alt)
qed

text \<open>A request of at most 8 bytes asks for a list below the first one; the index wraps round.\<close>

lemma request_list_small:
  assumes "2 \<le> unat sz" "unat sz \<le> 8" "unat hi < 28"
  shows "\<not> ilog (round_up sz) - LIST_OFFSET \<le> hi"
proof -
  have "bsr (unat sz - 1) < 3"
  proof -
    have "2 ^ bsr (unat sz - 1) \<le> unat sz - 1" using bsr_bounds [of "unat sz - 1"] assms(1) by simp
    then have "(2::nat) ^ bsr (unat sz - 1) < 2 ^ 3" using assms(1,2) by simp
    then show ?thesis by (rule nat_power_less_imp_less [rotated]) simp
  qed
  then have "unat (ilog (round_up sz)) < 4" using request_list(2) [of sz] assms by simp
  then have "unat (ilog (round_up sz) - LIST_OFFSET) \<ge> 2 ^ 32 - 4"
    by (simp add: LIST_OFFSET_def unat_sub_if_size word_le_nat_alt word_size)
  then show ?thesis using assms(3) by (simp add: word_le_nat_alt)
qed

definition may_allocate :: "u32 \<Rightarrow> u32 \<Rightarrow> heap_mem \<Rightarrow> bool" where
  "may_allocate sz priority h \<longleftrightarrow> round_up sz \<le> heap_free h - EMERGENCY_STORE \<or> priority \<noteq> 0"

lemma kern_malloc_eq:
  assumes "acquire_block (round_up sz) h = Some (out, h')" "out = NULL \<longrightarrow> h' = h"
  shows "kern_malloc sz priority h =
    (if may_allocate sz priority h \<and> out \<noteq> NULL then setup_block out sz h' else Some (NULL, sz, h))"
  using assms by (auto simp: kern_malloc_def may_allocate_def empty_caches_def Let_def)

text \<open>A block that was taken off the lists is cut down to the request.\<close>

lemma setup_block_ok:
  assumes "held M F D h B p (mn_size h p)" "0 < unat sz" "unat sz \<le> unat (mn_size h p)"
  obtains sz' h' B' where "setup_block p sz h = Some (p, sz', h')" "unat sz \<le> unat sz'" "unat sz' < unat sz + 16"
    "unat sz' \<le> unat (mn_size h p)" "B \<subseteq> B'" "\<forall>q\<in>B. mn_size h' q = mn_size h q" "held M F D h' B' p sz'"
proof -
  let ?n = "mn_size h p"
  have diff: "unat (?n - sz) = unat ?n - unat sz" using assms(3) by (simp add: unat_sub word_le_nat_alt)
  then have "unat (?n - sz) < unat ?n" using assms(2,3) by simp
  from split_loop_ok [OF assms(1) this] obtain d h' B' where
    r: "split_loop (p + unat ?n) (?n - sz) h = Some (d, h')" "unat d < 16" "unat d \<le> unat (?n - sz)"
      "B \<subseteq> B'" "\<forall>q\<in>B. mn_size h' q = mn_size h q" "held M F D h' B' p (?n - (?n - sz - d))"
    by blast
  have "unat ?n < 2 ^ 32" using unsigned_less [of ?n] by simp
  then have u: "unat (sz + d) = unat sz + unat d" using r(3) diff assms(2,3) by (simp add: unat_word_ariths)
  show ?thesis
  proof (rule that)
    show "setup_block p sz h = Some (p, sz + d, h')" using r(1) by (simp add: setup_block_def split_block_def)
    show "held M F D h' B' p (sz + d)" using r(6) by simp
  qed (use u r diff assms in simp_all)
qed

lemma acquire_block_ok:
  assumes "kheap_ok h B" "9 \<le> unat sz" "unat sz \<le> 2 ^ 31" "available h B (bsr (unat sz - 1) - 3)"
  obtains p h1 where "acquire_block (round_up sz) h = Some (p, h1)" "p \<in> B" "mn_size h1 = mn_size h" "unat sz \<le> unat (mn_size h p)"
    "held (memory h B) (heap_free h) (heap_data h) h1 (B - {p}) p (mn_size h p)"
proof -
  note off = request_list_offset [OF assms(2,3)]
  obtain p h1 where a: "acquire_block (round_up sz) h = Some (p, h1)" "p \<in> B" "bsr (unat sz - 1) - 3 \<le> list_of_size (mn_size h p)"
    "delete_addr p h = Some h1" "mn_size h1 = mn_size h"
    using acquire_loop_some [OF assms(1), of "ilog (round_up sz) - LIST_OFFSET"] assms(4) off(1) unfolding acquire_block_def by metis
  note held = held_take [OF assms(1) a(2,4)]
  have p: "fits p (mn_size h p)" by (rule heldD(3) [OF held])
  have "bsr (unat sz - 1) + 1 \<le> bsr (unat (mn_size h p))"
    using list_of_size_eq [of "mn_size h p"] a(3) p off(2) by (simp add: fits_def)
  then have "(2::nat) ^ (bsr (unat sz - 1) + 1) \<le> 2 ^ bsr (unat (mn_size h p))" by (rule power_increasing) simp
  also have "\<dots> \<le> unat (mn_size h p)" using bsr_bounds [of "unat (mn_size h p)"] p by (simp add: fits_def)
  finally have "unat sz \<le> unat (mn_size h p)" using round_up_bounds(1,2) [of sz] assms(2,3) by simp
  then show ?thesis by (rule that [OF a(1,2,5) _ held])
qed

text \<open>A request that may be served and for which a list has a block.\<close>

lemma kern_malloc_served:
  assumes "kheap_ok h B" "9 \<le> unat sz" "unat sz \<le> 2 ^ 31" "available h B (bsr (unat sz - 1) - 3)" "may_allocate sz priority h"
  obtains out sz' h' B' where "kern_malloc sz priority h = Some (out, sz', h')" "out \<in> B" "unat sz \<le> unat sz'" "unat sz' < unat sz + 16"
    "{out ..< out + unat sz'} \<subseteq> block h out" "\<forall>q\<in>B - {out}. q \<in> B' \<and> mn_size h' q = mn_size h q"
    "held (memory h B) (heap_free h) (heap_data h) h' B' out sz'"
proof -
  obtain p h1 where a: "acquire_block (round_up sz) h = Some (p, h1)" "p \<in> B" "mn_size h1 = mn_size h" "unat sz \<le> unat (mn_size h p)"
    "held (memory h B) (heap_free h) (heap_data h) h1 (B - {p}) p (mn_size h p)"
    by (rule acquire_block_ok [OF assms(1-4)])
  note held = a(5) [folded a(3)]
  obtain sz' h' B' where s: "setup_block p sz h1 = Some (p, sz', h')" "unat sz \<le> unat sz'" "unat sz' < unat sz + 16"
    "unat sz' \<le> unat (mn_size h1 p)" "B - {p} \<subseteq> B'" "\<forall>q\<in>B - {p}. mn_size h' q = mn_size h1 q"
    "held (memory h B) (heap_free h) (heap_data h) h' B' p sz'"
    by (rule setup_block_ok [OF held]) (use assms(2) a(3,4) in simp_all)
  show ?thesis
  proof (rule that)
    show "kern_malloc sz priority h = Some (p, sz', h')"
      using kern_malloc_eq [OF a(1), of priority] heldD(2) [OF held] assms(5) s(1) by simp
    show "{p ..< p + unat sz'} \<subseteq> block h p" using s(4) a(3) by (auto simp: block_def)
    show "\<forall>q\<in>B - {p}. q \<in> B' \<and> mn_size h' q = mn_size h q" using s(5,6) a(3) by auto
  qed (use a(2) s in simp_all)
qed

text \<open>A request for which there is no block, or that the reserve does not allow.\<close>

lemma kern_malloc_refused:
  assumes "kheap_ok h B" "9 \<le> unat sz" "unat sz \<le> 2 ^ 31" "\<not> (may_allocate sz priority h \<and> available h B (bsr (unat sz - 1) - 3))"
  shows "kern_malloc sz priority h = Some (NULL, sz, h)"
proof (cases "available h B (bsr (unat sz - 1) - 3)")
  case False
  then have "acquire_block (round_up sz) h = Some (NULL, h)"
    unfolding acquire_block_def by (intro acquire_loop_none [OF assms(1)]) (simp add: request_list_offset(1) [OF assms(2,3)])
  then show ?thesis using kern_malloc_eq [of sz h NULL h] by simp
next
  case True
  obtain p h1 where "acquire_block (round_up sz) h = Some (p, h1)" "held (memory h B) (heap_free h) (heap_data h) h1 (B - {p}) p (mn_size h p)"
    by (rule acquire_block_ok [OF assms(1-3) True])
  then show ?thesis using kern_malloc_eq [of sz h p h1 priority] heldD(2) [of _ _ _ h1 _ p] assms(4) True by auto
qed

text \<open>C3: the kernel allocator.  On a well-formed heap a request of 9 bytes to 2 GB returns.  When the
  reserve allows it and a list from the one of the rounded-up size upwards has a block, the
  result is the address of a block that was free, at least as long as asked for and less than 16
  bytes longer, in whole units of 16 bytes inside that block; the heap stays well formed, no free block overlaps the memory
  handed out, what is free and what is handed out is exactly what was free, the other free blocks are as they were, and \<^verbatim>\<open>heap_free\<close> goes down by exactly the size.
  Otherwise the result is \<open>NULL\<close> and the heap is unchanged.\<close>

theorem kern_malloc_correct:
  assumes "kheap_ok h B" "9 \<le> unat sz" "unat sz \<le> 2 ^ 31"
  shows "\<exists>out sz' h' B'. kern_malloc sz priority h = Some (out, sz', h') \<and> kheap_ok h' B' \<and>
    (if may_allocate sz priority h \<and> available h B (bsr (unat sz - 1) - 3)
     then out \<in> B \<and> unat sz \<le> unat sz' \<and> unat sz' < unat sz + 16 \<and> fits out sz' \<and> {out ..< out + unat sz'} \<subseteq> block h out \<and>
       (\<forall>q\<in>B'. block h' q \<inter> {out ..< out + unat sz'} = {}) \<and> memory h' B' \<union> {out ..< out + unat sz'} = memory h B \<and>
       (\<forall>q\<in>B - {out}. q \<in> B' \<and> mn_size h' q = mn_size h q) \<and> heap_free h' = heap_free h - sz'
     else out = NULL \<and> sz' = sz \<and> h' = h \<and> B' = B)"
proof (cases "may_allocate sz priority h \<and> available h B (bsr (unat sz - 1) - 3)")
  case True
  then have served: "available h B (bsr (unat sz - 1) - 3)" "may_allocate sz priority h" by blast+
  obtain out sz' h' B' where r: "kern_malloc sz priority h = Some (out, sz', h')" "out \<in> B" "unat sz \<le> unat sz'" "unat sz' < unat sz + 16"
    "{out ..< out + unat sz'} \<subseteq> block h out" "\<forall>q\<in>B - {out}. q \<in> B' \<and> mn_size h' q = mn_size h q"
    "held (memory h B) (heap_free h) (heap_data h) h' B' out sz'"
    by (rule kern_malloc_served [OF assms served])
  note h = heldD [OF r(7)]
  have "heap_free h' = heap_free h - sz'" using h(6) by (simp add: eq_diff_eq)
  moreover have "\<forall>q\<in>B'. block h' q \<inter> {out ..< out + unat sz'} = {}" using h(4) by blast
  ultimately show ?thesis
    using True r(1-6) h(1,3,5) by (intro exI [of _ out] exI [of _ sz'] exI [of _ h'] exI [of _ B']) simp
next
  case False
  then show ?thesis using kern_malloc_refused [OF assms False] assms(1) by auto
qed

text \<open>A request of 2 to 8 bytes never succeeds, however much memory is free: the number of its list is the
  logarithm less 4, which wraps below 0 to an index beyond the highest list.\<close>

theorem kern_malloc_small_fails:
  assumes "2 \<le> unat sz" "unat sz \<le> 8" "unat (high_list h) < 28"
  shows "kern_malloc sz priority h = Some (NULL, sz, h)"
proof -
  have "\<not> ilog (round_up sz) - LIST_OFFSET \<le> high_list h" by (rule request_list_small [OF assms])
  then have "acquire_block (round_up sz) h = Some (NULL, h)"
    unfolding acquire_block_def by (subst acquire_loop.simps) simp
  then show ?thesis using kern_malloc_eq [of sz h NULL h] by simp
qed

text \<open>with the zeros that the statics of the file start with, \<^verbatim>\<open>kern_heap_init\<close> leaves a heap that says it is
  all free and from which no request of up to 2 GB is ever served: the result is \<open>NULL\<close>, or a
  fault on the list heads for which nothing allocates memory.\<close>

theorem kern_heap_never_allocates:
  assumes "lists_ptr h = NULL" "high_list h = 0" "2 \<le> unat sz" "unat sz \<le> 2 ^ 31"
  shows "heap_free (kern_heap_init start len h) = len \<and>
    (case kern_malloc sz priority (kern_heap_init start len h) of None \<Rightarrow> True | Some (out, _, h') \<Rightarrow> out = NULL \<and> heap_free h' = len)"
proof -
  let ?h = "kern_heap_init start len h"
  let ?l = "ilog (round_up sz) - LIST_OFFSET"
  have h: "lists_ptr ?h = NULL" "high_list ?h = 0" "heap_free ?h = len" using assms(1,2) by (simp_all add: kern_heap_init_def)
  consider "?l = 0" | "?l \<noteq> 0" by blast
  then show ?thesis
  proof cases
    case 1
    have "acquire_block (round_up sz) ?h = None"
      unfolding acquire_block_def using 1 h by (subst acquire_loop.simps) (simp add: deref_def)
    then show ?thesis using h(3) by (simp add: kern_malloc_def empty_caches_def Let_def)
  next
    case 2
    then have "acquire_block (round_up sz) ?h = Some (NULL, ?h)"
      unfolding acquire_block_def using h by (subst acquire_loop.simps) simp
    then show ?thesis using kern_malloc_eq [of sz ?h NULL ?h priority] h(3) by simp
  qed
qed

text \<open>The smallest heap: one free block of 64 bytes, at 64.\<close>

definition no_blocks :: heap_mem where
  "no_blocks = \<lparr>mn_next = (\<lambda>_. NULL), mn_last = (\<lambda>_. NULL), mn_size = (\<lambda>_. 64), mn_table = empty_table, block_lists = (\<lambda>_. NULL),
     lists_ptr = 32, high_list = 10, heap_size = 64, heap_free = 0, kern_heap_start = 64, kern_heap_end = 128, heap_data = (\<lambda>_. 0)\<rparr>"

lemma no_blocks_ok: "kheap_ok no_blocks {}"
  using mn.empty_ok
  by (auto simp: kheap_ok_def lists_ok_def rings_def no_blocks_def NULL_def in_list_def clist_head_def ring_def intro!: exI [of _ "[]"])

lemma one_block:
  obtains h where "insert_addr 64 no_blocks = Some h" "kheap_ok h {64}" "mn_size h 64 = 64" "high_list h = 10" "heap_free h = 64"
proof (rule insert_addr_ok [OF no_blocks_ok, of 64])
  show "fits 64 (mn_size no_blocks 64)" by (simp add: no_blocks_def fits_def)
qed (auto simp: NULL_def no_blocks_def intro: that)

lemma one_block_available:
  assumes "mn_size h 64 = 64" "high_list h = 10"
  shows "available h {64} (bsr (unat (20 :: u32) - 1) - 3)"
proof -
  have "bsr 64 = 6" "bsr 19 = 4" using bsr_power [of 6] by (simp, intro bsr_unique) simp_all
  then show ?thesis using assms list_of_size_eq(1) [of 64] by (simp add: available_def)
qed

lemma kern_malloc_correct_witness:
  "\<exists>h out sz' h'. insert_addr 64 no_blocks = Some h \<and> kern_malloc 20 1 h = Some (out, sz', h') \<and> out = 64 \<and> 20 \<le> unat sz'"
proof -
  obtain h where h: "insert_addr 64 no_blocks = Some h" "kheap_ok h {64}" "mn_size h 64 = 64" "high_list h = 10" "heap_free h = 64"
    by (rule one_block)
  have "may_allocate 20 1 h" by (simp add: may_allocate_def)
  moreover note one_block_available [OF h(3,4)]
  ultimately show ?thesis using kern_malloc_correct [OF h(2), of 20 1] h(1) by auto
qed

lemma kern_malloc_small_fails_witness: "kern_malloc 8 1 no_blocks = Some (NULL, 8, no_blocks)"
  by (rule kern_malloc_small_fails) (simp_all add: no_blocks_def)

lemma kern_heap_never_allocates_witness:
  "heap_free (kern_heap_init 64 0x1000 (no_blocks\<lparr>lists_ptr := NULL, high_list := 0\<rparr>)) = 0x1000"
proof -
  have "lists_ptr (no_blocks\<lparr>lists_ptr := NULL, high_list := 0\<rparr>) = NULL" "high_list (no_blocks\<lparr>lists_ptr := NULL, high_list := 0\<rparr>) = 0" by simp_all
  from kern_heap_never_allocates [OF this, of 16 64 "0x1000" 1] show ?thesis by simp
qed

end
