(* ===== verification/Malloc_Free.thy ===== *)
theory Malloc_Free
  imports Malloc_Alloc
begin

text \<open>
  Giving memory back to the kernel heap: the merging of neighbours that \<^verbatim>\<open>kern_free\<close> starts with and
  the loop that returns the pieces.
\<close>

subsection \<open>Merging\<close>

lemma merge_forward_loop_ok:
  assumes "held M F D h B p sz"
  shows "\<exists>sz' h' B'. merge_forward_loop p w sz h = Some (sz', h') \<and> B' \<subseteq> B \<and> held M F D h' B' p sz' \<and> unat sz \<le> unat sz'"
  using assms
proof (induction "card B" arbitrary: B sz h rule: less_induct)
  case less
  let ?f = "p + unat sz"
  note h = heldD [OF less.prems]
  note found = lookup_addr_eq [OF h(1), of ?f]
  show ?case
  proof (cases "sz < addr_size p \<and> w sz \<and> ?f \<in> B")
    case False
    then have "merge_forward_loop p w sz h = Some (sz, h)"
      using found by (subst merge_forward_loop.simps) (auto simp: Let_def)
    then show ?thesis using less.prems by blast
  next
    case True
    then have f: "?f \<in> B" by blast
    obtain h' where h': "delete_addr ?f h = Some h'" "mn_size h' = mn_size h" "held M F D h' (B - {?f}) p (sz + mn_size h ?f)"
      by (rule held_absorb [OF less.prems f])
    have step: "merge_forward_loop p w sz h = merge_forward_loop p w (sz + mn_size h ?f) h'"
      using True found h'(1,2) by (subst merge_forward_loop.simps) (simp add: Let_def)
    have "card (B - {?f}) < card B" using f h(8) by (rule card_Diff1_less [rotated])
    then obtain sz' h2 B' where "merge_forward_loop p w (sz + mn_size h ?f) h' = Some (sz', h2)" "B' \<subseteq> B - {?f}"
      "held M F D h2 B' p sz'" "unat (sz + mn_size h ?f) \<le> unat sz'"
      using less.hyps [OF _ h'(3)] by blast
    moreover have "unat sz \<le> unat (sz + mn_size h ?f)"
      using unat_add_size [OF h(3) _ h(2), of "mn_size h ?f"] h(1) f by (simp add: kheap_ok_def)
    ultimately show ?thesis unfolding step using le_trans by blast
  qed
qed

lemma merge_block_forward_ok:
  assumes "held M F D h B p sz"
  obtains sz' h' B' where "merge_block_forward p sz h = Some (sz', h')" "B' \<subseteq> B" "held M F D h' B' p sz'" "mn_size h' p = sz'"
proof -
  obtain sz' h' B' where r: "merge_forward_loop p (\<lambda>_. True) sz h = Some (sz', h')" "B' \<subseteq> B" "held M F D h' B' p sz'"
    using merge_forward_loop_ok [OF assms] by blast
  have "merge_block_forward p sz h = Some (sz', set_size p sz' h')" using r(1) by (simp add: merge_block_forward_def)
  moreover have "held M F D (set_size p sz' h') B' p sz'" by (rule held_set_size [OF r(3) heldD(7) [OF r(3)]])
  ultimately show ?thesis using that r(2) by (simp add: set_size_def)
qed

lemma merge_block_ok:
  assumes "held M F D h B p sz" "mn_size h p = sz"
  shows "\<exists>p' h' B'. merge_block p sz h = Some (p', h') \<and> held M F D h' B' p' (mn_size h' p')"
  using assms
proof (induction "card B" arbitrary: B p sz h rule: less_induct)
  case less
  show ?case
  proof (cases "sz < LARGEST_BLOCK")
    case False
    then have "merge_block p sz h = Some (p, h)" by (subst merge_block.simps) simp
    then show ?thesis using less.prems by blast
  next
    case True
    obtain sz' h' B' where f: "merge_block_forward p sz h = Some (sz', h')" "B' \<subseteq> B" "held M F D h' B' p sz'" "mn_size h' p = sz'"
      by (rule merge_block_forward_ok [OF less.prems(1)])
    let ?b = "p - unat sz'"
    note found = lookup_addr_eq [OF heldD(1) [OF f(3)], of ?b]
    show ?thesis
    proof (cases "sz' = addr_size p \<and> ?b \<in> B' \<and> mn_size h' ?b = sz' \<and> sz' < LARGEST_BLOCK")
      case False
      then have "merge_block p sz h = Some (p, h')"
        using True f(1) found by (subst merge_block.simps) (auto simp: Let_def)
      then show ?thesis using f(3,4) by blast
    next
      case prev: True
      then have b: "?b \<in> B'" "mn_size h' ?b = sz'" and a: "sz' = addr_size p" "sz' < LARGEST_BLOCK" by blast+
      obtain h2 where h2: "delete_addr ?b h' = Some h2" "mn_size h2 = mn_size h'" "?b < p" "unat (sz' * 2) = unat sz' + unat sz'"
        "held M F D (set_size ?b (sz' * 2) h2) (B' - {?b}) ?b (sz' * 2)"
        by (rule held_absorb_before [OF f(3) b])
      have step: "merge_block p sz h = merge_block ?b (sz' * 2) (set_size ?b (sz' * 2) h2)"
        using True f(1) found a(2) b h2(1,2) by (subst merge_block.simps) (simp add: Let_def set_size_def flip: a(1))
      have "card (B' - {?b}) < card B'" using b(1) heldD(8) [OF f(3)] by (rule card_Diff1_less [rotated])
      also have "card B' \<le> card B" using f(2) heldD(8) [OF less.prems(1)] by (rule card_mono [rotated])
      finally show ?thesis using less.hyps [OF _ h2(5)] unfolding step by (simp add: set_size_def)
    qed
  qed
qed

subsection \<open>Returning the pieces\<close>

definition piece :: "u32 \<Rightarrow> u32" where
  "piece rest = (if round_down rest > LARGEST_BLOCK then LARGEST_BLOCK else round_down rest)"

lemma piece_bounds:
  assumes "16 \<le> unat rest"
  shows "16 dvd unat (piece rest)" "16 \<le> unat (piece rest)" "unat (piece rest) \<le> unat rest"
  using round_down_units [OF assms] by (auto simp: piece_def LARGEST_BLOCK_def word_less_nat_alt)

lemma free_loop_ok:
  assumes "held M F D h B p (sz - i)" "i < sz"
  shows "\<exists>h' B'. free_loop p i sz h = Some h' \<and> kheap_ok h' B' \<and> memory h' B' = M \<and> heap_free h' = F \<and> heap_data h' = D"
  using assms
proof (induction "unat (sz - i)" arbitrary: i p h B rule: less_induct)
  case less
  define n where "n = piece (sz - i)"
  have "16 \<le> unat (sz - i)" using heldD(3) [OF less.prems(1)] by (simp add: fits_def)
  note n = piece_bounds [OF this, folded n_def]
  obtain h' where h': "insert_addr p (set_size p n h) = Some h'" "kheap_ok h' (insert p B)" "heap_data h' = D"
    "\<forall>q\<in>B. mn_size h' q = mn_size h q"
    "sz - i = n \<longrightarrow> memory h' (insert p B) = M \<and> heap_free h' = F"
    "sz - i \<noteq> n \<longrightarrow> held M F D h' (insert p B) (p + unat n) (sz - i - n)"
    by (rule held_return [OF less.prems(1) n])
  have step: "free_loop p i sz h = free_loop (p + unat n) (i + n) sz h'"
    using less.prems(2) h'(1) by (subst free_loop.simps) (simp add: Let_def n_def piece_def)
  have le: "n \<le> sz - i" using n(3) by (simp add: word_le_nat_alt)
  show ?case
  proof (cases "sz - i = n")
    case True
    then have "i + n = sz" by (simp flip: True)
    then have "free_loop (p + unat n) (i + n) sz h' = Some h'" by (subst free_loop.simps) simp
    then show ?thesis using step h'(2,3,5) True by auto
  next
    case False
    have eq: "sz - (i + n) = sz - i - n" by simp
    have u: "unat (sz - i - n) = unat (sz - i) - unat n" using le by (simp add: unat_sub)
    have "unat (sz - i) \<noteq> unat n" using False by (simp add: word_unat_eq_iff)
    then have lt: "unat n < unat (sz - i)" using n(3) by simp
    have ui: "unat (sz - i) = unat sz - unat i" using less.prems(2) by (simp add: unat_sub word_less_nat_alt word_le_nat_alt)
    have "unat i + unat n < unat sz" using lt ui by simp
    moreover have "unat sz < 2 ^ 32" using unsigned_less [of sz] by simp
    ultimately have "i + n < sz" by (simp add: word_less_nat_alt unat_word_ariths)
    moreover have "held M F D h' (insert p B) (p + unat n) (sz - (i + n))" using h'(6) False unfolding eq by blast
    moreover have "unat (sz - (i + n)) < unat (sz - i)" unfolding eq using u n(2) lt by simp
    ultimately show ?thesis using less.hyps unfolding step by blast
  qed
qed

lemma kern_free_ok:
  assumes "held M F D h B p sz"
  obtains h' B' where "kern_free p sz h = Some h'" "kheap_ok h' B'" "memory h' B' = M" "heap_free h' = F" "heap_data h' = D"
proof -
  have "held M F D (set_size p sz h) B p sz" by (rule held_set_size [OF assms heldD(7) [OF assms]])
  then obtain p' h' B' where r: "merge_block p sz (set_size p sz h) = Some (p', h')" "held M F D h' B' p' (mn_size h' p')"
    using merge_block_ok [of M F D "set_size p sz h" B p sz] by (auto simp: set_size_def)
  have "16 \<le> unat (mn_size h' p')" using heldD(3) [OF r(2)] by (simp add: fits_def)
  then have "0 < mn_size h' p'" by (simp add: word_less_nat_alt)
  moreover have "held M F D h' B' p' (mn_size h' p' - 0)" using r(2) by simp
  ultimately have "\<exists>h2 B2. free_loop p' 0 (mn_size h' p') h' = Some h2 \<and> kheap_ok h2 B2 \<and> memory h2 B2 = M \<and> heap_free h2 = F \<and> heap_data h2 = D"
    by (rule free_loop_ok [rotated])
  moreover have "sz \<noteq> 0" "p \<noteq> NULL" using heldD(2,3) [OF assms] by (auto simp: fits_def)
  ultimately show ?thesis using r(1) that by (auto simp: kern_free_def)
qed

text \<open>C5: \<^verbatim>\<open>kern_free\<close>.  On a well-formed heap, giving back a block of whole 16-byte units that overlaps no free
  block returns and leaves a well-formed heap whose free memory is the free memory before and the
  block, byte for byte, however the block is merged with its neighbours and cut up again; the
  count of free bytes grows by its size.\<close>

theorem kern_free_correct:
  assumes "kheap_ok h B" "p \<noteq> NULL" "fits p sz" "\<forall>q\<in>B. block h q \<inter> {p ..< p + unat sz} = {}"
  shows "\<exists>h' B'. kern_free p sz h = Some h' \<and> kheap_ok h' B' \<and> memory h' B' = memory h B \<union> {p ..< p + unat sz} \<and>
    heap_free h' = heap_free h + sz"
proof -
  have "held (memory h B \<union> {p ..< p + unat sz}) (heap_free h + sz) (heap_data h) h B p sz" using assms by (simp add: held_def)
  then show ?thesis by (rule kern_free_ok) blast
qed

lemma kern_free_correct_witness:
  "\<exists>h'. kern_free 128 64 (the (insert_addr 64 no_blocks)) = Some h' \<and> heap_free h' = 128"
proof -
  obtain h where h: "insert_addr 64 no_blocks = Some h" "kheap_ok h {64}" "mn_size h 64 = 64" "high_list h = 10" "heap_free h = 64"
    by (rule one_block)
  have "\<forall>q\<in>{64}. block h q \<inter> {128 ..< 128 + unat (64 :: u32)} = {}" using h(3) by (simp add: block_def)
  from kern_free_correct [OF h(2) _ _ this] show ?thesis using h(1,5) by (auto simp: NULL_def fits_def)
qed

end
