(* ===== verification/Malloc_Realloc.thy ===== *)
theory Malloc_Realloc
  imports Malloc_Free
begin

text \<open>
  Resizing a block of the kernel heap: growing it over its free neighbours, moving it, and returning
  what is too much.
\<close>

subsection \<open>Cutting the end off\<close>

lemma bsf_divides: "0 < n \<Longrightarrow> 2 ^ bsf n dvd n"
proof (induction n rule: bsf.induct)
  case (1 n)
  show ?case
  proof (cases "odd n")
    case False
    then have "2 ^ bsf (n div 2) dvd n div 2" using 1 by (auto elim: evenE)
    then have "2 * 2 ^ bsf (n div 2) dvd 2 * (n div 2)" by (rule mult_dvd_mono [OF dvd_refl])
    moreover have "2 * (n div 2) = n" using False by simp
    ultimately have "2 ^ Suc (bsf (n div 2)) dvd n" unfolding power_Suc by metis
    moreover have "bsf n = Suc (bsf (n div 2))" using False 1(2) by (subst bsf.simps) simp
    ultimately show ?thesis by simp
  qed (subst bsf.simps, simp)
qed

lemma bsf_least: "0 < n \<Longrightarrow> 2 ^ k dvd n \<Longrightarrow> k \<le> bsf n"
proof (induction k arbitrary: n)
  case (Suc k)
  then have "even n" by (metis dvd_trans dvd_triv_left power_Suc)
  moreover have "k \<le> bsf (n div 2)" using Suc \<open>even n\<close> by (intro Suc.IH) (auto elim!: evenE)
  ultimately show ?case using Suc.prems by (subst bsf.simps) simp
qed simp

lemma addr_size_units:
  assumes "p \<noteq> NULL" "p < 2 ^ 32" "16 dvd p"
  shows "16 dvd unat (addr_size p)" "16 \<le> unat (addr_size p)"
proof -
  have p: "0 < p" using assms(1) by (simp add: NULL_def)
  have "(2::nat) ^ bsf p < 2 ^ 32" using bsf_divides [OF p] assms(2) p by (meson dvd_imp_le le_less_trans)
  then have "unat (addr_size p) = 2 ^ bsf p" unfolding addr_size_def by (intro unat_pow) (simp only: power_strict_increasing_iff)
  moreover have "(2::nat) ^ 4 dvd 2 ^ bsf p" using bsf_least [OF p, of 4] assms(3) by (intro le_imp_power_dvd) simp
  ultimately show "16 dvd unat (addr_size p)" "16 \<le> unat (addr_size p)" by (simp_all add: dvd_imp_le)
qed

lemma cut_loop_ok:
  assumes "held M F D h B p n"
  shows "\<exists>h' B'. cut_loop p n h = Some h' \<and> kheap_ok h' B' \<and> memory h' B' = M \<and> heap_free h' = F \<and> heap_data h' = D"
  using assms
proof (induction "unat n" arbitrary: n p h B rule: less_induct)
  case less
  define s where "s = (if n > addr_size p then addr_size p else round_down n)"
  note h = heldD [OF less.prems]
  have n16: "16 \<le> unat n" "n \<noteq> 0" using h(3) by (auto simp: fits_def)
  have "p < 2 ^ 32" "16 dvd p" using h(3) by (auto simp: fits_def)
  then have s: "16 dvd unat s" "16 \<le> unat s" "unat s \<le> unat n"
    using round_down_units [OF n16(1)] addr_size_units [OF h(2)] by (auto simp: s_def word_less_nat_alt)
  obtain h' where h': "insert_addr p (set_size p s h) = Some h'" "kheap_ok h' (insert p B)" "heap_data h' = D"
    "\<forall>q\<in>B. mn_size h' q = mn_size h q" "n = s \<longrightarrow> memory h' (insert p B) = M \<and> heap_free h' = F"
    "n \<noteq> s \<longrightarrow> held M F D h' (insert p B) (p + unat s) (n - s)"
    by (rule held_return [OF less.prems s])
  have step: "cut_loop p n h = cut_loop (p + unat s) (n - s) h'"
    using n16(2) h'(1) by (subst cut_loop.simps) (simp add: Let_def flip: s_def)
  show ?case
  proof (cases "n = s")
    case True
    then have "cut_loop (p + unat s) (n - s) h' = Some h'" by (subst cut_loop.simps) simp
    then show ?thesis using step h'(2,3,5) True by auto
  next
    case False
    have "unat (n - s) < unat n" using s n16(1) by (simp add: unat_sub word_le_nat_alt)
    then show ?thesis using less.hyps h'(6) False unfolding step by blast
  qed
qed

text \<open>
  Where the rest begins: at the next whole unit after the request, also when the request is in whole
  units already.  There is such a place in the block only when the block is longer than the request.
\<close>

lemma cut_start:
  fixes n sz :: u32
  assumes "16 dvd unat sz" "unat n < unat sz"
  shows "unat ((n AND NOT BLOCK_MASK) + SMALLEST_BLOCK) = unat n - unat n mod 16 + 16" "unat n - unat n mod 16 + 16 \<le> unat sz"
proof -
  have "n AND NOT (mask 4) = n AND NOT (take_bit 4 n)" by (auto simp: bit_eq_iff bit_simps)
  also have "\<dots> = n - take_bit 4 n"
    by (rule disjunctive_diff_eq_and_not [symmetric]) (auto simp: bit_eq_iff bit_simps)
  finally have eq: "n AND NOT BLOCK_MASK = n - take_bit 4 n" by (simp add: BLOCK_MASK_def mask_eq_exp_minus_1)
  have t: "unat (take_bit 4 n) = unat n mod 16" by (simp add: take_bit_eq_mod unat_mod)
  have "unat (n - take_bit 4 n) = unat n - unat n mod 16" using t by (simp add: unat_sub word_le_nat_alt)
  moreover show le: "unat n - unat n mod 16 + 16 \<le> unat sz"
  proof -
    obtain k where k: "unat sz = 16 * k" using assms(1) by (rule dvdE)
    then have "unat n < k * 16" using assms(2) by simp
    then have "unat n div 16 < k" by (rule less_mult_imp_div_less)
    then show ?thesis using k by (simp add: minus_mod_eq_mult_div)
  qed
  moreover have "unat sz < 2 ^ 32" using unsigned_less [of sz] by simp
  ultimately show "unat ((n AND NOT BLOCK_MASK) + SMALLEST_BLOCK) = unat n - unat n mod 16 + 16"
    unfolding eq SMALLEST_BLOCK_def by (simp add: unat_word_ariths)
qed

text \<open>What follows the start of the block in the hand can be seen as the block in the hand.\<close>

lemma held_tail:
  assumes "held M F D h B p sz" "16 dvd unat n" "16 \<le> unat n" "unat n < unat sz"
  shows "held (memory h B \<union> {p + unat n ..< p + unat sz}) (heap_free h + (sz - n)) D h B (p + unat n) (sz - n)" "fits p n"
proof -
  note h = heldD [OF assms(1)]
  have u: "p + unat n + unat (sz - n) = p + unat sz" using assms(4) by (simp add: unat_sub word_le_nat_alt)
  have dv: "16 dvd unat sz - unat n" "unat (sz - n) = unat sz - unat n"
    using assms(2,4) h(3) by (simp_all add: fits_def unat_sub word_le_nat_alt)
  have "fits (p + unat n) (sz - n)" using dv dvd_imp_le [OF dv(1)] u assms(2,4) h(3) by (simp add: fits_def)
  moreover have "\<forall>q\<in>B. block h q \<inter> {p + unat n ..< p + unat sz} = {}"
  proof
    fix q assume "q \<in> B"
    moreover have "{p + unat n ..< p + unat sz} \<subseteq> {p ..< p + unat sz}" by auto
    ultimately show "block h q \<inter> {p + unat n ..< p + unat sz} = {}" using h(4) by blast
  qed
  moreover have "p + unat n \<noteq> NULL" using assms(3) by (simp add: NULL_def)
  ultimately show "held (memory h B \<union> {p + unat n ..< p + unat sz}) (heap_free h + (sz - n)) D h B (p + unat n) (sz - n)"
    using h(1,9) by (simp add: held_def u)
  show "fits p n" using assms(2-4) h(3) by (simp add: fits_def)
qed

lemma cut_block_end_ok:
  assumes "held M F D h B p sz" "unat n < unat sz"
  obtains sz' h' B' where "cut_block_end p n sz h = Some (sz', h')" "unat n \<le> unat sz'" "unat sz' \<le> unat n + 16" "held M F D h' B' p sz'"
proof -
  define st where "st = (n AND NOT BLOCK_MASK) + SMALLEST_BLOCK"
  note h = heldD [OF assms(1)]
  have "16 dvd unat sz" using h(3) by (simp add: fits_def)
  note st = cut_start [OF this assms(2), folded st_def]
  have dv: "16 dvd unat st" unfolding st(1) by (intro dvd_add dvd_minus_mod dvd_refl)
  have "unat n mod 16 < 16" "unat n mod 16 \<le> unat n" by auto
  then have b: "unat n \<le> unat st" "unat st \<le> unat n + 16" "16 \<le> unat st" using st(1) by linarith+
  have run: "cut_block_end p n sz h = (case cut_loop (p + unat st) (sz - st) h of None \<Rightarrow> None | Some h' \<Rightarrow> Some (st, h'))"
    by (simp add: cut_block_end_def Let_def st_def split: option.split)
  show ?thesis
  proof (cases "st = sz")
    case True
    then have "cut_block_end p n sz h = Some (st, h)" unfolding run by (subst cut_loop.simps) simp
    then show ?thesis by (rule that) (use b True assms(1) in simp_all)
  next
    case False
    have "unat st \<noteq> unat sz" using False by (simp add: word_unat_eq_iff)
    then have lt: "unat st < unat sz" using st by simp
    note tail = held_tail [OF assms(1) dv b(3) lt]
    obtain h' B' where r: "cut_loop (p + unat st) (sz - st) h = Some h'" "kheap_ok h' B'"
      "memory h' B' = memory h B \<union> {p + unat st ..< p + unat sz}" "heap_free h' = heap_free h + (sz - st)" "heap_data h' = D"
      using cut_loop_ok [OF tail(1)] by blast
    have "{p ..< p + unat st} \<union> {p + unat st ..< p + unat sz} = {p ..< p + unat sz}"
      "{p ..< p + unat st} \<inter> {p + unat st ..< p + unat sz} = {}" using lt by auto
    moreover have "memory h B \<inter> {p ..< p + unat sz} = {}" using h(4) by (auto simp: memory_def)
    ultimately have "memory h' B' \<inter> {p ..< p + unat st} = {}" "memory h' B' \<union> {p ..< p + unat st} = M"
      using h(5) unfolding r(3) by (blast, blast)
    moreover have "heap_free h' + st = F" using r(4) h(6) by simp
    ultimately have "held M F D h' B' p st" using r(2,5) tail(2) h(2) by (simp add: held_def memory_disjoint)
    then show ?thesis using that b r(1) by (simp add: run)
  qed
qed

subsection \<open>Growing\<close>

lemma grow_block_ok:
  assumes "held M F D h B p sz"
  shows "\<exists>g sz' h' B'. grow_block p sz n h = Some (g, sz', h') \<and> held M F D h' B' g sz' \<and> g \<le> p \<and> p + unat sz \<le> g + unat sz'"
  using assms
proof (induction "card B" arbitrary: B p sz h rule: less_induct)
  case less
  show ?case
  proof (cases "sz < n")
    case False
    then have "grow_block p sz n h = Some (p, sz, h)" by (subst grow_block.simps) simp
    then show ?thesis using less.prems by blast
  next
    case True
    obtain sz' h' B' where f: "live_merge_forward p sz n h = Some (sz', h')" "B' \<subseteq> B" "held M F D h' B' p sz'" "unat sz \<le> unat sz'"
      using merge_forward_loop_ok [OF less.prems] unfolding live_merge_forward_def by blast
    let ?b = "p - unat sz'"
    note found = lookup_addr_eq [OF heldD(1) [OF f(3)], of ?b]
    show ?thesis
    proof (cases "sz' = addr_size p \<and> sz' < n \<and> ?b \<in> B' \<and> mn_size h' ?b = sz'")
      case False
      then have "grow_block p sz n h = Some (p, sz', h')"
        using True f(1) found by (subst grow_block.simps) (auto simp: Let_def)
      then show ?thesis using f(3,4) by auto
    next
      case prev: True
      then have b: "?b \<in> B'" "mn_size h' ?b = sz'" and a: "sz' = addr_size p" "sz' < n" by blast+
      obtain h2 where h2: "delete_addr ?b h' = Some h2" "mn_size h2 = mn_size h'" "?b < p" "unat (sz' * 2) = unat sz' + unat sz'"
        "held M F D (set_size ?b (sz' * 2) h2) (B' - {?b}) ?b (sz' * 2)"
        by (rule held_absorb_before [OF f(3) b])
      have step: "grow_block p sz n h = grow_block ?b (sz' * 2) n (set_size ?b (sz' * 2) h2)"
        using True f(1) found a(2) b h2(1,2) by (subst grow_block.simps) (simp add: Let_def set_size_def flip: a(1))
      have "card (B' - {?b}) < card B'" using b(1) heldD(8) [OF f(3)] by (rule card_Diff1_less [rotated])
      also have "card B' \<le> card B" using f(2) heldD(8) [OF less.prems] by (rule card_mono [rotated])
      finally obtain g sz2 h3 B3 where r: "grow_block ?b (sz' * 2) n (set_size ?b (sz' * 2) h2) = Some (g, sz2, h3)" "held M F D h3 B3 g sz2"
        "g \<le> ?b" "?b + unat (sz' * 2) \<le> g + unat sz2"
        using less.hyps [OF _ h2(5)] by blast
      have "g \<le> p" "p + unat sz \<le> g + unat sz2" using r(3,4) h2(3,4) f(4) by linarith+
      then show ?thesis unfolding step using r(1,2) by blast
    qed
  qed
qed

subsection \<open>Moving\<close>

lemma held_on_data: "held M F D h B p sz \<Longrightarrow> held M F (f D) (on_data f h) B p sz"
  by (simp add: held_def)

lemma copy_up_apart:
  assumes "src + n \<le> dst"
  shows "copy_up dst src i n m a = (if dst + i \<le> a \<and> a < dst + i + n then m (src + (a - dst)) else m a)"
proof -
  have "src + i + k \<le> dst + i \<Longrightarrow> copy_up dst src i k m a = (if dst + i \<le> a \<and> a < dst + i + k then m (src + (a - dst)) else m a)" for k i m
    by (induction k arbitrary: i m) auto
  then show ?thesis using assms by simp
qed

text \<open>The first \<open>n\<close> bytes at \<open>q\<close> are those that were at \<open>p\<close>.\<close>

definition kept :: "bytes \<Rightarrow> ptr \<Rightarrow> bytes \<Rightarrow> ptr \<Rightarrow> nat \<Rightarrow> bool" where
  "kept D p D' q n \<longleftrightarrow> (\<forall>i<n. D' (q + i) = D (p + i))"

lemma memcpy_kept:
  assumes "{p ..< p + unat n} \<inter> {q ..< q + unat n} = {}"
  shows "kept D p (memcpy_lo_hi q p n D) q (unat n)"
proof (cases "q < p")
  case True
  then show ?thesis by (simp add: kept_def memcpy_lo_hi_def copy_up_apply)
next
  case False
  show ?thesis
  proof (cases "unat n = 0")
    case nz: False
    then have "q \<notin> {p ..< p + unat n}" using assms by auto
    then have "p + unat n \<le> q" using False by auto
    then show ?thesis by (simp add: kept_def memcpy_lo_hi_def copy_up_apart)
  qed (simp add: kept_def)
qed

lemma memmove_down_kept: "q < p \<Longrightarrow> kept D p (memmove q p n D) q (unat n)"
  by (simp add: kept_def memmove_def memcpy_lo_hi_def copy_up_apply)

text \<open>A second block, taken from the free memory while the first is in the hand, and the first one given back.\<close>

lemma exchange_ok:
  assumes "held M F D h B g gs" "held (memory h B) (heap_free h) D h1 B1 out sz"
  obtains h' B' where "kern_free g gs (on_data f h1) = Some h'" "held M F (f D) h' B' out sz"
proof -
  note h = heldD [OF assms(1)] and h1 = heldD [OF assms(2)]
  have g: "memory h B \<inter> {g ..< g + unat gs} = {}" using h(4) by (auto simp: memory_def)
  have o: "memory h1 B1 \<inter> {out ..< out + unat sz} = {}" using h1(4) by (auto simp: memory_def)
  have "memory h1 B1 \<inter> {g ..< g + unat gs} = {}" using g h1(5) by blast
  then have "held (memory h1 B1 \<union> {g ..< g + unat gs}) (heap_free h1 + gs) (f D) (on_data f h1) B1 g gs"
    using h(2,3) h1(1,9) by (simp add: held_def memory_disjoint)
  then obtain h' B' where r: "kern_free g gs (on_data f h1) = Some h'" "kheap_ok h' B'"
    "memory h' B' = memory h1 B1 \<union> {g ..< g + unat gs}" "heap_free h' = heap_free h1 + gs" "heap_data h' = f D"
    by (rule kern_free_ok)
  have "memory h' B' \<inter> {out ..< out + unat sz} = {}" "memory h' B' \<union> {out ..< out + unat sz} = M"
    using g o h(5) h1(5) unfolding r(3) by (blast, blast)
  moreover have "heap_free h' + sz = F" using r(4) h(6) h1(6) by (simp add: add.commute add.left_commute flip: h1(6))
  ultimately have "held M F (f D) h' B' out sz" using r(2,5) h1(2,3) by (simp add: held_def memory_disjoint)
  then show ?thesis by (rule that [OF r(1)])
qed

subsection \<open>\<^verbatim>\<open>kern_realloc\<close>\<close>

text \<open>
  What a call promises that was given \<open>old\<close> bytes at \<open>p\<close>.  The result is a block of the size that was asked
  for and at most one unit more, with the old contents as far as it reaches; or it is \<open>NULL\<close> and a
  block that contains the old one, of the size that the call stores, is still outside the lists, the
  contents of the memory unchanged.  That block may start below the old one, and the call does not
  tell its user where.
\<close>

definition resized :: "ptr set \<Rightarrow> u32 \<Rightarrow> bytes \<Rightarrow> ptr \<Rightarrow> u32 \<Rightarrow> u32 \<Rightarrow> ptr \<Rightarrow> u32 \<Rightarrow> heap_mem \<Rightarrow> ptr set \<Rightarrow> bool" where
  "resized M F D p old sz out sz' h' B' \<longleftrightarrow>
     (if out \<noteq> NULL then held M F (heap_data h') h' B' out sz' \<and> unat sz \<le> unat sz' \<and> unat sz' \<le> unat sz + 16 \<and>
        kept D p (heap_data h') out (min (unat old) (unat sz))
      else \<exists>g. held M F D h' B' g sz' \<and> g \<le> p \<and> p + unat old \<le> g + unat sz')"

lemma resizedI:
  assumes "held M F D' h' B' out sz'" "unat sz \<le> unat sz'" "unat sz' \<le> unat sz + 16" "kept D p D' out (unat old)"
  shows "resized M F D p old sz out sz' h' B'"
  using assms heldD(2,9) [OF assms(1)] by (simp add: resized_def kept_def)

text \<open>Enough free neighbours: the contents move to the front of the grown block.\<close>

lemma realloc_in_place:
  assumes "held M F D h B g gs" "g \<le> p" "unat sz < unat gs"
    and h1: "h1 = (if g \<noteq> p then on_data (memmove g p old) h else h)"
  obtains sz' h' B' where "cut_block_end g sz gs h1 = Some (sz', h')" "resized M F D p old sz g sz' h' B'"
proof -
  define D' where "D' = (if g \<noteq> p then memmove g p old D else D)"
  have "held M F D' h1 B g gs" using assms(1) held_on_data [OF assms(1)] by (auto simp: h1 D'_def)
  then obtain sz' h' B' where r: "cut_block_end g sz gs h1 = Some (sz', h')" "unat sz \<le> unat sz'" "unat sz' \<le> unat sz + 16"
    "held M F D' h' B' g sz'"
    by (rule cut_block_end_ok [OF _ assms(3)])
  have "kept D p D' g (unat old)" using memmove_down_kept [of g p D old] assms(2) by (auto simp: D'_def kept_def)
  then show ?thesis by (rule that [OF r(1) resizedI [OF r(4,2,3)]])
qed

text \<open>The neighbours were not enough.\<close>

lemma realloc_move_ok:
  assumes "held M F D h B g gs" "g \<le> p" "p + unat old \<le> g + unat gs" "9 \<le> unat sz" "unat sz \<le> 2 ^ 31" "unat old \<le> unat sz"
  shows "\<exists>out sz' h' B'. realloc_move p g sz old gs h = Some (out, sz', h') \<and> resized M F D p old sz out sz' h' B'"
proof (cases "available h B (bsr (unat sz - 1) - 3)")
  case False
  then have "kern_malloc sz 1 h = Some (NULL, sz, h)" using kern_malloc_refused [OF heldD(1) [OF assms(1)] assms(4,5)] by blast
  then have "realloc_move p g sz old gs h = Some (NULL, gs, h)" by (simp add: realloc_move_def empty_caches_def)
  then show ?thesis using assms(1-3) by (auto simp: resized_def)
next
  case True
  note h = heldD [OF assms(1)]
  have "may_allocate sz 1 h" by (simp add: may_allocate_def)
  then obtain out sz' h1 B1 where m: "kern_malloc sz 1 h = Some (out, sz', h1)" "out \<in> B" "unat sz \<le> unat sz'" "unat sz' < unat sz + 16"
    "{out ..< out + unat sz'} \<subseteq> block h out" "\<forall>q\<in>B - {out}. q \<in> B1 \<and> mn_size h1 q = mn_size h q"
    "held (memory h B) (heap_free h) (heap_data h) h1 B1 out sz'"
    by (rule kern_malloc_served [OF h(1) assms(4,5) True])
  obtain h' B' where f: "kern_free g gs (on_data (memcpy_lo_hi out p old) h1) = Some h'" "held M F (memcpy_lo_hi out p old D) h' B' out sz'"
    using exchange_ok [OF assms(1) m(7) [unfolded h(9)]] by metis
  have "{p ..< p + unat old} \<subseteq> {g ..< g + unat gs}" "{out ..< out + unat old} \<subseteq> {out ..< out + unat sz'}"
    using assms(2,3,6) m(3) by auto
  then have "{p ..< p + unat old} \<inter> {out ..< out + unat old} = {}" using h(4) [OF m(2)] m(5) by blast
  then have "resized M F D p old sz out sz' h' B'" by (rule resizedI [OF f(2) m(3) less_imp_le [OF m(4)] memcpy_kept])
  moreover have "realloc_move p g sz old gs h = Some (out, sz', h')"
    using m(1) f(1) heldD(2) [OF m(7)] by (simp add: realloc_move_def)
  ultimately show ?thesis by blast
qed

text \<open>
  The case that the code gets wrong: the block at hand, after growing, is just as long as the request
  (as when an array of a power of two of bytes absorbs its buddy to double).  Then the rest that
  \<^verbatim>\<open>cut_block_end\<close> computes begins one unit behind the block and its size is -16.
\<close>

definition exact_fit :: "ptr \<Rightarrow> u32 \<Rightarrow> u32 \<Rightarrow> heap_mem \<Rightarrow> bool" where
  "exact_fit p sz old h = (if old \<ge> sz then old = sz else
     (case grow_block p old sz h of None \<Rightarrow> False | Some (_, old', _) \<Rightarrow> old' = sz))"

lemma realloc_grow_ok:
  assumes "held M F D h B p old" "unat old < unat sz" "unat sz \<le> 2 ^ 31" "\<not> exact_fit p sz old h"
  shows "\<exists>out sz' h' B'. realloc_grow p sz old h = Some (out, sz', h') \<and> resized M F D p old sz out sz' h' B'"
proof -
  obtain g gs h1 B1 where g: "grow_block p old sz h = Some (g, gs, h1)" "held M F D h1 B1 g gs" "g \<le> p" "p + unat old \<le> g + unat gs"
    using grow_block_ok [OF assms(1)] by blast
  have "gs \<noteq> sz" using assms(2,4) g(1) by (simp add: exact_fit_def word_le_nat_alt)
  show ?thesis
  proof (cases "gs \<ge> sz")
    case True
    define h2 where "h2 = (if g \<noteq> p then on_data (memmove g p old) h1 else h1)"
    have "sz < gs" using True \<open>gs \<noteq> sz\<close> by simp
    then obtain sz' h' B' where r: "cut_block_end g sz gs h2 = Some (sz', h')" "resized M F D p old sz g sz' h' B'"
      by (rule_tac realloc_in_place [OF g(2,3) _ h2_def]) (simp add: word_less_nat_alt)
    have "realloc_grow p sz old h = Some (g, sz', h')"
      using g(1) r(1) True by (simp add: realloc_grow_def Let_def flip: h2_def)
    then show ?thesis using r(2) by blast
  next
    case False
    have "16 \<le> unat old" using heldD(3) [OF assms(1)] by (simp add: fits_def)
    then have "\<exists>out sz' h' B'. realloc_move p g sz old gs h1 = Some (out, sz', h') \<and> resized M F D p old sz out sz' h' B'"
      using assms(2) by (intro realloc_move_ok [OF g(2-4) _ assms(3)]) simp_all
    moreover have "realloc_grow p sz old h = realloc_move p g sz old gs h1"
      using g(1) False by (simp add: realloc_grow_def realloc_move_def Let_def)
    ultimately show ?thesis by simp
  qed
qed

lemma live_merge_enough: "unat sz \<le> unat old \<Longrightarrow> live_merge_forward p old sz h = Some (old, h)"
  unfolding live_merge_forward_def by (subst merge_forward_loop.simps) (simp add: word_less_nat_alt)

lemma trim_block_ok:
  assumes "held M F D h B p old" "unat sz < unat old"
  shows "\<exists>sz' h' B'. trim_block p sz old h = Some (p, sz', h') \<and> resized M F D p old sz p sz' h' B'"
proof -
  have "live_merge_forward p old sz h = Some (old, h)" by (rule live_merge_enough) (use assms(2) in simp)
  moreover obtain sz' h' B' where "cut_block_end p sz old h = Some (sz', h')" "unat sz \<le> unat sz'" "unat sz' \<le> unat sz + 16" "held M F D h' B' p sz'"
    by (rule cut_block_end_ok [OF assms])
  ultimately show ?thesis using resizedI [of M F D h' B' p sz' sz D p old] by (auto simp: trim_block_def kept_def)
qed

lemma kern_realloc_ok:
  assumes held: "held M F D h B p old" and sz: "unat sz \<le> 2 ^ 31" "\<not> exact_fit p sz old h"
  shows "\<exists>out sz' h' B'. kern_realloc p sz old priority h = Some (out, sz', h') \<and> resized M F D p old sz out sz' h' B'"
proof -
  consider "old \<ge> sz" | "old < sz" "sz - old \<le> heap_free h - EMERGENCY_STORE \<or> priority \<noteq> 0"
    | "old < sz" "\<not> (sz - old \<le> heap_free h - EMERGENCY_STORE \<or> priority \<noteq> 0)" by fastforce
  then show ?thesis
  proof cases
    case 1
    then have "sz < old" using sz(2) by (auto simp: exact_fit_def)
    then show ?thesis using trim_block_ok [OF held, of sz] 1 by (auto simp: kern_realloc_def word_less_nat_alt)
  next
    case 2
    then have "kern_realloc p sz old priority h = realloc_grow p sz old h" by (auto simp: kern_realloc_def)
    then show ?thesis using realloc_grow_ok [OF held _ sz] 2(1) by (simp add: word_less_nat_alt)
  next
    case 3
    then have "kern_realloc p sz old priority h = Some (NULL, old, h)" by (auto simp: kern_realloc_def empty_caches_def Let_def)
    then show ?thesis using held by (auto simp: resized_def)
  qed
qed

text \<open>An exact fit claims 16 bytes that do not belong to the block: the size that the call stores is one unit more
  than the block at hand has, and the sum of what it puts into the lists is -16.\<close>

lemma cut_block_end_exact:
  assumes "cut_block_end p sz sz h = Some (sz', h')" "16 dvd unat sz"
  shows "sz' = sz + 16"
proof -
  have "sz AND NOT (mask 4) = sz AND NOT (take_bit 4 sz)" by (auto simp: bit_eq_iff bit_simps)
  moreover have "take_bit 4 sz = 0" using assms(2) by (simp add: take_bit_eq_mod word_unat_eq_iff unat_mod)
  ultimately have "sz AND NOT BLOCK_MASK = sz" by (simp add: BLOCK_MASK_def mask_eq_exp_minus_1)
  then show ?thesis using assms(1) by (auto simp: cut_block_end_def Let_def SMALLEST_BLOCK_def bind_eq_Some_conv)
qed

lemma kern_realloc_exact_fit:
  assumes "held M F D h B p old" "exact_fit p sz old h" "priority \<noteq> 0" "kern_realloc p sz old priority h = Some (out, sz', h')"
  shows "out \<noteq> NULL \<and> sz' = sz + 16 \<and> (\<exists>g h1 B1. (if old \<ge> sz then g = p else grow_block p old sz h = Some (g, sz, h1)) \<and> out = g \<and> held M F D h1 B1 g sz)"
proof (cases "old \<ge> sz")
  case True
  then have eq: "old = sz" using assms(2) by (simp add: exact_fit_def)
  have u: "16 dvd unat sz" using heldD(3) [OF assms(1)] by (simp add: fits_def eq)
  have r: "cut_block_end p sz sz h = Some (sz', h')" "out = p"
    using assms(4) live_merge_enough [of sz sz p h] by (auto simp: kern_realloc_def trim_block_def eq bind_eq_Some_conv)
  have "held M F D h B p sz" using assms(1) by (simp only: eq)
  then show ?thesis using cut_block_end_exact [OF r(1) u] r(2) heldD(2) [OF assms(1)] True by (simp only: if_True) blast
next
  case False
  obtain g gs h1 B1 where g: "grow_block p old sz h = Some (g, gs, h1)" "held M F D h1 B1 g gs"
    using grow_block_ok [OF assms(1)] by blast
  have eq: "gs = sz" using assms(2) False g(1) by (simp add: exact_fit_def)
  have u: "16 dvd unat sz" using heldD(3) [OF g(2)] by (simp add: fits_def eq)
  have run: "realloc_grow p sz old h = Some (out, sz', h')" using assms(3,4) False by (simp add: kern_realloc_def)
  define h2 where "h2 = (if g \<noteq> p then on_data (memmove g p old) h1 else h1)"
  have "cut_block_end g sz sz h2 \<bind> (\<lambda>(n, h). Some (g, n, h)) = Some (out, sz', h')"
    using run g(1) eq by (simp add: realloc_grow_def Let_def flip: h2_def)
  then have r: "cut_block_end g sz sz h2 = Some (sz', h')" "out = g" by (cases "cut_block_end g sz sz h2"; force)+
  note g' = g [unfolded eq]
  show ?thesis using cut_block_end_exact [OF r(1) u] r(2) g' heldD(2) [OF g(2)] False by (simp only: if_False) blast
qed

text \<open>C4: \<^verbatim>\<open>kern_realloc\<close>.  On a well-formed heap, resizing a block to at most 2 GB returns, unless the block, after
  growing over its free neighbours, is exactly as long as the new size (\<open>kern_realloc_exact_fit\<close>
  has what goes wrong then).  Either the result is a block at least as long as asked for and at most 16
  bytes longer that starts with the old contents, as far as both reach; or it is \<open>NULL\<close>, no byte has
  changed, and a block of the size that is stored, which contains the old one, is outside the lists;
  it may start below the old one, and the caller does not learn where.  In both cases the heap is
  well formed, no free block overlaps the block, and the free memory and the block are exactly the
  free memory and the block before, byte for byte and in the count.\<close>

theorem kern_realloc_correct:
  assumes "kheap_ok h B" "p \<noteq> NULL" "fits p old" "\<forall>q\<in>B. block h q \<inter> {p ..< p + unat old} = {}"
    and "unat sz \<le> 2 ^ 31" "\<not> exact_fit p sz old h"
  shows "\<exists>out sz' h' B'. kern_realloc p sz old priority h = Some (out, sz', h') \<and>
    resized (memory h B \<union> {p ..< p + unat old}) (heap_free h + old) (heap_data h) p old sz out sz' h' B'"
  using assms(1-4) by (intro kern_realloc_ok [OF _ assms(5,6)]) (simp add: held_def)

text \<open>A block of 64 bytes shrinks to 32: the code keeps 48 of them.\<close>

lemma kern_realloc_correct_witness:
  "\<exists>out sz' h'. kern_realloc 128 32 64 1 (the (insert_addr 64 no_blocks)) = Some (out, sz', h') \<and> (out = NULL \<or> 32 \<le> unat sz' \<and> unat sz' \<le> 48)"
proof -
  obtain h where h: "insert_addr 64 no_blocks = Some h" "kheap_ok h {64}" "mn_size h 64 = 64" "high_list h = 10" "heap_free h = 64"
    by (rule one_block)
  have "\<forall>q\<in>{64}. block h q \<inter> {128 ..< 128 + unat (64 :: u32)} = {}" using h(3) by (simp add: block_def)
  from kern_realloc_correct [OF h(2) _ _ this, of 32 1] show ?thesis
    using h(1) by (auto simp: NULL_def fits_def exact_fit_def resized_def split: if_splits)
qed

end
