(* ===== verification/Malloc_Client.thy ===== *)
theory Malloc_Client
  imports Malloc_Realloc
begin

unbundle bit_operations_syntax

text \<open>
  The users of the kernel heap: the interface with the size in front of the block, and any sequence of
  allocations, releases and changes of size.
\<close>

subsection \<open>The size in front of the block\<close>

lemma load32_store32 [simp]: "load32 p (store32 p w m) = w"
proof (rule bit_word_eqI)
  fix n assume "n < LENGTH(32)"
  then have "n < 8 \<or> 8 \<le> n \<and> n < 16 \<or> 16 \<le> n \<and> n < 24 \<or> 24 \<le> n \<and> n < 32" by auto
  then show "bit (load32 p (store32 p w m)) n = bit w n"
    by (auto simp: load32_def store32_def bit_simps)
qed

text \<open>C27: what \<^verbatim>\<open>malloc\<close> hands out of a well-formed heap, \<^verbatim>\<open>free\<close> takes back, with nothing but the pointer: it
  finds the size in front of the block, and the heap is well formed and has the free bytes it had
  before the allocation.\<close>

theorem malloc_free_roundtrip:
  assumes "kheap_ok h B" "5 \<le> unat sz" "unat sz + 4 \<le> 2 ^ 31" "malloc sz h = Some (p, h1)" "p \<noteq> NULL"
  shows "\<exists>h2 B2. free p h1 = Some h2 \<and> kheap_ok h2 B2 \<and> memory h2 B2 = memory h B \<and> heap_free h2 = heap_free h"
proof -
  have u: "unat (sz + 4) = unat sz + 4" using assms(3) by (simp add: unat_word_ariths)
  have sz: "9 \<le> unat (sz + 4)" "unat (sz + 4) \<le> 2 ^ 31" using assms(2,3) u by simp_all
  have "may_allocate (sz + 4) 0 h \<and> available h B (bsr (unat (sz + 4) - 1) - 3)"
  proof (rule ccontr)
    assume "\<not> ?thesis"
    then have "malloc sz h = Some (NULL, h)" using kern_malloc_refused [OF assms(1) sz] by (simp add: malloc_def)
    then show False using assms(4,5) by simp
  qed
  then obtain out sz' h' B' where m: "kern_malloc (sz + 4) 0 h = Some (out, sz', h')"
    "held (memory h B) (heap_free h) (heap_data h) h' B' out sz'"
    using kern_malloc_served [OF assms(1) sz] by metis
  then have p: "p = out + 4" "h1 = on_data (store32 out sz') h'"
    using assms(4) heldD(2) [OF m(2)] by (auto simp: malloc_def)
  have "held (memory h B) (heap_free h) (store32 out sz' (heap_data h)) h1 B' out sz'"
    unfolding p(2) by (rule held_on_data [OF m(2)])
  then obtain h2 B2 where "kern_free out sz' h1 = Some h2" "kheap_ok h2 B2" "memory h2 B2 = memory h B" "heap_free h2 = heap_free h"
    by (rule kern_free_ok)
  moreover have "free p h1 = kern_free out sz' h1" by (simp add: free_def p deref_def NULL_def)
  ultimately show ?thesis by auto
qed

lemma malloc_free_roundtrip_witness:
  "\<exists>h p h1 h2. insert_addr 64 no_blocks = Some h \<and> malloc 16 h = Some (p, h1) \<and> free p h1 = Some h2 \<and> heap_free h2 = 64"
proof -
  obtain h where h: "insert_addr 64 no_blocks = Some h" "kheap_ok h {64}" "mn_size h 64 = 64" "high_list h = 10" "heap_free h = 64"
    by (rule one_block)
  have sz: "9 \<le> unat (20 :: u32)" "unat (20 :: u32) \<le> 2 ^ 31" by simp_all
  have "bsr 19 = 4" by (rule bsr_unique) simp_all
  then have "may_allocate 20 0 h" using h(5) by (simp add: may_allocate_def EMERGENCY_STORE_def round_up_def)
  then obtain out sz' h' B' where m: "kern_malloc 20 0 h = Some (out, sz', h')"
    "held (memory h {64}) (heap_free h) (heap_data h) h' B' out sz'"
    using kern_malloc_served [OF h(2) sz] one_block_available [OF h(3,4)] by metis
  then have run: "malloc 16 h = Some (out + 4, on_data (store32 out sz') h')" using heldD(2) [OF m(2)] by (simp add: malloc_def)
  from malloc_free_roundtrip [OF h(2) _ _ run] show ?thesis using run h(1,5) by (auto simp: NULL_def)
qed

subsection \<open>An allocator and its users\<close>

definition region :: "ptr \<Rightarrow> u32 \<Rightarrow> ptr set" where
  "region p n = {p ..< p + unat n}"

text \<open>
  The blocks \<open>A\<close> that are in use, with their sizes, overlap neither the free memory \<open>X\<close> nor each other.
\<close>

definition apart :: "ptr set \<Rightarrow> (ptr \<rightharpoonup> u32) \<Rightarrow> bool" where
  "apart X A \<longleftrightarrow> (\<forall>p n. A p = Some n \<longrightarrow> p \<noteq> NULL \<and> fits p n \<and> region p n \<inter> X = {}) \<and>
     (\<forall>p n q m. A p = Some n \<longrightarrow> A q = Some m \<longrightarrow> p \<noteq> q \<longrightarrow> region p n \<inter> region q m = {})"

definition in_use :: "(ptr \<rightharpoonup> u32) \<Rightarrow> ptr set" where
  "in_use A = {a. \<exists>p n. A p = Some n \<and> a \<in> region p n}"

lemma apartD:
  assumes "apart X A" "A p = Some n"
  shows "p \<noteq> NULL" "fits p n" "region p n \<inter> X = {}" "\<And>q m. A q = Some m \<Longrightarrow> p \<noteq> q \<Longrightarrow> region p n \<inter> region q m = {}"
  using assms by (auto simp: apart_def)

lemma apart_mono: "apart X A \<Longrightarrow> X' \<subseteq> X \<Longrightarrow> apart X' A"
  unfolding apart_def by blast

lemma apart_remove:
  assumes "apart X A" "A p = Some n"
  shows "apart (X \<union> region p n) (A(p := None))"
  unfolding apart_def using assms apartD [OF assms(1)] by (auto simp: Int_Un_distrib split: if_splits)

lemma apart_insert:
  assumes "apart X A" "p \<noteq> NULL" "fits p n" "X' \<union> region p n = X" "X' \<inter> region p n = {}"
  shows "apart X' (A(p \<mapsto> n))"
proof -
  have old: "q \<noteq> NULL" "fits q m" "region q m \<inter> X' = {}" "region q m \<inter> region p n = {}" if "A q = Some m" for q m
    using apartD(1-3) [OF assms(1) that] assms(4) by auto
  show ?thesis
    unfolding apart_def using old apartD(4) [OF assms(1)] assms(2,3,5) by (auto simp: Int_commute split: if_splits)
qed

lemma in_use_update: "in_use (A(p \<mapsto> n)) \<subseteq> in_use A \<union> region p n" "in_use (A(p := None)) \<subseteq> in_use A"
proof -
  show "in_use (A(p \<mapsto> n)) \<subseteq> in_use A \<union> region p n"
  proof
    fix a assume "a \<in> in_use (A(p \<mapsto> n))"
    then obtain q m where "(A(p \<mapsto> n)) q = Some m" "a \<in> region q m" by (auto simp: in_use_def)
    then show "a \<in> in_use A \<union> region p n" by (cases "q = p") (auto simp: in_use_def)
  qed
  show "in_use (A(p := None)) \<subseteq> in_use A"
  proof
    fix a assume "a \<in> in_use (A(p := None))"
    then obtain q m where "(A(p := None)) q = Some m" "a \<in> region q m" by (auto simp: in_use_def)
    then show "a \<in> in_use A" by (cases "q = p") (auto simp: in_use_def)
  qed
qed

text \<open>
  What a user relies on.  \<open>ok h X\<close> says that \<open>h\<close> is well formed and has the free memory \<open>X\<close>.  Every
  operation returns; what it hands out comes out of the free memory, and what it takes back goes there.
\<close>

locale allocator =
  fixes ok :: "'h \<Rightarrow> ptr set \<Rightarrow> bool"
    and request :: "u32 \<Rightarrow> bool"
    and new_size :: "ptr \<Rightarrow> u32 \<Rightarrow> u32 \<Rightarrow> 'h \<Rightarrow> bool"
    and alloc :: "u32 \<Rightarrow> u32 \<Rightarrow> 'h \<Rightarrow> (ptr \<times> u32 \<times> 'h) option"
    and release :: "ptr \<Rightarrow> u32 \<Rightarrow> 'h \<Rightarrow> 'h option"
    and resize :: "ptr \<Rightarrow> u32 \<Rightarrow> u32 \<Rightarrow> u32 \<Rightarrow> 'h \<Rightarrow> (ptr \<times> u32 \<times> 'h) option"
  assumes alloc_law: "ok h X \<Longrightarrow> request n \<Longrightarrow> \<exists>p n' h' X'. alloc n pr h = Some (p, n', h') \<and> ok h' X' \<and>
        (if p = NULL then X' = X else fits p n' \<and> X' \<union> region p n' = X \<and> X' \<inter> region p n' = {})"
    and release_law: "ok h X \<Longrightarrow> p \<noteq> NULL \<Longrightarrow> fits p n \<Longrightarrow> region p n \<inter> X = {} \<Longrightarrow>
        \<exists>h'. release p n h = Some h' \<and> ok h' (X \<union> region p n)"
    and resize_law: "ok h X \<Longrightarrow> p \<noteq> NULL \<Longrightarrow> fits p old \<Longrightarrow> region p old \<inter> X = {} \<Longrightarrow> new_size p n old h \<Longrightarrow>
        \<exists>q n' h' X'. resize p n old pr h = Some (q, n', h') \<and> ok h' X' \<and>
          (if q = NULL then X' \<subseteq> X \<union> region p old
           else fits q n' \<and> X' \<union> region q n' = X \<union> region p old \<and> X' \<inter> region q n' = {})"
begin

definition safe :: "ptr set \<Rightarrow> 'h \<Rightarrow> (ptr \<rightharpoonup> u32) \<Rightarrow> bool" where
  "safe M h A \<longleftrightarrow> (\<exists>X. ok h X \<and> apart X A \<and> X \<union> in_use A \<subseteq> M)"

lemma safe_alloc:
  assumes "safe M h A" "request n"
  shows "\<exists>p n' h'. alloc n pr h = Some (p, n', h') \<and> safe M h' (if p = NULL then A else A(p \<mapsto> n'))"
proof -
  obtain X where X: "ok h X" "apart X A" "X \<union> in_use A \<subseteq> M" using assms(1) by (auto simp: safe_def)
  obtain p n' h' X' where r: "alloc n pr h = Some (p, n', h')" "ok h' X'"
    "if p = NULL then X' = X else fits p n' \<and> X' \<union> region p n' = X \<and> X' \<inter> region p n' = {}"
    using alloc_law [OF X(1) assms(2)] by blast
  have "safe M h' (if p = NULL then A else A(p \<mapsto> n'))"
  proof (cases "p = NULL")
    case False
    then have "apart X' (A(p \<mapsto> n'))" using r(3) by (intro apart_insert [OF X(2)]) simp_all
    moreover have "X' \<union> in_use (A(p \<mapsto> n')) \<subseteq> M" using X(3) r(3) False in_use_update(1) [of A p n'] by auto
    ultimately show ?thesis using r(2) False by (auto simp: safe_def)
  qed (use X r in \<open>auto simp: safe_def\<close>)
  then show ?thesis using r(1) by blast
qed

lemma safe_release:
  assumes "safe M h A" "A p = Some n"
  shows "\<exists>h'. release p n h = Some h' \<and> safe M h' (A(p := None))"
proof -
  obtain X where X: "ok h X" "apart X A" "X \<union> in_use A \<subseteq> M" using assms(1) by (auto simp: safe_def)
  obtain h' where r: "release p n h = Some h'" "ok h' (X \<union> region p n)"
    using release_law [OF X(1) apartD(1-3) [OF X(2) assms(2)]] by blast
  have "region p n \<subseteq> in_use A" using assms(2) by (auto simp: in_use_def)
  then have "X \<union> region p n \<union> in_use (A(p := None)) \<subseteq> M" using X(3) in_use_update(2) [of A p] by blast
  then show ?thesis using r apart_remove [OF X(2) assms(2)] by (auto simp: safe_def)
qed

lemma safe_resize:
  assumes "safe M h A" "A p = Some old" "new_size p n old h"
  shows "\<exists>q n' h'. resize p n old pr h = Some (q, n', h') \<and> safe M h' (if q = NULL then A(p := None) else A(p := None, q \<mapsto> n'))"
proof -
  obtain X where X: "ok h X" "apart X A" "X \<union> in_use A \<subseteq> M" using assms(1) by (auto simp: safe_def)
  obtain q n' h' X' where r: "resize p n old pr h = Some (q, n', h')" "ok h' X'"
    "if q = NULL then X' \<subseteq> X \<union> region p old else fits q n' \<and> X' \<union> region q n' = X \<union> region p old \<and> X' \<inter> region q n' = {}"
    using resize_law [OF X(1) apartD(1-3) [OF X(2) assms(2)] assms(3)] by blast
  note ap = apart_remove [OF X(2) assms(2)]
  have "region p old \<subseteq> in_use A" using assms(2) by (auto simp: in_use_def)
  then have M: "X \<union> region p old \<union> in_use (A(p := None)) \<subseteq> M" using X(3) in_use_update(2) [of A p] by blast
  have "safe M h' (if q = NULL then A(p := None) else A(p := None, q \<mapsto> n'))"
  proof (cases "q = NULL")
    case True
    then have "apart X' (A(p := None))" "X' \<union> in_use (A(p := None)) \<subseteq> M" using apart_mono [OF ap] r(3) M by auto
    then show ?thesis using r(2) True by (auto simp: safe_def)
  next
    case False
    then have "apart X' (A(p := None, q \<mapsto> n'))" using r(3) by (intro apart_insert [OF ap]) simp_all
    moreover have "X' \<union> region q n' = X \<union> region p old" using r(3) False by simp
    then have "X' \<union> in_use (A(p := None, q \<mapsto> n')) \<subseteq> M" using M in_use_update(1) [of "A(p := None)" q n'] by blast
    ultimately show ?thesis using r(2) False by (auto simp: safe_def)
  qed
  then show ?thesis using r(1) by blast
qed

end

text \<open>The kernel heap is such an allocator.\<close>

definition heap_ok :: "heap_mem \<Rightarrow> ptr set \<Rightarrow> bool" where
  "heap_ok h X \<longleftrightarrow> (\<exists>B. kheap_ok h B \<and> memory h B = X)"

text \<open>
  The requests are those from 2 bytes to 2 GB; below, the code takes the logarithm of 0, which the
  processor leaves undefined.  The new sizes are all those of up to 2 GB but for an exact fit.
\<close>

definition heap_request :: "u32 \<Rightarrow> bool" where
  "heap_request n \<longleftrightarrow> 2 \<le> unat n \<and> unat n \<le> 2 ^ 31"

definition heap_new_size :: "ptr \<Rightarrow> u32 \<Rightarrow> u32 \<Rightarrow> heap_mem \<Rightarrow> bool" where
  "heap_new_size p n old h \<longleftrightarrow> unat n \<le> 2 ^ 31 \<and> \<not> exact_fit p n old h"

lemma held_heap_ok: "held M F D h B p n \<Longrightarrow> heap_ok h (memory h B) \<and> fits p n \<and> memory h B \<union> region p n = M \<and> memory h B \<inter> region p n = {}"
  by (auto simp: held_def heap_ok_def region_def memory_disjoint)

interpretation kh: allocator heap_ok heap_request heap_new_size kern_malloc kern_free kern_realloc
proof unfold_locales
  fix h X n pr assume h: "heap_ok h X" "heap_request n"
  then obtain B where B: "kheap_ok h B" "memory h B = X" by (auto simp: heap_ok_def)
  have hi: "unat (high_list h) < 28" using B(1) by (simp add: kheap_ok_def)
  have n: "2 \<le> unat n" "unat n \<le> 2 ^ 31" using h(2) by (simp_all add: heap_request_def)
  show "\<exists>p n' h' X'. kern_malloc n pr h = Some (p, n', h') \<and> heap_ok h' X' \<and>
    (if p = NULL then X' = X else fits p n' \<and> X' \<union> region p n' = X \<and> X' \<inter> region p n' = {})"
  proof (cases "9 \<le> unat n")
    case small: False
    then have "kern_malloc n pr h = Some (NULL, n, h)" using kern_malloc_small_fails [OF n(1) _ hi] by simp
    then show ?thesis using h(1) by auto
  next
    case nine: True
    show ?thesis
    proof (cases "available h B (bsr (unat n - 1) - 3) \<and> may_allocate n pr h")
      case True
      then obtain p n' h' B' where "kern_malloc n pr h = Some (p, n', h')" "held X (heap_free h) (heap_data h) h' B' p n'"
        using kern_malloc_served [OF B(1) nine n(2)] B(2) by metis
      then show ?thesis using held_heap_ok heldD(2) by (metis (no_types, lifting))
    next
      case False
      then show ?thesis using kern_malloc_refused [OF B(1) nine n(2), of pr] h(1) by auto
    qed
  qed
next
  fix h X p n assume h: "heap_ok h X" "p \<noteq> NULL" "fits p n" "region p n \<inter> X = {}"
  then obtain B where B: "kheap_ok h B" "memory h B = X" by (auto simp: heap_ok_def)
  then have "held (X \<union> region p n) (heap_free h + n) (heap_data h) h B p n"
    using h by (simp add: held_def memory_disjoint region_def Int_commute)
  then show "\<exists>h'. kern_free p n h = Some h' \<and> heap_ok h' (X \<union> region p n)"
    by (rule kern_free_ok) (auto simp: heap_ok_def)
next
  fix h X p old n pr assume h: "heap_ok h X" "p \<noteq> NULL" "fits p old" "region p old \<inter> X = {}" "heap_new_size p n old h"
  then obtain B where B: "kheap_ok h B" "memory h B = X" by (auto simp: heap_ok_def)
  let ?M = "X \<union> region p old"
  have "held ?M (heap_free h + old) (heap_data h) h B p old"
    using h B by (simp add: held_def memory_disjoint region_def Int_commute)
  then obtain q n' h' B' where r: "kern_realloc p n old pr h = Some (q, n', h')" "resized ?M (heap_free h + old) (heap_data h) p old n q n' h' B'"
    using kern_realloc_ok [of ?M "heap_free h + old" "heap_data h" h B p old n pr] h(5) by (auto simp: heap_new_size_def)
  obtain g where "held ?M (heap_free h + old) (if q = NULL then heap_data h else heap_data h') h' B' g n'" "q \<noteq> NULL \<longrightarrow> g = q"
    using r(2) by (auto simp: resized_def split: if_splits)
  note g = held_heap_ok [OF this(1)] this(2)
  have "if q = NULL then memory h' B' \<subseteq> ?M else fits q n' \<and> memory h' B' \<union> region q n' = ?M \<and> memory h' B' \<inter> region q n' = {}"
    using g by (cases "q = NULL") (simp_all, blast)
  then show "\<exists>q n' h' X'. kern_realloc p n old pr h = Some (q, n', h') \<and> heap_ok h' X' \<and>
    (if q = NULL then X' \<subseteq> ?M else fits q n' \<and> X' \<union> region q n' = ?M \<and> X' \<inter> region q n' = {})"
    using r(1) g(1) by blast
qed

subsection \<open>Any sequence of operations\<close>

text \<open>
  A user may ask for any size from 2 bytes to 2 GB and change the size of any block in use, except to
  just the length the block has at hand after growing (\<open>exact_fit\<close>).  A block whose change of size
  fails is lost to its user, who does not learn where it starts now.
\<close>

inductive heap_step :: "heap_mem \<times> (ptr \<rightharpoonup> u32) \<Rightarrow> heap_mem \<times> (ptr \<rightharpoonup> u32) \<Rightarrow> bool" where
  alloc: "heap_request n \<Longrightarrow> kern_malloc n pr h = Some (p, n', h') \<Longrightarrow> heap_step (h, A) (h', if p = NULL then A else A(p \<mapsto> n'))"
| release: "A p = Some n \<Longrightarrow> kern_free p n h = Some h' \<Longrightarrow> heap_step (h, A) (h', A(p := None))"
| resize: "A p = Some old \<Longrightarrow> heap_new_size p n old h \<Longrightarrow> kern_realloc p n old pr h = Some (q, n', h') \<Longrightarrow>
    heap_step (h, A) (h', if q = NULL then A(p := None) else A(p := None, q \<mapsto> n'))"

inductive_cases heap_stepE: "heap_step (h, A) s"

lemma heap_step_safe:
  assumes "heap_step (h, A) (h', A')" "kh.safe M h A"
  shows "kh.safe M h' A'"
  using assms(1)
proof (rule heap_stepE)
  fix n pr p n' h2 assume "heap_request n" "kern_malloc n pr h = Some (p, n', h2)" "(h', A') = (h2, if p = NULL then A else A(p \<mapsto> n'))"
  then show ?thesis using kh.safe_alloc [OF assms(2), of n pr] by auto
next
  fix p n h2 assume "A p = Some n" "kern_free p n h = Some h2" "(h', A') = (h2, A(p := None))"
  then show ?thesis using kh.safe_release [OF assms(2), of p n] by auto
next
  fix p old n pr q n' h2 assume "A p = Some old" "heap_new_size p n old h" "kern_realloc p n old pr h = Some (q, n', h2)"
    "(h', A') = (h2, if q = NULL then A(p := None) else A(p := None, q \<mapsto> n'))"
  then show ?thesis using kh.safe_resize [OF assms(2), of p old n pr] by auto
qed

lemma heap_run_safe: "heap_step\<^sup>*\<^sup>* (h0, A0) (h, A) \<Longrightarrow> kh.safe M h0 A0 \<Longrightarrow> kh.safe M h A"
  by (induction rule: rtranclp_induct2) (auto intro: heap_step_safe)

text \<open>C2: any sequence of allocations of 2 bytes to 2 GB, releases, and changes of size to at most 2 GB other than an
  exact fit (after which the size that is stored is 16 bytes too much,
  \<open>kern_realloc_exact_fit\<close>), on a well-formed heap.  The heap stays
  well formed; the blocks in use, each a whole number of units, overlap neither a free block nor one
  another, and they and the free blocks stay inside the memory that was free at the start.\<close>

theorem heap_blocks_never_overlap:
  assumes "kheap_ok h0 B0" "heap_step\<^sup>*\<^sup>* (h0, Map.empty) (h, A)"
  shows "\<exists>B. kheap_ok h B \<and> apart (memory h B) A \<and> memory h B \<union> in_use A \<subseteq> memory h0 B0"
proof -
  have "kh.safe (memory h0 B0) h0 Map.empty" using assms(1) by (auto simp: kh.safe_def heap_ok_def apart_def in_use_def)
  then have "kh.safe (memory h0 B0) h A" by (rule heap_run_safe [OF assms(2)])
  then show ?thesis by (auto simp: kh.safe_def heap_ok_def)
qed

lemma heap_blocks_never_overlap_witness:
  "\<exists>h p n h' B. insert_addr 64 no_blocks = Some h \<and> heap_step (h, Map.empty) (h', [p \<mapsto> n]) \<and> kheap_ok h' B \<and> region p n \<inter> memory h' B = {}"
proof -
  obtain h where h: "insert_addr 64 no_blocks = Some h" "kheap_ok h {64}" "mn_size h 64 = 64" "high_list h = 10" "heap_free h = 64"
    by (rule one_block)
  have sz: "9 \<le> unat (20 :: u32)" "unat (20 :: u32) \<le> 2 ^ 31" by simp_all
  obtain out n h' B' where m: "kern_malloc 20 1 h = Some (out, n, h')" "held (memory h {64}) (heap_free h) (heap_data h) h' B' out n"
    using kern_malloc_served [OF h(2) sz one_block_available [OF h(3,4)], of 1] by (metis may_allocate_def zero_neq_one)
  have "heap_request 20" by (simp add: heap_request_def)
  from heap_step.alloc [OF this m(1), of Map.empty] have step: "heap_step (h, Map.empty) (h', [out \<mapsto> n])" using heldD(2) [OF m(2)] by simp
  then have "heap_step\<^sup>*\<^sup>* (h, Map.empty) (h', [out \<mapsto> n])" by (rule r_into_rtranclp)
  from heap_blocks_never_overlap [OF h(2) this] obtain B where B: "kheap_ok h' B" "apart (memory h' B) [out \<mapsto> n]" by blast
  have "region out n \<inter> memory h' B = {}" by (rule apartD(3) [OF B(2)]) simp
  then show ?thesis using h(1) step B(1) by blast
qed

text \<open>Every operation that a user may call then returns.\<close>

theorem heap_operations_return:
  assumes "kheap_ok h0 B0" "heap_step\<^sup>*\<^sup>* (h0, Map.empty) (h, A)"
  shows "(heap_request n \<longrightarrow> kern_malloc n pr h \<noteq> None) \<and>
    (\<forall>old. A p = Some old \<longrightarrow> kern_free p old h \<noteq> None \<and> (heap_new_size p n old h \<longrightarrow> kern_realloc p n old pr h \<noteq> None))"
proof -
  have "kh.safe (memory h0 B0) h0 Map.empty" using assms(1) by (auto simp: kh.safe_def heap_ok_def apart_def in_use_def)
  then have "kh.safe (memory h0 B0) h A" by (rule heap_run_safe [OF assms(2)])
  note s = kh.safe_alloc [OF this, of n pr] kh.safe_release [OF this, of p] kh.safe_resize [OF this, of p _ n pr]
  show ?thesis using s by fastforce
qed

end
