(* ===== verification/Rendezvous.thy ===== *)
theory Rendezvous
  imports Prelude
begin

text \<open>
  \<^verbatim>\<open>src/sched/rendezvous.c\<close>: the barrier at which the CPUs meet twice per timer tick, in
  \<^verbatim>\<open>clear_exclusion\<close> at the point \<^verbatim>\<open>first\<close> and in \<^verbatim>\<open>set_exclusion\<close> at the point \<^verbatim>\<open>second\<close>.

  The CPUs run concurrently: a state has the two rendezvous points, a program counter per CPU,
  and per CPU the number of joins it has completed, whose parity says which point it is at.  A
  step of a CPU is a piece of \<^verbatim>\<open>rendezvous_join\<close> with at most one access to \<^verbatim>\<open>cond\<close>, the one field
  that is read without the spin lock; the others are only used while it is held.
\<close>

record rendezvous_t =
  rv_cond :: bool
  rv_mutex :: bool
  rv_count :: u32
  rv_max :: u32
  rv_reset :: bool

text \<open>On zeroed memory, which the two static points are, \<^verbatim>\<open>memset\<close> with 0 changes nothing.\<close>

definition rendezvous_init :: "u32 \<Rightarrow> rendezvous_t" where
  "rendezvous_init mx = \<lparr>rv_cond = False, rv_mutex = False, rv_count = 0, rv_max = mx, rv_reset = False\<rparr>"

text \<open>
  Where a CPU is: before \<^verbatim>\<open>spin_lock\<close>, with the lock before the test of \<^verbatim>\<open>reset\<close>, with the lock before
  \<^verbatim>\<open>CLEAR_COND\<close>, without it before \<^verbatim>\<open>SET_COND\<close>, or in one of the \<^verbatim>\<open>while\<close> loops.
\<close>

datatype rv_pc = At_Lock | At_Test | At_Clear | At_Set | At_Spin

record rv_sys =
  points :: "nat \<Rightarrow> rendezvous_t"
  pc :: "nat \<Rightarrow> rv_pc"
  joins :: "nat \<Rightarrow> nat"

definition put :: "nat \<Rightarrow> rendezvous_t \<Rightarrow> rv_pc \<Rightarrow> rv_sys \<Rightarrow> rv_sys" where
  "put i r p s = s\<lparr>points := (points s)(joins s i mod 2 := r), pc := (pc s)(i := p)\<rparr>"

definition leave :: "nat \<Rightarrow> rv_sys \<Rightarrow> rv_sys" where
  "leave i s = s\<lparr>pc := (pc s)(i := At_Lock), joins := (joins s)(i := Suc (joins s i))\<rparr>"

text \<open>\<open>None\<close>: the CPU spins, on the lock or on \<^verbatim>\<open>cond\<close>.\<close>

definition join_step :: "nat \<Rightarrow> rv_sys \<Rightarrow> rv_sys option" where
  "join_step i s = (let r = points s (joins s i mod 2) in
     case pc s i of
       At_Lock \<Rightarrow> if rv_mutex r then None else Some (put i (r\<lparr>rv_mutex := True\<rparr>) At_Test s)
     | At_Test \<Rightarrow>
         if \<not> rv_reset r then
           let r = r\<lparr>rv_count := rv_count r + 1\<rparr> in
           if rv_max r = rv_count r then Some (put i (r\<lparr>rv_reset := True, rv_mutex := False\<rparr>) At_Set s)
           else Some (put i (r\<lparr>rv_mutex := False\<rparr>) At_Spin s)
         else Some (put i (r\<lparr>rv_reset := False\<rparr>) At_Clear s)
     | At_Clear \<Rightarrow> Some (put i (r\<lparr>rv_cond := False, rv_count := 1, rv_mutex := False\<rparr>) At_Spin s)
     | At_Set \<Rightarrow> Some (leave i (put i (r\<lparr>rv_cond := True\<rparr>) At_Set s))
     | At_Spin \<Rightarrow> if rv_cond r then Some (leave i s) else None)"

definition rv_start :: "u32 \<Rightarrow> rv_sys" where
  "rv_start mx = \<lparr>points = (\<lambda>_. rendezvous_init mx), pc = (\<lambda>_. At_Lock), joins = (\<lambda>_. 0)\<rparr>"

text \<open>The states of \<open>n\<close> CPUs after \<open>k\<close> steps, in any interleaving.\<close>

inductive rv_run :: "nat \<Rightarrow> nat \<Rightarrow> rv_sys \<Rightarrow> bool" for n where
  rv_first: "rv_run n 0 (rv_start (word_of_nat n))"
| rv_next: "rv_run n k s \<Longrightarrow> i < n \<Longrightarrow> join_step i s = Some s' \<Longrightarrow> rv_run n (Suc k) s'"

lemma put_simps [simp]:
  "joins (put i r p s) = joins s" "pc (put i r p s) = (pc s)(i := p)" "points (put i r p s) = (points s)(joins s i mod 2 := r)"
  by (simp_all add: put_def)

lemma leave_simps [simp]:
  "joins (leave i s) = (joins s)(i := Suc (joins s i))" "pc (leave i s) = (pc s)(i := At_Lock)" "points (leave i s) = points s"
  by (simp_all add: leave_def)

subsection \<open>The invariant\<close>

text \<open>In round \<open>q\<close>, the CPUs that have been counted are those that spin or are about to set \<^verbatim>\<open>cond\<close>.\<close>

definition cpus_at :: "nat \<Rightarrow> nat \<Rightarrow> rv_pc set \<Rightarrow> rv_sys \<Rightarrow> nat set" where
  "cpus_at n q P s = {i. i < n \<and> joins s i = q \<and> pc s i \<in> P}"

abbreviation counted :: "nat \<Rightarrow> nat \<Rightarrow> rv_sys \<Rightarrow> nat set" where
  "counted n q s \<equiv> cpus_at n q {At_Spin, At_Set} s"

definition point :: "nat \<Rightarrow> rv_sys \<Rightarrow> rendezvous_t" where
  "point q s = points s (q mod 2)"

text \<open>
  The stages of a round at its point: nobody counted, as the start or the round before the last
  left it; the first CPU has taken \<^verbatim>\<open>reset\<close> back; some have been counted; all have been counted and
  the last is about to open; the point is open.
\<close>

definition fresh :: "nat \<Rightarrow> rv_sys \<Rightarrow> bool" where
  "fresh q s \<longleftrightarrow> (if q < 2 then \<not> rv_reset (point q s) \<and> rv_count (point q s) = 0 \<and> \<not> rv_cond (point q s) else rv_reset (point q s))"

definition untouched :: "nat \<Rightarrow> nat \<Rightarrow> rv_sys \<Rightarrow> bool" where
  "untouched n q s \<longleftrightarrow> fresh q s \<and> cpus_at n q {At_Spin, At_Set, At_Clear} s = {}"

definition clearing :: "nat \<Rightarrow> nat \<Rightarrow> rv_sys \<Rightarrow> bool" where
  "clearing n q s \<longleftrightarrow> \<not> rv_reset (point q s) \<and> cpus_at n q {At_Clear} s \<noteq> {} \<and> counted n q s = {}"

definition filling :: "nat \<Rightarrow> nat \<Rightarrow> rv_sys \<Rightarrow> bool" where
  "filling n q s \<longleftrightarrow> \<not> rv_reset (point q s) \<and> \<not> rv_cond (point q s) \<and> cpus_at n q {At_Clear, At_Set} s = {} \<and>
     counted n q s \<noteq> {} \<and> card (counted n q s) < n \<and> rv_count (point q s) = word_of_nat (card (counted n q s))"

definition complete :: "nat \<Rightarrow> nat \<Rightarrow> rv_sys \<Rightarrow> bool" where
  "complete n q s \<longleftrightarrow> rv_reset (point q s) \<and> \<not> rv_cond (point q s) \<and> counted n q s = {..<n} \<and> (\<exists>j. cpus_at n q {At_Set} s = {j})"

definition opened :: "nat \<Rightarrow> nat \<Rightarrow> rv_sys \<Rightarrow> bool" where
  "opened n q s \<longleftrightarrow> rv_reset (point q s) \<and> rv_cond (point q s) \<and> cpus_at n q {At_Lock, At_Test, At_Clear, At_Set} s = {}"

definition gathering :: "nat \<Rightarrow> nat \<Rightarrow> rv_sys \<Rightarrow> bool" where
  "gathering n q s \<longleftrightarrow> untouched n q s \<or> clearing n q s \<or> filling n q s"

definition lock_ok :: "nat \<Rightarrow> nat \<Rightarrow> rv_sys \<Rightarrow> bool" where
  "lock_ok n q s \<longleftrightarrow> rv_max (point q s) = word_of_nat n \<and>
     (if rv_mutex (point q s) then \<exists>j. cpus_at n q {At_Test, At_Clear} s = {j} else cpus_at n q {At_Test, At_Clear} s = {})"

definition together :: "nat \<Rightarrow> nat \<Rightarrow> rv_sys \<Rightarrow> bool" where
  "together n m s \<longleftrightarrow> (\<forall>i<n. joins s i = m) \<and> (gathering n m s \<or> complete n m s) \<and> untouched n (Suc m) s"

definition passing :: "nat \<Rightarrow> nat \<Rightarrow> rv_sys \<Rightarrow> bool" where
  "passing n m s \<longleftrightarrow> (\<forall>i<n. joins s i = m \<or> joins s i = Suc m) \<and> (\<exists>i<n. joins s i = m) \<and> opened n m s \<and> gathering n (Suc m) s"

definition rv_inv :: "nat \<Rightarrow> nat \<Rightarrow> rv_sys \<Rightarrow> bool" where
  "rv_inv n m s \<longleftrightarrow> lock_ok n m s \<and> lock_ok n (Suc m) s \<and> (together n m s \<or> passing n m s)"

lemmas stage_defs = untouched_def clearing_def filling_def complete_def opened_def

subsection \<open>Steps within a round\<close>

text \<open>A step that stays in its round changes one point and one program counter.\<close>

lemma point_put: "point q (put i r p s) = (if q mod 2 = joins s i mod 2 then r else point q s)"
  by (simp add: point_def)

lemma at_put:
  assumes "i < n"
  shows "cpus_at n q P (put i r p s) = (if joins s i = q then (if p \<in> P then insert i (cpus_at n q P s) else cpus_at n q P s - {i}) else cpus_at n q P s)"
  using assms by (auto simp: cpus_at_def)

lemma at_finite [simp]: "finite (cpus_at n q P s)"
  by (simp add: cpus_at_def)

text \<open>The other round is not affected.\<close>

lemma other_round:
  assumes "i < n" "joins s i = q" "q' mod 2 \<noteq> q mod 2"
  shows "point q' (put i r p s) = point q' s" "cpus_at n q' P (put i r p s) = cpus_at n q' P s"
proof -
  have "q' \<noteq> q" using assms(3) by auto
  then show "point q' (put i r p s) = point q' s" "cpus_at n q' P (put i r p s) = cpus_at n q' P s"
    using assms by (simp_all add: point_put at_put)
qed

lemma other_stage:
  assumes "i < n" "joins s i = q" "q' mod 2 \<noteq> q mod 2"
  shows "untouched n q' (put i r p s) = untouched n q' s" "gathering n q' (put i r p s) = gathering n q' s"
    "opened n q' (put i r p s) = opened n q' s" "lock_ok n q' (put i r p s) = lock_ok n q' s"
  by (simp_all add: gathering_def stage_defs fresh_def lock_ok_def other_round [OF assms])

lemma card_full: "S \<subseteq> {..<n} \<Longrightarrow> card S = n \<longleftrightarrow> S = {..<n}"
  by (metis card_lessThan card_subset_eq finite_lessThan)

lemma at_subset: "cpus_at n q P s \<subseteq> {..<n}"
  by (auto simp: cpus_at_def)

lemma count_full:
  assumes "n < 2 ^ 32" "k < n"
  shows "(word_of_nat n :: u32) = word_of_nat k + 1 \<longleftrightarrow> n = Suc k"
proof -
  have inj: "(word_of_nat a :: u32) = word_of_nat b \<longleftrightarrow> a = b" if "a < 2 ^ 32" "b < 2 ^ 32" for a b :: nat
    using that by (simp add: word_unat_eq_iff unat_of_nat)
  have "(word_of_nat k :: u32) + 1 = word_of_nat (Suc k)" by (simp add: add.commute)
  then show ?thesis using inj [of n "Suc k"] assms by (simp add: add.commute)
qed

text \<open>A CPU that is counted: the last one opens, the others fill.\<close>

lemma test_step:
  assumes n: "n < 2 ^ 32" "2 \<le> n" and i: "i < n" "joins s i = q" "pc s i = At_Test" "\<not> rv_reset (point q s)"
    and g: "gathering n q s" and l: "lock_ok n q s" and s': "join_step i s = Some s'"
  shows "\<exists>r p. s' = put i r p s \<and> lock_ok n q s' \<and> (if card (counted n q s) = n - 1 then complete n q s' else gathering n q s')"
proof -
  let ?r = "(point q s)\<lparr>rv_count := rv_count (point q s) + 1\<rparr>"
  let ?C = "counted n q s"
  have "i \<in> cpus_at n q {At_Test, At_Clear} s" using i by (simp add: cpus_at_def)
  then have lk: "cpus_at n q {At_Test, At_Clear} s = {i}" "rv_max (point q s) = word_of_nat n"
    using l by (auto simp: lock_ok_def split: if_splits)
  have nc: "cpus_at n q {At_Clear} s = {}"
  proof -
    have "cpus_at n q {At_Clear} s \<subseteq> cpus_at n q {At_Test, At_Clear} s" "i \<notin> cpus_at n q {At_Clear} s" using i by (auto simp: cpus_at_def)
    then show ?thesis unfolding lk(1) by auto
  qed
  have iC: "i \<notin> ?C" using i by (simp add: cpus_at_def)
  have st: "\<not> rv_cond (point q s)" "rv_count (point q s) = word_of_nat (card ?C)" "cpus_at n q {At_Set} s = {}" "card ?C < n"
  proof -
    have c: "untouched n q s \<and> q < 2 \<or> filling n q s" using g nc i(4) by (auto simp: gathering_def clearing_def untouched_def fresh_def)
    have sub: "?C \<subseteq> cpus_at n q {At_Spin, At_Set, At_Clear} s" "cpus_at n q {At_Set} s \<subseteq> cpus_at n q {At_Spin, At_Set, At_Clear} s"
      "cpus_at n q {At_Set} s \<subseteq> cpus_at n q {At_Clear, At_Set} s" by (auto simp: cpus_at_def)
    show "\<not> rv_cond (point q s)" "cpus_at n q {At_Set} s = {}" using c sub by (auto simp: untouched_def filling_def fresh_def)
    show "rv_count (point q s) = word_of_nat (card ?C)" using c sub(1) by (auto simp: untouched_def filling_def fresh_def)
    show "card ?C < n" using c sub(1) n(2) by (auto simp: untouched_def filling_def)
  qed
  show ?thesis
  proof (cases "card ?C = n - 1")
    case True
    let ?s = "put i (?r\<lparr>rv_reset := True, rv_mutex := False\<rparr>) At_Set s"
    have "rv_max (point q s) = rv_count (point q s) + 1" using lk(2) st(2) count_full [OF n(1) st(4)] True n(2) by simp
    then have run: "s' = ?s" using s' i by (simp add: join_step_def Let_def point_def)
    have "counted n q ?s = insert i ?C" using i by (simp add: at_put)
    moreover have "insert i ?C \<subseteq> {..<n}" using at_subset i(1) by blast
    moreover have "card (insert i ?C) = n" using iC True n(2) by simp
    ultimately have "counted n q ?s = {..<n}" using card_full by metis
    moreover have "cpus_at n q {At_Set} ?s = {i}" using i st(3) by (simp add: at_put)
    ultimately have "complete n q ?s" using i st(1) by (simp add: complete_def point_put)
    moreover have "lock_ok n q ?s" using i lk by (simp add: lock_ok_def point_put at_put)
    ultimately show ?thesis using run True by auto
  next
    case False
    let ?s = "put i (?r\<lparr>rv_mutex := False\<rparr>) At_Spin s"
    have "rv_max (point q s) \<noteq> rv_count (point q s) + 1" using lk(2) st(2) count_full [OF n(1) st(4)] False by simp
    then have run: "s' = ?s" using s' i by (simp add: join_step_def Let_def point_def)
    have cn: "counted n q ?s = insert i ?C" using i by (simp add: at_put)
    moreover have "card (insert i ?C) = Suc (card ?C)" using iC by simp
    moreover have "cpus_at n q {At_Clear, At_Set} s = {}" using nc st(3) by (auto simp: cpus_at_def)
    ultimately have "filling n q ?s" using i st False by (simp add: filling_def point_put at_put)
    moreover have "lock_ok n q ?s" using i lk by (simp add: lock_ok_def point_put at_put)
    ultimately show ?thesis using run False by (auto simp: gathering_def)
  qed
qed

lemma clear_step:
  assumes n: "2 \<le> n" and i: "i < n" "joins s i = q" "pc s i = At_Clear" and g: "gathering n q s" and l: "lock_ok n q s"
    and s': "join_step i s = Some s'"
  shows "\<exists>r. s' = put i r At_Spin s \<and> lock_ok n q s' \<and> gathering n q s'"
proof -
  let ?r = "(point q s)\<lparr>rv_cond := False, rv_count := 1, rv_mutex := False\<rparr>"
  let ?s = "put i ?r At_Spin s"
  have "i \<in> cpus_at n q {At_Test, At_Clear} s" "i \<in> cpus_at n q {At_Clear} s" using i by (simp_all add: cpus_at_def)
  then have lk: "cpus_at n q {At_Test, At_Clear} s = {i}" "rv_max (point q s) = word_of_nat n" "cpus_at n q {At_Clear} s \<noteq> {}"
    using l by (auto simp: lock_ok_def split: if_splits)
  have c: "clearing n q s"
    using g lk(3) by (auto simp: gathering_def untouched_def filling_def cpus_at_def)
  have run: "s' = ?s" using s' i by (simp add: join_step_def Let_def point_def)
  have "cpus_at n q {At_Clear, At_Set} s - {i} = {}"
  proof -
    have "cpus_at n q {At_Clear, At_Set} s \<subseteq> cpus_at n q {At_Test, At_Clear} s \<union> counted n q s" by (auto simp: cpus_at_def)
    then show ?thesis using lk(1) c by (auto simp: clearing_def)
  qed
  then have "filling n q ?s" using i n c by (simp add: filling_def clearing_def point_put at_put)
  moreover have "lock_ok n q ?s" using i lk by (simp add: lock_ok_def point_put at_put)
  ultimately show ?thesis using run by (auto simp: gathering_def)
qed

lemma take_back_step:
  assumes i: "i < n" "joins s i = q" "pc s i = At_Test" "rv_reset (point q s)" and g: "gathering n q s" and l: "lock_ok n q s"
    and s': "join_step i s = Some s'"
  shows "\<exists>r. s' = put i r At_Clear s \<and> lock_ok n q s' \<and> gathering n q s'"
proof -
  let ?s = "put i ((point q s)\<lparr>rv_reset := False\<rparr>) At_Clear s"
  have u: "untouched n q s" using g i(4) by (simp add: gathering_def clearing_def filling_def)
  have run: "s' = ?s" using s' i by (simp add: join_step_def Let_def point_def)
  have "counted n q s = {}" using u by (auto simp: untouched_def cpus_at_def)
  then have "clearing n q ?s" using i by (simp add: clearing_def point_put at_put)
  moreover have "insert i (cpus_at n q {At_Test, At_Clear} s) = cpus_at n q {At_Test, At_Clear} s" using i by (auto simp: cpus_at_def)
  moreover have "rv_mutex (point q s)" using i l by (auto simp: lock_ok_def cpus_at_def split: if_splits)
  ultimately have "clearing n q ?s" "lock_ok n q ?s" using i l by (simp_all add: lock_ok_def point_put at_put)
  then show ?thesis using run by (auto simp: gathering_def)
qed

lemma lock_step:
  assumes i: "i < n" "joins s i = q" "pc s i = At_Lock" and l: "lock_ok n q s" and s': "join_step i s = Some s'"
  shows "\<exists>r. s' = put i r At_Test s \<and> lock_ok n q s' \<and> gathering n q s' = gathering n q s"
proof -
  let ?r = "(point q s)\<lparr>rv_mutex := True\<rparr>"
  let ?s = "put i ?r At_Test s"
  have free: "\<not> rv_mutex (point q s)" and run: "s' = ?s"
    using s' i by (simp_all add: join_step_def Let_def point_def split: if_splits)
  have "cpus_at n q P s - {i} = cpus_at n q P s" if "At_Lock \<notin> P" for P using that i by (auto simp: cpus_at_def)
  then have "gathering n q ?s = gathering n q s"
    using i by (simp add: gathering_def stage_defs fresh_def point_put at_put)
  moreover have "lock_ok n q ?s" using i l free by (simp add: lock_ok_def point_put at_put)
  ultimately show ?thesis using run by auto
qed

text \<open>Where CPUs gather, a step counts, prepares, or completes the round.\<close>

lemma gathering_step:
  assumes "n < 2 ^ 32" "2 \<le> n" "i < n" "joins s i = q" "gathering n q s" "lock_ok n q s" "join_step i s = Some s'"
  shows "\<exists>r p. s' = put i r p s \<and> lock_ok n q s' \<and>
    (gathering n q s' \<or> complete n q s')"
proof (cases "pc s i")
  case At_Spin
  then have "filling n q s" using assms(3-5) by (auto simp: gathering_def untouched_def clearing_def cpus_at_def)
  then show ?thesis using At_Spin assms(4,7) by (simp add: join_step_def Let_def filling_def point_def)
next
  case At_Set
  then have False using assms(3-5) by (auto simp: gathering_def untouched_def clearing_def filling_def cpus_at_def)
  then show ?thesis ..
next
  case At_Test
  then show ?thesis
    using test_step [OF assms(1-4) At_Test _ assms(5-7)] take_back_step [OF assms(3,4) At_Test _ assms(5-7)]
    by (cases "rv_reset (point q s)") (auto split: if_splits)
next
  case At_Clear
  then show ?thesis using clear_step [OF assms(2-4) At_Clear assms(5-7)] by blast
next
  case At_Lock
  then show ?thesis using lock_step [OF assms(3,4) At_Lock assms(6,7)] assms(5) by blast
qed

subsection \<open>Steps between rounds\<close>

lemma at_leave:
  assumes "i < n" "At_Lock \<notin> P"
  shows "cpus_at n q P (leave i s) = (if joins s i = q then cpus_at n q P s - {i} else cpus_at n q P s - {j. j = i \<and> q = Suc (joins s i)})"
  using assms by (auto simp: cpus_at_def)

lemma point_leave: "point q (leave i s) = point q s"
  by (simp add: point_def)

text \<open>A CPU that arrives in a round has not been counted there.\<close>

lemma arrive:
  assumes "i < n" "joins s i = m"
  shows "gathering n (Suc m) (leave i s) = gathering n (Suc m) s" "untouched n (Suc m) (leave i s) = untouched n (Suc m) s"
    "lock_ok n (Suc m) (leave i s) = lock_ok n (Suc m) s"
proof -
  have "cpus_at n (Suc m) P (leave i s) = cpus_at n (Suc m) P s" if "At_Lock \<notin> P" for P
    using assms that by (auto simp: cpus_at_def)
  then show "gathering n (Suc m) (leave i s) = gathering n (Suc m) s" "untouched n (Suc m) (leave i s) = untouched n (Suc m) s"
    "lock_ok n (Suc m) (leave i s) = lock_ok n (Suc m) s"
    by (simp_all add: gathering_def stage_defs fresh_def lock_ok_def point_leave)
qed

text \<open>The last CPU opens the point.\<close>

lemma open_step:
  assumes n: "2 \<le> n" and i: "i < n" "\<forall>j<n. joins s j = m" and c: "complete n m s" "untouched n (Suc m) s"
    and l: "lock_ok n m s" "lock_ok n (Suc m) s" and s': "join_step i s = Some s'"
  shows "rv_inv n m s'"
proof -
  have all: "pc s j \<in> {At_Spin, At_Set}" if "j < n" for j
  proof -
    have "j \<in> counted n m s" using c(1) that by (simp add: complete_def)
    then show ?thesis by (simp add: cpus_at_def)
  qed
  have im: "joins s i = m" using i by blast
  have "pc s i = At_Set"
    using all [OF i(1)] s' c(1) im by (auto simp: join_step_def Let_def complete_def point_def)
  then have "i \<in> cpus_at n m {At_Set} s" using i(1) im by (simp add: cpus_at_def)
  moreover obtain k where "cpus_at n m {At_Set} s = {k}" using c(1) by (auto simp: complete_def)
  ultimately have set_i: "cpus_at n m {At_Set} s = {i}" by simp
  let ?r = "(point m s)\<lparr>rv_cond := True\<rparr>"
  let ?t = "put i ?r At_Set s"
  have run: "s' = leave i ?t" using s' \<open>pc s i = At_Set\<close> im by (simp add: join_step_def Let_def point_def)
  have t: "joins ?t = joins s" "lock_ok n (Suc m) ?t" "untouched n (Suc m) ?t"
    using other_stage [of i n s m "Suc m"] i(1) im l(2) c(2) by (auto simp: mod_Suc)
  have none: "cpus_at n m {At_Test, At_Clear} s = {}" using all by (fastforce simp: cpus_at_def)
  have "lock_ok n m s'"
    using l(1) none i(1) im unfolding run by (simp add: lock_ok_def point_leave point_put at_leave at_put split: if_splits)
  moreover have "lock_ok n (Suc m) s'" using t(2) i(1) im arrive(3) [of i n ?t m] unfolding run by simp
  moreover have "opened n m s'"
  proof -
    have "pc s j = At_Spin" if "j < n" "j \<noteq> i" for j
    proof -
      have "j \<notin> cpus_at n m {At_Set} s" using set_i that by blast
      then show ?thesis using all [OF that(1)] that(1) i(2) by (auto simp: cpus_at_def)
    qed
    then have "cpus_at n m {At_Lock, At_Test, At_Clear, At_Set} s' = {}" unfolding run using im by (auto simp: cpus_at_def)
    then show ?thesis using c(1) im unfolding run by (simp add: opened_def complete_def point_leave point_put)
  qed
  moreover have "gathering n (Suc m) s'" using t(3) i(1) im arrive(1) [of i n ?t m] unfolding run by (simp add: gathering_def)
  moreover have "\<exists>j<n. joins s' j = m"
  proof -
    have "(if i = 0 then 1 else 0) < n" "(if i = 0 then 1 else 0) \<noteq> i" using n by auto
    then show ?thesis unfolding run using i(2) by (intro exI [of _ "if i = 0 then 1 else 0"]) simp
  qed
  moreover have "\<forall>j<n. joins s' j = m \<or> joins s' j = Suc m" unfolding run using i(2) im by simp
  ultimately show ?thesis by (simp add: rv_inv_def passing_def)
qed

text \<open>A CPU leaves the open point; when it is the last one, the next round is the current one.\<close>

lemma leave_step:
  assumes i: "i < n" "joins s i = m" and p: "passing n m s" and l: "lock_ok n m s" "lock_ok n (Suc m) s" and s': "join_step i s = Some s'"
  shows "rv_inv n m s' \<or> rv_inv n (Suc m) s'"
proof -
  have o: "opened n m s" "gathering n (Suc m) s" "\<And>j. j < n \<Longrightarrow> joins s j = m \<or> joins s j = Suc m" using p by (auto simp: passing_def)
  have "pc s i = At_Spin" using o(1) i by (cases "pc s i") (auto simp: opened_def cpus_at_def)
  then have run: "s' = leave i s" using s' o(1) i by (simp add: join_step_def Let_def opened_def point_def)
  have none: "cpus_at n m {At_Test, At_Clear} s = {}" using o(1) by (auto simp: opened_def cpus_at_def)
  then have unl: "\<not> rv_mutex (point m s)" "rv_max (point m s) = word_of_nat n" using l(1) by (auto simp: lock_ok_def split: if_splits)
  have l': "lock_ok n (Suc m) s'" using l(2) arrive(3) [OF i] unfolding run by simp
  have g': "gathering n (Suc m) s'" using o(2) arrive(1) [OF i] unfolding run by simp
  have j': "joins s' j = m \<or> joins s' j = Suc m" if "j < n" for j using o(3) [OF that] i(2) unfolding run by auto
  show ?thesis
  proof (cases "\<exists>j<n. joins s' j = m")
    case True
    have "lock_ok n m s'" using unl none i unfolding run by (simp add: lock_ok_def point_leave at_leave)
    moreover have "opened n m s'" using o(1) i unfolding run by (auto simp: opened_def point_leave cpus_at_def)
    ultimately show ?thesis using True l' g' j' by (simp add: rv_inv_def passing_def)
  next
    case False
    then have all: "\<forall>j<n. joins s' j = Suc m" using j' by blast
    then have nobody: "cpus_at n (Suc (Suc m)) P s' = {}" for P by (auto simp: cpus_at_def)
    have pt: "point (Suc (Suc m)) s' = point m s" unfolding run by (simp add: point_def)
    have "lock_ok n (Suc (Suc m)) s'" using unl nobody pt by (simp add: lock_ok_def)
    moreover have "untouched n (Suc (Suc m)) s'" using o(1) nobody pt by (simp add: untouched_def fresh_def opened_def)
    ultimately show ?thesis using l' g' all by (simp add: rv_inv_def together_def)
  qed
qed

lemma rv_inv_step:
  assumes n: "n < 2 ^ 32" "2 \<le> n" and inv: "rv_inv n m s" and i: "i < n" and s': "join_step i s = Some s'"
  shows "\<exists>m. rv_inv n m s'"
proof -
  have l: "lock_ok n m s" "lock_ok n (Suc m) s" using inv by (simp_all add: rv_inv_def)
  have ne: "Suc m mod 2 \<noteq> m mod 2" "m mod 2 \<noteq> Suc m mod 2" by (simp_all add: mod_Suc)
  consider (gather) "\<forall>j<n. joins s j = m" "gathering n m s" "untouched n (Suc m) s"
    | (full) "\<forall>j<n. joins s j = m" "complete n m s" "untouched n (Suc m) s"
    | (pass) "passing n m s" "joins s i = m" | (ahead) "passing n m s" "joins s i = Suc m"
    using inv i by (auto simp: rv_inv_def together_def passing_def)
  then show ?thesis
  proof cases
    case gather
    then have im: "joins s i = m" using i by blast
    obtain r p where r: "s' = put i r p s" "lock_ok n m s'" "gathering n m s' \<or> complete n m s'"
      using gathering_step [OF n i im gather(2) l(1) s'] by blast
    then have "lock_ok n (Suc m) s'" "untouched n (Suc m) s'" using other_stage [OF i im ne(1)] l(2) gather(3) by simp_all
    then show ?thesis using r gather(1) by (auto simp: rv_inv_def together_def)
  next
    case full
    then show ?thesis using open_step [OF n(2) i full l s'] by blast
  next
    case pass
    then show ?thesis using leave_step [OF i pass(2,1) l s'] by blast
  next
    case ahead
    have g: "gathering n (Suc m) s" "opened n m s" using ahead(1) by (simp_all add: passing_def)
    obtain r p where r: "s' = put i r p s" "lock_ok n (Suc m) s'" "gathering n (Suc m) s' \<or> complete n (Suc m) s'"
      using gathering_step [OF n i ahead(2) g(1) l(2) s'] by blast
    have "lock_ok n m s'" "opened n m s'" using other_stage [OF i ahead(2) ne(2)] l(1) g(2) r(1) by simp_all
    moreover obtain j where j: "j < n" "joins s' j = m" using ahead(1) r(1) by (auto simp: passing_def)
    have "\<not> complete n (Suc m) s'"
    proof
      assume "complete n (Suc m) s'"
      then have "j \<in> counted n (Suc m) s'" using j(1) by (simp add: complete_def)
      then show False using j(2) by (simp add: cpus_at_def)
    qed
    ultimately show ?thesis using r ahead(1) by (auto simp: rv_inv_def passing_def)
  qed
qed

lemma rv_run_inv:
  assumes "rv_run n k s" "n < 2 ^ 32" "2 \<le> n"
  shows "\<exists>m. rv_inv n m s"
  using assms(1)
proof induction
  case rv_first
  have "rv_inv n 0 (rv_start (word_of_nat n))"
    by (auto simp: rv_inv_def lock_ok_def together_def gathering_def untouched_def fresh_def point_def rv_start_def rendezvous_init_def cpus_at_def)
  then show ?case ..
next
  case (rv_next k s i s')
  then show ?case using rv_inv_step [OF assms(2,3)] by blast
qed

subsection \<open>The barrier\<close>

lemma rv_inv_joins:
  assumes "rv_inv n m s" "i < n" "j < n"
  shows "joins s i \<le> Suc (joins s j)" "joins s i = Suc (joins s j) \<Longrightarrow> pc s j = At_Spin"
proof -
  have m: "\<And>k. k < n \<Longrightarrow> joins s k = m \<or> joins s k = Suc m" using assms(1) by (auto simp: rv_inv_def together_def passing_def)
  show "joins s i \<le> Suc (joins s j)" using m [OF assms(2)] m [OF assms(3)] by auto
  assume ahead: "joins s i = Suc (joins s j)"
  then have jm: "joins s j = m" "joins s i = Suc m" using m [OF assms(2)] m [OF assms(3)] by auto
  then have "opened n m s" using assms(1,2) by (auto simp: rv_inv_def together_def passing_def)
  then show "pc s j = At_Spin" using assms(3) jm(1) by (cases "pc s j") (auto simp: opened_def cpus_at_def)
qed

text \<open>C8: The rendezvous is a barrier, for two or more CPUs that use the two points in turn and in every interleaving of
  their steps: no CPU is ever more than one join ahead of another, and when one has left a point
  that another has not left, the other has been counted there and is only waiting to see the
  condition.  So nobody leaves before everybody has come.\<close>

theorem rendezvous_barrier:
  assumes "rv_run n k s" "2 \<le> n" "n < 2 ^ 32" "i < n" "j < n"
  shows "joins s i \<le> Suc (joins s j) \<and> (joins s i = Suc (joins s j) \<longrightarrow> pc s j = At_Spin)"
  using rv_run_inv [OF assms(1,3,2)] rv_inv_joins [OF _ assms(4,5)] by blast

theorem rendezvous_barrier_witness:
  "joins (rv_start 2) 0 \<le> Suc (joins (rv_start 2) 1)"
  using rendezvous_barrier [OF rv_first [of 2], of 0 1] by simp









text \<open>
  One CPU alone passes each point once.  When it comes to the first point again it takes the
  branch for the first of several, and waits for a last one.
\<close>

lemma rendezvous_alone_stuck:
  "\<exists>k s. rv_run 1 k s \<and> joins s 0 = 2 \<and> join_step 0 s = None"
proof -
  have "rv_run 1 0 (rv_start 1)" using rv_first [of 1] by simp
  have "\<exists>t. (do {s \<leftarrow> join_step 0 (rv_start 1); s \<leftarrow> join_step 0 s; s \<leftarrow> join_step 0 s; s \<leftarrow> join_step 0 s; s \<leftarrow> join_step 0 s;
      s \<leftarrow> join_step 0 s; s \<leftarrow> join_step 0 s; s \<leftarrow> join_step 0 s; join_step 0 s}) = Some t \<and> joins t 0 = 2 \<and> join_step 0 t = None"
    by (simp add: join_step_def rv_start_def rendezvous_init_def put_def leave_def Let_def)
  then obtain t where t: "joins t 0 = 2" "join_step 0 t = None" and run: "(do {s \<leftarrow> join_step 0 (rv_start 1); s \<leftarrow> join_step 0 s;
      s \<leftarrow> join_step 0 s; s \<leftarrow> join_step 0 s; s \<leftarrow> join_step 0 s; s \<leftarrow> join_step 0 s; s \<leftarrow> join_step 0 s; s \<leftarrow> join_step 0 s; join_step 0 s}) = Some t"
    by blast
  have one: "rv_run 1 k s \<Longrightarrow> join_step 0 s = Some s' \<Longrightarrow> rv_run 1 (Suc k) s'" for k s s' using rv_next [of 1 k s 0 s'] by simp
  from run have "\<exists>k. rv_run 1 k t"
    unfolding Option.bind_eq_Some_conv using one \<open>rv_run 1 0 (rv_start 1)\<close> by blast
  then show ?thesis using t by blast
qed

end
