(* ===== verification/Color_Table.thy ===== *)
theory Color_Table
  imports Binary_Heap
begin

text \<open>
  The page colour tables of \<^verbatim>\<open>src/mem/phys_mem/page_alloc.c\<close>.  A table counts, per page colour, the
  pages that an address space or a memory object uses, and keeps the colours as a binary heap by
  that count, the least used first, so that the next page comes from a cache colour that
  conflicts least.

  The three parts of the array are the index of each colour in the heap, the counts and the heap.
  Indices count from 0, where the positions in \<^verbatim>\<open>Binary_Heap\<close> count from 1; \<open>\<lambda>c. ct_index ct c + 1\<close> are
  the positions.
\<close>

record color_tab =
  ct_index :: "nat \<Rightarrow> nat"
  ct_count :: "nat \<Rightarrow> u32"
  ct_list :: "nat \<Rightarrow> nat"

text \<open>The second loop; unlike the heaps of the scheduler it takes the left of two equal children.\<close>

function color_down :: "(nat \<Rightarrow> nat \<Rightarrow> bool) \<Rightarrow> nat \<Rightarrow> nat \<Rightarrow> nat \<Rightarrow> (nat \<Rightarrow> nat) \<times> (nat \<Rightarrow> nat) \<Rightarrow>
    nat \<times> (nat \<Rightarrow> nat) \<times> (nat \<Rightarrow> nat)" where
  "color_down lt n x i s =
     (if i = 0 then (i, s)
      else if 2 * i + 1 \<le> n \<and> lt (el (fst s) (2 * i + 1)) x then
        (if lt (el (fst s) (2 * i + 1)) (el (fst s) (2 * i))
         then color_down lt n x (2 * i + 1) (move_el (2 * i + 1) i s)
         else color_down lt n x (2 * i) (move_el (2 * i) i s))
      else if 2 * i \<le> n \<and> lt (el (fst s) (2 * i)) x then
        (if 2 * i + 1 \<le> n \<and> lt (el (fst s) (2 * i + 1)) (el (fst s) (2 * i))
         then color_down lt n x (2 * i + 1) (move_el (2 * i + 1) i s)
         else color_down lt n x (2 * i) (move_el (2 * i) i s))
      else (i, s))"
  by pat_completeness auto
termination
  by (relation "measure (\<lambda>(lt, n, x, i, s). n + 1 - i)") auto

declare color_down.simps [simp del]

definition used_less :: "(nat \<Rightarrow> u32) \<Rightarrow> nat \<Rightarrow> nat \<Rightarrow> bool" where
  "used_less cnt a b \<longleftrightarrow> cnt a < cnt b"

definition change_color_count :: "nat \<Rightarrow> nat \<Rightarrow> u32 \<Rightarrow> color_tab \<Rightarrow> color_tab" where
  "change_color_count num_page_colors color num ct =
     (if num \<noteq> 0 then
        let i = ct_index ct color + 1;
            count = ct_count ct color + num;
            ct = ct\<lparr>ct_count := (ct_count ct)(color := count)\<rparr>;
            lt = used_less (ct_count ct);
            s = (ct_list ct, \<lambda>c. ct_index ct c + 1);
            (i, s) = (if 0 > sint num then heap_up lt color i s else (i, s));
            (list, pos) = place_el color (color_down lt num_page_colors color i s)
        in ct\<lparr>ct_list := list, ct_index := (\<lambda>c. pos c - 1)\<rparr>
      else ct)"

subsection \<open>The invariant\<close>

definition color_state :: "color_tab \<Rightarrow> (nat \<Rightarrow> nat) \<times> (nat \<Rightarrow> nat)" where
  "color_state ct = (ct_list ct, \<lambda>c. ct_index ct c + 1)"

definition color_ok :: "nat \<Rightarrow> color_tab \<Rightarrow> bool" where
  "color_ok n ct \<longleftrightarrow> positions n (color_state ct) \<and> ordered (used_less (ct_count ct)) n (ct_list ct) \<and> elems n (ct_list ct) = {..<n}"

interpretation used: heap_order "used_less cnt" for cnt
  by unfold_locales (auto simp: used_less_def)

context heap_order
begin

lemma color_down_inv:
  assumes "hole_inv n E s0 i s" "hole_ordered gt n i (fst s)" "below_parent x i (fst s)"
    "color_down gt n x i s = (i', s')"
  shows "hole_inv n E s0 i' s' \<and> hole_ordered gt n i' (fst s') \<and> below_parent x i' (fst s') \<and>
    (\<forall>j\<le>n. j div 2 = i' \<longrightarrow> \<not> gt (el (fst s') j) x)"
  using assms
proof (induction "n - i" arbitrary: i s rule: less_induct)
  case (less i s)
  let ?L = "el (fst s) (2 * i)" and ?R = "el (fst s) (2 * i + 1)"
  have i: "1 \<le> i" "i \<le> n" "i \<noteq> 0" using less.prems(1) by (auto simp: hole_inv_def)
  have kids: "j \<le> n \<Longrightarrow> j div 2 = i \<Longrightarrow> j = 2 * i \<or> j = 2 * i + 1" for j by auto
  have step: ?case
    if c: "c \<le> n" "c div 2 = i" "gt (el (fst s) c) x"
      and sib: "\<And>j. j \<le> n \<Longrightarrow> j div 2 = i \<Longrightarrow> \<not> gt (el (fst s) j) (el (fst s) c)"
      and run: "color_down gt n x c (move_el c i s) = (i', s')" for c
  proof (rule less.hyps [OF _ hole_inv_move [OF less.prems(1)] _ _ run])
    show "n - c < n - i" "c \<in> {1..n}" "c \<noteq> i" using c i by auto
    show "hole_ordered gt n c (fst (move_el c i s))" unfolding fst_move_el using i by (intro down_step less.prems(2) c sib) simp_all
    show "below_parent x c (fst (move_el c i s))" using c asym i by (simp add: below_parent_def fst_move_el)
  qed
  note run = less.prems(4) [unfolded color_down.simps [of gt n x i s]]
  consider (right) "2 * i + 1 \<le> n" "gt ?R x" "gt ?R ?L" | (left) "2 * i \<le> n" "gt ?L x" "2 * i + 1 \<le> n \<Longrightarrow> \<not> gt ?R ?L"
    | (stop) "2 * i + 1 \<le> n \<Longrightarrow> \<not> gt ?R x" "2 * i \<le> n \<Longrightarrow> \<not> gt ?L x"
    using negtrans [of ?R ?L x] trans [of ?R ?L x] by fastforce
  then show ?case
  proof cases
    case right
    have "color_down gt n x (2 * i + 1) (move_el (2 * i + 1) i s) = (i', s')" using run i(3) right by (simp split: if_splits)
    moreover have "\<not> gt (el (fst s) j) ?R" if "j \<le> n" "j div 2 = i" for j using kids [OF that] irrefl asym [OF right(3)] by metis
    ultimately show ?thesis using right by (intro step [of "2 * i + 1"]) simp_all
  next
    case left
    have "color_down gt n x (2 * i) (move_el (2 * i) i s) = (i', s')" using run i(3) left by (auto split: if_splits)
    moreover have "\<not> gt (el (fst s) j) ?L" if "j \<le> n" "j div 2 = i" for j using kids [OF that] that(1) irrefl left(3) by metis
    ultimately show ?thesis using left by (intro step [of "2 * i"]) simp_all
  next
    case stop
    then have "(i', s') = (i, s)" using run i(3) by (auto split: if_splits)
    moreover have "\<not> gt (el (fst s) j) x" if "j \<le> n" "j div 2 = i" for j using kids [OF that] that(1) stop by metis
    ultimately show ?thesis using less.prems(1-3) by blast
  qed
qed

lemma color_sink_sifted:
  assumes "hole_inv n E s0 i s" "hole_ordered gt n i (fst s)" "below_parent x i (fst s)" "x \<notin> E"
  shows "sifted n (insert x E) s0 (place_el x (color_down gt n x i s))"
proof -
  obtain i' s' where run: "color_down gt n x i s = (i', s')" by (cases "color_down gt n x i s")
  note inv = color_down_inv [OF assms(1-3) run]
  show ?thesis
    unfolding sifted_def run using place_el_closes [of n E s0 i' s' x, OF _ _ _ _ assms(4) refl] inv by blast
qed

end

lemma uint_add_signed:
  fixes a num :: u32
  assumes "if sint num < 0 then - sint num \<le> uint a else uint a + sint num < 2 ^ 32"
  shows "uint (a + num) = uint a + sint num"
proof -
  have "uint (a + num) = (uint a + sint num) mod 2 ^ 32"
    by (simp add: uint_word_ariths sint_eq_uint_32 add_diff_eq)
  moreover have "0 \<le> uint a + sint num" "uint a + sint num < 2 ^ 32"
    using assms uint_ge_0 [of a] unsigned_less [of a, where 'a = int] by (auto split: if_splits)
  ultimately show ?thesis by simp
qed

lemma change_color_count_sifted:
  assumes ok: "color_ok n ct" and c: "color < n"
    and num: "num \<noteq> 0" "if sint num < 0 then - sint num \<le> uint (ct_count ct color) else uint (ct_count ct color) + sint num < 2 ^ 32"
    and cnt: "cnt = (ct_count ct)(color := ct_count ct color + num)"
  shows "\<exists>list pos. change_color_count n color num ct = ct\<lparr>ct_count := cnt, ct_list := list, ct_index := (\<lambda>c. pos c - 1)\<rparr> \<and>
    used.sifted cnt n {..<n} (color_state ct) (list, pos)"
proof -
  let ?s = "color_state ct" and ?i = "ct_index ct color + 1"
  have pos: "positions n ?s" and ord: "ordered (used_less (ct_count ct)) n (ct_list ct)" and el: "elems n (ct_list ct) = {..<n}"
    using ok by (simp_all add: color_ok_def)
  have i: "?i \<in> {1..n}" "el (ct_list ct) ?i = color"
    using positions_mem_iff [OF pos, of color] c el by (simp_all add: color_state_def)
  have hole: "hole_inv n ({..<n} - {color}) ?s ?i ?s" using hole_at [OF pos i(1)] el i(2) by (simp add: color_state_def)
  then have he: "hole_elems n ?i (ct_list ct) = {..<n} - {color}" by (simp add: hole_inv_def color_state_def)
  have "hole_ordered (used_less (ct_count ct)) n ?i (ct_list ct)" by (rule used.ordered_hole [OF ord])
  moreover have "used_less cnt a b = used_less (ct_count ct) a b" if "a \<in> hole_elems n ?i (ct_list ct)" "b \<in> hole_elems n ?i (ct_list ct)" for a b
    using that unfolding he cnt by (auto simp: used_less_def)
  ultimately have ho: "hole_ordered (used_less cnt) n ?i (fst ?s)"
    using hole_ordered_cong [of n ?i "ct_list ct" "used_less cnt"] by (simp add: color_state_def)
  have all: "insert color ({..<n} - {color}) = {..<n}" using c by auto
  obtain i' s' where up: "(if 0 > sint num then heap_up (used_less cnt) color ?i ?s else (?i, ?s)) = (i', s')"
    by (metis surj_pair)
  have inv: "hole_inv n ({..<n} - {color}) ?s i' s' \<and> hole_ordered (used_less cnt) n i' (fst s') \<and> used.below_parent cnt color i' (fst s')"
  proof (cases "0 > sint num")
    case True
    then have "heap_up (used_less cnt) color ?i ?s = (i', s')" using up by simp
    then show ?thesis by (rule used.heap_up_inv [OF hole ho])
  next
    case False
    have "\<not> used_less cnt color (el (ct_list ct) (?i div 2))" if "1 < ?i"
    proof -
      have "\<not> used_less (ct_count ct) color (el (ct_list ct) (?i div 2))" using orderedD [OF ord, of ?i] that i by auto
      moreover have "el (ct_list ct) (?i div 2) \<noteq> color"
      proof
        assume "el (ct_list ct) (?i div 2) = color"
        moreover have "?i div 2 \<in> {1..n}" "?i div 2 \<noteq> ?i" using i(1) that by auto
        ultimately show False using inj_onD [OF positions_inj [OF pos], of "?i div 2" ?i] i by (simp add: color_state_def)
      qed
      moreover have "uint (ct_count ct color) \<le> uint (ct_count ct color + num)" using uint_add_signed [OF num(2)] False by simp
      ultimately show ?thesis by (simp add: used_less_def cnt word_less_def)
    qed
    then show ?thesis using False up hole ho by (auto simp: used.below_parent_def color_state_def)
  qed
  obtain list pos where fin: "place_el color (color_down (used_less cnt) n color i' s') = (list, pos)" by fastforce
  have "used.sifted cnt n {..<n} ?s (list, pos)" using used.color_sink_sifted [of n "{..<n} - {color}" ?s i' s' cnt color] inv fin all by simp
  moreover have "change_color_count n color num ct = ct\<lparr>ct_count := cnt, ct_list := list, ct_index := (\<lambda>c. pos c - 1)\<rparr>"
    using num(1) up fin unfolding change_color_count_def color_state_def cnt by (simp add: Let_def split: if_splits)
  ultimately show ?thesis by blast
qed

lemma change_color_count_ok:
  assumes "color_ok n ct" "color < n"
    "if sint num < 0 then - sint num \<le> uint (ct_count ct color) else uint (ct_count ct color) + sint num < 2 ^ 32"
  shows "color_ok n (change_color_count n color num ct)"
    "ct_count (change_color_count n color num ct) = (ct_count ct)(color := ct_count ct color + num)"
proof (atomize (full), cases "num = 0")
  case True
  then show "color_ok n (change_color_count n color num ct) \<and>
      ct_count (change_color_count n color num ct) = (ct_count ct)(color := ct_count ct color + num)"
    using assms(1) by (simp add: change_color_count_def)
next
  case False
  let ?cnt = "(ct_count ct)(color := ct_count ct color + num)"
  obtain list pos where r: "change_color_count n color num ct = ct\<lparr>ct_count := ?cnt, ct_list := list, ct_index := (\<lambda>c. pos c - 1)\<rparr>"
    "used.sifted ?cnt n {..<n} (color_state ct) (list, pos)"
    using change_color_count_sifted [OF assms(1,2) False assms(3) refl] by blast
  then have s: "positions n (list, pos)" "ordered (used_less ?cnt) n list" "elems n list = {..<n}" by (simp_all add: used.sifted_def)
  have "positions n (list, \<lambda>c. pos c - 1 + 1)" using s(1) unfolding positions_def by fastforce
  then show "color_ok n (change_color_count n color num ct) \<and>
      ct_count (change_color_count n color num ct) = (ct_count ct)(color := ct_count ct color + num)"
    using s(2,3) unfolding r(1) by (simp add: color_ok_def color_state_def)
qed

text \<open>The colour at the head of a table is a least used one.\<close>

lemma color_head:
  assumes "color_ok n ct" "c < n"
  shows "ct_count ct (ct_list ct 0) \<le> ct_count ct c" "ct_list ct 0 < n"
proof -
  have "c \<in> elems n (ct_list ct)" using assms by (simp add: color_ok_def)
  then obtain j where "j \<in> {1..n}" "c = el (ct_list ct) j" by (auto simp: elems_def)
  then have "\<not> used_less (ct_count ct) c (ct_list ct 0)" using used.root_extreme [of "ct_count ct" n "ct_list ct" j] assms(1) by (simp add: color_ok_def)
  then show "ct_count ct (ct_list ct 0) \<le> ct_count ct c" by (simp add: used_less_def)
  have "ct_list ct 0 \<in> elems n (ct_list ct)" using assms(2) unfolding elems_def by (intro image_eqI [of _ _ 1]) auto
  then show "ct_list ct 0 < n" using assms(1) by (simp add: color_ok_def)
qed

text \<open>C13: A change of the count of one colour, within the range of an \<^verbatim>\<open>unsigned int\<close>, keeps a colour table well formed: the
  heap is again ordered by the new counts, every colour is in it once and knows its index, the
  count has changed by exactly \<^verbatim>\<open>num\<close> and no other has, and the colour at the head is a least used
  one.\<close>

theorem change_color_count_correct:
  assumes "color_ok n ct" "color < n"
    "if sint num < 0 then - sint num \<le> uint (ct_count ct color) else uint (ct_count ct color) + sint num < 2 ^ 32"
  shows "color_ok n (change_color_count n color num ct) \<and>
    (\<forall>c. uint (ct_count (change_color_count n color num ct) c) = uint (ct_count ct c) + (if c = color then sint num else 0)) \<and>
    (\<forall>c<n. ct_count (change_color_count n color num ct) (ct_list (change_color_count n color num ct) 0) \<le>
       ct_count (change_color_count n color num ct) c)"
proof (intro conjI allI impI)
  note r = change_color_count_ok [OF assms]
  show "color_ok n (change_color_count n color num ct)" by (rule r(1))
  then show "ct_count (change_color_count n color num ct) (ct_list (change_color_count n color num ct) 0) \<le>
      ct_count (change_color_count n color num ct) c" if "c < n" for c using that by (rule color_head(1))
  show "uint (ct_count (change_color_count n color num ct) c) = uint (ct_count ct c) + (if c = color then sint num else 0)" for c
    using uint_add_signed [OF assms(3)] unfolding r(2) by simp
qed

text \<open>Three colours used once, twice and twice.\<close>

definition demo_colors :: color_tab where
  "demo_colors = \<lparr>ct_index = (\<lambda>c. c), ct_count = (\<lambda>c. if c = 0 then 1 else 2), ct_list = (\<lambda>i. i)\<rparr>"

lemma demo_colors_ok: "color_ok 3 demo_colors"
proof -
  have "el (\<lambda>i. i) ` {1..3::nat} = {..<3}" by (auto simp: image_iff intro!: bexI [of _ "Suc _"])
  then show ?thesis by (auto simp: color_ok_def color_state_def positions_def ordered_def elems_def used_less_def demo_colors_def)
qed

theorem change_color_count_correct_witness:
  "uint (ct_count (change_color_count 3 0 2 demo_colors) 0) = 3 \<and> ct_list (change_color_count 3 0 2 demo_colors) 0 \<noteq> 0"
proof -
  note r = change_color_count_correct [OF demo_colors_ok, of 0 2]
  have c: "uint (ct_count (change_color_count 3 0 2 demo_colors) 0) = 3" "uint (ct_count (change_color_count 3 0 2 demo_colors) 1) = 2"
    "ct_count (change_color_count 3 0 2 demo_colors) (ct_list (change_color_count 3 0 2 demo_colors) 0) \<le> ct_count (change_color_count 3 0 2 demo_colors) 1"
    using r by (auto simp: demo_colors_def)
  have "ct_list (change_color_count 3 0 2 demo_colors) 0 \<noteq> 0"
  proof
    assume "ct_list (change_color_count 3 0 2 demo_colors) 0 = 0"
    then show False using c by (simp add: word_le_def)
  qed
  then show ?thesis using c(1) by simp
qed

end
