(* ===== verification/Page_Alloc.thy ===== *)
theory Page_Alloc
  imports Color_Table Circular_List Util
begin

text \<open>
  The allocator of physical pages, \<^verbatim>\<open>src/mem/phys_mem/page_alloc.c\<close>, on the array of page descriptors of
  \<^verbatim>\<open>src/mem/virt_mem/inv_page_table.c\<close>, in the build without PAE, where a physical address is an
  \<^verbatim>\<open>unsigned int\<close>.  The free pages of each colour are on a circular list through their descriptors.
  The mutex of the file is held around each access; an operation is one sequential step.
\<close>

definition PAGE_SIZE :: u32 where "PAGE_SIZE = 0x1000"
definition CACHE_LINE_SIZE :: u32 where "CACHE_LINE_SIZE = 16"

text \<open>
  The size of \<^verbatim>\<open>inv_page_t\<close>: a mutex of 64 bytes, eight words and a table of 29 pointers.
\<close>

definition INV_PAGE_SIZE :: nat where "INV_PAGE_SIZE = 212"

record page_state =
  num_page_colors :: nat
  free_pages :: "nat \<Rightarrow> ptr"
  page_count :: "nat \<Rightarrow> u32"
  lnext :: "ptr \<Rightarrow> ptr"
  llast :: "ptr \<Rightarrow> ptr"
  inv_page_table :: ptr

subsection \<open>Descriptors\<close>

definition inv_page_lookup :: "u32 \<Rightarrow> page_state \<Rightarrow> ptr" where
  "inv_page_lookup addr a = inv_page_table a + unat (addr div PAGE_SIZE) * INV_PAGE_SIZE"

definition inv_page_addr :: "ptr \<Rightarrow> page_state \<Rightarrow> u32" where
  "inv_page_addr p a = word_of_nat ((p - inv_page_table a) div INV_PAGE_SIZE) * PAGE_SIZE"

definition inv_page_static_init :: "(u32 \<Rightarrow> u32) \<Rightarrow> u32 \<Rightarrow> static_state \<Rightarrow> bytes \<Rightarrow> page_state \<Rightarrow> (static_state \<times> bytes \<times> page_state) option" where
  "inv_page_static_init expand pages s m a = do {
     (t, s, m) \<leftarrow> static_alloc expand (pages * word_of_nat INV_PAGE_SIZE) (word_of_nat INV_PAGE_SIZE) s m;
     Some (s, m, a\<lparr>inv_page_table := unat t\<rparr>) }"

definition page_color :: "u32 \<Rightarrow> page_state \<Rightarrow> nat" where
  "page_color addr a = unat (addr div PAGE_SIZE) mod num_page_colors a"

subsection \<open>Allocating and freeing\<close>

text \<open>The statements that both allocators execute for a colour that has a page.\<close>

definition take_page :: "nat \<Rightarrow> page_state \<Rightarrow> u32 \<times> page_state" where
  "take_page c a =
     (let a = a\<lparr>page_count := (page_count a)(c := page_count a c - 1)\<rparr>;
          out = inv_page_addr (free_pages a c) a;
          (p, nxt, lst) = clist_delete (free_pages a c) (lnext a, llast a)
      in (out, a\<lparr>free_pages := (free_pages a)(c := p), lnext := nxt, llast := lst\<rparr>))"

primrec alloc_from :: "nat \<Rightarrow> color_tab \<Rightarrow> nat \<Rightarrow> page_state \<Rightarrow> u32 \<times> page_state" where
  "alloc_from 0 ct i a = (0, a)"
| "alloc_from (Suc k) ct i a =
     (if 0 \<noteq> page_count a (ct_list ct i) then take_page (ct_list ct i) a else alloc_from k ct (i + 1) a)"

definition phys_page_alloc :: "color_tab \<Rightarrow> page_state \<Rightarrow> u32 \<times> page_state" where
  "phys_page_alloc ct a = alloc_from (num_page_colors a) ct 0 a"

definition kern_page_alloc :: "color_tab \<Rightarrow> page_state \<Rightarrow> u32 \<times> color_tab \<times> page_state" where
  "kern_page_alloc ct a =
     (if 0 \<noteq> page_count a (ct_list ct 0) then
        let (out, a) = take_page (ct_list ct 0) a
        in (out, change_color_count (num_page_colors a) (ct_list ct 0) 1 ct, a)
      else (0, ct, a))"

definition put_page :: "u32 \<Rightarrow> page_state \<Rightarrow> page_state" where
  "put_page addr a =
     (let c = page_color addr a;
          (p, nxt, lst) = clist_insert (free_pages a c) (inv_page_lookup addr a) (lnext a, llast a)
      in a\<lparr>free_pages := (free_pages a)(c := p), lnext := nxt, llast := lst, page_count := (page_count a)(c := page_count a c + 1)\<rparr>)"

definition phys_page_free_one :: "u32 \<Rightarrow> color_tab \<times> page_state \<Rightarrow> color_tab \<times> page_state" where
  "phys_page_free_one addr r = (case r of (ct, a) \<Rightarrow>
     (change_color_count (num_page_colors a) (page_color addr a) (-1) ct, put_page addr a))"

definition phys_page_insert :: "u32 list \<Rightarrow> page_state \<Rightarrow> page_state" where
  "phys_page_insert addrs a = fold put_page addrs a"

definition phys_page_free :: "u32 list \<Rightarrow> color_tab \<Rightarrow> page_state \<Rightarrow> color_tab \<times> page_state" where
  "phys_page_free addrs ct a = fold phys_page_free_one addrs (ct, a)"

text \<open>The arrays are what the memory from the start-up allocator holds.\<close>

definition page_alloc_static_init :: "(u32 \<Rightarrow> u32) \<Rightarrow> u32 \<Rightarrow> static_state \<Rightarrow> bytes \<Rightarrow> page_state \<Rightarrow> (static_state \<times> bytes \<times> page_state) option" where
  "page_alloc_static_init expand cache_size s m a = do {
     let a = a\<lparr>num_page_colors := unat (cache_size div PAGE_SIZE)\<rparr>;
     (fp, s, m) \<leftarrow> static_alloc expand (word_of_nat (num_page_colors a) * 4) CACHE_LINE_SIZE s m;
     (pc, s, m) \<leftarrow> static_alloc expand (word_of_nat (num_page_colors a) * 4) CACHE_LINE_SIZE s m;
     Some (s, m, a\<lparr>free_pages := (\<lambda>c. unat (load32 (unat fp + 4 * c) m)), page_count := (\<lambda>c. load32 (unat pc + 4 * c) m)\<rparr>) }"

subsection \<open>The invariant\<close>

text \<open>A page is named by its number; \<open>F\<close> is the set of free pages.\<close>

definition page_ptr :: "page_state \<Rightarrow> nat \<Rightarrow> ptr" where
  "page_ptr a k = inv_page_table a + k * INV_PAGE_SIZE"

definition of_color :: "page_state \<Rightarrow> nat set \<Rightarrow> nat \<Rightarrow> nat set" where
  "of_color a F c = {k \<in> F. k mod num_page_colors a = c}"

definition pages_ok :: "page_state \<Rightarrow> nat set \<Rightarrow> bool" where
  "pages_ok a F \<longleftrightarrow> 0 < num_page_colors a \<and> inv_page_table a \<noteq> NULL \<and> F \<subseteq> {..<2 ^ 20} \<and>
     rings (lnext a, llast a) (free_pages a) (\<lambda>c. page_ptr a ` of_color a F c) \<and>
     (\<forall>c. page_count a c = word_of_nat (card (of_color a F c)))"

lemma page_ptr_inj: "inj (page_ptr a)"
  by (auto simp: inj_def page_ptr_def INV_PAGE_SIZE_def)

lemma inv_page_addr_ptr: "inv_page_addr (page_ptr a k) a = word_of_nat k * PAGE_SIZE"
  by (simp add: inv_page_addr_def page_ptr_def INV_PAGE_SIZE_def)

lemma page_number:
  assumes "k < 2 ^ 20"
  shows "unat ((word_of_nat k * PAGE_SIZE) div PAGE_SIZE) = k"
proof -
  have "unat (word_of_nat k * PAGE_SIZE) = k * 4096"
    using assms by (simp add: PAGE_SIZE_def unat_word_ariths unat_of_nat)
  then show ?thesis by (simp add: unat_div PAGE_SIZE_def)
qed

lemma page_lookup: "k < 2 ^ 20 \<Longrightarrow> inv_page_lookup (word_of_nat k * PAGE_SIZE) a = page_ptr a k"
  "k < 2 ^ 20 \<Longrightarrow> page_color (word_of_nat k * PAGE_SIZE) a = k mod num_page_colors a"
  by (simp_all add: inv_page_lookup_def page_color_def page_ptr_def page_number)

lemma card_of_color:
  assumes "pages_ok a F"
  shows "unat (page_count a c) = card (of_color a F c)" "finite (of_color a F c)" "card (of_color a F c) \<le> 2 ^ 20"
proof -
  have sub: "of_color a F c \<subseteq> {..<2 ^ 20}" using assms by (auto simp: pages_ok_def of_color_def)
  then show "finite (of_color a F c)" by (rule finite_subset) simp
  show le: "card (of_color a F c) \<le> 2 ^ 20" using card_mono [OF _ sub] by simp
  then show "unat (page_count a c) = card (of_color a F c)" using assms by (simp add: pages_ok_def unat_of_nat)
qed

lemma no_pages: "pages_ok a F \<Longrightarrow> page_count a c = 0 \<longleftrightarrow> of_color a F c = {}"
  using card_of_color [of a F c] by (auto simp: unat_eq_0 [symmetric])

subsection \<open>Correctness\<close>

lemma take_page_ok:
  assumes ok: "pages_ok a F" and c: "page_count a c \<noteq> 0"
  obtains k a' where "take_page c a = (word_of_nat k * PAGE_SIZE, a')" "k \<in> F" "k mod num_page_colors a = c"
    "pages_ok a' (F - {k})" "num_page_colors a' = num_page_colors a"
proof -
  let ?S = "\<lambda>c. page_ptr a ` of_color a F c"
  have R: "rings (lnext a, llast a) (free_pages a) ?S" using ok by (simp add: pages_ok_def)
  obtain ps where ps: "free_pages a c = clist_head ps" "set ps = ?S c" by (rule ringsD [OF R])
  have "of_color a F c \<noteq> {}" using no_pages [OF ok] c by simp
  then have "ps \<noteq> []" using ps(2) by auto
  then have "free_pages a c \<in> ?S c" using ps by (cases ps) (auto simp: clist_head_def)
  then obtain k where k: "free_pages a c = page_ptr a k" "k \<in> of_color a F c" by blast
  obtain p nxt lst where d: "clist_delete (free_pages a c) (lnext a, llast a) = (p, nxt, lst)" by (metis surj_pair)
  define a' where "a' = a\<lparr>page_count := (page_count a)(c := page_count a c - 1), free_pages := (free_pages a)(c := p), lnext := nxt, llast := lst\<rparr>"
  have run: "take_page c a = (word_of_nat k * PAGE_SIZE, a')"
    using d inv_page_addr_ptr [of a k] by (simp add: take_page_def a'_def Let_def k(1) inv_page_addr_def)
  have kc: "k \<in> F" "k mod num_page_colors a = c" using k(2) by (simp_all add: of_color_def)
  have col: "of_color a' (F - {k}) x = (if x = c then of_color a F c - {k} else of_color a F x)" for x
    using kc(2) by (auto simp: of_color_def a'_def)
  have img: "page_ptr a ` (of_color a F c - {k}) = ?S c - {page_ptr a k}"
    using image_set_diff [OF page_ptr_inj, of a "of_color a F c" "{k}"] by simp
  have "rings (nxt, lst) ((free_pages a)(c := p)) (?S(c := ?S c - {page_ptr a k}))"
    using rings_delete [OF R _ d, of c] k by simp
  moreover have pp: "page_ptr a' = page_ptr a" by (simp add: fun_eq_iff page_ptr_def a'_def)
  have "(\<lambda>x. page_ptr a' ` of_color a' (F - {k}) x) = ?S(c := ?S c - {page_ptr a k})"
    using img by (simp add: fun_eq_iff col pp)
  ultimately have "rings (lnext a', llast a') (free_pages a') (\<lambda>x. page_ptr a' ` of_color a' (F - {k}) x)" by (simp add: a'_def)
  moreover have "page_count a' x = word_of_nat (card (of_color a' (F - {k}) x))" for x
  proof (cases "x = c")
    case True
    have "card (of_color a F c) \<noteq> 0" using k(2) card_of_color(2) [OF ok] by auto
    then obtain m where "card (of_color a F c) = Suc m" by (cases "card (of_color a F c)") auto
    then show ?thesis using True ok k(2) card_of_color(2) [OF ok, of c] unfolding col
      by (simp add: a'_def pages_ok_def)
  qed (use ok in \<open>simp add: col, simp add: a'_def pages_ok_def\<close>)
  moreover have "num_page_colors a' = num_page_colors a" "inv_page_table a' = inv_page_table a" by (simp_all add: a'_def)
  ultimately have "pages_ok a' (F - {k})" using ok by (simp add: pages_ok_def subset_insertI2 Diff_subset [THEN subset_trans])
  then show ?thesis using that [OF run kc] by (simp add: a'_def)
qed

lemma put_page_ok:
  assumes ok: "pages_ok a F" and k: "k < 2 ^ 20" "k \<notin> F"
  shows "pages_ok (put_page (word_of_nat k * PAGE_SIZE) a) (insert k F)"
    "num_page_colors (put_page (word_of_nat k * PAGE_SIZE) a) = num_page_colors a"
proof -
  let ?S = "\<lambda>c. page_ptr a ` of_color a F c" and ?c = "k mod num_page_colors a"
  have R: "rings (lnext a, llast a) (free_pages a) ?S" using ok by (simp add: pages_ok_def)
  obtain p nxt lst where d: "clist_insert (free_pages a ?c) (page_ptr a k) (lnext a, llast a) = (p, nxt, lst)" by (metis surj_pair)
  define a' where "a' = a\<lparr>free_pages := (free_pages a)(?c := p), lnext := nxt, llast := lst, page_count := (page_count a)(?c := page_count a ?c + 1)\<rparr>"
  have run: "put_page (word_of_nat k * PAGE_SIZE) a = a'" using d k(1) by (simp add: put_page_def page_lookup a'_def Let_def)
  have new: "page_ptr a k \<notin> ?S x" for x using k(2) injD [OF page_ptr_inj] by (auto simp: of_color_def)
  have null: "page_ptr a k \<noteq> NULL" using ok by (simp add: pages_ok_def page_ptr_def NULL_def)
  have col: "of_color a' (insert k F) x = (if x = ?c then insert k (of_color a F ?c) else of_color a F x)" for x
    by (auto simp: of_color_def a'_def)
  have "rings (nxt, lst) ((free_pages a)(?c := p)) (?S(?c := insert (page_ptr a k) (?S ?c)))"
    by (rule rings_insert(2) [OF R new null d])
  moreover have pp: "page_ptr a' = page_ptr a" by (simp add: fun_eq_iff page_ptr_def a'_def)
  have "(\<lambda>x. page_ptr a' ` of_color a' (insert k F) x) = ?S(?c := insert (page_ptr a k) (?S ?c))"
    by (simp add: fun_eq_iff col pp)
  ultimately have "rings (lnext a', llast a') (free_pages a') (\<lambda>x. page_ptr a' ` of_color a' (insert k F) x)" by (simp add: a'_def)
  moreover have "page_count a' x = word_of_nat (card (of_color a' (insert k F) x))" for x
  proof (cases "x = ?c")
    case True
    have "k \<notin> of_color a F ?c" using k(2) by (simp add: of_color_def)
    then show ?thesis using True ok card_of_color(2) [OF ok, of ?c] unfolding col by (simp add: a'_def pages_ok_def add.commute)
  qed (use ok in \<open>simp add: col, simp add: a'_def pages_ok_def\<close>)
  moreover have "num_page_colors a' = num_page_colors a" "inv_page_table a' = inv_page_table a" by (simp_all add: a'_def)
  ultimately show "pages_ok (put_page (word_of_nat k * PAGE_SIZE) a) (insert k F)"
    using ok k(1) unfolding run by (simp add: pages_ok_def)
  show "num_page_colors (put_page (word_of_nat k * PAGE_SIZE) a) = num_page_colors a" unfolding run by (simp add: a'_def)
qed

definition allocated :: "color_tab \<Rightarrow> page_state \<Rightarrow> nat set \<Rightarrow> u32 \<times> page_state \<Rightarrow> bool" where
  "allocated ct a F r \<longleftrightarrow> (\<exists>p\<in>F. \<exists>a' j. r = (word_of_nat p * PAGE_SIZE, a') \<and> pages_ok a' (F - {p}) \<and> j < num_page_colors a \<and>
     p mod num_page_colors a = ct_list ct j \<and> (\<forall>l<j. of_color a F (ct_list ct l) = {}))"

lemma alloc_from_ok:
  assumes ok: "pages_ok a F" and i: "i + k = num_page_colors a"
    and none: "\<And>j. j < i \<Longrightarrow> of_color a F (ct_list ct j) = {}"
  shows "if \<forall>j\<in>{i..<num_page_colors a}. of_color a F (ct_list ct j) = {} then alloc_from k ct i a = (0, a)
    else allocated ct a F (alloc_from k ct i a)"
  using i none
proof (induction k arbitrary: i)
  case (Suc k)
  show ?case
  proof (cases "page_count a (ct_list ct i) = 0")
    case True
    then have e: "of_color a F (ct_list ct i) = {}" using no_pages [OF ok] by simp
    have "{i..<num_page_colors a} = insert i {i + 1..<num_page_colors a}" using Suc.prems(1) by auto
    moreover have "of_color a F (ct_list ct j) = {}" if "j < i + 1" for j using that e Suc.prems(2) by (cases "j = i") simp_all
    ultimately show ?thesis using Suc.IH [of "i + 1"] Suc.prems(1) True e by (auto split: if_splits)
  next
    case False
    then obtain p a' where "take_page (ct_list ct i) a = (word_of_nat p * PAGE_SIZE, a')" "p \<in> F" "p mod num_page_colors a = ct_list ct i"
      "pages_ok a' (F - {p})" by (rule take_page_ok [OF ok])
    moreover have "of_color a F (ct_list ct i) \<noteq> {}" using False no_pages [OF ok] by simp
    moreover have "i < num_page_colors a" using Suc.prems(1) by simp
    moreover from calculation have "allocated ct a F (take_page (ct_list ct i) a)" using Suc.prems(2) unfolding allocated_def by metis
    ultimately show ?thesis using False by auto
  qed
qed simp

lemma phys_page_alloc_ok:
  assumes "pages_ok a F" "color_ok (num_page_colors a) ct"
  shows "if F = {} then phys_page_alloc ct a = (0, a) else allocated ct a F (phys_page_alloc ct a)"
proof -
  let ?n = "num_page_colors a"
  have "F = {}" if none: "\<forall>j\<in>{0..<?n}. of_color a F (ct_list ct j) = {}"
  proof (rule equals0I)
    fix p assume p: "p \<in> F"
    have "p mod ?n \<in> elems ?n (ct_list ct)" using assms by (simp add: color_ok_def pages_ok_def)
    then obtain j where "j \<in> {1..?n}" "p mod ?n = ct_list ct (j - 1)" by (auto simp: elems_def)
    moreover from this have "p \<in> of_color a F (ct_list ct (j - 1))" using p by (simp add: of_color_def)
    moreover have "j - 1 \<in> {0..<?n}" using \<open>j \<in> {1..?n}\<close> by auto
    ultimately show False using none by blast
  qed
  moreover have "\<forall>j\<in>{0..<?n}. of_color a F (ct_list ct j) = {}" if "F = {}" using that by (simp add: of_color_def)
  ultimately show ?thesis
    using alloc_from_ok [OF assms(1), of 0 ?n ct] unfolding phys_page_alloc_def by (auto split: if_splits)
qed

text \<open>C12: Allocation of a physical page.  When no page is free the result is address 0 and nothing changes.  Otherwise the
  result is the address of a page that was free, which is free no longer, and every other page is
  as it was; its colour is the first in the order of the colour table of which any page is free.\<close>

theorem phys_page_alloc_correct:
  assumes "pages_ok a F" "color_ok (num_page_colors a) ct"
  shows "if F = {} then phys_page_alloc ct a = (0, a)
    else \<exists>p\<in>F. \<exists>a' j. phys_page_alloc ct a = (word_of_nat p * PAGE_SIZE, a') \<and> pages_ok a' (F - {p}) \<and> j < num_page_colors a \<and>
      p mod num_page_colors a = ct_list ct j \<and> (\<forall>l<j. of_color a F (ct_list ct l) = {})"
  using phys_page_alloc_ok [OF assms] unfolding allocated_def .

lemma kern_page_alloc_ok:
  assumes ok: "pages_ok a F" "color_ok (num_page_colors a) ct" and c: "page_count a (ct_list ct 0) \<noteq> 0"
    "uint (ct_count ct (ct_list ct 0)) + 1 < 2 ^ 32"
  obtains p ct' a' where "kern_page_alloc ct a = (word_of_nat p * PAGE_SIZE, ct', a')" "p \<in> F" "p mod num_page_colors a = ct_list ct 0"
    "pages_ok a' (F - {p})" "num_page_colors a' = num_page_colors a" "color_ok (num_page_colors a) ct'"
    "ct_count ct' = (ct_count ct)(ct_list ct 0 := ct_count ct (ct_list ct 0) + 1)"
proof -
  obtain p a' where t: "take_page (ct_list ct 0) a = (word_of_nat p * PAGE_SIZE, a')" "p \<in> F" "p mod num_page_colors a = ct_list ct 0"
    "pages_ok a' (F - {p})" "num_page_colors a' = num_page_colors a" by (rule take_page_ok [OF ok(1) c(1)])
  have n: "ct_list ct 0 < num_page_colors a" using color_head(2) [OF ok(2), of 0] ok(1) by (simp add: pages_ok_def)
  have "if sint (1::u32) < 0 then - sint (1::u32) \<le> uint (ct_count ct (ct_list ct 0)) else uint (ct_count ct (ct_list ct 0)) + sint (1::u32) < 2 ^ 32"
    using c(2) by simp
  note cc = change_color_count_ok [OF ok(2) n this]
  show ?thesis by (rule that [OF _ t(2-5) cc]) (use c(1) t(1,5) in \<open>simp add: kern_page_alloc_def\<close>)
qed

text \<open>C28: A kernel page comes from a least used colour of its table or not at all, the count of the colour goes up by one, and
  freeing the page again gives back the set of free pages and all counts; both tables stay well
  formed throughout.\<close>

theorem kern_page_alloc_free:
  assumes "pages_ok a F" "color_ok (num_page_colors a) ct" "uint (ct_count ct (ct_list ct 0)) + 1 < 2 ^ 32"
  shows "if of_color a F (ct_list ct 0) = {} then kern_page_alloc ct a = (0, ct, a)
    else \<exists>p\<in>F. \<exists>ct' a' ct'' a''. kern_page_alloc ct a = (word_of_nat p * PAGE_SIZE, ct', a') \<and>
      (\<forall>c<num_page_colors a. ct_count ct (p mod num_page_colors a) \<le> ct_count ct c) \<and>
      ct_count ct' = (ct_count ct)(p mod num_page_colors a := ct_count ct (p mod num_page_colors a) + 1) \<and>
      pages_ok a' (F - {p}) \<and> color_ok (num_page_colors a) ct' \<and>
      phys_page_free [word_of_nat p * PAGE_SIZE] ct' a' = (ct'', a'') \<and> pages_ok a'' F \<and> color_ok (num_page_colors a) ct'' \<and>
      ct_count ct'' = ct_count ct"
proof (cases "page_count a (ct_list ct 0) = 0")
  case True
  then show ?thesis using no_pages [OF assms(1)] by (simp add: kern_page_alloc_def)
next
  case False
  let ?n = "num_page_colors a"
  obtain p ct' a' where k: "kern_page_alloc ct a = (word_of_nat p * PAGE_SIZE, ct', a')" "p \<in> F" "p mod ?n = ct_list ct 0"
    "pages_ok a' (F - {p})" "num_page_colors a' = ?n" "color_ok ?n ct'"
    "ct_count ct' = (ct_count ct)(ct_list ct 0 := ct_count ct (ct_list ct 0) + 1)"
    by (rule kern_page_alloc_ok [OF assms(1,2) False assms(3)])
  have p: "p < 2 ^ 20" "insert p (F - {p}) = F" using assms(1) k(2) by (auto simp: pages_ok_def)
  have n: "p mod ?n < ?n" using assms(1) by (simp add: pages_ok_def)
  have "uint (ct_count ct' (p mod ?n)) = uint (ct_count ct (ct_list ct 0)) + 1"
    using uint_add_signed [of 1 "ct_count ct (ct_list ct 0)"] assms(3) k(3,7) by simp
  then have "if sint (-1::u32) < 0 then - sint (-1::u32) \<le> uint (ct_count ct' (p mod ?n)) else uint (ct_count ct' (p mod ?n)) + sint (-1::u32) < 2 ^ 32"
    by simp
  note cc = change_color_count_ok [OF k(6) n this]
  have "phys_page_free [word_of_nat p * PAGE_SIZE] ct' a' =
      (change_color_count ?n (p mod ?n) (-1) ct', put_page (word_of_nat p * PAGE_SIZE) a')"
    by (simp add: phys_page_free_def phys_page_free_one_def page_lookup [OF p(1)] k(5))
  moreover have "pages_ok (put_page (word_of_nat p * PAGE_SIZE) a') F" using put_page_ok(1) [OF k(4) p(1)] p(2) by simp
  moreover have "ct_count (change_color_count ?n (p mod ?n) (-1) ct') = ct_count ct" using cc(2) k(7,3) by (auto simp: fun_eq_iff)
  moreover have "\<forall>c<?n. ct_count ct (p mod ?n) \<le> ct_count ct c" using color_head(1) [OF assms(2)] k(3) by simp
  moreover have "of_color a F (ct_list ct 0) \<noteq> {}" using False no_pages [OF assms(1)] by simp
  ultimately show ?thesis using k cc(1) by auto
qed

text \<open>A stock of pages handed over at start-up becomes free.\<close>

lemma phys_page_insert_ok:
  assumes "pages_ok a F" "distinct ks" "set ks \<subseteq> {..<2 ^ 20} - F"
  shows "pages_ok (phys_page_insert (map (\<lambda>k. word_of_nat k * PAGE_SIZE) ks) a) (F \<union> set ks)"
  using assms
proof (induction ks arbitrary: a F)
  case (Cons k ks)
  have "pages_ok (put_page (word_of_nat k * PAGE_SIZE) a) (insert k F)" by (rule put_page_ok(1)) (use Cons.prems in auto)
  then have "pages_ok (phys_page_insert (map (\<lambda>k. word_of_nat k * PAGE_SIZE) ks) (put_page (word_of_nat k * PAGE_SIZE) a)) (insert k F \<union> set ks)"
    by (rule Cons.IH) (use Cons.prems in auto)
  then show ?case by (simp add: phys_page_insert_def)
qed (simp add: phys_page_insert_def)

definition demo_pages :: page_state where
  "demo_pages = \<lparr>num_page_colors = 3, free_pages = (\<lambda>_. NULL), page_count = (\<lambda>_. 0), lnext = (\<lambda>_. NULL), llast = (\<lambda>_. NULL), inv_page_table = 1000\<rparr>"

definition demo_stock :: page_state where
  "demo_stock = phys_page_insert [9 * PAGE_SIZE, 10 * PAGE_SIZE] demo_pages"

lemma demo_stock_ok: "pages_ok demo_stock {9, 10}" "num_page_colors demo_stock = 3"
proof -
  have "pages_ok demo_pages {}"
    by (auto simp: pages_ok_def demo_pages_def rings_def of_color_def ring_def clist_head_def NULL_def intro!: exI [of _ "[]"])
  from phys_page_insert_ok [OF this, of "[9, 10]"] show "pages_ok demo_stock {9, 10}" by (simp add: demo_stock_def)
  show "num_page_colors demo_stock = 3"
    by (simp add: demo_stock_def phys_page_insert_def demo_pages_def put_page_def Let_def split: prod.splits)
qed

theorem phys_page_alloc_correct_witness:
  "fst (phys_page_alloc demo_colors demo_stock) \<in> {9 * PAGE_SIZE, 10 * PAGE_SIZE}"
  using phys_page_alloc_correct [OF demo_stock_ok(1), of demo_colors] demo_colors_ok demo_stock_ok(2) by auto

theorem kern_page_alloc_free_witness:
  "fst (kern_page_alloc demo_colors demo_stock) \<in> {9 * PAGE_SIZE, 10 * PAGE_SIZE}"
proof -
  have "9 \<in> of_color demo_stock {9, 10} 0" by (simp add: of_color_def demo_stock_ok(2))
  then have "of_color demo_stock {9, 10} (ct_list demo_colors 0) \<noteq> {}" by (auto simp: demo_colors_def)
  moreover have "uint (ct_count demo_colors (ct_list demo_colors 0)) + 1 < 2 ^ 32" by (simp add: demo_colors_def)
  ultimately show ?thesis
    using kern_page_alloc_free [OF demo_stock_ok(1), of demo_colors] demo_colors_ok demo_stock_ok(2) by auto
qed

end
