(* ===== verification/Page_Cache.thy ===== *)
theory Page_Cache
  imports Page_Alloc Hash_Table
begin

text \<open>
  \<^verbatim>\<open>src/mem/phys_mem/page_cache.c\<close>: the cache of file pages, a hash table of page descriptors by inode
  number and offset.  The two mutexes are held around the accesses; an operation is one
  sequential step.
\<close>

definition NULL_PHYS_PAGE :: u32 where "NULL_PHYS_PAGE = 0xffffffff"
definition PAGE_UNUSED :: u32 where "PAGE_UNUSED = 1"
definition PAGE_USED :: u32 where "PAGE_USED = 2"
definition PAGE_HASH_TABLE_SIZE :: nat where "PAGE_HASH_TABLE_SIZE = 65535"

text \<open>\<open>pg_src\<close> is the field \<^verbatim>\<open>src\<close> of the descriptors, the pair of \<^verbatim>\<open>inode\<close> and \<^verbatim>\<open>offset\<close>.\<close>

record page_cache =
  pg_src :: "ptr \<Rightarrow> u32 \<times> u32"
  pg_type :: "ptr \<Rightarrow> u32"
  pg_table :: htab

definition page_hash :: "u32 \<times> u32 \<Rightarrow> u32" where
  "page_hash k = fst k * (snd k - 1)"

definition page_eq :: "u32 \<times> u32 \<Rightarrow> u32 \<times> u32 \<Rightarrow> bool" where
  "page_eq x y \<longleftrightarrow> fst x = fst y \<and> snd x = snd y"

definition page_cache_lookup :: "u32 \<Rightarrow> u32 \<Rightarrow> page_state \<Rightarrow> page_cache \<Rightarrow> u32 option" where
  "page_cache_lookup inode offset a c = do {
     p \<leftarrow> hash_table_lookup (pg_src c) page_eq page_hash PAGE_HASH_TABLE_SIZE (pg_table c) (inode, offset);
     Some (if NULL \<noteq> p then inv_page_addr p a else NULL_PHYS_PAGE) }"

definition page_cache_insert :: "u32 \<Rightarrow> u32 \<Rightarrow> u32 \<Rightarrow> page_state \<Rightarrow> page_cache \<Rightarrow> page_cache" where
  "page_cache_insert addr inode offset a c =
     (let p = inv_page_lookup addr a;
          c = c\<lparr>pg_type := (pg_type c)(p := PAGE_USED), pg_src := (pg_src c)(p := (inode, offset))\<rparr>
      in c\<lparr>pg_table := snd (hash_table_insert (pg_src c) page_hash PAGE_HASH_TABLE_SIZE (pg_table c) p)\<rparr>)"

definition page_cache_delete :: "u32 \<Rightarrow> page_state \<Rightarrow> page_cache \<Rightarrow> page_cache option" where
  "page_cache_delete addr a c = do {
     let p = inv_page_lookup addr a;
     let c = c\<lparr>pg_type := (pg_type c)(p := PAGE_UNUSED)\<rparr>;
     (_, t) \<leftarrow> hash_table_delete (pg_src c) page_eq page_hash PAGE_HASH_TABLE_SIZE (pg_table c) (pg_src c p);
     Some (c\<lparr>pg_table := t\<rparr>) }"

subsection \<open>The cache is a map\<close>

interpretation page: hash_keys "\<lambda>_. True" uid page_eq page_hash PAGE_HASH_TABLE_SIZE for uid
  by unfold_locales (auto simp: page_eq_def prod_eq_iff PAGE_HASH_TABLE_SIZE_def)

text \<open>The pages with the numbers \<open>S\<close> are cached.\<close>

definition cache_ok :: "page_state \<Rightarrow> page_cache \<Rightarrow> nat set \<Rightarrow> bool" where
  "cache_ok a c S \<longleftrightarrow> inv_page_table a \<noteq> NULL \<and> S \<subseteq> {..<2 ^ 20} \<and>
     table_ok (\<lambda>_. True) (pg_src c) page_hash PAGE_HASH_TABLE_SIZE (pg_table c) (page_ptr a ` S)"

definition cache_abs :: "page_state \<Rightarrow> page_cache \<Rightarrow> u32 \<times> u32 \<Rightarrow> u32 option" where
  "cache_abs a c k = (case page_cache_lookup (fst k) (snd k) a c of
     None \<Rightarrow> None | Some addr \<Rightarrow> if addr = NULL_PHYS_PAGE then None else Some addr)"

lemma page_address_valid:
  assumes "k < 2 ^ 20"
  shows "word_of_nat k * PAGE_SIZE \<noteq> NULL_PHYS_PAGE"
proof
  assume "word_of_nat k * PAGE_SIZE = NULL_PHYS_PAGE"
  then have "unat (word_of_nat k * PAGE_SIZE) = 0xffffffff" by (simp add: NULL_PHYS_PAGE_def)
  moreover have "unat (word_of_nat k * PAGE_SIZE) = k * 4096"
    using assms by (simp add: PAGE_SIZE_def unat_word_ariths unat_of_nat)
  ultimately have "(k * 4096) mod 4096 = 0xffffffff mod (4096::nat)" by simp
  then show False by simp
qed

lemma cache_member:
  assumes "cache_ok a c S" "k \<in> S" "pg_src c (page_ptr a k) = key"
  shows "page_cache_lookup (fst key) (snd key) a c = Some (word_of_nat k * PAGE_SIZE)" "cache_abs a c key = Some (word_of_nat k * PAGE_SIZE)"
proof -
  have "page_ptr a k \<noteq> NULL" using assms(1) by (simp add: cache_ok_def page_ptr_def NULL_def)
  moreover have "hash_table_lookup (pg_src c) page_eq page_hash PAGE_HASH_TABLE_SIZE (pg_table c) (fst key, snd key) = Some (page_ptr a k)"
    using page.lookup_member [of "pg_src c" "pg_table c" "page_ptr a ` S" "page_ptr a k"] assms by (simp add: cache_ok_def)
  ultimately show l: "page_cache_lookup (fst key) (snd key) a c = Some (word_of_nat k * PAGE_SIZE)"
    by (simp add: page_cache_lookup_def inv_page_addr_ptr)
  have "k < 2 ^ 20" using assms(1,2) by (auto simp: cache_ok_def)
  then show "cache_abs a c key = Some (word_of_nat k * PAGE_SIZE)" using l page_address_valid by (simp add: cache_abs_def)
qed

lemma cache_absent:
  assumes "cache_ok a c S" "key \<notin> pg_src c ` page_ptr a ` S"
  shows "page_cache_lookup (fst key) (snd key) a c = Some NULL_PHYS_PAGE" "cache_abs a c key = None"
proof -
  have "hash_table_lookup (pg_src c) page_eq page_hash PAGE_HASH_TABLE_SIZE (pg_table c) (fst key, snd key) = Some NULL"
    using page.lookup_absent [of "pg_src c" "pg_table c" "page_ptr a ` S" key] assms by (simp add: cache_ok_def)
  then show "page_cache_lookup (fst key) (snd key) a c = Some NULL_PHYS_PAGE" by (simp add: page_cache_lookup_def)
  then show "cache_abs a c key = None" by (simp add: cache_abs_def)
qed

text \<open>Two caches that hold the same page under a key, or none, agree on it.\<close>

lemma cache_abs_same:
  assumes "cache_ok a c S" "cache_ok a c' S'"
    "\<And>k. k \<in> S \<and> pg_src c (page_ptr a k) = key \<longleftrightarrow> k \<in> S' \<and> pg_src c' (page_ptr a k) = key"
  shows "cache_abs a c' key = cache_abs a c key"
proof (cases "\<exists>k\<in>S. pg_src c (page_ptr a k) = key")
  case True
  then obtain k where "k \<in> S" "pg_src c (page_ptr a k) = key" by blast
  then show ?thesis using cache_member(2) [OF assms(1), of k key] cache_member(2) [OF assms(2), of k key] assms(3) [of k] by simp
next
  case False
  then have "key \<notin> pg_src c ` page_ptr a ` S" "key \<notin> pg_src c' ` page_ptr a ` S'" using assms(3) by auto
  then show ?thesis using cache_absent(2) [OF assms(1)] cache_absent(2) [OF assms(2)] by simp
qed

lemma cache_insert_ok:
  assumes ok: "cache_ok a c S" and k: "k < 2 ^ 20" "k \<notin> S" "(ino, off) \<notin> pg_src c ` page_ptr a ` S"
    and c': "c' = page_cache_insert (word_of_nat k * PAGE_SIZE) ino off a c"
  shows "cache_ok a c' (insert k S)" "pg_src c' = (pg_src c)(page_ptr a k := (ino, off))"
proof -
  let ?p = "page_ptr a k"
  define t where "t = c\<lparr>pg_type := (pg_type c)(?p := PAGE_USED), pg_src := (pg_src c)(?p := (ino, off))\<rparr>"
  have run: "c' = t\<lparr>pg_table := snd (hash_table_insert (pg_src t) page_hash PAGE_HASH_TABLE_SIZE (pg_table t) ?p)\<rparr>"
    by (simp add: c' page_cache_insert_def page_lookup [OF k(1)] t_def Let_def)
  then show "pg_src c' = (pg_src c)(?p := (ino, off))" by (simp add: t_def)
  have new: "?p \<notin> page_ptr a ` S" using k(2) injD [OF page_ptr_inj] by auto
  have ids: "pg_src t x = pg_src c x" if "x \<in> page_ptr a ` S" for x
  proof -
    have "x \<noteq> ?p" using that new by blast
    then show ?thesis by (simp add: t_def)
  qed
  have "table_ok (\<lambda>_. True) (pg_src t) page_hash PAGE_HASH_TABLE_SIZE (pg_table t) (page_ptr a ` S)"
    by (rule table_ok_cong [where uid = "pg_src c"]) (use ok ids in \<open>simp_all add: cache_ok_def t_def\<close>)
  moreover have "?p \<noteq> NULL" using ok by (simp add: cache_ok_def page_ptr_def NULL_def)
  moreover have "pg_src t ?p \<notin> pg_src t ` page_ptr a ` S"
  proof -
    have "pg_src t ` page_ptr a ` S = pg_src c ` page_ptr a ` S" by (rule image_cong) (simp_all add: ids)
    then show ?thesis using k(3) by (simp add: t_def)
  qed
  ultimately have "table_ok (\<lambda>_. True) (pg_src t) page_hash PAGE_HASH_TABLE_SIZE (pg_table c') (insert ?p (page_ptr a ` S))"
    using page.insert_ok [of "pg_src t" "pg_table t" "page_ptr a ` S" ?p] new by (simp add: run)
  then show "cache_ok a c' (insert k S)" using ok k(1) by (simp add: cache_ok_def run)
qed

lemma cache_insert_abs:
  assumes ok: "cache_ok a c S" and k: "k < 2 ^ 20" "k \<notin> S" "(ino, off) \<notin> pg_src c ` page_ptr a ` S"
  shows "cache_abs a (page_cache_insert (word_of_nat k * PAGE_SIZE) ino off a c) = (cache_abs a c)((ino, off) \<mapsto> word_of_nat k * PAGE_SIZE)"
proof
  fix key
  note i = cache_insert_ok [OF ok k refl]
  show "cache_abs a (page_cache_insert (word_of_nat k * PAGE_SIZE) ino off a c) key = ((cache_abs a c)((ino, off) \<mapsto> word_of_nat k * PAGE_SIZE)) key"
  proof (cases "key = (ino, off)")
    case True
    then show ?thesis using cache_member(2) [OF i(1), of k key] i(2) by simp
  next
    case False
    then have "cache_abs a (page_cache_insert (word_of_nat k * PAGE_SIZE) ino off a c) key = cache_abs a c key"
      by (intro cache_abs_same [OF ok i(1)]) (use k(2) in \<open>auto simp: i(2) inj_eq [OF page_ptr_inj]\<close>)
    then show ?thesis using False by simp
  qed
qed

lemma cache_delete_ok:
  assumes "cache_ok a c S" "k \<in> S"
  shows "\<exists>c'. page_cache_delete (word_of_nat k * PAGE_SIZE) a c = Some c' \<and> cache_ok a c' (S - {k}) \<and>
    cache_abs a c' = (cache_abs a c)(pg_src c (page_ptr a k) := None)"
proof -
  let ?p = "page_ptr a k"
  have ok: "table_ok (\<lambda>_. True) (pg_src c) page_hash PAGE_HASH_TABLE_SIZE (pg_table c) (page_ptr a ` S)" using assms(1) by (simp add: cache_ok_def)
  have kb: "k < 2 ^ 20" using assms by (auto simp: cache_ok_def)
  obtain t where t: "hash_table_delete (pg_src c) page_eq page_hash PAGE_HASH_TABLE_SIZE (pg_table c) (pg_src c ?p) = Some (?p, t)"
    "table_ok (\<lambda>_. True) (pg_src c) page_hash PAGE_HASH_TABLE_SIZE t (page_ptr a ` S - {?p})"
    using page.delete_ok [OF ok, of ?p] assms(2) by auto
  define c' where "c' = c\<lparr>pg_type := (pg_type c)(?p := PAGE_UNUSED), pg_table := t\<rparr>"
  have run: "page_cache_delete (word_of_nat k * PAGE_SIZE) a c = Some c'" using t(1) by (simp add: page_cache_delete_def page_lookup [OF kb] c'_def Let_def)
  have "page_ptr a ` (S - {k}) = page_ptr a ` S - {?p}" using image_set_diff [OF page_ptr_inj, of a S "{k}"] by simp
  then have ok': "cache_ok a c' (S - {k})" using assms(1) t(2) by (auto simp: cache_ok_def c'_def)
  have only: "j = k" if "j \<in> S" "pg_src c (page_ptr a j) = pg_src c ?p" for j
    using page.ok_unique [OF ok TrueI, of "page_ptr a j" ?p] that assms(2) injD [OF page_ptr_inj, of a j k] by blast
  have "cache_abs a c' key = ((cache_abs a c)(pg_src c ?p := None)) key" for key
  proof (cases "key = pg_src c ?p")
    case True
    then have "key \<notin> pg_src c' ` page_ptr a ` (S - {k})" using only by (auto simp: c'_def)
    then show ?thesis using cache_absent(2) [OF ok'] True by simp
  next
    case False
    then have "cache_abs a c' key = cache_abs a c key" by (intro cache_abs_same [OF assms(1) ok']) (auto simp: c'_def)
    then show ?thesis using False by simp
  qed
  then show ?thesis using run ok' by (intro exI [of _ c']) (simp add: fun_eq_iff)
qed

lemma cache_lookup_returns: "cache_ok a c S \<Longrightarrow> page_cache_lookup ino off a c \<noteq> None"
  using cache_member(1) [of a c S _ "(ino, off)"] cache_absent(1) [of a c S "(ino, off)"]
  by (cases "(ino, off) \<in> pg_src c ` page_ptr a ` S") auto

text \<open>C23: The page cache is a map from inode number and offset to page address: entering a page that is not cached under a
  key that is not cached adds exactly that entry, removing a cached page removes exactly its own,
  and looking up always returns.\<close>

theorem page_cache_refines:
  assumes "cache_ok a c S"
  shows "(\<forall>k ino off. k < 2 ^ 20 \<longrightarrow> k \<notin> S \<longrightarrow> (ino, off) \<notin> pg_src c ` page_ptr a ` S \<longrightarrow>
      cache_ok a (page_cache_insert (word_of_nat k * PAGE_SIZE) ino off a c) (insert k S) \<and>
      cache_abs a (page_cache_insert (word_of_nat k * PAGE_SIZE) ino off a c) = (cache_abs a c)((ino, off) \<mapsto> word_of_nat k * PAGE_SIZE)) \<and>
    (\<forall>k\<in>S. \<exists>c'. page_cache_delete (word_of_nat k * PAGE_SIZE) a c = Some c' \<and> cache_ok a c' (S - {k}) \<and>
      cache_abs a c' = (cache_abs a c)(pg_src c (page_ptr a k) := None)) \<and>
    (\<forall>ino off. page_cache_lookup ino off a c \<noteq> None)"
  by (intro conjI allI impI ballI cache_insert_ok(1) [OF assms _ _ _ refl] cache_insert_abs [OF assms]
      cache_delete_ok [OF assms] cache_lookup_returns [OF assms])

definition no_cache :: page_cache where
  "no_cache = \<lparr>pg_src = (\<lambda>_. (0, 0)), pg_type = (\<lambda>_. 0), pg_table = empty_table\<rparr>"

lemma no_cache_ok: "inv_page_table a \<noteq> NULL \<Longrightarrow> cache_ok a no_cache {}"
  using page.empty_ok by (simp add: cache_ok_def no_cache_def)

theorem page_cache_refines_witness:
  "cache_abs demo_pages (page_cache_insert (word_of_nat 7 * PAGE_SIZE) 3 4096 demo_pages no_cache) =
     (cache_abs demo_pages no_cache)((3, 4096) \<mapsto> word_of_nat 7 * PAGE_SIZE)"
proof -
  have "cache_ok demo_pages no_cache {}" by (rule no_cache_ok) (simp add: demo_pages_def NULL_def)
  from page_cache_refines [OF this, THEN conjunct1, rule_format, of 7 3 4096] show ?thesis by simp
qed

end
