(* ===== verification/Cow_Table.thy ===== *)
theory Cow_Table
  imports Hash_Table
begin

text \<open>
  \<^verbatim>\<open>src/mem/virt_mem/cow_table.c\<close>: reference counts of copy-on-write pages, in a hash table by the source
  of the page.  Every operation holds the table's mutex from beginning to end; the model is one
  atomic step.  \<open>ino_id\<close> reads the id of an inode, \<open>entry\<close> is what \<^verbatim>\<open>malloc\<close> returns.
\<close>

datatype page_src = PSRC_NULL | PSRC_INODE ptr u32 | PSRC_ANON u32 | PSRC_KERN

definition COW_TABLE_SIZE :: nat where "COW_TABLE_SIZE = 32767"

record cow_state =
  cow_page :: "ptr \<Rightarrow> page_src"
  cow_refs :: "ptr \<Rightarrow> u32"
  cow_table :: htab

fun cow_hash :: "(ptr \<Rightarrow> u32) \<Rightarrow> page_src \<Rightarrow> u32" where
  "cow_hash ino_id PSRC_NULL = 0"
| "cow_hash ino_id PSRC_KERN = 0"
| "cow_hash ino_id (PSRC_ANON p) = p"
| "cow_hash ino_id (PSRC_INODE i off) = ino_id i * off"

text \<open>\<^verbatim>\<open>comp\<close>: null and kernel pages equal nothing, and the offset is compared with itself.\<close>

fun cow_comp :: "page_src \<Rightarrow> page_src \<Rightarrow> bool" where
  "cow_comp (PSRC_INODE i off) (PSRC_INODE j off') \<longleftrightarrow> i = j \<and> off = off"
| "cow_comp (PSRC_ANON p) (PSRC_ANON q) \<longleftrightarrow> p = q"
| "cow_comp a b \<longleftrightarrow> False"

definition cow_find :: "(ptr \<Rightarrow> u32) \<Rightarrow> page_src \<Rightarrow> cow_state \<Rightarrow> ptr option" where
  "cow_find ino_id src s = hash_table_lookup (cow_page s) cow_comp (cow_hash ino_id) COW_TABLE_SIZE (cow_table s) src"

definition cow_inc :: "(ptr \<Rightarrow> u32) \<Rightarrow> ptr \<Rightarrow> page_src \<Rightarrow> cow_state \<Rightarrow> cow_state option" where
  "cow_inc ino_id entry src s = do {
     e \<leftarrow> cow_find ino_id src s;
     if NULL = e then do {
       e \<leftarrow> deref entry;
       let s = s\<lparr>cow_page := (cow_page s)(e := src), cow_refs := (cow_refs s)(e := 2)\<rparr>;
       Some (s\<lparr>cow_table := snd (hash_table_insert (cow_page s) (cow_hash ino_id) COW_TABLE_SIZE (cow_table s) e)\<rparr>) }
     else Some (s\<lparr>cow_refs := (cow_refs s)(e := cow_refs s e + 1)\<rparr>) }"

definition cow_lookup :: "(ptr \<Rightarrow> u32) \<Rightarrow> page_src \<Rightarrow> cow_state \<Rightarrow> u32 option" where
  "cow_lookup ino_id src s = do {
     e \<leftarrow> cow_find ino_id src s;
     Some (if NULL = e then 0 else cow_refs s e) }"

definition cow_dec :: "(ptr \<Rightarrow> u32) \<Rightarrow> page_src \<Rightarrow> cow_state \<Rightarrow> cow_state option" where
  "cow_dec ino_id src s = do {
     e \<leftarrow> cow_find ino_id src s;
     if NULL \<noteq> e then
       if 1 \<noteq> cow_refs s e then Some (s\<lparr>cow_refs := (cow_refs s)(e := cow_refs s e - 1)\<rparr>)
       else do {
         (_, t) \<leftarrow> hash_table_delete (cow_page s) cow_comp (cow_hash ino_id) COW_TABLE_SIZE (cow_table s) src;
         Some (s\<lparr>cow_table := t\<rparr>) }
     else Some s }"

subsection \<open>The table counts anonymous pages\<close>

definition is_anon :: "page_src \<Rightarrow> bool" where
  "is_anon src \<longleftrightarrow> (\<exists>p. src = PSRC_ANON p)"

lemma cow_comp_anon: "is_anon k \<Longrightarrow> cow_comp a k \<longleftrightarrow> a = k"
  by (cases a) (auto simp: is_anon_def)

interpretation cow: hash_keys is_anon uid cow_comp "cow_hash ino_id" COW_TABLE_SIZE for uid ino_id
  by unfold_locales (simp_all add: cow_comp_anon COW_TABLE_SIZE_def)

definition cow_ok :: "(ptr \<Rightarrow> u32) \<Rightarrow> cow_state \<Rightarrow> ptr set \<Rightarrow> bool" where
  "cow_ok ino_id s S \<longleftrightarrow> table_ok is_anon (cow_page s) (cow_hash ino_id) COW_TABLE_SIZE (cow_table s) S"

text \<open>The abstraction: the count of every anonymous page that has an entry.\<close>

definition cow_abs :: "(ptr \<Rightarrow> u32) \<Rightarrow> cow_state \<Rightarrow> u32 \<Rightarrow> u32 option" where
  "cow_abs ino_id s p = (case cow_find ino_id (PSRC_ANON p) s of
     None \<Rightarrow> None | Some e \<Rightarrow> if e = NULL then None else Some (cow_refs s e))"

definition inc_spec :: "u32 \<Rightarrow> (u32 \<Rightarrow> u32 option) \<Rightarrow> u32 \<Rightarrow> u32 option" where
  "inc_spec p m = m(p \<mapsto> (case m p of None \<Rightarrow> 2 | Some r \<Rightarrow> r + 1))"

definition dec_spec :: "u32 \<Rightarrow> (u32 \<Rightarrow> u32 option) \<Rightarrow> u32 \<Rightarrow> u32 option" where
  "dec_spec p m = (case m p of None \<Rightarrow> m | Some r \<Rightarrow> if r \<noteq> 1 then m(p \<mapsto> r - 1) else m(p := None))"

lemma cow_entry:
  assumes "cow_ok ino_id s S" "e \<in> S" "cow_page s e = PSRC_ANON p"
  shows "cow_find ino_id (PSRC_ANON p) s = Some e" "cow_abs ino_id s p = Some (cow_refs s e)"
proof -
  have ok: "table_ok is_anon (cow_page s) (cow_hash ino_id) COW_TABLE_SIZE (cow_table s) S" using assms(1) by (simp add: cow_ok_def)
  have "e \<noteq> NULL" by (rule cow.not_null [OF ok assms(2)])
  then show "cow_find ino_id (PSRC_ANON p) s = Some e" "cow_abs ino_id s p = Some (cow_refs s e)"
    using cow.lookup_member [OF ok assms(2)] assms(3) by (simp_all add: cow_find_def cow_abs_def is_anon_def)
qed

lemma cow_no_entry:
  assumes "cow_ok ino_id s S" "PSRC_ANON p \<notin> cow_page s ` S"
  shows "cow_find ino_id (PSRC_ANON p) s = Some NULL" "cow_abs ino_id s p = None"
proof -
  show "cow_find ino_id (PSRC_ANON p) s = Some NULL"
    unfolding cow_find_def using assms by (intro cow.lookup_absent [where S = S]) (auto simp: cow_ok_def is_anon_def)
  then show "cow_abs ino_id s p = None" by (simp add: cow_abs_def)
qed

lemma cow_cases:
  assumes "cow_ok ino_id s S"
  obtains (entry) e where "e \<in> S" "cow_page s e = PSRC_ANON p" "cow_find ino_id (PSRC_ANON p) s = Some e" "e \<noteq> NULL"
      "cow_abs ino_id s p = Some (cow_refs s e)"
  | (none) "PSRC_ANON p \<notin> cow_page s ` S" "cow_find ino_id (PSRC_ANON p) s = Some NULL" "cow_abs ino_id s p = None"
proof (cases "PSRC_ANON p \<in> cow_page s ` S")
  case True
  then obtain e where e: "e \<in> S" "cow_page s e = PSRC_ANON p" by auto
  have "e \<noteq> NULL" by (rule cow.not_null [OF assms [unfolded cow_ok_def] e(1)])
  then show ?thesis by (rule entry [OF e cow_entry(1) [OF assms e] _ cow_entry(2) [OF assms e]])
next
  case False
  then show ?thesis by (rule none [OF _ cow_no_entry [OF assms False]])
qed

text \<open>Two states with the same entries for \<open>p\<close>, holding the same counts, agree on \<open>p\<close>.\<close>

lemma cow_abs_same:
  assumes "cow_ok ino_id s S" "cow_ok ino_id s' S'"
    "\<And>e. e \<in> S \<and> cow_page s e = PSRC_ANON p \<Longrightarrow> e \<in> S' \<and> cow_page s' e = PSRC_ANON p \<and> cow_refs s' e = cow_refs s e"
    "\<And>e. e \<in> S' \<and> cow_page s' e = PSRC_ANON p \<Longrightarrow> e \<in> S \<and> cow_page s e = PSRC_ANON p"
  shows "cow_abs ino_id s' p = cow_abs ino_id s p"
proof (rule cow_cases [OF assms(1), of p])
  fix e assume "e \<in> S" "cow_page s e = PSRC_ANON p" "cow_abs ino_id s p = Some (cow_refs s e)"
  then show ?thesis using assms(3) [of e] cow_entry(2) [OF assms(2), of e p] by simp
next
  assume n: "PSRC_ANON p \<notin> cow_page s ` S" "cow_abs ino_id s p = None"
  have "PSRC_ANON p \<notin> cow_page s' ` S'"
  proof
    assume "PSRC_ANON p \<in> cow_page s' ` S'"
    then obtain e where "e \<in> S' \<and> cow_page s' e = PSRC_ANON p" by auto
    from assms(4) [OF this] n(1) show False by (metis imageI)
  qed
  with n(2) show ?thesis using cow_no_entry(2) [OF assms(2), of p] by simp
qed

lemma cow_refs_ok: "cow_ok ino_id (s\<lparr>cow_refs := f\<rparr>) S = cow_ok ino_id s S"
  by (simp add: cow_ok_def)

lemma cow_set_refs:
  assumes "cow_ok ino_id s S" "e \<in> S" "cow_page s e = PSRC_ANON p"
  shows "cow_abs ino_id (s\<lparr>cow_refs := (cow_refs s)(e := r)\<rparr>) = (cow_abs ino_id s)(p \<mapsto> r)"
proof
  fix q
  let ?s = "s\<lparr>cow_refs := (cow_refs s)(e := r)\<rparr>"
  have ok: "cow_ok ino_id ?s S" using assms(1) by (simp add: cow_refs_ok)
  show "cow_abs ino_id ?s q = ((cow_abs ino_id s)(p \<mapsto> r)) q"
  proof (cases "q = p")
    case True
    then show ?thesis using cow_entry(2) [OF ok assms(2), of p] assms(3) by simp
  next
    case False
    then have "cow_abs ino_id ?s q = cow_abs ino_id s q" by (intro cow_abs_same [OF assms(1) ok]) (use assms(3) in auto)
    then show ?thesis using False by simp
  qed
qed

lemma cow_inc_refines:
  assumes "cow_ok ino_id s S" "entry \<noteq> NULL" "entry \<notin> S"
  shows "\<exists>s' S'. cow_inc ino_id entry (PSRC_ANON p) s = Some s' \<and> cow_ok ino_id s' S' \<and>
    cow_abs ino_id s' = inc_spec p (cow_abs ino_id s)"
proof (rule cow_cases [OF assms(1), of p])
  fix e assume e: "e \<in> S" "cow_page s e = PSRC_ANON p" "cow_find ino_id (PSRC_ANON p) s = Some e" "e \<noteq> NULL"
    "cow_abs ino_id s p = Some (cow_refs s e)"
  then show ?thesis using cow_set_refs [OF assms(1) e(1,2)] assms(1) by (auto simp: cow_inc_def inc_spec_def cow_refs_ok)
next
  assume n: "PSRC_ANON p \<notin> cow_page s ` S" "cow_find ino_id (PSRC_ANON p) s = Some NULL" "cow_abs ino_id s p = None"
  define t where "t = s\<lparr>cow_page := (cow_page s)(entry := PSRC_ANON p), cow_refs := (cow_refs s)(entry := 2)\<rparr>"
  define s' where "s' = t\<lparr>cow_table := snd (hash_table_insert (cow_page t) (cow_hash ino_id) COW_TABLE_SIZE (cow_table t) entry)\<rparr>"
  have run: "cow_inc ino_id entry (PSRC_ANON p) s = Some s'" using n assms(2) by (simp add: cow_inc_def t_def s'_def)
  have ids: "cow_page t x = cow_page s x" if "x \<in> S" for x using that assms(3) by (auto simp: t_def)
  have "table_ok is_anon (cow_page t) (cow_hash ino_id) COW_TABLE_SIZE (cow_table t) S"
    by (rule table_ok_cong [where uid = "cow_page s"]) (use assms(1) ids in \<open>simp_all add: cow_ok_def t_def\<close>)
  then have ok: "cow_ok ino_id s' (insert entry S)"
    unfolding cow_ok_def s'_def using cow.insert_ok [where uid = "cow_page t" and ino_id = ino_id and S = S and p = entry] assms n(1) ids
    by (auto simp: t_def image_iff)
  have s': "cow_page s' = (cow_page s)(entry := PSRC_ANON p)" "cow_refs s' = (cow_refs s)(entry := 2)"
    by (simp_all add: s'_def t_def)
  have "cow_abs ino_id s' = inc_spec p (cow_abs ino_id s)"
  proof
    fix q
    show "cow_abs ino_id s' q = inc_spec p (cow_abs ino_id s) q"
    proof (cases "q = p")
      case True
      then show ?thesis using cow_entry(2) [OF ok, of entry p] n(3) by (simp add: s' inc_spec_def)
    next
      case False
      have "cow_abs ino_id s' q = cow_abs ino_id s q" by (rule cow_abs_same [OF assms(1) ok]) (use False assms(3) in \<open>auto simp: s' split: if_splits\<close>)
      then show ?thesis using False by (simp add: inc_spec_def)
    qed
  qed
  then show ?thesis using run ok by blast
qed

lemma cow_dec_refines:
  assumes "cow_ok ino_id s S"
  shows "\<exists>s' S'. cow_dec ino_id (PSRC_ANON p) s = Some s' \<and> cow_ok ino_id s' S' \<and>
    cow_abs ino_id s' = dec_spec p (cow_abs ino_id s)"
proof (rule cow_cases [OF assms(1), of p])
  fix e assume e: "e \<in> S" "cow_page s e = PSRC_ANON p" "cow_find ino_id (PSRC_ANON p) s = Some e" "e \<noteq> NULL"
    "cow_abs ino_id s p = Some (cow_refs s e)"
  show ?thesis
  proof (cases "cow_refs s e = 1")
    case False
    then show ?thesis using e cow_set_refs [OF assms(1) e(1,2)] assms(1)
      by (auto simp: cow_dec_def dec_spec_def cow_refs_ok)
  next
    case True
    have "table_ok is_anon (cow_page s) (cow_hash ino_id) COW_TABLE_SIZE (cow_table s) S" using assms by (simp add: cow_ok_def)
    from cow.delete_ok [OF this e(1)] obtain t
      where t: "hash_table_delete (cow_page s) cow_comp (cow_hash ino_id) COW_TABLE_SIZE (cow_table s) (PSRC_ANON p) = Some (e, t)"
        "table_ok is_anon (cow_page s) (cow_hash ino_id) COW_TABLE_SIZE t (S - {e})"
      using e(2) by (auto simp: is_anon_def)
    let ?s = "s\<lparr>cow_table := t\<rparr>"
    have ok: "cow_ok ino_id ?s (S - {e})" using t(2) by (simp add: cow_ok_def)
    have uniq: "x = e" if "x \<in> S" "cow_page s x = PSRC_ANON p" for x
      using cow.ok_unique [of "cow_page s" ino_id "cow_table s" S "PSRC_ANON p" x e] that e assms by (simp add: cow_ok_def is_anon_def)
    have "cow_abs ino_id ?s = dec_spec p (cow_abs ino_id s)"
    proof
      fix q
      show "cow_abs ino_id ?s q = dec_spec p (cow_abs ino_id s) q"
      proof (cases "q = p")
        case True
        have "PSRC_ANON p \<notin> cow_page ?s ` (S - {e})" using uniq by auto
        then show ?thesis using True cow_no_entry(2) [OF ok, of p] e(5) \<open>cow_refs s e = 1\<close> by (simp add: dec_spec_def)
      next
        case False
        have "cow_abs ino_id ?s q = cow_abs ino_id s q" by (rule cow_abs_same [OF assms(1) ok]) (use False e in auto)
        then show ?thesis using False e(5) \<open>cow_refs s e = 1\<close> by (simp add: dec_spec_def)
      qed
    qed
    then show ?thesis using e(3,4) True t(1) ok by (auto simp: cow_dec_def)
  qed
next
  assume "cow_find ino_id (PSRC_ANON p) s = Some NULL" "cow_abs ino_id s p = None"
  then show ?thesis using assms by (auto simp: cow_dec_def dec_spec_def)
qed

text \<open>C22: For anonymous pages, counting up, counting down and looking up implement a finite map of counts: the
  first increment starts a page at two, further ones add one, a decrement subtracts one and
  removes the page at one, and no operation changes the count of another anonymous page.\<close>

theorem cow_table_refines:
  assumes "cow_ok ino_id s S" "entry \<noteq> NULL" "entry \<notin> S"
  shows "(\<exists>s' S'. cow_inc ino_id entry (PSRC_ANON p) s = Some s' \<and> cow_ok ino_id s' S' \<and>
      cow_abs ino_id s' = inc_spec p (cow_abs ino_id s)) \<and>
    (\<exists>s' S'. cow_dec ino_id (PSRC_ANON p) s = Some s' \<and> cow_ok ino_id s' S' \<and>
      cow_abs ino_id s' = dec_spec p (cow_abs ino_id s)) \<and>
    cow_lookup ino_id (PSRC_ANON p) s = Some (case cow_abs ino_id s p of None \<Rightarrow> 0 | Some r \<Rightarrow> r)"
proof (intro conjI)
  show "cow_lookup ino_id (PSRC_ANON p) s = Some (case cow_abs ino_id s p of None \<Rightarrow> 0 | Some r \<Rightarrow> r)"
    by (rule cow_cases [OF assms(1), of p]) (simp_all add: cow_lookup_def)
qed (rule cow_inc_refines [OF assms] cow_dec_refines [OF assms(1)])+

definition cow_empty :: cow_state where
  "cow_empty = \<lparr>cow_page = \<lambda>_. PSRC_NULL, cow_refs = \<lambda>_. 0, cow_table = empty_table\<rparr>"

theorem cow_table_refines_witness:
  "\<exists>s' S'. cow_inc (\<lambda>_. 1) 10 (PSRC_ANON 7) cow_empty = Some s' \<and> cow_ok (\<lambda>_. 1) s' S' \<and>
     cow_abs (\<lambda>_. 1) s' = inc_spec 7 (cow_abs (\<lambda>_. 1) cow_empty)"
proof -
  have "cow_ok (\<lambda>_. 1) cow_empty {}" using cow.empty_ok by (simp add: cow_ok_def cow_empty_def)
  from cow_table_refines [OF this, of 10 7] show ?thesis by (simp add: NULL_def)
qed

text \<open>Two pages of the same file at different offsets share a count when they fall into the same bucket, since
  the comparison of the offsets compares the first with itself.\<close>

theorem cow_offsets_collide:
  "\<exists>s s'. cow_inc (\<lambda>_. 1) 10 (PSRC_INODE 5 4096) cow_empty = Some s \<and>
     cow_lookup (\<lambda>_. 1) (PSRC_INODE 5 36863) s = Some 2 \<and>
     cow_dec (\<lambda>_. 1) (PSRC_INODE 5 36863) s = Some s' \<and> cow_lookup (\<lambda>_. 1) (PSRC_INODE 5 4096) s' = Some 1"
proof -
  let ?n = "hash_index (cow_hash (\<lambda>_. 1)) COW_TABLE_SIZE"
  have n: "?n (PSRC_INODE 5 4096) = 4096" "?n (PSRC_INODE 5 36863) = 4096" by (simp_all add: hash_index_def COW_TABLE_SIZE_def)
  define s where "s = cow_empty\<lparr>cow_page := (cow_page cow_empty)(10 := PSRC_INODE 5 4096), cow_refs := (cow_refs cow_empty)(10 := 2),
    cow_table := \<lparr>ht_table = (\<lambda>_. NULL)(4096 := 10), ht_next = \<lambda>_. NULL\<rparr>\<rparr>"
  have none: "cow_find (\<lambda>_. 1) (PSRC_INODE 5 4096) cow_empty = Some NULL"
    by (simp add: cow_find_def hash_table_lookup_def cow_empty_def empty_table_def) (subst chain_lookup.simps, simp)
  have inc: "cow_inc (\<lambda>_. 1) 10 (PSRC_INODE 5 4096) cow_empty = Some s"
    using none n by (simp add: cow_inc_def hash_table_insert_def Let_def s_def cow_empty_def empty_table_def NULL_def fun_upd_idem)
  have find: "cow_find (\<lambda>_. 1) (PSRC_INODE 5 off) (s\<lparr>cow_refs := f\<rparr>) = Some 10" if "?n (PSRC_INODE 5 off) = 4096" for off f
    using that by (simp add: cow_find_def hash_table_lookup_def s_def) (subst chain_lookup.simps, simp add: NULL_def)
  have "cow_find (\<lambda>_. 1) (PSRC_INODE 5 36863) s = Some 10" using find [of 36863 "cow_refs s"] n by simp
  moreover have "cow_refs s 10 = 2" by (simp add: s_def)
  moreover have "cow_find (\<lambda>_. 1) (PSRC_INODE 5 4096) (s\<lparr>cow_refs := (cow_refs s)(10 := 1)\<rparr>) = Some 10" using find n by simp
  ultimately show ?thesis using inc by (auto simp: cow_lookup_def cow_dec_def NULL_def)
qed

end
