(* ===== verification/Phys_Mem.thy ===== *)
theory Phys_Mem
  imports Page_Cache Cow_Table
begin

text \<open>
  \<^verbatim>\<open>src/mem/phys_mem/phys_mem.c\<close>: where the contents of a virtual page come from.  It composes the page
  allocator, the page cache and a table of anonymous pages, and the copying of physical pages of
  \<^verbatim>\<open>arch/sys/ia_32_util.c\<close>.

  Code that is elsewhere or does not exist is an argument: \<open>rd\<close> is \<^verbatim>\<open>inode_page_read\<close>, which calls
  the driver of the inode, \<open>sw\<close> and \<open>sf\<close> are \<^verbatim>\<open>swap_in\<close> and \<^verbatim>\<open>swap_free\<close>, which are only declared,
  \<open>ino_id\<close> reads the id of an inode, \<open>new\<close> is what \<^verbatim>\<open>malloc\<close> returns and \<open>junk\<close> the value of the local
  variable \<^verbatim>\<open>out\<close> that no branch has assigned.  The colour tables of the address space and of the
  object are two values; returning a descriptor with \<^verbatim>\<open>free\<close> does not change this state.  The mutex of the
  file is a flag; locking it while it is taken never returns.
\<close>

definition ANON_SWAPPED :: u32 where "ANON_SWAPPED = 0"
definition ANON_PRESENT :: u32 where "ANON_PRESENT = 1"
definition ANON_HASH_TABLE_SIZE :: nat where "ANON_HASH_TABLE_SIZE = 4 * 1042 * 1042 - 1"

text \<open>
  The fields of \<^verbatim>\<open>anon_page_t\<close>.  The union \<^verbatim>\<open>src\<close> is either \<open>an_addr\<close> or the pair of \<open>an_inode\<close> and
  \<open>an_page\<close>; which one is in use is what the status says, and no code uses both.
\<close>

record phys_state =
  pages :: page_state
  cached :: page_cache
  an_id :: "ptr \<Rightarrow> u32"
  an_status :: "ptr \<Rightarrow> u32"
  an_addr :: "ptr \<Rightarrow> u32"
  an_inode :: "ptr \<Rightarrow> ptr"
  an_page :: "ptr \<Rightarrow> u32"
  an_table :: htab
  anon_mutex :: bool
  rand_seed :: u32
  phys :: bytes

subsection \<open>Copying physical pages\<close>

text \<open>
  The windows onto which the pages are mapped are left out: the copy goes from one physical page to
  the other.  The counter is in bytes and is multiplied by the page size once more.
\<close>

partial_function (option) phys_copy :: "u32 \<Rightarrow> u32 \<Rightarrow> u32 \<Rightarrow> u32 \<Rightarrow> bytes \<Rightarrow> bytes option" where
  "phys_copy dst src sz i m =
     (if i < sz then phys_copy dst src sz (i + PAGE_SIZE)
        (memcpy_lo_hi (unat (dst + i * PAGE_SIZE)) (unat (src + i * PAGE_SIZE)) (if PAGE_SIZE > sz then sz else PAGE_SIZE) m)
      else Some m)"

definition phys_memcpy :: "u32 \<Rightarrow> u32 \<Rightarrow> u32 \<Rightarrow> bytes \<Rightarrow> bytes option" where
  "phys_memcpy dst src sz m = phys_copy dst src sz 0 m"

partial_function (option) phys_fill :: "u32 \<Rightarrow> 8 word \<Rightarrow> u32 \<Rightarrow> u32 \<Rightarrow> bytes \<Rightarrow> bytes option" where
  "phys_fill dst val sz i m =
     (if i < sz then phys_fill dst val sz (i + PAGE_SIZE)
        (memset (unat (dst + i * PAGE_SIZE)) val (if PAGE_SIZE > sz then sz else PAGE_SIZE) m)
      else Some m)"

definition phys_memset :: "u32 \<Rightarrow> 8 word \<Rightarrow> u32 \<Rightarrow> bytes \<Rightarrow> bytes option" where
  "phys_memset dst val sz m = phys_fill dst val sz 0 m"

subsection \<open>Anonymous pages\<close>

definition anon_hash :: "u32 \<Rightarrow> u32" where "anon_hash x = x"

definition lock_anon :: "phys_state \<Rightarrow> phys_state option" where
  "lock_anon s = (if anon_mutex s then None else Some (s\<lparr>anon_mutex := True\<rparr>))"

definition unlock_anon :: "phys_state \<Rightarrow> phys_state" where
  "unlock_anon s = s\<lparr>anon_mutex := False\<rparr>"

definition anon_lookup :: "u32 \<Rightarrow> phys_state \<Rightarrow> ptr option" where
  "anon_lookup ident s = hash_table_lookup (an_id s) (=) anon_hash ANON_HASH_TABLE_SIZE (an_table s) ident"

definition anon_insert :: "ptr \<Rightarrow> phys_state \<Rightarrow> phys_state" where
  "anon_insert p s = s\<lparr>an_table := snd (hash_table_insert (an_id s) anon_hash ANON_HASH_TABLE_SIZE (an_table s) p)\<rparr>"

definition get_anon_page :: "color_tab \<Rightarrow> color_tab \<Rightarrow> bool \<Rightarrow> phys_state \<Rightarrow> u32 \<times> color_tab \<times> phys_state" where
  "get_anon_page spc_ct obj_ct shared s =
     (let (out, a) = phys_page_alloc (if shared then obj_ct else spc_ct) (pages s);
          obj_ct = change_color_count (num_page_colors a) (page_color out a) 1 obj_ct
      in (out, obj_ct, s\<lparr>pages := a\<rparr>))"

definition get_page :: "color_tab \<Rightarrow> color_tab \<Rightarrow> bool \<Rightarrow> phys_state \<Rightarrow> u32 \<times> color_tab \<times> color_tab \<times> phys_state" where
  "get_page spc_ct obj_ct shared s =
     (let (out, a) = phys_page_alloc (if shared then obj_ct else spc_ct) (pages s);
          spc_ct = change_color_count (num_page_colors a) (page_color out a) 1 spc_ct;
          obj_ct = change_color_count (num_page_colors a) (page_color out a) 1 obj_ct
      in (out, spc_ct, obj_ct, s\<lparr>pages := a\<rparr>))"

text \<open>The search for an identifier that is not in use; it returns with the mutex taken.\<close>

partial_function (option) new_id :: "phys_state \<Rightarrow> (u32 \<times> phys_state) option" where
  "new_id s = do {
     let (ident, seed) = rand (rand_seed s);
     s \<leftarrow> lock_anon (s\<lparr>rand_seed := seed\<rparr>);
     p \<leftarrow> anon_lookup ident s;
     if NULL \<noteq> p then new_id (unlock_anon s) else Some (ident, s) }"

type_synonym reader = "ptr \<Rightarrow> u32 \<Rightarrow> u32 \<Rightarrow> bytes \<Rightarrow> bytes option"

definition anon_page_create :: "reader \<Rightarrow> (ptr \<Rightarrow> u32) \<Rightarrow> ptr \<Rightarrow> page_src \<Rightarrow> color_tab \<Rightarrow> color_tab \<Rightarrow> bool \<Rightarrow>
    phys_state \<Rightarrow> (u32 \<times> color_tab \<times> phys_state) option" where
  "anon_page_create rd ino_id new src spc_ct obj_ct shared s = do {
     new \<leftarrow> deref new;
     let s = s\<lparr>an_status := (an_status s)(new := ANON_PRESENT)\<rparr>;
     (ident, s) \<leftarrow> new_id s;
     let s = s\<lparr>an_id := (an_id s)(new := ident)\<rparr>;
     (obj_ct, s) \<leftarrow> (case src of
       PSRC_NULL \<Rightarrow> do {
         let (out, obj_ct, s) = get_anon_page spc_ct obj_ct shared s;
         m \<leftarrow> phys_memset out 0 PAGE_SIZE (phys s);
         Some (obj_ct, anon_insert new (s\<lparr>an_addr := (an_addr s)(new := out), phys := m\<rparr>)) }
     | PSRC_INODE inode offset \<Rightarrow> do {
         let (out, obj_ct, s) = get_anon_page spc_ct obj_ct shared s;
         let s = s\<lparr>an_addr := (an_addr s)(new := out)\<rparr>;
         addr \<leftarrow> page_cache_lookup (ino_id inode) offset (pages s) (cached s);
         m \<leftarrow> (if NULL_PHYS_PAGE \<noteq> addr then phys_memcpy out addr PAGE_SIZE (phys s) else rd inode offset out (phys s));
         Some (obj_ct, anon_insert new (s\<lparr>phys := m\<rparr>)) }
     | PSRC_ANON p \<Rightarrow> do {
         let (out, obj_ct, s) = get_anon_page spc_ct obj_ct shared s;
         let s = s\<lparr>an_addr := (an_addr s)(new := out)\<rparr>;
         anon \<leftarrow> anon_lookup p s;
         m \<leftarrow> (if NULL \<noteq> anon then
                 if an_status s anon = ANON_PRESENT then phys_memcpy out (an_addr s anon) PAGE_SIZE (phys s)
                 else if an_status s anon = ANON_SWAPPED then rd (an_inode s anon) (an_page s anon) out (phys s)
                 else Some (phys s)
               else Some (phys s));
         Some (obj_ct, s\<lparr>phys := m\<rparr>) }
     | PSRC_KERN \<Rightarrow>
         (let (out, obj_ct, a) = kern_page_alloc obj_ct (pages s)
          in Some (obj_ct, anon_insert new (s\<lparr>an_addr := (an_addr s)(new := out), pages := a\<rparr>))));
     Some (ident, obj_ct, unlock_anon s) }"

definition anon_page_free :: "(ptr \<Rightarrow> u32 \<Rightarrow> phys_state \<Rightarrow> phys_state option) \<Rightarrow> u32 \<Rightarrow> phys_state \<Rightarrow> phys_state option" where
  "anon_page_free sf ident s = do {
     s \<leftarrow> lock_anon s;
     (p, t) \<leftarrow> hash_table_delete (an_id s) (=) anon_hash ANON_HASH_TABLE_SIZE (an_table s) ident;
     let s = s\<lparr>an_table := t\<rparr>;
     if NULL \<noteq> p then
       let s = unlock_anon s in
       if an_status s p = ANON_SWAPPED then sf (an_inode s p) (an_page s p) s
       else if an_status s p = ANON_PRESENT then
         let q = inv_page_lookup (an_addr s p) (pages s);
             s = s\<lparr>cached := (cached s)\<lparr>pg_type := (pg_type (cached s))(q := PAGE_UNUSED)\<rparr>\<rparr>
         in Some (s\<lparr>pages := phys_page_insert [an_addr s p] (pages s)\<rparr>)
       else Some s
     else Some s }"

definition phys_page_fetch :: "reader \<Rightarrow> (u32 \<Rightarrow> ptr \<Rightarrow> u32 \<Rightarrow> bytes \<Rightarrow> bytes option) \<Rightarrow> (ptr \<Rightarrow> u32) \<Rightarrow> u32 \<Rightarrow> page_src \<Rightarrow>
    color_tab \<Rightarrow> color_tab \<Rightarrow> bool \<Rightarrow> phys_state \<Rightarrow> (u32 \<times> color_tab \<times> color_tab \<times> phys_state) option" where
  "phys_page_fetch rd sw ino_id junk src spc_ct obj_ct shared s = do {
     s \<leftarrow> lock_anon s;
     (out, spc_ct, obj_ct, s) \<leftarrow> (case src of
       PSRC_INODE inode offset \<Rightarrow> do {
         out \<leftarrow> page_cache_lookup (ino_id inode) offset (pages s) (cached s);
         if NULL_PHYS_PAGE \<noteq> out then
           Some (out, change_color_count (num_page_colors (pages s)) (page_color out (pages s)) 1 spc_ct, obj_ct, s)
         else do {
           let (out, spc_ct, obj_ct, s) = get_page spc_ct obj_ct shared s;
           m \<leftarrow> rd inode offset out (phys s);
           Some (out, spc_ct, obj_ct,
             s\<lparr>phys := m, cached := page_cache_insert out (ino_id inode) offset (pages s) (cached s)\<rparr>) } }
     | PSRC_ANON p \<Rightarrow> do {
         anon \<leftarrow> anon_lookup p s;
         if NULL \<noteq> anon then
           if an_status s anon = ANON_PRESENT then
             Some (an_addr s anon, change_color_count (num_page_colors (pages s)) (page_color (an_addr s anon) (pages s)) 1 spc_ct, obj_ct, s)
           else if an_status s anon = ANON_SWAPPED then do {
             let (out, spc_ct, obj_ct, s) = get_page spc_ct obj_ct shared s;
             m \<leftarrow> sw out (an_inode s anon) (an_page s anon) (phys s);
             Some (out, spc_ct, obj_ct, s\<lparr>phys := m\<rparr>) }
           else Some (junk, spc_ct, obj_ct, s)
         else Some (junk, spc_ct, obj_ct, s) }
     | PSRC_NULL \<Rightarrow> Some (junk, spc_ct, obj_ct, s)
     | PSRC_KERN \<Rightarrow> Some (junk, spc_ct, obj_ct, s));
     Some (out, spc_ct, obj_ct, unlock_anon s) }"

subsection \<open>The invariant\<close>

interpretation anon: hash_keys "\<lambda>_. True" uid "(=)" anon_hash ANON_HASH_TABLE_SIZE for uid
  by unfold_locales (simp_all add: ANON_HASH_TABLE_SIZE_def)

text \<open>The free pages are \<open>F\<close> and the descriptors in the table of anonymous pages are \<open>A\<close>.\<close>

definition phys_ok :: "phys_state \<Rightarrow> nat set \<Rightarrow> ptr set \<Rightarrow> bool" where
  "phys_ok s F A \<longleftrightarrow> pages_ok (pages s) F \<and>
     table_ok (\<lambda>_. True) (an_id s) anon_hash ANON_HASH_TABLE_SIZE (an_table s) A"

lemma anon_lookup_member: "phys_ok s F A \<Longrightarrow> p \<in> A \<Longrightarrow> anon_lookup (an_id s p) s = Some p"
  using anon.lookup_member [of "an_id s" "an_table s" A p] by (simp add: anon_lookup_def phys_ok_def)

lemma anon_lookup_absent: "phys_ok s F A \<Longrightarrow> ident \<notin> an_id s ` A \<Longrightarrow> anon_lookup ident s = Some NULL"
  using anon.lookup_absent [of "an_id s" "an_table s" A ident] by (simp add: anon_lookup_def phys_ok_def)

text \<open>
  The search for an identifier with the seed of the code, a static that starts at 0 and stays 0
  (\<open>rand_zero\<close>): it gives 0 when that is not in use, and never ends when it is.
\<close>

lemma new_id_first:
  assumes "phys_ok s F A" "rand_seed s = 0" "\<not> anon_mutex s" "0 \<notin> an_id s ` A"
  shows "new_id s = Some (0, s\<lparr>rand_seed := 0, anon_mutex := True\<rparr>)"
proof -
  have "anon_lookup 0 (s\<lparr>rand_seed := 0, anon_mutex := True\<rparr>) = Some NULL"
    by (rule anon_lookup_absent [where F = F and A = A]) (use assms in \<open>simp_all add: phys_ok_def\<close>)
  then show ?thesis using assms(2,3) by (subst new_id.simps) (simp add: rand_zero lock_anon_def)
qed

lemma new_id_diverges:
  assumes "phys_ok s F A" "rand_seed s = 0" "0 \<in> an_id s ` A"
  shows "new_id s = None"
proof -
  have "phys_ok s F A \<and> rand_seed s = 0 \<and> 0 \<in> an_id s ` A \<longrightarrow> False" if "new_id s = Some r" for s r
    using _ that
  proof (rule new_id.raw_induct [where P = "\<lambda>s r. phys_ok s F A \<and> rand_seed s = 0 \<and> 0 \<in> an_id s ` A \<longrightarrow> False"], goal_cases)
    case (1 loop s r)
    show ?case
    proof
      assume s: "phys_ok s F A \<and> rand_seed s = 0 \<and> 0 \<in> an_id s ` A"
      define t where "t = s\<lparr>rand_seed := 0, anon_mutex := True\<rparr>"
      obtain p where p: "p \<in> A" "an_id t p = 0" using s by (auto simp: t_def)
      have ok: "phys_ok t F A" using s by (simp add: phys_ok_def t_def)
      have "p \<noteq> NULL" using anon.not_null [of "an_id t" "an_table t" A p] ok p(1) by (simp add: phys_ok_def)
      then have "loop (unlock_anon t) = Some r"
        using 1(2) s anon_lookup_member [OF ok p(1)] p(2) by (simp add: rand_zero lock_anon_def t_def split: if_splits)
      from 1(1) [OF this] ok p show False by (auto simp: phys_ok_def unlock_anon_def t_def)
    qed
  qed
  then show ?thesis using assms by (cases "new_id s") blast+
qed

text \<open>One page is copied, or filled, in a single pass; filling with 0 leaves it as it is.\<close>

lemma phys_memset_zero: "phys_memset out 0 PAGE_SIZE m = Some m"
  unfolding phys_memset_def
  by (subst phys_fill.simps) (simp add: PAGE_SIZE_def, subst phys_fill.simps, simp add: memset_def PAGE_SIZE_def)

lemma phys_memcpy_page: "phys_memcpy dst src PAGE_SIZE m = Some (memcpy_lo_hi (unat dst) (unat src) PAGE_SIZE m)"
  unfolding phys_memcpy_def
  by (subst phys_copy.simps) (simp add: PAGE_SIZE_def, subst phys_copy.simps, simp add: PAGE_SIZE_def)


subsection \<open>The life of an anonymous page\<close>

lemma anon_insert_ok:
  assumes ok: "phys_ok s F A" and p: "p \<noteq> NULL" "p \<notin> A" "an_id t p \<notin> an_id s ` A"
    and t: "\<And>q. q \<in> A \<Longrightarrow> an_id t q = an_id s q" "an_table t = an_table s" "pages_ok (pages t) F'"
  shows "phys_ok (anon_insert p t) F' (insert p A)"
proof -
  have "table_ok (\<lambda>_. True) (an_id t) anon_hash ANON_HASH_TABLE_SIZE (an_table t) A"
    by (rule table_ok_cong [where uid = "an_id s"]) (use ok t in \<open>simp_all add: phys_ok_def\<close>)
  moreover have "an_id t ` A = an_id s ` A" using t(1) by (intro image_cong) simp_all
  ultimately show ?thesis
    using anon.insert_ok [of "an_id t" "an_table t" A p] p t(3) by (simp add: phys_ok_def anon_insert_def)
qed

lemma anon_page_free_ok:
  assumes ok: "phys_ok s F A" and p: "p \<in> A" "an_status s p = ANON_PRESENT" "an_addr s p = word_of_nat k * PAGE_SIZE"
    and k: "k < 2 ^ 20" "k \<notin> F"
    and m: "\<not> anon_mutex s"
  obtains s' where "anon_page_free sf (an_id s p) s = Some s'" "phys_ok s' (insert k F) (A - {p})" "\<not> anon_mutex s'"
proof -
  have tab: "table_ok (\<lambda>_. True) (an_id s) anon_hash ANON_HASH_TABLE_SIZE (an_table s) A" using ok by (simp add: phys_ok_def)
  obtain t where t: "hash_table_delete (an_id s) (=) anon_hash ANON_HASH_TABLE_SIZE (an_table s) (an_id s p) = Some (p, t)"
    "table_ok (\<lambda>_. True) (an_id s) anon_hash ANON_HASH_TABLE_SIZE t (A - {p})"
    using anon.delete_ok [OF tab p(1)] by blast
  have "p \<noteq> NULL" by (rule anon.not_null [OF tab p(1)])
  then have "anon_page_free sf (an_id s p) s = Some (s\<lparr>anon_mutex := False, an_table := t,
      cached := (cached s)\<lparr>pg_type := (pg_type (cached s))(inv_page_lookup (an_addr s p) (pages s) := PAGE_UNUSED)\<rparr>,
      pages := put_page (word_of_nat k * PAGE_SIZE) (pages s)\<rparr>)"
    using t(1) p m by (simp add: anon_page_free_def lock_anon_def unlock_anon_def Let_def phys_page_insert_def ANON_PRESENT_def ANON_SWAPPED_def)
  moreover have "pages_ok (put_page (word_of_nat k * PAGE_SIZE) (pages s)) (insert k F)"
    using put_page_ok(1) [of "pages s" F k] ok k by (simp add: phys_ok_def)
  ultimately show ?thesis using that t(2) by (simp add: phys_ok_def)
qed

lemma get_anon_page_ok:
  assumes ok: "phys_ok s F A" and ct: "color_ok (num_page_colors (pages s)) (if shared then obj_ct else spc_ct)" and F: "F \<noteq> {}"
  obtains k a obj_ct' where "get_anon_page spc_ct obj_ct shared s = (word_of_nat k * PAGE_SIZE, obj_ct', s\<lparr>pages := a\<rparr>)" "k \<in> F" "k < 2 ^ 20"
    "pages_ok a (F - {k})"
proof -
  have po: "pages_ok (pages s) F" using ok by (simp add: phys_ok_def)
  obtain k a where k: "phys_page_alloc (if shared then obj_ct else spc_ct) (pages s) = (word_of_nat k * PAGE_SIZE, a)" "k \<in> F" "pages_ok a (F - {k})"
    using phys_page_alloc_ok [OF po ct] F by (auto simp: allocated_def)
  have "k < 2 ^ 20" using po k(2) by (auto simp: pages_ok_def)
  then show ?thesis using that [OF _ k(2) _ k(3)] k(1) by (simp add: get_anon_page_def Let_def)
qed

text \<open>What every branch starts with: a new identifier, and a page.\<close>

lemma anon_prepare:
  assumes "phys_ok s F A" "color_ok (num_page_colors (pages s)) (if shared then obj_ct else spc_ct)" "F \<noteq> {}" "new \<notin> A"
    "rand_seed s = 0" "\<not> anon_mutex s" "0 \<notin> an_id s ` A"
    "s2 = s\<lparr>an_status := (an_status s)(new := ANON_PRESENT), rand_seed := 0, anon_mutex := True, an_id := (an_id s)(new := 0)\<rparr>"
  obtains k a obj_ct' where "get_anon_page spc_ct obj_ct shared s2 = (word_of_nat k * PAGE_SIZE, obj_ct', s2\<lparr>pages := a\<rparr>)"
    "k \<in> F" "k < 2 ^ 20" "pages_ok a (F - {k})" "\<forall>q\<in>A. an_id s2 q = an_id s q"
    "table_ok (\<lambda>_. True) (an_id s2) anon_hash ANON_HASH_TABLE_SIZE (an_table s2) A"
    "new_id (s\<lparr>an_status := (an_status s)(new := ANON_PRESENT)\<rparr>) =
       Some (0, s\<lparr>an_status := (an_status s)(new := ANON_PRESENT), rand_seed := 0, anon_mutex := True\<rparr>)"
proof -
  let ?s0 = "s\<lparr>an_status := (an_status s)(new := ANON_PRESENT)\<rparr>"
  have ok0: "phys_ok ?s0 F A" using assms(1) by (simp add: phys_ok_def)
  have id: "new_id ?s0 = Some (0, ?s0\<lparr>rand_seed := 0, anon_mutex := True\<rparr>)"
    by (rule new_id_first [OF ok0]) (use assms(5-7) in simp_all)
  have s2: "an_id s2 = (an_id s)(new := 0)" "an_table s2 = an_table s" "pages s2 = pages s" by (simp_all add: assms(8))
  have old: "\<forall>q\<in>A. an_id s2 q = an_id s q" using assms(4) by (auto simp: s2)
  have tab: "table_ok (\<lambda>_. True) (an_id s2) anon_hash ANON_HASH_TABLE_SIZE (an_table s2) A"
    by (rule table_ok_cong [where uid = "an_id s"]) (use assms(1) old in \<open>simp_all add: phys_ok_def s2(2)\<close>)
  then have ok2: "phys_ok s2 F A" using assms(1) by (simp add: phys_ok_def s2)
  have "color_ok (num_page_colors (pages s2)) (if shared then obj_ct else spc_ct)" using assms(2) by (simp add: s2)
  then obtain k a obj_ct' where "get_anon_page spc_ct obj_ct shared s2 = (word_of_nat k * PAGE_SIZE, obj_ct', s2\<lparr>pages := a\<rparr>)"
    "k \<in> F" "k < 2 ^ 20" "pages_ok a (F - {k})"
    by (rule get_anon_page_ok [OF ok2 _ assms(3)])
  then show ?thesis using that old tab id by simp
qed

lemma anon_page_create_stuck:
  assumes "phys_ok s F A" "rand_seed s = 0" "0 \<in> an_id s ` A"
  shows "anon_page_create rd ino_id new src spc_ct obj_ct shared s = None"
proof -
  have "new_id (s\<lparr>an_status := (an_status s)(new := ANON_PRESENT)\<rparr>) = None"
    by (rule new_id_diverges [where F = F and A = A]) (use assms in \<open>simp_all add: phys_ok_def\<close>)
  then show ?thesis by (simp add: anon_page_create_def deref_def)
qed

text \<open>C21: The life of an anonymous page, with the random numbers of the code, which are all 0.  When the identifier 0 is
  not in use, creating a page that starts out empty takes a free page under that identifier;
  fetching it gives that page; and freeing it returns the page and the identifier, so that the free
  pages are those from before.  The memory is as its last user left it: the clearing does not
  happen.  And while the page lives no other anonymous page can be created: the search for a new
  identifier never ends.\<close>

theorem anon_page_life:
  assumes "phys_ok s F A" "color_ok (num_page_colors (pages s)) (if shared then obj_ct else spc_ct)" "F \<noteq> {}" "new \<noteq> NULL" "new \<notin> A"
    "rand_seed s = 0" "\<not> anon_mutex s" "0 \<notin> an_id s ` A"
  shows "\<exists>k\<in>F. \<exists>obj_ct' s'. anon_page_create rd ino_id new PSRC_NULL spc_ct obj_ct shared s = Some (0, obj_ct', s') \<and>
    phys_ok s' (F - {k}) (insert new A) \<and> phys s' = phys s \<and>
    (\<exists>spc_ct'. phys_page_fetch rd sw ino_id junk (PSRC_ANON 0) spc_ct obj_ct' shared s' = Some (word_of_nat k * PAGE_SIZE, spc_ct', obj_ct', s')) \<and>
    (\<exists>s''. anon_page_free sf 0 s' = Some s'' \<and> phys_ok s'' F A \<and> \<not> anon_mutex s'') \<and>
    anon_page_create rd ino_id new' src' spc_ct'' obj_ct'' shared' s' = None"
proof -
  define s2 where "s2 = s\<lparr>an_status := (an_status s)(new := ANON_PRESENT), rand_seed := 0, anon_mutex := True, an_id := (an_id s)(new := 0)\<rparr>"
  obtain k a obj_ct' where g: "get_anon_page spc_ct obj_ct shared s2 = (word_of_nat k * PAGE_SIZE, obj_ct', s2\<lparr>pages := a\<rparr>)"
    "k \<in> F" "k < 2 ^ 20" "pages_ok a (F - {k})" and old: "\<forall>q\<in>A. an_id s2 q = an_id s q"
    and id: "new_id (s\<lparr>an_status := (an_status s)(new := ANON_PRESENT)\<rparr>) =
       Some (0, s\<lparr>an_status := (an_status s)(new := ANON_PRESENT), rand_seed := 0, anon_mutex := True\<rparr>)"
    by (rule anon_prepare [OF assms(1-3,5-8) s2_def])
  define t where "t = s2\<lparr>pages := a, an_addr := (an_addr s2)(new := word_of_nat k * PAGE_SIZE)\<rparr>"
  define s' where "s' = unlock_anon (anon_insert new t)"
  have create: "anon_page_create rd ino_id new PSRC_NULL spc_ct obj_ct shared s = Some (0, obj_ct', s')"
    using assms(4) g(1) id by (simp add: anon_page_create_def Let_def phys_memset_zero s'_def t_def flip: s2_def)
  have f: "an_id s' new = 0" "an_status s' new = ANON_PRESENT" "an_addr s' new = word_of_nat k * PAGE_SIZE" "phys s' = phys s"
    "\<not> anon_mutex s'" "rand_seed s' = 0"
    by (simp_all add: s'_def anon_insert_def t_def s2_def unlock_anon_def)
  have "phys_ok (anon_insert new t) (F - {k}) (insert new A)"
    by (rule anon_insert_ok [OF assms(1,4,5)]) (use old assms(8) g(4) in \<open>simp_all add: t_def s2_def\<close>)
  then have ok': "phys_ok s' (F - {k}) (insert new A)" by (simp add: phys_ok_def s'_def unlock_anon_def)
  have "anon_lookup 0 (s'\<lparr>anon_mutex := True\<rparr>) = Some new" using anon_lookup_member [OF ok', of new] f(1) by (simp add: anon_lookup_def)
  then have fetch: "\<exists>spc_ct'. phys_page_fetch rd sw ino_id junk (PSRC_ANON 0) spc_ct obj_ct' shared s' =
      Some (word_of_nat k * PAGE_SIZE, spc_ct', obj_ct', s')"
    using assms(4) f(2,3,5) by (simp add: phys_page_fetch_def lock_anon_def unlock_anon_def)
  obtain s'' where "anon_page_free sf (an_id s' new) s' = Some s''" "phys_ok s'' (insert k (F - {k})) (insert new A - {new})" "\<not> anon_mutex s''"
    by (rule anon_page_free_ok [OF ok' _ f(2,3) g(3) _ f(5)]) simp_all
  moreover have "insert k (F - {k}) = F" "insert new A - {new} = A" using g(2) assms(5) by auto
  ultimately have free: "\<exists>s''. anon_page_free sf 0 s' = Some s'' \<and> phys_ok s'' F A \<and> \<not> anon_mutex s''" using f(1) by auto
  have "0 \<in> an_id s' ` insert new A" using f(1) by simp
  from anon_page_create_stuck [OF ok' f(6) this] show ?thesis using create ok' f(4) fetch free g(2) by blast
qed

text \<open>Freeing an identifier that is not in use returns with the mutex of the file taken, and from then on
  no operation on anonymous pages returns.\<close>

lemma anon_page_free_unknown:
  assumes "phys_ok s F A" "\<not> anon_mutex s" "ident \<notin> an_id s ` A"
  shows "anon_page_free sf ident s = Some (s\<lparr>anon_mutex := True\<rparr>)"
    "anon_page_free sf' ident' (s\<lparr>anon_mutex := True\<rparr>) = None"
    "anon_page_create rd ino_id new src spc_ct obj_ct shared (s\<lparr>anon_mutex := True\<rparr>) = None"
    "phys_page_fetch rd sw ino_id junk src spc_ct obj_ct shared (s\<lparr>anon_mutex := True\<rparr>) = None"
proof -
  have "hash_table_delete (an_id s) (=) anon_hash ANON_HASH_TABLE_SIZE (an_table s) ident = Some (NULL, an_table s)"
    by (rule anon.delete_absent [where S = A]) (use assms in \<open>simp_all add: phys_ok_def\<close>)
  then show "anon_page_free sf ident s = Some (s\<lparr>anon_mutex := True\<rparr>)" using assms(2) by (simp add: anon_page_free_def lock_anon_def)
qed (simp_all add: anon_page_free_def anon_page_create_def phys_page_fetch_def lock_anon_def new_id.simps deref_def)

text \<open>A copy of an anonymous page is lost.  The copy is made in a page that is taken off the free lists, but its
  descriptor is not entered in the table: the identifier that is returned is unknown, fetching it
  gives the value of an unassigned variable, and freeing it returns nothing and leaves the mutex
  taken, so that the page is never free again.\<close>

theorem anon_copy_lost:
  assumes "phys_ok s F A" "color_ok (num_page_colors (pages s)) (if shared then obj_ct else spc_ct)" "F \<noteq> {}" "new \<noteq> NULL" "new \<notin> A"
    "rand_seed s = 0" "\<not> anon_mutex s" "0 \<notin> an_id s ` A" "p \<in> A" "an_status s p = ANON_PRESENT"
  shows "\<exists>k\<in>F. \<exists>obj_ct' s'. anon_page_create rd ino_id new (PSRC_ANON (an_id s p)) spc_ct obj_ct shared s = Some (0, obj_ct', s') \<and>
    phys_ok s' (F - {k}) A \<and> phys s' = memcpy_lo_hi (unat (word_of_nat k * PAGE_SIZE)) (unat (an_addr s p)) PAGE_SIZE (phys s) \<and>
    phys_page_fetch rd sw ino_id junk (PSRC_ANON 0) spc_ct obj_ct' shared s' = Some (junk, spc_ct, obj_ct', s') \<and>
    anon_page_free sf 0 s' = Some (s'\<lparr>anon_mutex := True\<rparr>)"
proof -
  define s2 where "s2 = s\<lparr>an_status := (an_status s)(new := ANON_PRESENT), rand_seed := 0, anon_mutex := True, an_id := (an_id s)(new := 0)\<rparr>"
  obtain k a obj_ct' where g: "get_anon_page spc_ct obj_ct shared s2 = (word_of_nat k * PAGE_SIZE, obj_ct', s2\<lparr>pages := a\<rparr>)"
    "k \<in> F" "k < 2 ^ 20" "pages_ok a (F - {k})" and old: "\<forall>q\<in>A. an_id s2 q = an_id s q"
    and tab: "table_ok (\<lambda>_. True) (an_id s2) anon_hash ANON_HASH_TABLE_SIZE (an_table s2) A"
    and id: "new_id (s\<lparr>an_status := (an_status s)(new := ANON_PRESENT)\<rparr>) =
       Some (0, s\<lparr>an_status := (an_status s)(new := ANON_PRESENT), rand_seed := 0, anon_mutex := True\<rparr>)"
    by (rule anon_prepare [OF assms(1-3,5-8) s2_def])
  define t where "t = s2\<lparr>pages := a, an_addr := (an_addr s2)(new := word_of_nat k * PAGE_SIZE)\<rparr>"
  define s' where "s' = unlock_anon (t\<lparr>phys := memcpy_lo_hi (unat (word_of_nat k * PAGE_SIZE)) (unat (an_addr s p)) PAGE_SIZE (phys s)\<rparr>)"
  have okt: "phys_ok t (F - {k}) A" "phys_ok s' (F - {k}) A" using tab g(4) by (simp_all add: phys_ok_def s'_def t_def unlock_anon_def)
  have pn: "p \<noteq> new" "p \<noteq> NULL" using assms(5,9) anon.not_null [OF tab assms(9)] by auto
  have "anon_lookup (an_id s p) t = Some p" using anon_lookup_member [OF okt(1) assms(9)] old assms(9) by (simp add: t_def)
  moreover have "an_status t p = ANON_PRESENT" "an_addr t p = an_addr s p" "phys t = phys s" using pn(1) assms(10) by (simp_all add: t_def s2_def)
  ultimately have create: "anon_page_create rd ino_id new (PSRC_ANON (an_id s p)) spc_ct obj_ct shared s = Some (0, obj_ct', s')"
    using assms(4) g(1) pn(2) id by (simp add: anon_page_create_def Let_def phys_memcpy_page s'_def flip: s2_def t_def)
  have "an_id s' ` A = an_id s ` A" using old by (intro image_cong) (simp_all add: s'_def t_def unlock_anon_def)
  then have gone: "0 \<notin> an_id s' ` A" "\<not> anon_mutex s'" using assms(8) by (simp_all add: s'_def unlock_anon_def)
  have "anon_lookup 0 (s'\<lparr>anon_mutex := True\<rparr>) = Some NULL" using anon_lookup_absent [OF okt(2) gone(1)] by (simp add: anon_lookup_def)
  then have "phys_page_fetch rd sw ino_id junk (PSRC_ANON 0) spc_ct obj_ct' shared s' = Some (junk, spc_ct, obj_ct', s')"
    using gone(2) by (simp add: phys_page_fetch_def lock_anon_def unlock_anon_def)
  then show ?thesis using create okt(2) g(2) anon_page_free_unknown(1) [OF okt(2) gone(2,1)]
    by (intro bexI [of _ k] exI [of _ obj_ct'] exI [of _ s']) (simp_all add: s'_def unlock_anon_def)
qed

definition demo_phys :: phys_state where
  "demo_phys = \<lparr>pages = demo_stock, cached = no_cache, an_id = (\<lambda>_. 0), an_status = (\<lambda>_. 0), an_addr = (\<lambda>_. 0), an_inode = (\<lambda>_. NULL),
     an_page = (\<lambda>_. 0), an_table = empty_table, anon_mutex = False, rand_seed = 0, phys = (\<lambda>_. 0xff)\<rparr>"

lemma demo_phys_ok: "phys_ok demo_phys {9, 10} {}"
  using anon.empty_ok demo_stock_ok(1) by (simp add: phys_ok_def demo_phys_def)

theorem anon_page_life_witness:
  "\<exists>obj_ct' s'. anon_page_create (\<lambda>_ _ _ _. None) (\<lambda>_. 1) 500 PSRC_NULL demo_colors demo_colors True demo_phys = Some (0, obj_ct', s') \<and>
     phys s' = phys demo_phys \<and>
     anon_page_create (\<lambda>_ _ _ _. None) (\<lambda>_. 1) 600 PSRC_NULL demo_colors demo_colors True s' = None"
proof -
  have d: "rand_seed demo_phys = 0" "\<not> anon_mutex demo_phys" "pages demo_phys = demo_stock" by (simp_all add: demo_phys_def)
  have h: "color_ok (num_page_colors (pages demo_phys)) (if True then demo_colors else demo_colors)" "{9, 10} \<noteq> ({} :: nat set)"
    "(500 :: ptr) \<noteq> NULL" "(500 :: ptr) \<notin> {}" "0 \<notin> an_id demo_phys ` {}"
    using demo_colors_ok demo_stock_ok(2) d(3) by (simp_all add: NULL_def)
  from anon_page_life [OF demo_phys_ok h(1-4) d(1,2) h(5), where sf = "\<lambda>_ _ _. None" and sw = "\<lambda>_ _ _ _. None" and junk = 0]
  show ?thesis by blast
qed

text \<open>An anonymous page in page 5, with the identifier 4.\<close>

definition demo_anon :: phys_state where
  "demo_anon = anon_insert 500 (demo_phys\<lparr>an_id := (\<lambda>_. 4), an_status := (\<lambda>_. ANON_PRESENT), an_addr := (\<lambda>_. 5 * PAGE_SIZE)\<rparr>)"

lemma demo_anon_ok: "phys_ok demo_anon {9, 10} {500}"
proof -
  have "phys_ok (anon_insert 500 (demo_phys\<lparr>an_id := (\<lambda>_. 4), an_status := (\<lambda>_. ANON_PRESENT), an_addr := (\<lambda>_. 5 * PAGE_SIZE)\<rparr>)) {9, 10} (insert 500 {})"
    by (rule anon_insert_ok [OF demo_phys_ok]) (use demo_stock_ok(1) in \<open>simp_all add: NULL_def demo_phys_def\<close>)
  then show ?thesis by (simp add: demo_anon_def)
qed

theorem anon_copy_lost_witness:
  "\<exists>obj_ct' s'. anon_page_create (\<lambda>_ _ _ _. None) (\<lambda>_. 1) 600 (PSRC_ANON 4) demo_colors demo_colors True demo_anon = Some (0, obj_ct', s') \<and>
     phys_page_fetch (\<lambda>_ _ _ _. None) (\<lambda>_ _ _ _. None) (\<lambda>_. 1) 77 (PSRC_ANON 0) demo_colors obj_ct' True s' = Some (77, demo_colors, obj_ct', s')"
proof -
  have f: "an_id demo_anon 500 = 4" "an_status demo_anon 500 = ANON_PRESENT" "rand_seed demo_anon = 0" "pages demo_anon = demo_stock" "\<not> anon_mutex demo_anon"
    by (simp_all add: demo_anon_def anon_insert_def demo_phys_def)
  have h: "color_ok (num_page_colors (pages demo_anon)) (if True then demo_colors else demo_colors)" "{9, 10} \<noteq> ({} :: nat set)"
    "(600 :: ptr) \<noteq> NULL" "(600 :: ptr) \<notin> {500}" "0 \<notin> an_id demo_anon ` {500}" "(500 :: ptr) \<in> {500}"
    using demo_colors_ok demo_stock_ok(2) f by (simp_all add: NULL_def)
  from anon_copy_lost [OF demo_anon_ok h(1-4) f(3,5) h(5,6) f(2), unfolded f(1), where sf = "\<lambda>_ _ _. None"]
  show ?thesis by blast
qed

end
