(* ===== verification/Rw_Lock.thy ===== *)
theory Rw_Lock
  imports Prelude
begin

text \<open>
  \<^verbatim>\<open>src/sync/rw_lock.c\<close>: read-write locks.  Every function takes the mutex of the lock, works on the count
  and releases the mutex, and gives it up in between only in \<^verbatim>\<open>cond_wait\<close>.  The model is written over
  mutexes that exclude, so that what happens between two waits is one step.  The condition variable
  is the one of \<^verbatim>\<open>sync.c\<close> (theory \<^verbatim>\<open>Sync\<close> has its functions on the memory, this theory what they do to
  the waiting threads):

  \<^item> a thread that waits spins first, and the first timer interrupt moves it to the front of the queue
    of sleepers (\<^verbatim>\<open>do_wait\<close>, \<^verbatim>\<open>wait_sleep\<close>);
  \<^item> a broadcast releases the spinning threads; of the sleepers it restarts the one at the head of the
    queue, once for each of them, while it removes them all from its end, so that the others are in no queue any more and
    nothing restarts them (\<open>rw_lost\<close>);
  \<^item> a broadcast that finds no sleeper returns with the lock of the queue taken (\<open>rw_cq\<close>, \<^verbatim>\<open>sync.c:511\<close>;
    the lemma \<open>Sync_Sleep.cond_broadcast_nobody\<close>), and from then on every broadcast and every move to
    the queue spins on that lock forever.  Such a call has the value \<open>None\<close> and is no step: it holds
    the mutex of the lock, so that nobody else would make one either;
  \<^item> a spinning thread may wake up without a broadcast (\<open>Sync_Sleep.first_wait_does_not_block\<close>).

  The model has any number of threads that call the functions in the order a lock demands: what
  was locked for reading is unlocked from reading, and so on.
\<close>

datatype rw_pc = Outside | Read_Wait | Reading | Write_Wait | Writing | Upgrade_Wait

record rw_lock =
  rw_count :: u32
  rw_pc :: "nat \<Rightarrow> rw_pc"
  rw_asleep :: "nat \<Rightarrow> bool"
  rw_queue :: "nat list"
  rw_lost :: "nat list"
  rw_cq :: bool

definition rw_init :: rw_lock where
  "rw_init = \<lparr>rw_count = 0, rw_pc = \<lambda>_. Outside, rw_asleep = \<lambda>_. False, rw_queue = [], rw_lost = [], rw_cq = False\<rparr>"

definition rw_set :: "u32 \<Rightarrow> nat \<Rightarrow> rw_pc \<Rightarrow> rw_lock \<Rightarrow> rw_lock" where
  "rw_set c i p s = s\<lparr>rw_count := c, rw_pc := (rw_pc s)(i := p)\<rparr>"

definition rw_wait :: "nat \<Rightarrow> rw_pc \<Rightarrow> rw_lock \<Rightarrow> rw_lock" where
  "rw_wait i p s = s\<lparr>rw_pc := (rw_pc s)(i := p), rw_asleep := (rw_asleep s)(i := True)\<rparr>"

definition rw_spinning :: "rw_lock \<Rightarrow> nat \<Rightarrow> bool" where
  "rw_spinning s i \<longleftrightarrow> rw_asleep s i \<and> i \<notin> set (rw_queue s) \<and> i \<notin> set (rw_lost s)"

definition rw_sleep :: "nat \<Rightarrow> rw_lock \<Rightarrow> rw_lock option" where
  "rw_sleep i s = (if rw_cq s then None else Some (s\<lparr>rw_queue := i # rw_queue s\<rparr>))"

definition rw_broadcast :: "rw_lock \<Rightarrow> rw_lock option" where
  "rw_broadcast s = (if rw_cq s then None
     else let lost = rw_lost s @ tl (rw_queue s) in
       Some (s\<lparr>rw_asleep := \<lambda>i. rw_asleep s i \<and> i \<in> set lost, rw_queue := [], rw_lost := lost, rw_cq := rw_queue s = []\<rparr>))"

text \<open>The functions: a call, or what a waiting thread does after a wake-up.\<close>

definition rw_read_lock :: "nat \<Rightarrow> rw_lock \<Rightarrow> rw_lock" where
  "rw_read_lock i s = (if rw_count s = -1 then rw_wait i Read_Wait s else rw_set (rw_count s + 1) i Reading s)"

definition rw_read_unlock :: "nat \<Rightarrow> rw_lock \<Rightarrow> rw_lock option" where
  "rw_read_unlock i s = (let s' = rw_set (rw_count s - 1) i Outside s in if rw_count s' = 0 then rw_broadcast s' else Some s')"

definition rw_write_lock :: "nat \<Rightarrow> rw_lock \<Rightarrow> rw_lock" where
  "rw_write_lock i s = (if rw_count s \<noteq> 0 then rw_wait i Write_Wait s else rw_set (-1) i Writing s)"

definition rw_write_unlock :: "nat \<Rightarrow> rw_lock \<Rightarrow> rw_lock option" where
  "rw_write_unlock i s = rw_broadcast (rw_set 0 i Outside s)"

definition upgrade_loop :: "nat \<Rightarrow> rw_lock \<Rightarrow> rw_lock" where
  "upgrade_loop i s = (if rw_count s \<noteq> 0 then rw_wait i Upgrade_Wait s else rw_set (-1) i Writing s)"

definition rw_upgrade_lock :: "nat \<Rightarrow> rw_lock \<Rightarrow> rw_lock" where
  "rw_upgrade_lock i s = upgrade_loop i (s\<lparr>rw_count := rw_count s - 1\<rparr>)"

definition rw_downgrade_lock :: "nat \<Rightarrow> rw_lock \<Rightarrow> rw_lock option" where
  "rw_downgrade_lock i s = rw_broadcast (rw_set 1 i Reading s)"

definition rw_ready :: "rw_lock \<Rightarrow> nat \<Rightarrow> rw_pc \<Rightarrow> bool" where
  "rw_ready s i p \<longleftrightarrow> rw_pc s i = p \<and> \<not> rw_asleep s i"

inductive rw_step :: "nat \<Rightarrow> rw_lock \<Rightarrow> rw_lock \<Rightarrow> bool" where
  s_read: "rw_pc s i = Outside \<or> rw_ready s i Read_Wait \<Longrightarrow> rw_step i s (rw_read_lock i s)"
| s_write: "rw_pc s i = Outside \<or> rw_ready s i Write_Wait \<Longrightarrow> rw_step i s (rw_write_lock i s)"
| s_upgrade: "rw_pc s i = Reading \<Longrightarrow> rw_step i s (rw_upgrade_lock i s)"
| s_upgrade_again: "rw_ready s i Upgrade_Wait \<Longrightarrow> rw_step i s (upgrade_loop i s)"
| s_read_done: "rw_pc s i = Reading \<Longrightarrow> rw_read_unlock i s = Some s' \<Longrightarrow> rw_step i s s'"
| s_write_done: "rw_pc s i = Writing \<Longrightarrow> rw_write_unlock i s = Some s' \<Longrightarrow> rw_step i s s'"
| s_downgrade: "rw_pc s i = Writing \<Longrightarrow> rw_downgrade_lock i s = Some s' \<Longrightarrow> rw_step i s s'"
| s_sleep: "rw_spinning s i \<Longrightarrow> rw_sleep i s = Some s' \<Longrightarrow> rw_step i s s'"
| s_spurious: "rw_spinning s i \<Longrightarrow> rw_step i s (s\<lparr>rw_asleep := (rw_asleep s)(i := False)\<rparr>)"

inductive rw_reach :: "nat \<Rightarrow> rw_lock \<Rightarrow> bool" for n where
  start: "rw_reach n rw_init"
| step: "rw_reach n s \<Longrightarrow> i < n \<Longrightarrow> rw_step i s s' \<Longrightarrow> rw_reach n s'"

text \<open>What may happen from a given state on.\<close>

inductive rw_run :: "nat \<Rightarrow> rw_lock \<Rightarrow> rw_lock \<Rightarrow> bool" for n s where
  here: "rw_run n s s"
| more: "rw_run n s t \<Longrightarrow> i < n \<Longrightarrow> rw_step i t t' \<Longrightarrow> rw_run n s t'"

subsection \<open>The invariant\<close>

definition holders_in :: "nat \<Rightarrow> rw_pc \<Rightarrow> rw_lock \<Rightarrow> nat set" where
  "holders_in n p s = {i. i < n \<and> rw_pc s i = p}"

text \<open>Either one thread writes, the count is -1 and nobody reads, or nobody writes and the readers are counted.\<close>

definition rw_inv :: "nat \<Rightarrow> rw_lock \<Rightarrow> bool" where
  "rw_inv n s \<longleftrightarrow>
     (if rw_count s = -1 then (\<exists>w. holders_in n Writing s = {w}) \<and> holders_in n Reading s = {}
      else holders_in n Writing s = {} \<and> rw_count s = word_of_nat (card (holders_in n Reading s)))"

lemma holders_set:
  "i < n \<Longrightarrow> holders_in n p (rw_set c i q s) = (if q = p then insert i (holders_in n p s) else holders_in n p s - {i})"
  by (auto simp: holders_in_def rw_set_def)

lemma holders_wait:
  "i < n \<Longrightarrow> holders_in n p (rw_wait i q s) = (if q = p then insert i (holders_in n p s) else holders_in n p s - {i})"
  by (auto simp: holders_in_def rw_wait_def)

lemma rw_set_simps [simp]:
  "rw_count (rw_set c i q s) = c" "rw_count (rw_wait i q s) = rw_count s"
  "rw_pc (rw_set c i q s) = (rw_pc s)(i := q)" "rw_pc (rw_wait i q s) = (rw_pc s)(i := q)"
  "rw_asleep (rw_set c i q s) = rw_asleep s" "rw_asleep (rw_wait i q s) = (rw_asleep s)(i := True)"
  "rw_queue (rw_set c i q s) = rw_queue s" "rw_queue (rw_wait i q s) = rw_queue s"
  "rw_lost (rw_set c i q s) = rw_lost s" "rw_lost (rw_wait i q s) = rw_lost s"
  "rw_cq (rw_set c i q s) = rw_cq s" "rw_cq (rw_wait i q s) = rw_cq s"
  by (simp_all add: rw_set_def rw_wait_def)

lemma rw_broadcast_some:
  assumes "rw_broadcast s = Some s'"
  shows "\<not> rw_cq s" "rw_count s' = rw_count s" "rw_pc s' = rw_pc s" "rw_lost s' = rw_lost s @ tl (rw_queue s)"
    "rw_asleep s' k \<longleftrightarrow> rw_asleep s k \<and> k \<in> set (rw_lost s')" "rw_queue s' = []" "rw_cq s' \<longleftrightarrow> rw_queue s = []"
    "holders_in n p s' = holders_in n p s"
  using assms by (auto simp: rw_broadcast_def Let_def holders_in_def split: if_splits)

lemma rw_sleep_some:
  assumes "rw_sleep i s = Some s'"
  shows "\<not> rw_cq s" "rw_count s' = rw_count s" "rw_pc s' = rw_pc s" "rw_lost s' = rw_lost s" "rw_asleep s' = rw_asleep s"
    "rw_queue s' = i # rw_queue s" "\<not> rw_cq s'" "holders_in n p s' = holders_in n p s"
  using assms by (auto simp: rw_sleep_def holders_in_def split: if_splits)

lemma holders_asleep [simp]: "holders_in n p (s\<lparr>rw_asleep := f\<rparr>) = holders_in n p s"
  by (simp add: holders_in_def)

lemmas rw_op_defs = rw_read_lock_def rw_read_unlock_def rw_write_lock_def rw_write_unlock_def upgrade_loop_def
  rw_upgrade_lock_def rw_downgrade_lock_def holders_set holders_wait Let_def

lemma finite_holders [simp]: "finite (holders_in n p s)"
  by (simp add: holders_in_def)

lemma holders_subset: "holders_in n p s \<subseteq> {..<n}"
  by (auto simp: holders_in_def)

lemma reader_count:
  assumes "k \<le> n" "n < 2 ^ 32 - 1"
  shows "(word_of_nat k :: u32) \<noteq> -1" "(word_of_nat k :: u32) = 0 \<longleftrightarrow> k = 0"
proof -
  have k: "unat (word_of_nat k :: u32) = k" using assms by (simp add: unat_of_nat)
  have "unat (-1 :: u32) = 2 ^ 32 - 1" by (simp add: unat_eq_nat_uint uint_word_ariths)
  then show "(word_of_nat k :: u32) \<noteq> -1" using k assms by fastforce
  show "(word_of_nat k :: u32) = 0 \<longleftrightarrow> k = 0" using k unat_eq_0 [of "word_of_nat k :: u32"] by simp
qed

lemma card_holders: "card (holders_in n p s) \<le> n"
  using card_mono [OF _ holders_subset, of n p s] by simp

lemma rw_inv_cases:
  assumes "rw_inv n s" "n < 2 ^ 32 - 1"
  obtains (writer) w where "rw_count s = -1" "holders_in n Writing s = {w}" "holders_in n Reading s = {}"
  | (readers) "holders_in n Writing s = {}" "rw_count s = word_of_nat (card (holders_in n Reading s))" "rw_count s \<noteq> -1"
      "rw_count s = 0 \<longleftrightarrow> holders_in n Reading s = {}"
proof (cases "rw_count s = -1")
  case True
  then show ?thesis using assms(1) writer by (auto simp: rw_inv_def)
next
  case False
  moreover from False have "rw_count s = word_of_nat (card (holders_in n Reading s))" "holders_in n Writing s = {}" using assms(1) by (auto simp: rw_inv_def)
  moreover from this have "rw_count s = 0 \<longleftrightarrow> holders_in n Reading s = {}" using reader_count(2) [OF card_holders assms(2), of Reading s] by simp
  ultimately show ?thesis using readers by blast
qed

lemma reader_leaves:
  assumes "rw_inv n s" "n < 2 ^ 32 - 1" "i < n" "rw_pc s i = Reading"
  shows "holders_in n Writing s = {}" "rw_count s - 1 = word_of_nat (card (holders_in n Reading s - {i}))" "i \<in> holders_in n Reading s"
proof -
  show i: "i \<in> holders_in n Reading s" using assms(3,4) by (simp add: holders_in_def)
  have c: "card (holders_in n Reading s) = Suc (card (holders_in n Reading s - {i}))" by (rule card.remove [OF finite_holders i])
  show "holders_in n Writing s = {}" "rw_count s - 1 = word_of_nat (card (holders_in n Reading s - {i}))"
    using i c by (rule_tac [!] rw_inv_cases [OF assms(1,2)]) auto
qed

lemma rw_inv_read:
  assumes inv: "rw_inv n s" and n: "n < 2 ^ 32 - 1" and i: "i < n" and out: "i \<notin> holders_in n Reading s" "i \<notin> holders_in n Writing s"
  shows "rw_inv n (rw_read_lock i s)"
proof (rule rw_inv_cases [OF inv n])
  fix w assume "rw_count s = -1" "holders_in n Writing s = {w}" "holders_in n Reading s = {}"
  then show ?thesis using out i by (simp add: rw_inv_def rw_op_defs)
next
  assume r: "holders_in n Writing s = {}" "rw_count s = word_of_nat (card (holders_in n Reading s))" "rw_count s \<noteq> -1"
  have "Suc (card (holders_in n Reading s)) = card (insert i (holders_in n Reading s))" using out by simp
  moreover have "insert i (holders_in n Reading s) \<subseteq> {..<n}" using holders_subset i by blast
  then have "card (insert i (holders_in n Reading s)) \<le> n" using card_mono [of "{..<n}"] by fastforce
  ultimately have "(word_of_nat (Suc (card (holders_in n Reading s))) :: u32) \<noteq> -1" using reader_count(1) [OF _ n] by simp
  then show ?thesis using r out i by (simp add: rw_inv_def rw_op_defs add.commute)
qed

lemma rw_inv_step:
  assumes inv: "rw_inv n s" and n: "n < 2 ^ 32 - 1" and i: "i < n" and step: "rw_step i s s'"
  shows "rw_inv n s'"
  using step
proof cases
  case s_read
  then have out: "i \<notin> holders_in n Reading s" "i \<notin> holders_in n Writing s" by (auto simp: holders_in_def rw_ready_def)
  show ?thesis using rw_inv_read [OF inv n i out] s_read(1) by simp
next
  case s_write
  then have out: "i \<notin> holders_in n Reading s" "i \<notin> holders_in n Writing s" by (auto simp: holders_in_def rw_ready_def)
  show ?thesis
    using s_write(1) out i by (rule_tac rw_inv_cases [OF inv n]) (auto simp: rw_inv_def rw_op_defs)
next
  case s_upgrade
  note r = reader_leaves [OF inv n i s_upgrade(2)]
  have z: "rw_count s - 1 \<noteq> -1" "rw_count s - 1 = 0 \<longleftrightarrow> holders_in n Reading s - {i} = {}"
    using reader_count [OF _ n, of "card (holders_in n Reading s - {i})"] card_holders [of n Reading s] card_Diff1_le [of "holders_in n Reading s" i]
    unfolding r(2) by auto
  have "holders_in n p (s\<lparr>rw_count := c\<rparr>) = holders_in n p s" for p c by (simp add: holders_in_def)
  then show ?thesis
    using s_upgrade(1) r z i by (auto simp: rw_inv_def rw_op_defs)
next
  case s_upgrade_again
  then have out: "i \<notin> holders_in n Reading s" "i \<notin> holders_in n Writing s" by (auto simp: holders_in_def rw_ready_def)
  show ?thesis
    using s_upgrade_again(1) out i by (rule_tac rw_inv_cases [OF inv n]) (auto simp: rw_inv_def rw_op_defs)
next
  case s_read_done
  note r = reader_leaves [OF inv n i s_read_done(1)]
  have "rw_count s - 1 \<noteq> -1"
    using reader_count(1) [OF _ n, of "card (holders_in n Reading s - {i})"] card_holders [of n Reading s] card_Diff1_le [of "holders_in n Reading s" i]
    unfolding r(2) by auto
  then have "rw_inv n (rw_set (rw_count s - 1) i Outside s)" using r i by (simp add: rw_inv_def holders_set)
  then show ?thesis using s_read_done(2)
    unfolding rw_read_unlock_def Let_def by (cases "rw_count s - 1 = 0") (auto simp: rw_inv_def rw_broadcast_some(2,8))
next
  case s_write_done
  then have "i \<in> holders_in n Writing s" using i by (simp add: holders_in_def)
  then have "rw_inv n (rw_set 0 i Outside s)" using i by (rule_tac rw_inv_cases [OF inv n]) (auto simp: rw_inv_def holders_set)
  then show ?thesis using s_write_done(2) by (simp add: rw_write_unlock_def rw_inv_def rw_broadcast_some(2,8))
next
  case s_downgrade
  then have "i \<in> holders_in n Writing s" using i by (simp add: holders_in_def)
  then have "rw_inv n (rw_set 1 i Reading s)" using i by (rule_tac rw_inv_cases [OF inv n]) (auto simp: rw_inv_def holders_set)
  then show ?thesis using s_downgrade(2) by (simp add: rw_downgrade_lock_def rw_inv_def rw_broadcast_some(2,8))
next
  case s_sleep
  then show ?thesis using inv by (simp add: rw_inv_def rw_sleep_some(2,8))
next
  case s_spurious
  then show ?thesis using inv by (simp add: rw_inv_def)
qed

lemma rw_reach_inv: "rw_reach n s \<Longrightarrow> n < 2 ^ 32 - 1 \<Longrightarrow> rw_inv n s"
proof (induction rule: rw_reach.induct)
  case start
  then show ?case by (simp add: rw_inv_def holders_in_def rw_init_def)
next
  case (step s i s')
  then show ?case by (blast intro: rw_inv_step)
qed

text \<open>C19: A read-write lock excludes: whatever the order in which threads lock, unlock, upgrade and downgrade, a thread that
  writes is alone, and while nobody writes the count is the number of readers.\<close>

theorem rw_lock_excludes:
  assumes "rw_reach n s" "n < 2 ^ 32 - 1"
  shows "(\<forall>i<n. \<forall>j<n. rw_pc s i = Writing \<longrightarrow> j \<noteq> i \<longrightarrow> rw_pc s j \<notin> {Reading, Writing}) \<and>
    ((\<forall>i<n. rw_pc s i \<noteq> Writing) \<longrightarrow> rw_count s = word_of_nat (card {i. i < n \<and> rw_pc s i = Reading}))"
proof -
  have "rw_inv n s" by (rule rw_reach_inv [OF assms])
  then show ?thesis
  proof (rule rw_inv_cases [OF _ assms(2)])
    fix w assume w: "holders_in n Writing s = {w}" "holders_in n Reading s = {}"
    have only: "i = w" if "i < n" "rw_pc s i = Writing" for i
    proof -
      have "i \<in> holders_in n Writing s" using that by (simp add: holders_in_def)
      then show ?thesis using w(1) by simp
    qed
    have "w < n" "rw_pc s w = Writing" using w(1) by (auto simp: holders_in_def)
    then show ?thesis using only w(2) by (auto simp: holders_in_def)
  next
    assume "holders_in n Writing s = {}" "rw_count s = word_of_nat (card (holders_in n Reading s))"
    then show ?thesis by (auto simp: holders_in_def)
  qed
qed

theorem rw_lock_excludes_witness:
  "\<exists>s. rw_reach 2 s \<and> rw_pc s 0 = Writing \<and> rw_pc s 1 \<notin> {Reading, Writing}"
proof -
  let ?s = "rw_write_lock 0 rw_init"
  have "rw_step 0 rw_init ?s" by (rule rw_step.s_write) (simp add: rw_init_def)
  then have "rw_reach 2 ?s" by (rule rw_reach.step [OF rw_reach.start, rotated]) simp
  moreover have "rw_pc ?s 0 = Writing" by (simp add: rw_write_lock_def rw_init_def)
  ultimately show ?thesis
    using rw_lock_excludes [of 2 ?s, THEN conjunct1, rule_format, of 0 1] by (intro exI [of _ ?s]) simp
qed

subsection \<open>Wake-ups\<close>








text \<open>The scenarios: thread 0 writes, the threads 1 and 2 wait to read and are put to sleep, thread 0 unlocks.\<close>

fun rw_pcs :: "rw_pc list \<Rightarrow> nat \<Rightarrow> rw_pc" where
  "rw_pcs ps i = (if i < length ps then ps ! i else Outside)"


definition rw_demo_after :: rw_lock where
  "rw_demo_after = \<lparr>rw_count = 0, rw_pc = rw_pcs [Outside, Read_Wait, Read_Wait], rw_asleep = \<lambda>i. i = 1, rw_queue = [], rw_lost = [1], rw_cq = False\<rparr>"





text \<open>The other sleeper stays asleep, although nobody holds the lock: no step of its own is left, and a broadcast
  does not wake it.\<close>

lemma rw_wakeup_lost:
  "\<nexists>s'. rw_step 1 rw_demo_after s'" "rw_broadcast t = Some t' \<Longrightarrow> i \<in> set (rw_lost t) \<Longrightarrow> rw_asleep t i \<Longrightarrow> rw_asleep t' i"
  by (auto simp: rw_demo_after_def rw_ready_def rw_spinning_def rw_broadcast_some(4,5) elim!: rw_step.cases)

subsection \<open>The unlock that hangs\<close>

lemma rw_step_stuck:
  assumes "rw_step i s s'" "rw_cq s"
  shows "rw_cq s'" "rw_pc s j = Writing \<Longrightarrow> rw_pc s' j = Writing"
proof -
  have none: "rw_write_unlock i s = None" "rw_downgrade_lock i s = None" "rw_sleep i s = None" "rw_read_unlock i s = Some s' \<Longrightarrow> s' = rw_set (rw_count s - 1) i Outside s"
    using assms(2) by (auto simp: rw_write_unlock_def rw_downgrade_lock_def rw_read_unlock_def rw_sleep_def rw_broadcast_def Let_def split: if_splits)
  show "rw_cq s'" "rw_pc s j = Writing \<Longrightarrow> rw_pc s' j = Writing"
    using assms none by (auto elim!: rw_step.cases simp: rw_read_lock_def rw_write_lock_def upgrade_loop_def rw_upgrade_lock_def rw_ready_def split: if_splits)
qed

lemma rw_run_stuck:
  assumes "rw_run n s s'" "rw_reach n s" "rw_cq s" "rw_pc s i = Writing"
  shows "rw_reach n s' \<and> rw_cq s' \<and> rw_pc s' i = Writing"
  using assms
proof induction
  case (more t k t')
  then show ?case using rw_step_stuck [of k t t'] rw_reach.step [of n t k t'] by blast
qed simp

text \<open>C37: A read-write lock works until its first broadcast that finds no sleeper.  From then on the thread that
  writes keeps the lock for good: in every run from there, whatever the threads call, its unlock and
  its downgrade never return and nobody else ever reads or writes.\<close>

theorem rw_lock_writer_stuck:
  assumes "rw_reach n s" "n < 2 ^ 32 - 1" "rw_cq s" "i < n" "rw_pc s i = Writing" "rw_run n s s'"
  shows "rw_pc s' i = Writing \<and> rw_write_unlock i s' = None \<and> rw_downgrade_lock i s' = None \<and>
    (\<forall>j<n. j \<noteq> i \<longrightarrow> rw_pc s' j \<notin> {Reading, Writing})"
proof -
  have r: "rw_reach n s'" "rw_cq s'" "rw_pc s' i = Writing" using rw_run_stuck [OF assms(6,1,3,5)] by auto
  have w: "i \<in> holders_in n Writing s'" using r(3) assms(4) by (simp add: holders_in_def)
  have "rw_pc s' j \<notin> {Reading, Writing}" if "j < n" "j \<noteq> i" for j
    using w that by (rule_tac rw_inv_cases [OF rw_reach_inv [OF r(1) assms(2)] assms(2)]) (auto simp: holders_in_def set_eq_iff)
  then show ?thesis using r by (simp add: rw_write_unlock_def rw_downgrade_lock_def rw_broadcast_def)
qed

text \<open>It takes two uses of a fresh lock, with no contention at all: thread 0 locks for writing and unlocks, thread 1 locks for
  writing and cannot unlock.\<close>

theorem rw_lock_writer_stuck_witness:
  "\<exists>a b c. rw_step 0 rw_init a \<and> rw_step 0 a b \<and> rw_step 1 b c \<and> rw_pc b = rw_pc rw_init \<and> rw_pc c 1 = Writing \<and> rw_write_unlock 1 c = None"
proof -
  define a where "a = rw_write_lock 0 rw_init"
  define b where "b = rw_init\<lparr>rw_cq := True\<rparr>"
  define c where "c = rw_write_lock 1 b"
  have a: "a = rw_init\<lparr>rw_count := -1, rw_pc := (\<lambda>_. Outside)(0 := Writing)\<rparr>" by (simp add: a_def rw_write_lock_def rw_init_def rw_set_def)
  have s: "rw_step 0 rw_init a" unfolding a_def by (rule s_write) (simp add: rw_init_def)
  have t: "rw_step 0 a b" by (rule s_write_done) (simp_all add: a b_def rw_write_unlock_def rw_broadcast_def rw_set_def rw_init_def fun_eq_iff)
  have u: "rw_step 1 b c" unfolding c_def by (rule s_write) (simp add: b_def rw_init_def)
  have "rw_reach 2 a" using rw_reach.step [OF rw_reach.start _ s, of 2] by simp
  from rw_reach.step [OF this _ t] have "rw_reach 2 b" by simp
  from rw_reach.step [OF this _ u] have r: "rw_reach 2 c" by simp
  have c: "rw_cq c" "rw_pc c 1 = Writing" by (simp_all add: c_def b_def rw_write_lock_def rw_init_def)
  then have "rw_write_unlock 1 c = None" using rw_lock_writer_stuck [OF r _ c(1) _ c(2) rw_run.here] by simp
  then show ?thesis using s t u c(2) by (intro exI [of _ a] exI [of _ b] exI [of _ c]) (simp add: b_def)
qed

end
