(* ===== verification/Rb_Tree.thy ===== *)
theory Rb_Tree
  imports Prelude
begin

unbundle bit_operations_syntax

text \<open>
  \<^verbatim>\<open>RED_BLACK_TREE\<close> of \<^verbatim>\<open>include/data_structures.h\<close>: a red-black tree with parent links in the nodes of
  the client.  The macro's parameter \<open>comp\<close> is the argument \<open>cmp\<close>; \<open>left\<close>, \<open>right\<close>, \<open>up\<close> and \<open>color\<close> are fields
  of the memory of nodes.  Where the C code passes the address of a variable to a rotation, the
  rotation returns the new value of the variable.  \<open>None\<close> is a dereference of \<open>NULL\<close> or a walk along
  links that never ends.
\<close>

record rb_mem =
  rb_left :: "ptr \<Rightarrow> ptr"
  rb_right :: "ptr \<Rightarrow> ptr"
  rb_up :: "ptr \<Rightarrow> ptr"
  rb_color :: "ptr \<Rightarrow> u32"
  rb_flags :: "ptr \<Rightarrow> u32"

definition COLOR :: u32 where
  "COLOR = 1"

definition is_black :: "rb_mem \<Rightarrow> ptr \<Rightarrow> bool" where
  "is_black m p \<longleftrightarrow> rb_color m p AND COLOR \<noteq> 0"

definition set_left :: "ptr \<Rightarrow> ptr \<Rightarrow> rb_mem \<Rightarrow> rb_mem" where
  "set_left p q m = m\<lparr>rb_left := (rb_left m)(p := q)\<rparr>"

definition set_right :: "ptr \<Rightarrow> ptr \<Rightarrow> rb_mem \<Rightarrow> rb_mem" where
  "set_right p q m = m\<lparr>rb_right := (rb_right m)(p := q)\<rparr>"

definition set_up :: "ptr \<Rightarrow> ptr \<Rightarrow> rb_mem \<Rightarrow> rb_mem" where
  "set_up p q m = m\<lparr>rb_up := (rb_up m)(p := q)\<rparr>"

definition set_color :: "ptr \<Rightarrow> u32 \<Rightarrow> rb_mem \<Rightarrow> rb_mem" where
  "set_color p c m = m\<lparr>rb_color := (rb_color m)(p := c)\<rparr>"

definition paint_black :: "ptr \<Rightarrow> rb_mem \<Rightarrow> rb_mem" where
  "paint_black p m = set_color p (rb_color m p OR COLOR) m"

definition paint_red :: "ptr \<Rightarrow> rb_mem \<Rightarrow> rb_mem" where
  "paint_red p m = set_color p (rb_color m p AND NOT COLOR) m"

definition uncle_node :: "ptr \<Rightarrow> rb_mem \<Rightarrow> ptr option" where
  "uncle_node node m = do {
     p \<leftarrow> deref (rb_up m node);
     g \<leftarrow> deref (rb_up m p);
     Some (if p = rb_left m g then rb_right m g else rb_left m g) }"

definition brother_node :: "ptr \<Rightarrow> rb_mem \<Rightarrow> ptr option" where
  "brother_node node m = do {
     p \<leftarrow> deref (rb_up m node);
     Some (if node = rb_left m p then rb_right m p else rb_left m p) }"

subsection \<open>Rotations\<close>

definition s_right_rotate :: "ptr \<Rightarrow> rb_mem \<Rightarrow> (ptr \<times> rb_mem) option" where
  "s_right_rotate apex m = do {
     apex \<leftarrow> deref apex;
     child \<leftarrow> deref (rb_left m apex);
     let tmp = rb_color m apex AND COLOR;
     let m = set_color apex (rb_color m apex AND NOT COLOR) m;
     let m = set_color apex (rb_color m apex OR (rb_color m child AND COLOR)) m;
     let m = set_color child (rb_color m child AND NOT COLOR) m;
     let m = set_color child (rb_color m child OR tmp) m;
     let m = set_left apex (rb_right m child) m;
     let m = (if NULL \<noteq> rb_right m child then set_up (rb_right m child) apex m else m);
     let m = set_up child (rb_up m apex) m;
     let m = set_right child apex m;
     let m = set_up apex child m;
     Some (child, m) }"

text \<open>The left rotation assigns the colour of the top where the right one only sets a bit.\<close>

definition s_left_rotate :: "ptr \<Rightarrow> rb_mem \<Rightarrow> (ptr \<times> rb_mem) option" where
  "s_left_rotate apex m = do {
     apex \<leftarrow> deref apex;
     child \<leftarrow> deref (rb_right m apex);
     let tmp = rb_color m apex AND COLOR;
     let m = set_color apex (rb_color m apex AND NOT COLOR) m;
     let m = set_color apex (rb_color m child AND COLOR) m;
     let m = set_color child (rb_color m child AND NOT COLOR) m;
     let m = set_color child (rb_color m child OR tmp) m;
     let m = set_right apex (rb_left m child) m;
     let m = (if NULL \<noteq> rb_left m child then set_up (rb_left m child) apex m else m);
     let m = set_up child (rb_up m apex) m;
     let m = set_left child apex m;
     let m = set_up apex child m;
     Some (child, m) }"

definition d_right_rotate :: "ptr \<Rightarrow> rb_mem \<Rightarrow> (ptr \<times> rb_mem) option" where
  "d_right_rotate tree m = do {
     tree \<leftarrow> deref tree;
     (child, m) \<leftarrow> s_left_rotate (rb_left m tree) m;
     s_right_rotate tree (set_left tree child m) }"

definition d_left_rotate :: "ptr \<Rightarrow> rb_mem \<Rightarrow> (ptr \<times> rb_mem) option" where
  "d_left_rotate tree m = do {
     tree \<leftarrow> deref tree;
     (child, m) \<leftarrow> s_right_rotate (rb_right m tree) m;
     s_left_rotate tree (set_right tree child m) }"

text \<open>After a rotation the new top takes the place of the old one in its parent (\<open>child_direction\<close>).\<close>

definition relink :: "bool \<Rightarrow> ptr \<Rightarrow> rb_mem \<Rightarrow> rb_mem" where
  "relink child_direction cur m =
     (if NULL \<noteq> rb_up m cur then
        if child_direction then set_left (rb_up m cur) cur m else set_right (rb_up m cur) cur m
      else m)"

partial_function (option) climb :: "ptr \<Rightarrow> rb_mem \<Rightarrow> ptr option" where
  "climb cur m = (if NULL \<noteq> rb_up m cur then climb (rb_up m cur) m else Some cur)"

subsection \<open>Insertion\<close>

partial_function (option) descend :: "(ptr \<Rightarrow> ptr \<Rightarrow> int) \<Rightarrow> ptr \<Rightarrow> ptr \<Rightarrow> rb_mem \<Rightarrow> ptr option" where
  "descend cmp inn cur m =
     (let nxt = (if cmp cur inn > 0 then rb_left m cur else rb_right m cur) in
      if NULL \<noteq> nxt then descend cmp inn nxt m else Some cur)"

definition rotate_insert :: "ptr \<Rightarrow> rb_mem \<Rightarrow> (ptr \<times> rb_mem) option" where
  "rotate_insert cur m = do {
     let p = rb_up m cur;
     let g = rb_up m p;
     let child_direction = (g = rb_left m (rb_up m g));
     (apex, m) \<leftarrow>
       (if p = rb_left m g then if cur = rb_left m p then s_right_rotate g m else d_right_rotate g m
        else if cur = rb_right m p then s_left_rotate g m else d_left_rotate g m);
     Some (apex, relink child_direction apex m) }"

partial_function (option) fix_insert :: "ptr \<Rightarrow> rb_mem \<Rightarrow> (ptr \<times> rb_mem) option" where
  "fix_insert cur m =
     (if NULL = rb_up m cur then Some (cur, m)
      else if is_black m (rb_up m cur) then Some (cur, m)
      else do {
        u \<leftarrow> uncle_node cur m;
        if NULL \<noteq> u \<and> \<not> is_black m u then do {
          let g = rb_up m (rb_up m cur);
          let m = paint_black (rb_right m g) (paint_black (rb_left m g) m);
          fix_insert g (if NULL \<noteq> rb_up m g then paint_red g m else m) }
        else rotate_insert cur m })"

definition tree_insert :: "(ptr \<Rightarrow> ptr \<Rightarrow> int) \<Rightarrow> ptr \<Rightarrow> ptr \<Rightarrow> rb_mem \<Rightarrow> (ptr \<times> rb_mem) option" where
  "tree_insert cmp tree inn m = do {
     let m = paint_red inn m;
     if NULL \<noteq> tree then do {
       prev \<leftarrow> descend cmp inn tree m;
       let m = set_left inn NULL (set_right inn NULL (set_up inn prev m));
       let m = (if cmp inn prev < 0 then set_left prev inn m else set_right prev inn m);
       (cur, m) \<leftarrow> fix_insert inn m;
       tree \<leftarrow> climb cur m;
       Some (tree, m) }
     else Some (inn, paint_black inn (set_left inn NULL (set_right inn NULL (set_up inn NULL m)))) }"

subsection \<open>Deletion\<close>

partial_function (option) find_target :: "(ptr \<Rightarrow> ptr \<Rightarrow> int) \<Rightarrow> ptr \<Rightarrow> ptr \<Rightarrow> rb_mem \<Rightarrow> ptr option" where
  "find_target cmp inn target m =
     (if NULL \<noteq> target then
        if 0 = cmp target inn then Some target
        else if -1 = cmp target inn then find_target cmp inn (rb_left m target) m
        else find_target cmp inn (rb_right m target) m
      else Some NULL)"

partial_function (option) innermost :: "bool \<Rightarrow> ptr \<Rightarrow> rb_mem \<Rightarrow> ptr option" where
  "innermost direction p m =
     (let nxt = (if direction then rb_left m p else rb_right m p) in
      if NULL \<noteq> nxt then innermost direction nxt m else Some p)"

definition black_or_null :: "rb_mem \<Rightarrow> ptr \<Rightarrow> bool" where
  "black_or_null m p \<longleftrightarrow> p = NULL \<or> is_black m p"

definition rotate_parent :: "ptr \<Rightarrow> rb_mem \<Rightarrow> rb_mem option" where
  "rotate_parent node m = do {
     let p = rb_up m node;
     let child_direction = (p = rb_left m (rb_up m p));
     (apex, m) \<leftarrow> (if node = rb_left m p then s_right_rotate p m else s_left_rotate p m);
     Some (relink child_direction apex m) }"

definition inner_red :: "ptr \<Rightarrow> rb_mem \<Rightarrow> bool" where
  "inner_red node m =
     (if node = rb_left m (rb_up m node) then black_or_null m (rb_left m node) \<and> \<not> black_or_null m (rb_right m node)
      else black_or_null m (rb_right m node) \<and> \<not> black_or_null m (rb_left m node))"

partial_function (option) fix_delete :: "ptr \<Rightarrow> rb_mem \<Rightarrow> rb_mem option" where
  "fix_delete fix_ptr m =
     (if NULL = rb_up m fix_ptr then Some m
      else if \<not> is_black m fix_ptr then Some (paint_black fix_ptr m)
      else do {
        node \<leftarrow> brother_node fix_ptr m;
        node \<leftarrow> deref node;
        if \<not> is_black m node then do {
          m \<leftarrow> rotate_parent node m;
          fix_delete fix_ptr m }
        else if black_or_null m (rb_left m node) \<and> black_or_null m (rb_right m node) then
          fix_delete (rb_up m fix_ptr) (paint_red node m)
        else if inner_red node m then
          if node = rb_left m (rb_up m node) then do {
            (node, m) \<leftarrow> s_left_rotate node m;
            fix_delete fix_ptr (set_left (rb_up m node) node m) }
          else do {
            (node, m) \<leftarrow> s_right_rotate node m;
            fix_delete fix_ptr (set_right (rb_up m node) node m) }
        else do {
          m \<leftarrow> rotate_parent node m;
          node \<leftarrow> brother_node (rb_up m fix_ptr) m;
          node \<leftarrow> deref node;
          Some (paint_black node m) } })"

text \<open>The replacement gets the colour bit of the target's \<^verbatim>\<open>flags\<close>, not of its \<^verbatim>\<open>color\<close>.\<close>

definition take_out :: "bool \<Rightarrow> ptr \<Rightarrow> ptr \<Rightarrow> rb_mem \<Rightarrow> rb_mem" where
  "take_out direction target r m =
     (let m = set_color r (rb_color m r AND NOT COLOR) m;
          m = set_color r (rb_color m r OR (rb_flags m target AND COLOR)) m
      in if rb_left m target \<noteq> r \<and> rb_right m target \<noteq> r then
        if direction then
          let m = (if NULL \<noteq> rb_up m r then set_left (rb_up m r) (rb_right m r) m else m)
          in if NULL \<noteq> rb_right m r then set_up (rb_right m r) (rb_up m r) m else m
        else
          let m = (if NULL \<noteq> rb_up m r then set_right (rb_up m r) (rb_left m r) m else m)
          in if NULL \<noteq> rb_left m r then set_up (rb_left m r) (rb_up m r) m else m
      else if rb_right m target = r then set_right target (rb_right m r) m
      else set_left target (rb_left m r) m)"

definition put_in :: "ptr \<Rightarrow> ptr \<Rightarrow> rb_mem \<Rightarrow> rb_mem" where
  "put_in target r m =
     (let m = (if NULL \<noteq> rb_left m target then set_up (rb_left m target) r m else m);
          m = (if NULL \<noteq> rb_right m target then set_up (rb_right m target) r m else m);
          m = (if NULL \<noteq> rb_up m target then
                 if target = rb_left m (rb_up m target) then set_left (rb_up m target) r m
                 else set_right (rb_up m target) r m
               else m);
          m = set_up r (rb_up m target) m;
          m = set_right r (if rb_right m target \<noteq> r then rb_right m target else NULL) m
      in set_left r (if rb_left m target \<noteq> r then rb_left m target else NULL) m)"

definition remove_node :: "ptr \<Rightarrow> rb_mem \<Rightarrow> (ptr \<times> rb_mem) option" where
  "remove_node target m = do {
     (direction, r) \<leftarrow>
       (if NULL = rb_left m target \<and> NULL = rb_right m target then Some (False, NULL)
        else do {
          let direction = (rb_left m target = NULL);
          r \<leftarrow> innermost direction (if direction then rb_right m target else rb_left m target) m;
          Some (direction, r) });
     let fix_ptr = (if r = NULL then target else r);
     m \<leftarrow> (if is_black m fix_ptr then fix_delete fix_ptr m else Some m);
     if NULL \<noteq> r then Some (r, put_in target r (take_out direction target r m))
     else do {
       p \<leftarrow> deref (rb_up m target);
       Some (p, if target = rb_left m p then set_left p NULL m else set_right p NULL m) } }"

definition tree_delete :: "(ptr \<Rightarrow> ptr \<Rightarrow> int) \<Rightarrow> ptr \<Rightarrow> ptr \<Rightarrow> rb_mem \<Rightarrow> (ptr \<times> ptr \<times> rb_mem) option" where
  "tree_delete cmp tree inn m = do {
     target \<leftarrow> find_target cmp inn tree m;
     if NULL \<noteq> target then
       if NULL = rb_left m target \<and> NULL = rb_right m target \<and> NULL = rb_up m target then Some (target, NULL, m)
       else do {
         (at, m) \<leftarrow> remove_node target m;
         tree \<leftarrow> climb at m;
         Some (target, tree, m) }
     else Some (NULL, tree, m) }"

end
