(* ===== verification/Rb_Repr.thy ===== *)
theory Rb_Repr
  imports Rb_Tree "HOL-Library.Tree"
begin

unbundle bit_operations_syntax

text \<open>
  What the linked nodes of a red-black tree represent.  The memory holds an algebraic tree of pointers
  and colours (\<open>tree_at\<close>); a walk up the parent links is a walk along a list of frames, the context of
  the subtree (\<open>ctx_at\<close>).  A rotation in memory is a rotation of the algebraic tree with the two
  colours exchanged.
\<close>

type_synonym rbt = "(ptr \<times> bool) tree"

fun root_of :: "rbt \<Rightarrow> ptr" where
  "root_of Leaf = NULL"
| "root_of (Node l (a, c) r) = a"

definition keys :: "rbt \<Rightarrow> ptr list" where
  "keys t = map fst (inorder t)"

lemma keys_simps [simp]: "keys Leaf = []" "keys (Node l (a, c) r) = keys l @ a # keys r"
  by (simp_all add: keys_def)

fun tree_at :: "rb_mem \<Rightarrow> ptr \<Rightarrow> rbt \<Rightarrow> bool" where
  "tree_at m par Leaf \<longleftrightarrow> True"
| "tree_at m par (Node l (a, c) r) \<longleftrightarrow> a \<noteq> NULL \<and> rb_up m a = par \<and> is_black m a = c \<and>
     rb_left m a = root_of l \<and> rb_right m a = root_of r \<and> tree_at m a l \<and> tree_at m a r"

datatype frame = Left_of ptr bool rbt | Right_of rbt ptr bool

fun plug1 :: "frame \<Rightarrow> rbt \<Rightarrow> rbt" where
  "plug1 (Left_of a c r) t = Node t (a, c) r"
| "plug1 (Right_of l a c) t = Node l (a, c) t"

fun plug :: "frame list \<Rightarrow> rbt \<Rightarrow> rbt" where
  "plug [] t = t"
| "plug (f # fs) t = plug fs (plug1 f t)"

fun ctx_at :: "rb_mem \<Rightarrow> ptr \<Rightarrow> ptr \<Rightarrow> frame list \<Rightarrow> bool" where
  "ctx_at m p par [] \<longleftrightarrow> par = NULL"
| "ctx_at m p par (Left_of a c r # fs) \<longleftrightarrow> par = a \<and> a \<noteq> NULL \<and> is_black m a = c \<and> rb_left m a = p \<and>
     rb_right m a = root_of r \<and> tree_at m a r \<and> ctx_at m a (rb_up m a) fs"
| "ctx_at m p par (Right_of l a c # fs) \<longleftrightarrow> par = a \<and> a \<noteq> NULL \<and> is_black m a = c \<and> rb_right m a = p \<and>
     rb_left m a = root_of l \<and> tree_at m a l \<and> ctx_at m a (rb_up m a) fs"

lemma tree_at_plug:
  "tree_at m NULL (plug fs t) \<longleftrightarrow> (\<exists>par. tree_at m par t \<and> ctx_at m (root_of t) par fs)"
proof (induction fs arbitrary: t)
  case (Cons f fs)
  then show ?case by (cases f) auto
qed simp

subsection \<open>Writing to nodes\<close>

definition agree :: "ptr set \<Rightarrow> rb_mem \<Rightarrow> rb_mem \<Rightarrow> bool" where
  "agree A m m' \<longleftrightarrow> (\<forall>q\<in>A. rb_left m' q = rb_left m q \<and> rb_right m' q = rb_right m q \<and> rb_up m' q = rb_up m q \<and> is_black m' q = is_black m q)"

lemma agree_trans: "agree A m m' \<Longrightarrow> agree A m' m'' \<Longrightarrow> agree A m m''"
  by (simp add: agree_def)

lemma agree_subset: "agree A m m' \<Longrightarrow> B \<subseteq> A \<Longrightarrow> agree B m m'"
  by (auto simp: agree_def)

lemma agree_refl [simp]: "agree A m m"
  by (simp add: agree_def)

lemma tree_at_cong: "agree (set (keys t)) m m' \<Longrightarrow> tree_at m' par t = tree_at m par t"
proof (induction t arbitrary: par)
  case (Node l x r)
  have "agree (set (keys l)) m m'" "agree (set (keys r)) m m'"
    using Node.prems by (cases x; auto simp: agree_def)+
  then show ?case using Node by (cases x) (auto simp: agree_def)
qed simp

fun frame_keys :: "frame \<Rightarrow> ptr set" where
  "frame_keys (Left_of a c r) = insert a (set (keys r))"
| "frame_keys (Right_of l a c) = insert a (set (keys l))"

definition ctx_keys :: "frame list \<Rightarrow> ptr set" where
  "ctx_keys fs = \<Union> (frame_keys ` set fs)"

lemma ctx_keys_simps [simp]: "ctx_keys [] = {}" "ctx_keys (f # fs) = frame_keys f \<union> ctx_keys fs"
  by (simp_all add: ctx_keys_def)

lemma ctx_at_cong: "agree (ctx_keys fs) m m' \<Longrightarrow> ctx_at m' p par fs = ctx_at m p par fs"
proof (induction fs arbitrary: p par)
  case (Cons f fs)
  show ?case
  proof (cases f)
    case (Left_of a c r)
    then have "tree_at m' a r = tree_at m a r" "agree (ctx_keys fs) m m'"
      using Cons.prems by (auto intro!: tree_at_cong agree_subset [OF Cons.prems])
    then show ?thesis using Cons.prems Cons.IH [of a "rb_up m a"] by (simp add: Left_of agree_def)
  next
    case (Right_of l a c)
    then have "tree_at m' a l = tree_at m a l" "agree (ctx_keys fs) m m'"
      using Cons.prems by (auto intro!: tree_at_cong agree_subset [OF Cons.prems])
    then show ?thesis using Cons.prems Cons.IH [of a "rb_up m a"] by (simp add: Right_of agree_def)
  qed
qed simp

lemma set_keys_plug1: "set (keys (plug1 f t)) = frame_keys f \<union> set (keys t)"
  by (cases f) auto

lemma set_keys_plug: "set (keys (plug fs t)) = ctx_keys fs \<union> set (keys t)"
  by (induction fs arbitrary: t) (auto simp: set_keys_plug1)

lemma distinct_plug1: "distinct (keys (plug1 f t)) \<Longrightarrow> distinct (keys t) \<and> frame_keys f \<inter> set (keys t) = {}"
  by (cases f) auto

lemma distinct_plug: "distinct (keys (plug fs t)) \<Longrightarrow> distinct (keys t) \<and> ctx_keys fs \<inter> set (keys t) = {}"
proof (induction fs arbitrary: t)
  case (Cons f fs)
  then have "distinct (keys (plug1 f t))" "ctx_keys fs \<inter> set (keys (plug1 f t)) = {}" by auto
  then show ?case using distinct_plug1 [of f t] by (auto simp: set_keys_plug1)
qed simp

lemma keys_plug_cong: "keys t = keys u \<Longrightarrow> keys (plug fs t) = keys (plug fs u)"
proof (induction fs arbitrary: t u)
  case (Cons f fs)
  have "keys (plug1 f t) = keys (plug1 f u)" using Cons.prems by (cases f) simp_all
  from Cons.IH [OF this] show ?case by simp
qed simp

text \<open>Reading a field after a write.\<close>

lemma color_bit: "c AND COLOR \<noteq> 0 \<longleftrightarrow> bit c 0"
  by (simp add: COLOR_def and_one_eq odd_iff_mod_2_eq_one bit_0)

lemma rb_set_simps [simp]:
  "rb_left (set_left p q m) = (rb_left m)(p := q)" "rb_right (set_left p q m) = rb_right m" "rb_up (set_left p q m) = rb_up m"
  "rb_left (set_right p q m) = rb_left m" "rb_right (set_right p q m) = (rb_right m)(p := q)" "rb_up (set_right p q m) = rb_up m"
  "rb_left (set_up p q m) = rb_left m" "rb_right (set_up p q m) = rb_right m" "rb_up (set_up p q m) = (rb_up m)(p := q)"
  "rb_left (set_color p c m) = rb_left m" "rb_right (set_color p c m) = rb_right m" "rb_up (set_color p c m) = rb_up m"
  "rb_color (set_left p q m) = rb_color m" "rb_color (set_right p q m) = rb_color m" "rb_color (set_up p q m) = rb_color m"
  "rb_color (set_color p c m) = (rb_color m)(p := c)"
  by (simp_all add: set_left_def set_right_def set_up_def set_color_def)

lemma is_black_bit: "is_black m p = bit (rb_color m p) 0"
  by (simp add: is_black_def color_bit)

lemma paint_simps [simp]:
  "rb_left (paint_black p m) = rb_left m" "rb_right (paint_black p m) = rb_right m" "rb_up (paint_black p m) = rb_up m"
  "rb_left (paint_red p m) = rb_left m" "rb_right (paint_red p m) = rb_right m" "rb_up (paint_red p m) = rb_up m"
  "is_black (paint_black p m) q = (q = p \<or> is_black m q)" "is_black (paint_red p m) q = (q \<noteq> p \<and> is_black m q)"
  by (auto simp: paint_black_def paint_red_def is_black_bit COLOR_def bit_simps)

lemma black_set_simps [simp]:
  "is_black (set_left p q m) = is_black m" "is_black (set_right p q m) = is_black m" "is_black (set_up p q m) = is_black m"
  by (auto simp: is_black_def)

subsection \<open>Rotations\<close>

lemma s_right_rotate_fields:
  assumes "y \<noteq> NULL" "rb_left m y = x" "x \<noteq> NULL" "x \<noteq> y" "rb_right m x \<notin> {x, y}"
  shows "\<exists>m'. s_right_rotate y m = Some (x, m') \<and> rb_left m' = (rb_left m)(y := rb_right m x) \<and>
    rb_right m' = (rb_right m)(x := y) \<and>
    rb_up m' = (\<lambda>q. if q = y then x else if q = x then rb_up m y else if q = rb_right m x \<and> q \<noteq> NULL then y else rb_up m q) \<and>
    (\<forall>q. is_black m' q = (if q = x then is_black m y else if q = y then is_black m x else is_black m q))"
  using assms by (auto simp: s_right_rotate_def Let_def is_black_bit COLOR_def bit_simps fun_eq_iff)

lemma s_left_rotate_fields:
  assumes "y \<noteq> NULL" "rb_right m y = x" "x \<noteq> NULL" "x \<noteq> y" "rb_left m x \<notin> {x, y}"
  shows "\<exists>m'. s_left_rotate y m = Some (x, m') \<and> rb_right m' = (rb_right m)(y := rb_left m x) \<and>
    rb_left m' = (rb_left m)(x := y) \<and>
    rb_up m' = (\<lambda>q. if q = y then x else if q = x then rb_up m y else if q = rb_left m x \<and> q \<noteq> NULL then y else rb_up m q) \<and>
    (\<forall>q. is_black m' q = (if q = x then is_black m y else if q = y then is_black m x else is_black m q))"
  using assms by (auto simp: s_left_rotate_def Let_def is_black_bit COLOR_def bit_simps fun_eq_iff)

lemma moved_subtree:
  assumes "tree_at m x b" "agree (set (keys b) - {root_of b}) m m'" "root_of b \<noteq> NULL \<Longrightarrow> rb_up m' (root_of b) = y"
    "rb_left m' (root_of b) = rb_left m (root_of b)" "rb_right m' (root_of b) = rb_right m (root_of b)"
    "is_black m' (root_of b) = is_black m (root_of b)" "distinct (keys b)"
  shows "tree_at m' y b"
proof (cases b)
  case (Node l e r)
  obtain a c where e: "e = (a, c)" by (cases e)
  have "agree (set (keys l)) m m'" "agree (set (keys r)) m m'"
    using assms(2,7) by (auto simp: Node e agree_def)
  then show ?thesis using assms by (simp add: Node e tree_at_cong)
qed simp

lemma s_right_rotate_at:
  assumes t: "tree_at m par (Node (Node a (x, cx) b) (y, cy) c)" and d: "distinct (keys (Node (Node a (x, cx) b) (y, cy) c))"
  shows "\<exists>m'. s_right_rotate y m = Some (x, m') \<and> tree_at m' par (Node a (x, cy) (Node b (y, cx) c)) \<and>
    agree (- (set (keys a) \<union> {x, y} \<union> set (keys b) \<union> set (keys c))) m m'"
proof -
  have b: "root_of b = NULL \<or> root_of b \<in> set (keys b)" by (cases b rule: root_of.cases) auto
  have n: "y \<noteq> NULL" "rb_left m y = x" "x \<noteq> NULL" "x \<noteq> y" "rb_right m x = root_of b" "rb_right m x \<notin> {x, y}"
    using t d b by auto
  obtain m' where m: "s_right_rotate y m = Some (x, m')" "rb_left m' = (rb_left m)(y := root_of b)"
    "rb_right m' = (rb_right m)(x := y)"
    "rb_up m' = (\<lambda>q. if q = y then x else if q = x then rb_up m y else if q = root_of b \<and> q \<noteq> NULL then y else rb_up m q)"
    "\<forall>q. is_black m' q = (if q = x then is_black m y else if q = y then is_black m x else is_black m q)"
    using s_right_rotate_fields [OF n(1-4,6)] unfolding n(5) by auto
  have "agree (set (keys a)) m m'" "agree (set (keys c)) m m'" "agree (set (keys b) - {root_of b}) m m'"
    using d b by (auto simp: agree_def m)
  then have "tree_at m' x a" "tree_at m' y c" "tree_at m' y b"
    using t d n by (auto simp: tree_at_cong m intro!: moved_subtree [of m x b])
  moreover have "agree (- (set (keys a) \<union> {x, y} \<union> set (keys b) \<union> set (keys c))) m m'"
    using b by (auto simp: agree_def m)
  ultimately show ?thesis using t n by (auto simp: m)
qed

lemma s_left_rotate_at:
  assumes t: "tree_at m par (Node a (y, cy) (Node b (x, cx) c))" and d: "distinct (keys (Node a (y, cy) (Node b (x, cx) c)))"
  shows "\<exists>m'. s_left_rotate y m = Some (x, m') \<and> tree_at m' par (Node (Node a (y, cx) b) (x, cy) c) \<and>
    agree (- (set (keys a) \<union> {x, y} \<union> set (keys b) \<union> set (keys c))) m m'"
proof -
  have b: "root_of b = NULL \<or> root_of b \<in> set (keys b)" by (cases b rule: root_of.cases) auto
  have n: "y \<noteq> NULL" "rb_right m y = x" "x \<noteq> NULL" "x \<noteq> y" "rb_left m x = root_of b" "rb_left m x \<notin> {x, y}"
    using t d b by auto
  obtain m' where m: "s_left_rotate y m = Some (x, m')" "rb_right m' = (rb_right m)(y := root_of b)"
    "rb_left m' = (rb_left m)(x := y)"
    "rb_up m' = (\<lambda>q. if q = y then x else if q = x then rb_up m y else if q = root_of b \<and> q \<noteq> NULL then y else rb_up m q)"
    "\<forall>q. is_black m' q = (if q = x then is_black m y else if q = y then is_black m x else is_black m q)"
    using s_left_rotate_fields [OF n(1-4,6)] unfolding n(5) by auto
  have "agree (set (keys a)) m m'" "agree (set (keys c)) m m'" "agree (set (keys b) - {root_of b}) m m'"
    using d b by (auto simp: agree_def m)
  then have "tree_at m' y a" "tree_at m' x c" "tree_at m' y b"
    using t d n by (auto simp: tree_at_cong m intro!: moved_subtree [of m x b])
  moreover have "agree (- (set (keys a) \<union> {x, y} \<union> set (keys b) \<union> set (keys c))) m m'"
    using b by (auto simp: agree_def m)
  ultimately show ?thesis using t n by (auto simp: m)
qed

lemma d_right_rotate_at:
  assumes t: "tree_at m par (Node (Node l (p, cp) (Node a (x, cx) b)) (g, cg) u)"
    and d: "distinct (keys (Node (Node l (p, cp) (Node a (x, cx) b)) (g, cg) u))"
  shows "\<exists>m'. d_right_rotate g m = Some (x, m') \<and> tree_at m' par (Node (Node l (p, cx) a) (x, cg) (Node b (g, cp) u)) \<and>
    agree (- set (keys (Node (Node l (p, cp) (Node a (x, cx) b)) (g, cg) u))) m m'"
proof -
  obtain m1 where m1: "s_left_rotate p m = Some (x, m1)" "tree_at m1 g (Node (Node l (p, cx) a) (x, cp) b)"
    and f1: "agree (- (set (keys l) \<union> {x, p} \<union> set (keys a) \<union> set (keys b))) m m1"
    using s_left_rotate_at [of m g l p cp a x cx b] t d by auto
  define m2 where "m2 = set_left g x m1"
  have f2: "agree (- {g}) m1 m2" by (simp add: m2_def agree_def)
  have "tree_at m2 g (Node (Node l (p, cx) a) (x, cp) b)"
    using m1(2) d by (subst tree_at_cong [OF agree_subset [OF f2]]) auto
  moreover have "agree (set (keys u)) m m2" using d by (intro agree_trans [OF agree_subset [OF f1] agree_subset [OF f2]]) auto
  then have "tree_at m2 g u" using t by (simp add: tree_at_cong)
  moreover have "agree {g} m m1" using d by (intro agree_subset [OF f1]) auto
  ultimately have "tree_at m2 par (Node (Node (Node l (p, cx) a) (x, cp) b) (g, cg) u)"
    using t by (simp add: m2_def agree_def)
  from s_right_rotate_at [OF this] d obtain m' where m': "s_right_rotate g m2 = Some (x, m')"
    "tree_at m' par (Node (Node l (p, cx) a) (x, cg) (Node b (g, cp) u))"
    and f3: "agree (- (set (keys (Node l (p, cx) a)) \<union> {x, g} \<union> set (keys b) \<union> set (keys u))) m2 m'" by auto
  have "agree (- set (keys (Node (Node l (p, cp) (Node a (x, cx) b)) (g, cg) u))) m m'"
    by (intro agree_trans [OF agree_subset [OF f1] agree_trans [OF agree_subset [OF f2] agree_subset [OF f3]]]) auto
  moreover have "d_right_rotate g m = Some (x, m')" using t m1(1) m'(1) by (simp add: d_right_rotate_def m2_def)
  ultimately show ?thesis using m'(2) by blast
qed

lemma d_left_rotate_at:
  assumes t: "tree_at m par (Node u (g, cg) (Node (Node a (x, cx) b) (p, cp) r))"
    and d: "distinct (keys (Node u (g, cg) (Node (Node a (x, cx) b) (p, cp) r)))"
  shows "\<exists>m'. d_left_rotate g m = Some (x, m') \<and> tree_at m' par (Node (Node u (g, cp) a) (x, cg) (Node b (p, cx) r)) \<and>
    agree (- set (keys (Node u (g, cg) (Node (Node a (x, cx) b) (p, cp) r)))) m m'"
proof -
  obtain m1 where m1: "s_right_rotate p m = Some (x, m1)" "tree_at m1 g (Node a (x, cp) (Node b (p, cx) r))"
    and f1: "agree (- (set (keys a) \<union> {x, p} \<union> set (keys b) \<union> set (keys r))) m m1"
    using s_right_rotate_at [of m g a x cx b p cp r] t d by auto
  define m2 where "m2 = set_right g x m1"
  have f2: "agree (- {g}) m1 m2" by (simp add: m2_def agree_def)
  have "tree_at m2 g (Node a (x, cp) (Node b (p, cx) r))"
    using m1(2) d by (subst tree_at_cong [OF agree_subset [OF f2]]) auto
  moreover have "agree (set (keys u)) m m2" using d by (intro agree_trans [OF agree_subset [OF f1] agree_subset [OF f2]]) auto
  then have "tree_at m2 g u" using t by (simp add: tree_at_cong)
  moreover have "agree {g} m m1" using d by (intro agree_subset [OF f1]) auto
  ultimately have "tree_at m2 par (Node u (g, cg) (Node a (x, cp) (Node b (p, cx) r)))"
    using t by (simp add: m2_def agree_def)
  from s_left_rotate_at [OF this] d obtain m' where m': "s_left_rotate g m2 = Some (x, m')"
    "tree_at m' par (Node (Node u (g, cp) a) (x, cg) (Node b (p, cx) r))"
    and f3: "agree (- (set (keys u) \<union> {x, g} \<union> set (keys a) \<union> set (keys (Node b (p, cx) r)))) m2 m'" by auto
  have "agree (- set (keys (Node u (g, cg) (Node (Node a (x, cx) b) (p, cp) r)))) m m'"
    by (intro agree_trans [OF agree_subset [OF f1] agree_trans [OF agree_subset [OF f2] agree_subset [OF f3]]]) auto
  moreover have "d_left_rotate g m = Some (x, m')" using t m1(1) m'(1) by (simp add: d_left_rotate_def m2_def)
  ultimately show ?thesis using m'(2) by blast
qed

lemma root_of_in: "t \<noteq> Leaf \<Longrightarrow> root_of t \<in> set (keys t)"
  by (cases t rule: root_of.cases) auto

lemma root_of_nonnull: "tree_at m par t \<Longrightarrow> root_of t = NULL \<longleftrightarrow> t = Leaf"
  by (cases t rule: root_of.cases) auto

subsection \<open>Contexts\<close>

fun frame_key :: "frame \<Rightarrow> ptr" where
  "frame_key (Left_of a c r) = a"
| "frame_key (Right_of l a c) = a"

fun frame_black :: "frame \<Rightarrow> bool" where
  "frame_black (Left_of a c r) = c"
| "frame_black (Right_of l a c) = c"

fun sibling :: "frame \<Rightarrow> rbt" where
  "sibling (Left_of a c r) = r"
| "sibling (Right_of l a c) = l"

fun root_black :: "rbt \<Rightarrow> bool" where
  "root_black Leaf \<longleftrightarrow> True"
| "root_black (Node l (a, c) r) \<longleftrightarrow> c"

lemma root_of_plug1 [simp]: "root_of (plug1 f t) = frame_key f"
  by (cases f) auto

lemma plug1_not_Leaf [simp]: "plug1 f t \<noteq> Leaf" "Leaf \<noteq> plug1 f t"
  by (cases f; simp)+

lemma root_black_plug1 [simp]: "root_black (plug1 f t) = frame_black f"
  by (cases f) auto

lemma frame_key_in [simp]: "frame_key f \<in> frame_keys f"
  by (cases f) auto

lemma zip_up:
  assumes "tree_at m par t" "ctx_at m (root_of t) par (f # fs)"
  shows "par = frame_key f" "tree_at m (rb_up m par) (plug1 f t)" "ctx_at m par (rb_up m par) fs"
    "par \<noteq> NULL" "is_black m par = frame_black f"
  using assms by (cases f; auto)+

text \<open>Another tree with the same parent link may take the place of a subtree, once it is linked.\<close>

lemma relink_at:
  assumes ctx: "ctx_at m (root_of t) par fs" and t: "t \<noteq> Leaf" "root_of t \<noteq> NULL" "distinct (keys (plug fs t))"
    and par: "rb_up m' q = par" and same: "agree (ctx_keys fs) m m'"
  shows "ctx_at (relink (root_of t = rb_left m par) q m') q par fs \<and> agree (- ctx_keys fs) m' (relink (root_of t = rb_left m par) q m')"
proof (cases fs)
  case Nil
  then show ?thesis using ctx par by (simp add: relink_def)
next
  case (Cons f gs)
  let ?m = "relink (root_of t = rb_left m par) q m'"
  have d: "distinct (keys (plug1 f t))" "ctx_keys gs \<inter> set (keys (plug1 f t)) = {}"
    using distinct_plug [of gs "plug1 f t"] t(3) by (simp_all add: Cons)
  have f: "frame_key f \<notin> set (keys (sibling f))" "frame_key f \<notin> ctx_keys gs" "root_of t \<noteq> root_of (sibling f)"
    using d t root_of_in [OF t(1)] root_of_in [of "sibling f"] by (cases f; cases "sibling f = Leaf"; auto)+
  have m: "agree (- {frame_key f}) m' ?m" using ctx par by (cases f) (auto simp: Cons relink_def agree_def)
  have "set (keys (sibling f)) \<union> ctx_keys gs \<subseteq> ctx_keys fs" by (cases f) (auto simp: Cons)
  then have "agree (set (keys (sibling f)) \<union> ctx_keys gs) m ?m"
    using f by (intro agree_trans [OF agree_subset [OF same] agree_subset [OF m]]) auto
  then have c: "tree_at ?m a (sibling f) = tree_at m a (sibling f)" "ctx_at ?m b e gs = ctx_at m b e gs" for a b e
    by (auto intro!: tree_at_cong ctx_at_cong elim: agree_subset)
  have k: "agree {frame_key f} m m'" by (rule agree_subset [OF same]) (simp add: Cons)
  have "ctx_at ?m q par fs"
    using ctx par f k c by (cases f) (auto simp: Cons relink_def agree_def)
  moreover have "agree (- ctx_keys fs) m' ?m" by (rule agree_subset [OF m]) (auto simp: Cons)
  ultimately show ?thesis by simp
qed

end
