(* ===== verification/Rb_Insert.thy ===== *)
theory Rb_Insert
  imports Rb_Repr
begin

text \<open>
  Insertion into the red-black trees of \<^verbatim>\<open>include/data_structures.h\<close>.  On algebraic trees and contexts
  the repair after an insertion is the function \<open>fix_up\<close>; the loop of the code refines it, and it
  restores the colour and height invariants.
\<close>

subsection \<open>The repair on algebraic trees\<close>

fun blacken :: "rbt \<Rightarrow> rbt" where
  "blacken Leaf = Leaf"
| "blacken (Node l (a, c) r) = Node l (a, True) r"

fun heat :: "frame \<Rightarrow> frame \<Rightarrow> bool \<Rightarrow> rbt \<Rightarrow> rbt" where
  "heat f (Left_of g cg u) c t = Node (blacken (plug1 f t)) (g, c) (blacken u)"
| "heat f (Right_of u g cg) c t = Node (blacken u) (g, c) (blacken (plug1 f t))"

fun rot :: "frame \<Rightarrow> frame \<Rightarrow> rbt \<Rightarrow> rbt" where
  "rot (Left_of p cp r) (Left_of g cg u) t = Node t (p, cg) (Node r (g, cp) u)"
| "rot (Right_of l p cp) (Left_of g cg u) (Node a (x, cx) b) = Node (Node l (p, cx) a) (x, cg) (Node b (g, cp) u)"
| "rot (Right_of l p cp) (Right_of u g cg) t = Node (Node u (g, cp) l) (p, cg) t"
| "rot (Left_of p cp r) (Right_of u g cg) (Node a (x, cx) b) = Node (Node u (g, cp) a) (x, cg) (Node b (p, cx) r)"
| "rot f g Leaf = plug1 g (plug1 f Leaf)"

fun fix_up :: "frame list \<Rightarrow> rbt \<Rightarrow> frame list \<times> rbt" where
  "fix_up (f # g # fs) t =
     (if frame_black f then (f # g # fs, t)
      else if \<not> root_black (sibling g) then fix_up fs (heat f g (fs = [] \<and> frame_black g) t)
      else (fs, rot f g t))"
| "fix_up [f] t = ([f], t)"
| "fix_up [] t = ([], t)"

lemma keys_blacken [simp]: "keys (blacken t) = keys t"
  by (cases t rule: blacken.cases) auto

lemma keys_heat: "keys (heat f g c t) = keys (plug1 g (plug1 f t))"
  by (cases f; cases g) auto

lemma keys_rot: "keys (rot f g t) = keys (plug1 g (plug1 f t))"
  by (induction f g t rule: rot.induct) auto

lemma heat_not_Leaf [simp]: "heat f g c t \<noteq> Leaf"
  by (cases g) auto

lemma rot_not_Leaf [simp]: "rot f g t \<noteq> Leaf"
  by (induction f g t rule: rot.induct) auto

lemma keys_fix_up: "keys (plug (fst (fix_up fs t)) (snd (fix_up fs t))) = keys (plug fs t)"
proof (induction fs t rule: fix_up.induct)
  case (1 f g fs t)
  then show ?case using keys_plug_cong [OF keys_heat, of fs f g] keys_plug_cong [OF keys_rot, of fs f g t] by simp
qed simp_all

subsection \<open>The loop refines the repair\<close>

lemma root_blacken [simp]: "root_of (blacken t) = root_of t"
  by (cases t rule: blacken.cases) auto

lemma paint_tree:
  assumes "tree_at m par t" "distinct (keys t)"
    "\<And>q. q \<in> set (keys t) \<Longrightarrow> rb_left m' q = rb_left m q \<and> rb_right m' q = rb_right m q \<and> rb_up m' q = rb_up m q"
    "\<And>q. q \<in> set (keys t) \<Longrightarrow> is_black m' q = (q = root_of t \<or> is_black m q)"
  shows "tree_at m' par (blacken t)"
proof (cases t)
  case (Node l e r)
  obtain a c where e: "e = (a, c)" by (cases e)
  have "agree (set (keys l)) m m'" "agree (set (keys r)) m m'"
    using assms(2-4) by (auto simp: Node e agree_def)
  then show ?thesis using assms by (auto simp: Node e tree_at_cong)
qed simp

text \<open>The colours of a grandparent and its two children, as the loop leaves them.\<close>

lemma heat_at:
  assumes t: "tree_at m par (plug1 g (plug1 f t))" and d: "distinct (keys (plug1 g (plug1 f t)))"
    and u: "sibling g \<noteq> Leaf"
    and m': "m' = paint_black (rb_right m (frame_key g)) (paint_black (rb_left m (frame_key g)) m)"
    and m'': "m'' = (if b then m' else paint_red (frame_key g) m')"
  shows "tree_at m'' par (heat f g (b \<and> frame_black g) t) \<and> agree (- set (keys (plug1 g (plug1 f t)))) m m''"
proof (cases g)
  case (Left_of a c u)
  let ?l = "plug1 f t"
  have n: "rb_left m a = root_of ?l" "rb_right m a = root_of u" "root_of ?l \<in> set (keys ?l)" "root_of u \<in> set (keys u)"
    using t root_of_in [of u] root_of_in [of ?l] assms(3) by (auto simp: Left_of simp del: root_of_plug1)
  have "tree_at m'' a (blacken ?l)"
    by (rule paint_tree [of m]) (use t d n in \<open>auto simp: m' m'' Left_of simp del: root_of_plug1\<close>)
  moreover have "tree_at m'' a (blacken u)"
    by (rule paint_tree [of m]) (use t d n in \<open>auto simp: m' m'' Left_of simp del: root_of_plug1\<close>)
  moreover have "is_black m'' a = (b \<and> c)" using t d n by (auto simp: m' m'' Left_of simp del: root_of_plug1)
  ultimately show ?thesis using t n by (auto simp: m' m'' Left_of agree_def simp del: root_of_plug1)
next
  case (Right_of u a c)
  let ?r = "plug1 f t"
  have n: "rb_right m a = root_of ?r" "rb_left m a = root_of u" "root_of ?r \<in> set (keys ?r)" "root_of u \<in> set (keys u)"
    using t root_of_in [of u] root_of_in [of ?r] assms(3) by (auto simp: Right_of simp del: root_of_plug1)
  have "tree_at m'' a (blacken ?r)"
    by (rule paint_tree [of m]) (use t d n in \<open>auto simp: m' m'' Right_of simp del: root_of_plug1\<close>)
  moreover have "tree_at m'' a (blacken u)"
    by (rule paint_tree [of m]) (use t d n in \<open>auto simp: m' m'' Right_of simp del: root_of_plug1\<close>)
  moreover have "is_black m'' a = (b \<and> c)" using t d n by (auto simp: m' m'' Right_of simp del: root_of_plug1)
  ultimately show ?thesis using t n by (auto simp: m' m'' Right_of agree_def simp del: root_of_plug1)
qed

lemma rot_at:
  assumes t: "tree_at m par (plug1 g (plug1 f t))" and d: "distinct (keys (plug1 g (plug1 f t)))" and n: "t \<noteq> Leaf"
  shows "\<exists>m'. (if frame_key f = rb_left m (frame_key g)
       then if root_of t = rb_left m (frame_key f) then s_right_rotate (frame_key g) m else d_right_rotate (frame_key g) m
       else if root_of t = rb_right m (frame_key f) then s_left_rotate (frame_key g) m else d_left_rotate (frame_key g) m) =
      Some (root_of (rot f g t), m') \<and> tree_at m' par (rot f g t) \<and> agree (- set (keys (plug1 g (plug1 f t)))) m m'"
proof -
  obtain a x cx b where tt: "t = Node a (x, cx) b" using n by (cases t) auto
  have ne: "root_of u \<noteq> z" if "z \<notin> set (keys u)" "z \<noteq> NULL" for u z using that root_of_in [of u] by (cases "u = Leaf") auto
  show ?thesis
  proof (cases g)
    case (Left_of gk cg u)
    show ?thesis
    proof (cases f)
      case (Left_of p cp r)
      then show ?thesis using s_right_rotate_at [of m par t p cp r gk cg u] t d
        by (auto simp: \<open>g = _\<close> Un_ac insert_commute elim!: agree_subset)
    next
      case (Right_of l p cp)
      then have "x \<noteq> rb_left m p" using t d ne [of x l] by (auto simp: \<open>g = _\<close> tt)
      then show ?thesis using Right_of d_right_rotate_at [of m par l p cp a x cx b gk cg u] t d by (auto simp: \<open>g = _\<close> tt)
    qed
  next
    case (Right_of u gk cg)
    have "frame_key f \<noteq> rb_left m gk" using t d ne [of "frame_key f" u] by (cases f) (auto simp: Right_of)
    show ?thesis
    proof (cases f)
      case (Right_of l p cp)
      then show ?thesis using s_left_rotate_at [of m par u gk cg l p cp t] t d \<open>frame_key f \<noteq> _\<close>
        by (auto simp: \<open>g = _\<close> Un_ac insert_commute elim!: agree_subset)
    next
      case (Left_of p cp r)
      then have "x \<noteq> rb_right m p" using t d ne [of x r] by (auto simp: \<open>g = _\<close> tt)
      then show ?thesis using Left_of d_left_rotate_at [of m par u gk cg a x cx b p cp r] t d \<open>frame_key f \<noteq> _\<close> by (auto simp: \<open>g = _\<close> tt)
    qed
  qed
qed

lemma uncle_at:
  assumes t: "tree_at m par (plug1 g (plug1 f t))" and d: "distinct (keys (plug1 g (plug1 f t)))" and up: "rb_up m q = frame_key f"
  shows "uncle_node q m = Some (root_of (sibling g))" "rb_up m (frame_key f) = frame_key g"
    "is_black m (root_of (sibling g)) = root_black (sibling g) \<or> sibling g = Leaf"
proof -
  have n: "frame_key f \<noteq> NULL" "frame_key g \<noteq> NULL" "rb_up m (frame_key f) = frame_key g"
    using t by (cases f; cases g; auto)+
  have "root_of (sibling g) \<noteq> frame_key f"
    using t d n root_of_in [of "sibling g"] by (cases f; cases g; cases "sibling g = Leaf"; auto)
  then show "uncle_node q m = Some (root_of (sibling g))" using t n up by (cases g) (auto simp: uncle_node_def)
  show "rb_up m (frame_key f) = frame_key g" by (rule n)
  show "is_black m (root_of (sibling g)) = root_black (sibling g) \<or> sibling g = Leaf"
    using t by (cases g; cases "sibling g" rule: root_black.cases) auto
qed

text \<open>One turn of the loop below a red parent: it recolours and goes on at the grandparent, or rotates and ends.\<close>

lemma fix_insert_heat:
  assumes t: "tree_at m gp (plug1 g (plug1 f t))" and c: "ctx_at m (frame_key g) gp fs" and n: "t \<noteq> Leaf"
    and d: "distinct (keys (plug fs (plug1 g (plug1 f t))))" and red: "\<not> frame_black f" "\<not> root_black (sibling g)"
  shows "\<exists>m'. fix_insert (root_of t) m = fix_insert (frame_key g) m' \<and> tree_at m' gp (heat f g (fs = [] \<and> frame_black g) t) \<and>
    ctx_at m' (frame_key g) gp fs \<and> agree (- set (keys (plug1 g (plug1 f t)))) m m'"
proof -
  define m1 where "m1 = paint_black (rb_right m (frame_key g)) (paint_black (rb_left m (frame_key g)) m)"
  define m2 where "m2 = (if fs = [] then m1 else paint_red (frame_key g) m1)"
  note dd = distinct_plug [OF d]
  have up: "rb_up m (root_of t) = frame_key f" and f: "frame_key f \<noteq> NULL" "\<not> is_black m (frame_key f)"
    using t n red(1) by (cases t rule: root_of.cases; cases f; cases g; auto)+
  have sib: "tree_at m (frame_key g) (sibling g)" "rb_up m (frame_key g) = gp" using t by (cases g; auto)+
  have s: "sibling g \<noteq> Leaf" using red by auto
  note u = uncle_at [OF t conjunct1 [OF dd] up]
  have a: "tree_at m2 gp (heat f g (fs = [] \<and> frame_black g) t)" "agree (- set (keys (plug1 g (plug1 f t)))) m m2"
    using heat_at [OF t conjunct1 [OF dd] s m1_def m2_def] by simp_all
  have "NULL \<noteq> rb_up m1 (frame_key g) \<longleftrightarrow> fs \<noteq> []"
    using c sib(2) by (cases fs; cases "hd fs") (auto simp: m1_def)
  then have "fix_insert (root_of t) m = fix_insert (frame_key g) m2"
    using u s f up red root_of_nonnull [OF sib(1)] by (subst fix_insert.simps) (auto simp: m2_def m1_def Let_def)
  moreover have "ctx_at m2 (frame_key g) gp fs"
    using c dd by (subst ctx_at_cong [OF agree_subset [OF a(2)]]) auto
  ultimately show ?thesis using a by blast
qed

lemma fix_insert_rot:
  assumes t: "tree_at m gp (plug1 g (plug1 f t))" and c: "ctx_at m (frame_key g) gp fs" and n: "t \<noteq> Leaf"
    and d: "distinct (keys (plug fs (plug1 g (plug1 f t))))" and red: "\<not> frame_black f" "root_black (sibling g)"
  shows "\<exists>m'. fix_insert (root_of t) m = Some (root_of (rot f g t), m') \<and> tree_at m' gp (rot f g t) \<and>
    ctx_at m' (root_of (rot f g t)) gp fs \<and> agree (- set (keys (plug fs (plug1 g (plug1 f t))))) m m'"
proof -
  note dd = distinct_plug [OF d]
  have up: "rb_up m (root_of t) = frame_key f" "rb_up m (frame_key g) = gp" and f: "frame_key f \<noteq> NULL" "\<not> is_black m (frame_key f)"
    using t n red(1) by (cases t rule: root_of.cases; cases f; cases g; auto)+
  have sib: "tree_at m (frame_key g) (sibling g)" "frame_key g \<noteq> NULL" using t by (cases g; auto)+
  note u = uncle_at [OF t conjunct1 [OF dd] up(1)]
  obtain m1 where m1: "(if frame_key f = rb_left m (frame_key g)
     then if root_of t = rb_left m (frame_key f) then s_right_rotate (frame_key g) m else d_right_rotate (frame_key g) m
     else if root_of t = rb_right m (frame_key f) then s_left_rotate (frame_key g) m else d_left_rotate (frame_key g) m) =
    Some (root_of (rot f g t), m1)" "tree_at m1 gp (rot f g t)"
    and a: "agree (- set (keys (plug1 g (plug1 f t)))) m m1"
    using rot_at [OF t conjunct1 [OF dd] n] by blast
  have up1: "rb_up m1 (root_of (rot f g t)) = gp" using m1(2) by (cases "rot f g t" rule: root_of.cases) auto
  define m2 where "m2 = relink (frame_key g = rb_left m gp) (root_of (rot f g t)) m1"
  have r: "ctx_at m2 (root_of (rot f g t)) gp fs" "agree (- ctx_keys fs) m1 m2"
    using relink_at [of m "plug1 g (plug1 f t)" gp fs m1 "root_of (rot f g t)"] c sib dd d up1
      agree_subset [OF a, of "ctx_keys fs"] by (auto simp: m2_def)
  have "tree_at m2 gp (rot f g t)"
    using m1(2) dd by (subst tree_at_cong [OF agree_subset [OF r(2)]]) (auto simp: keys_rot)
  moreover have "agree (- set (keys (plug fs (plug1 g (plug1 f t))))) m m2"
    by (intro agree_trans [OF agree_subset [OF a] agree_subset [OF r(2)]]) (auto simp: set_keys_plug)
  moreover have "fix_insert (root_of t) m = rotate_insert (root_of t) m"
    using f red u(1,3) up root_of_nonnull [OF sib(1)] by (subst fix_insert.simps) auto
  moreover have "\<dots> = Some (root_of (rot f g t), m2)"
    unfolding rotate_insert_def Let_def up(1) u(2) m1(1) up(2) by (simp add: m2_def)
  ultimately show ?thesis using r(1) by auto
qed

lemma fix_insert_refines:
  assumes "tree_at m par t" "ctx_at m (root_of t) par fs" "distinct (keys (plug fs t))" "t \<noteq> Leaf"
    "fs \<noteq> [] \<longrightarrow> frame_black (last fs)"
  shows "\<exists>m' par'. fix_insert (root_of t) m = Some (root_of (snd (fix_up fs t)), m') \<and> tree_at m' par' (snd (fix_up fs t)) \<and>
    ctx_at m' (root_of (snd (fix_up fs t))) par' (fst (fix_up fs t)) \<and> agree (- set (keys (plug fs t))) m m'"
  using assms
proof (induction fs t arbitrary: m par rule: fix_up.induct)
  case (3 t)
  then have "rb_up m (root_of t) = NULL" by (cases t rule: root_of.cases) auto
  then show ?case using 3 by (subst fix_insert.simps) auto
next
  case (2 f t)
  note z = zip_up [OF 2(1,2)]
  have "rb_up m (root_of t) = par" using 2 by (cases t rule: root_of.cases) auto
  then show ?case using 2 z(4,5) by (subst fix_insert.simps) auto
next
  case (1 f g fs t)
  note z = zip_up [OF 1(2,3)]
  have up: "rb_up m (root_of t) = frame_key f" using 1(2,5) z(1) by (cases t rule: root_of.cases) auto
  have z': "tree_at m (rb_up m (frame_key g)) (plug1 g (plug1 f t))" "ctx_at m (frame_key g) (rb_up m (frame_key g)) fs"
    using zip_up [of m "rb_up m par" "plug1 f t" g fs] z by auto
  have d: "distinct (keys (plug fs (plug1 g (plug1 f t))))" using 1(4) by simp
  consider "frame_black f" | "\<not> frame_black f" "\<not> root_black (sibling g)" | "\<not> frame_black f" "root_black (sibling g)" by blast
  then show ?case
  proof cases
    case 1
    then show ?thesis using "1.prems" z up by (subst fix_insert.simps) auto
  next
    case 2
    define t2 where "t2 = heat f g (fs = [] \<and> frame_black g) t"
    obtain m2 where m2: "fix_insert (root_of t) m = fix_insert (frame_key g) m2" "tree_at m2 (rb_up m (frame_key g)) t2"
      "ctx_at m2 (frame_key g) (rb_up m (frame_key g)) fs" and a: "agree (- set (keys (plug1 g (plug1 f t)))) m m2"
      using fix_insert_heat [OF z' "1.prems"(4) d 2] unfolding t2_def by blast
    have k: "keys (plug fs t2) = keys (plug fs (plug1 g (plug1 f t)))" unfolding t2_def by (rule keys_plug_cong [OF keys_heat])
    have r: "root_of t2 = frame_key g" "t2 \<noteq> Leaf" by (cases g) (simp_all add: t2_def)
    have l: "fs \<noteq> [] \<longrightarrow> frame_black (last fs)" using "1.prems"(5) by (cases "fs = []") simp_all
    from "1.IH" [OF 2, folded t2_def, OF m2(2) _ _ r(2) l, unfolded r(1) k, OF m2(3) d] obtain m' par' where
      m': "fix_insert (frame_key g) m2 = Some (root_of (snd (fix_up fs t2)), m')" "tree_at m' par' (snd (fix_up fs t2))"
        "ctx_at m' (root_of (snd (fix_up fs t2))) par' (fst (fix_up fs t2))" "agree (- set (keys (plug fs (plug1 g (plug1 f t))))) m2 m'"
      by blast
    have "agree (- set (keys (plug (f # g # fs) t))) m m'"
      using m'(4) by (intro agree_trans [OF agree_subset [OF a]]) (auto simp: set_keys_plug)
    moreover have "fix_up (f # g # fs) t = fix_up fs t2" using 2 by (simp add: t2_def)
    ultimately show ?thesis using m' m2(1) by (auto simp del: fix_up.simps)
  next
    case 3
    then show ?thesis using fix_insert_rot [OF z' "1.prems"(4) d 3] by auto
  qed
qed

subsection \<open>The invariants\<close>

fun invc :: "rbt \<Rightarrow> bool" where
  "invc Leaf \<longleftrightarrow> True"
| "invc (Node l (a, c) r) \<longleftrightarrow> (c \<or> root_black l \<and> root_black r) \<and> invc l \<and> invc r"

fun bheight :: "rbt \<Rightarrow> nat" where
  "bheight Leaf = 0"
| "bheight (Node l (a, c) r) = bheight l + of_bool c"

fun invh :: "rbt \<Rightarrow> bool" where
  "invh Leaf \<longleftrightarrow> True"
| "invh (Node l (a, c) r) \<longleftrightarrow> bheight l = bheight r \<and> invh l \<and> invh r"

definition rb :: "rbt \<Rightarrow> bool" where
  "rb t \<longleftrightarrow> invc t \<and> root_black t \<and> invh t"

text \<open>What a context asks of the tree in its hole.\<close>

fun ctx_col :: "bool \<Rightarrow> frame list \<Rightarrow> bool" where
  "ctx_col b [] \<longleftrightarrow> b"
| "ctx_col b (f # fs) \<longleftrightarrow> (frame_black f \<or> b \<and> root_black (sibling f)) \<and> invc (sibling f) \<and> ctx_col (frame_black f) fs"

fun ctx_height :: "nat \<Rightarrow> frame list \<Rightarrow> bool" where
  "ctx_height n [] \<longleftrightarrow> True"
| "ctx_height n (f # fs) \<longleftrightarrow> invh (sibling f) \<and> bheight (sibling f) = n \<and> ctx_height (n + of_bool (frame_black f)) fs"

lemma invc_plug1: "invc (plug1 f t) \<longleftrightarrow> (frame_black f \<or> root_black t \<and> root_black (sibling f)) \<and> invc t \<and> invc (sibling f)"
  by (cases f) auto

lemma invh_plug1: "invh (plug1 f t) \<longleftrightarrow> invh t \<and> invh (sibling f) \<and> bheight (sibling f) = bheight t"
  by (cases f) auto

lemma bheight_plug1: "invh (plug1 f t) \<Longrightarrow> bheight (plug1 f t) = bheight t + of_bool (frame_black f)"
  by (cases f) auto

lemma invc_plug: "invc (plug fs t) \<and> root_black (plug fs t) \<longleftrightarrow> invc t \<and> ctx_col (root_black t) fs"
  by (induction fs arbitrary: t) (auto simp: invc_plug1)

lemma invh_plug: "invh (plug fs t) \<longleftrightarrow> invh t \<and> ctx_height (bheight t) fs"
proof (induction fs arbitrary: t)
  case (Cons f fs)
  show ?case
  proof (cases "invh (plug1 f t)")
    case True
    then show ?thesis by (simp add: Cons.IH bheight_plug1) (simp add: invh_plug1)
  next
    case False
    then show ?thesis by (auto simp: Cons.IH invh_plug1)
  qed
qed simp

lemma rb_plug: "rb (plug fs t) \<longleftrightarrow> invc t \<and> ctx_col (root_black t) fs \<and> invh t \<and> ctx_height (bheight t) fs"
  using invc_plug [of fs t] by (auto simp: rb_def invh_plug)

lemma blacken_inv [simp]: "invc t \<Longrightarrow> invc (blacken t)" "invh (blacken t) = invh t" "root_black (blacken t)"
  "bheight (blacken t) = bheight t + of_bool (\<not> root_black t)"
  by (cases t rule: blacken.cases; auto)+

lemma heat_inv:
  assumes "invc t" "invh t" "\<not> frame_black f" "root_black (sibling f)" "invc (sibling f)" "invh (sibling f)" "bheight (sibling f) = bheight t"
    "frame_black g" "\<not> root_black (sibling g)" "invc (sibling g)" "invh (sibling g)" "bheight (sibling g) = bheight t"
  shows "invc (heat f g c t)" "invh (heat f g c t)" "root_black (heat f g c t) = c" "bheight (heat f g c t) = Suc (bheight t) + of_bool c"
  using assms by (cases f; cases g; auto)+

lemma rot_inv:
  assumes "t \<noteq> Leaf" "\<not> root_black t" "invc t" "invh t" "\<not> frame_black f" "root_black (sibling f)" "invc (sibling f)" "invh (sibling f)" "bheight (sibling f) = bheight t"
    "frame_black g" "root_black (sibling g)" "invc (sibling g)" "invh (sibling g)" "bheight (sibling g) = bheight t"
  shows "invc (rot f g t)" "invh (rot f g t)" "root_black (rot f g t)" "bheight (rot f g t) = Suc (bheight t)"
  using assms by (cases f; cases g; cases t rule: root_of.cases; auto)+

lemma fix_up_rb:
  assumes "invc t" "ctx_col True fs" "invh t" "ctx_height (bheight t) fs" "t \<noteq> Leaf" "root_black t \<longleftrightarrow> fs = []"
  shows "rb (plug (fst (fix_up fs t)) (snd (fix_up fs t)))"
  using assms
proof (induction fs t rule: fix_up.induct)
  case (1 f g fs t)
  consider "frame_black f" | "\<not> frame_black f" "\<not> root_black (sibling g)" | "\<not> frame_black f" "root_black (sibling g)" by blast
  then show ?case
  proof cases
    case 1
    then show ?thesis using "1.prems" by (auto simp: rb_plug simp del: plug.simps)
  next
    case 2
    let ?t = "heat f g (fs = [] \<and> frame_black g) t"
    have "invc ?t \<and> invh ?t \<and> root_black ?t = (fs = []) \<and> bheight ?t = Suc (bheight t) + of_bool (fs = [])"
      using 2 "1.prems" heat_inv [of t f g "fs = [] \<and> frame_black g"] by simp
    then have "rb (plug (fst (fix_up fs ?t)) (snd (fix_up fs ?t)))" using 2 "1.prems" by (intro "1.IH") (cases fs; auto)+
    then show ?thesis using 2 by simp
  next
    case 3
    then have "invc (rot f g t) \<and> invh (rot f g t) \<and> root_black (rot f g t) \<and> bheight (rot f g t) = Suc (bheight t)"
      using "1.prems" rot_inv [of t f g] by simp
    then show ?thesis using 3 "1.prems" by (auto simp: rb_plug)
  qed
qed (auto simp: rb_plug simp del: plug.simps)

text \<open>The depth of a red-black tree, as the comment of the macro has it: at most twice the logarithm of the size.\<close>

lemma rb_height: "invc t \<Longrightarrow> invh t \<Longrightarrow> height t \<le> 2 * bheight t + of_bool (\<not> root_black t)"
proof (induction t rule: invc.induct)
  case (2 l a c r)
  then have "height l \<le> 2 * bheight l + of_bool (\<not> root_black l)" "height r \<le> 2 * bheight l + of_bool (\<not> root_black r)" by auto
  then show ?case using 2 by (cases c; cases "root_black l"; cases "root_black r") auto
qed simp

lemma rb_size: "invh t \<Longrightarrow> 2 ^ bheight t \<le> size1 t"
proof (induction t rule: invh.induct)
  case (2 l a c r)
  then show ?case by (cases c) auto
qed simp

lemma rb_depth: "rb t \<Longrightarrow> 2 ^ height t \<le> (length (keys t) + 1) ^ 2"
proof -
  assume "rb t"
  then have "height t \<le> 2 * bheight t" "2 ^ bheight t \<le> size1 t" using rb_height [of t] rb_size [of t] by (auto simp: rb_def)
  then have "(2 :: nat) ^ height t \<le> 2 ^ (bheight t * 2)" "(2 ^ bheight t) ^ 2 \<le> (size1 t) ^ 2"
    by (simp, intro power_mono) simp_all
  then have "2 ^ height t \<le> (size1 t) ^ 2" unfolding power_mult by (rule order_trans)
  then show ?thesis by (simp add: keys_def size1_size)
qed

subsection \<open>Descending and climbing\<close>

fun down :: "(ptr \<Rightarrow> ptr \<Rightarrow> int) \<Rightarrow> ptr \<Rightarrow> frame list \<Rightarrow> rbt \<Rightarrow> frame list" where
  "down cmp x fs Leaf = fs"
| "down cmp x fs (Node l (a, c) r) =
     (if cmp a x > 0 then down cmp x (Left_of a c r # fs) l else down cmp x (Right_of l a c # fs) r)"

lemma plug_down: "plug (down cmp x fs t) Leaf = plug fs t"
  by (induction cmp x fs t rule: down.induct) auto

lemma hd_down:
  "t \<noteq> Leaf \<Longrightarrow> down cmp x fs t \<noteq> [] \<and> (case hd (down cmp x fs t) of Left_of a c r \<Rightarrow> cmp a x > 0 | Right_of l a c \<Rightarrow> \<not> cmp a x > 0)"
proof (induction cmp x fs t rule: down.induct)
  case (2 cmp x fs l a c r)
  then show ?case by (cases "l = Leaf"; cases "r = Leaf") auto
qed simp

lemma descend_down:
  "tree_at m par t \<Longrightarrow> t \<noteq> Leaf \<Longrightarrow> descend cmp x (root_of t) m = Some (frame_key (hd (down cmp x fs t)))"
proof (induction cmp x fs t arbitrary: par rule: down.induct)
  case (2 cmp x fs l a c r)
  have "tree_at m a l" "tree_at m a r" using 2(3) by auto
  then show ?case using 2 root_of_nonnull [of m a l] root_of_nonnull [of m a r]
    by (subst descend.simps) (auto simp: Let_def)
qed simp

lemma climb_root:
  "tree_at m par t \<Longrightarrow> t \<noteq> Leaf \<Longrightarrow> ctx_at m (root_of t) par fs \<Longrightarrow> climb (root_of t) m = Some (root_of (plug fs t))"
proof (induction fs arbitrary: t par)
  case Nil
  then have "rb_up m (root_of t) = NULL" by (cases t rule: root_of.cases) auto
  then show ?case by (subst climb.simps) simp
next
  case (Cons f fs)
  note z = zip_up [OF Cons.prems(1,3)]
  have "rb_up m (root_of t) = par" using Cons.prems by (cases t rule: root_of.cases) auto
  then show ?case using z Cons.IH [of "rb_up m par" "plug1 f t"] by (subst climb.simps) simp
qed

text \<open>The new node hangs in the place of the leaf where the descent ended.\<close>

lemma hang_node:
  assumes c: "ctx_at m NULL par (f # fs)" and x: "x \<noteq> NULL" "x \<notin> ctx_keys (f # fs)" "\<not> is_black m x"
    and d: "distinct (keys (plug (f # fs) Leaf))"
    and m1: "m1 = set_left x NULL (set_right x NULL (set_up x (frame_key f) m))"
    and m2: "m2 = (case f of Left_of a c r \<Rightarrow> set_left (frame_key f) x m1 | Right_of l a c \<Rightarrow> set_right (frame_key f) x m1)"
  shows "tree_at m2 (frame_key f) (Node Leaf (x, False) Leaf) \<and> ctx_at m2 x (frame_key f) (f # fs) \<and> agree (- insert x {frame_key f}) m m2"
proof -
  have d': "frame_key f \<notin> set (keys (sibling f))" "frame_key f \<notin> ctx_keys fs" "x \<noteq> frame_key f"
    using distinct_plug [of fs "plug1 f Leaf"] d x by (cases f; auto)+
  have a: "agree (- insert x {frame_key f}) m m2" by (cases f) (auto simp: m1 m2 agree_def)
  have "set (keys (sibling f)) \<union> ctx_keys fs \<subseteq> - insert x {frame_key f}" using d' x by (cases f) auto
  then have "agree (set (keys (sibling f)) \<union> ctx_keys fs) m m2" by (rule agree_subset [OF a])
  then have "tree_at m2 q (sibling f) = tree_at m q (sibling f)" "ctx_at m2 q' q'' fs = ctx_at m q' q'' fs" for q q' q''
    by (auto intro!: tree_at_cong ctx_at_cong elim: agree_subset)
  then have "ctx_at m2 x (frame_key f) (f # fs)" using c d' by (cases f) (auto simp: m1 m2)
  moreover have "tree_at m2 (frame_key f) (Node Leaf (x, False) Leaf)" using x d' by (cases f) (auto simp: m1 m2)
  ultimately show ?thesis using a by blast
qed

subsection \<open>Insertion\<close>

text \<open>The sequence of the elements that an insertion leaves, as plain insertion into a search tree gives it.\<close>

fun ins :: "(ptr \<Rightarrow> ptr \<Rightarrow> int) \<Rightarrow> ptr \<Rightarrow> rbt \<Rightarrow> rbt" where
  "ins cmp x Leaf = Node Leaf (x, False) Leaf"
| "ins cmp x (Node l (a, c) r) = (if cmp a x > 0 then Node (ins cmp x l) (a, c) r else Node l (a, c) (ins cmp x r))"

lemma plug_down_ins: "plug (down cmp x fs t) (Node Leaf (x, False) Leaf) = plug fs (ins cmp x t)"
  by (induction cmp x fs t rule: down.induct) auto

lemma set_keys_ins: "set (keys (ins cmp x t)) = insert x (set (keys t))"
  by (induction cmp x t rule: ins.induct) auto

lemma distinct_keys_ins: "distinct (keys t) \<Longrightarrow> x \<notin> set (keys t) \<Longrightarrow> distinct (keys (ins cmp x t))"
  by (induction cmp x t rule: ins.induct) (auto simp: set_keys_ins)

lemma ctx_col_last: "ctx_col b fs \<Longrightarrow> fs \<noteq> [] \<Longrightarrow> frame_black (last fs)"
  by (induction b fs rule: ctx_col.induct) (auto split: if_splits)

lemma fix_up_not_Leaf: "t \<noteq> Leaf \<Longrightarrow> snd (fix_up fs t) \<noteq> Leaf"
  by (induction fs t rule: fix_up.induct) auto

lemma insert_repair:
  assumes t: "tree_at m par t" "ctx_at m (root_of t) par fs" "distinct (keys (plug fs t))" "t \<noteq> Leaf" "fs \<noteq> []"
    and inv: "invc t" "ctx_col True fs" "invh t" "ctx_height (bheight t) fs" "\<not> root_black t"
  shows "\<exists>m' t'. do { (cur, m) \<leftarrow> fix_insert (root_of t) m; tree \<leftarrow> climb cur m; Some (tree, m) } = Some (root_of t', m') \<and>
    tree_at m' NULL t' \<and> rb t' \<and> keys t' = keys (plug fs t) \<and> agree (- set (keys (plug fs t))) m m'"
proof -
  let ?t = "snd (fix_up fs t)" and ?fs = "fst (fix_up fs t)"
  obtain m' par' where r: "fix_insert (root_of t) m = Some (root_of ?t, m')" "tree_at m' par' ?t"
      "ctx_at m' (root_of ?t) par' ?fs" "agree (- set (keys (plug fs t))) m m'"
    using fix_insert_refines [OF t(1-4)] ctx_col_last [OF inv(2)] by blast
  have "climb (root_of ?t) m' = Some (root_of (plug ?fs ?t))"
    by (rule climb_root [OF r(2) fix_up_not_Leaf [OF t(4)] r(3)])
  moreover have "tree_at m' NULL (plug ?fs ?t)" using r(2,3) tree_at_plug by blast
  moreover have "rb (plug ?fs ?t)" using fix_up_rb [OF inv(1-4) t(4)] inv(5) t(5) by simp
  ultimately show ?thesis using r(1,4) keys_fix_up [of fs t] by (intro exI [of _ m'] exI [of _ "plug ?fs ?t"]) simp
qed

text \<open>What the macro asks of the comparison.\<close>

locale tree_order =
  fixes cmp :: "ptr \<Rightarrow> ptr \<Rightarrow> int"
  assumes antisym: "cmp x y > 0 \<longleftrightarrow> cmp y x < 0"
    and trans: "cmp x y \<le> 0 \<Longrightarrow> cmp y z \<le> 0 \<Longrightarrow> cmp x z \<le> 0"
begin

definition ordered :: "ptr list \<Rightarrow> bool" where
  "ordered xs \<longleftrightarrow> sorted_wrt (\<lambda>x y. cmp x y \<le> 0) xs"

lemma ordered_ins: "ordered (keys t) \<Longrightarrow> ordered (keys (ins cmp x t))"
proof (induction t rule: invc.induct)
  case (2 l a c r)
  have "cmp x a \<le> 0" if "cmp a x > 0" using that antisym [of a x] by simp
  then show ?case using 2 by (auto simp: ordered_def sorted_wrt_append set_keys_ins intro: trans)
qed (simp add: ordered_def)

lemma insert_inner:
  assumes t: "tree_at m NULL t" "rb t" "distinct (keys t)" "t \<noteq> Leaf" and x: "x \<noteq> NULL" "x \<notin> set (keys t)"
  shows "\<exists>m' t'. tree_insert cmp (root_of t) x m = Some (root_of t', m') \<and> tree_at m' NULL t' \<and> rb t' \<and>
    keys t' = keys (ins cmp x t) \<and> agree (- insert x (set (keys t))) m m'"
proof -
  define m0 where "m0 = paint_red x m"
  let ?n = "Node Leaf (x, False) Leaf"
  obtain f fs where fs: "down cmp x [] t = f # fs" using hd_down [OF t(4), of cmp x "[]"] by (cases "down cmp x [] t") auto
  have a0: "agree (- {x}) m m0" by (auto simp: m0_def agree_def)
  have t0: "tree_at m0 NULL t" using t(1) x(2) by (subst tree_at_cong [OF agree_subset [OF a0]]) auto
  have p: "plug (f # fs) Leaf = t" "plug (f # fs) ?n = ins cmp x t"
    using plug_down [of cmp x "[]" t] plug_down_ins [of cmp x "[]" t] by (simp_all add: fs)
  obtain par where c: "ctx_at m0 NULL par (f # fs)" using t0 tree_at_plug [of m0 "f # fs" Leaf] unfolding p(1) by auto
  have k: "set (keys t) = ctx_keys (f # fs)" using set_keys_plug [of "f # fs" Leaf] unfolding p(1) by simp
  define m1 where "m1 = set_left x NULL (set_right x NULL (set_up x (frame_key f) m0))"
  define m2 where "m2 = (if cmp x (frame_key f) < 0 then set_left (frame_key f) x m1 else set_right (frame_key f) x m1)"
  have side: "m2 = (case f of Left_of a c r \<Rightarrow> set_left (frame_key f) x m1 | Right_of l a c \<Rightarrow> set_right (frame_key f) x m1)"
    using hd_down [OF t(4), of cmp x "[]"] antisym [of "frame_key f" x] by (cases f) (auto simp: m2_def fs)
  have h: "tree_at m2 (frame_key f) ?n" "ctx_at m2 x (frame_key f) (f # fs)" "agree (- insert x {frame_key f}) m0 m2"
    using hang_node [OF c x(1) _ _ _ m1_def side, unfolded p(1)] x(2) t(3) by (simp_all add: k m0_def)
  have col: "ctx_col True (f # fs)" "ctx_height 0 (f # fs)" using t(2) rb_plug [of "f # fs" Leaf] unfolding p(1) by simp_all
  have d: "distinct (keys (plug (f # fs) ?n))" unfolding p(2) by (rule distinct_keys_ins [OF t(3) x(2)])
  obtain m' t' where r: "do { (cur, m) \<leftarrow> fix_insert x m2; tree \<leftarrow> climb cur m; Some (tree, m) } = Some (root_of t', m')"
      "tree_at m' NULL t'" "rb t'" "keys t' = keys (ins cmp x t)" "agree (- set (keys (ins cmp x t))) m2 m'"
    using insert_repair [OF h(1) _ d] h(2) col unfolding p(2) by auto
  have "agree (- insert x (set (keys t))) m m'"
    using agree_trans [OF agree_subset [OF a0] agree_trans [OF agree_subset [OF h(3)] agree_subset [OF r(5)]], of "- insert x (set (keys t))"]
    by (auto simp: set_keys_ins k)
  moreover have "tree_insert cmp (root_of t) x m = Some (root_of t', m')"
    using r(1) descend_down [OF t0 t(4), of cmp x "[]"] root_of_nonnull [OF t(1)] t(4)
    by (simp add: tree_insert_def fs m0_def m1_def m2_def Let_def cong: if_cong)
  ultimately show ?thesis using r(2-4) by blast
qed

theorem tree_insert_correct:
  assumes t: "tree_at m NULL t" "rb t" "ordered (keys t)" "distinct (keys t)" and x: "x \<noteq> NULL" "x \<notin> set (keys t)"
  shows "\<exists>m' t'. tree_insert cmp (root_of t) x m = Some (root_of t', m') \<and> tree_at m' NULL t' \<and> rb t' \<and>
    ordered (keys t') \<and> distinct (keys t') \<and> set (keys t') = insert x (set (keys t)) \<and> agree (- insert x (set (keys t))) m m'"
proof (cases "t = Leaf")
  case True
  have "tree_at (paint_black x (set_left x NULL (set_right x NULL (set_up x NULL (paint_red x m))))) NULL (Node Leaf (x, True) Leaf)"
    using x by simp
  then show ?thesis using True
    by (intro exI [of _ "paint_black x (set_left x NULL (set_right x NULL (set_up x NULL (paint_red x m))))"] exI [of _ "Node Leaf (x, True) Leaf"])
      (auto simp: tree_insert_def rb_def ordered_def agree_def Let_def)
next
  case False
  from insert_inner [OF t(1,2,4) this x] show ?thesis
    using ordered_ins [OF t(3), of x] distinct_keys_ins [OF t(4) x(2), of cmp] set_keys_ins [of cmp x t] by metis
qed


end

end
