(* ===== verification/Vmap_Tree.thy ===== *)
theory Vmap_Tree
  imports Rb_Insert
begin

text \<open>
  The tree of the mappings of an address space: the red-black tree macro as \<^verbatim>\<open>src/mem/virt_mem/virt_mem.c\<close>
  instantiates it.  The comparison is of the pointers to the mappings, not of the addresses mapped.
\<close>

definition vmap_comp :: "ptr \<Rightarrow> ptr \<Rightarrow> int" where
  "vmap_comp x y = (if x > y then 1 else if x \<noteq> y then -1 else 0)"

definition vmap_tree_insert :: "ptr \<Rightarrow> ptr \<Rightarrow> rb_mem \<Rightarrow> (ptr \<times> rb_mem) option" where
  "vmap_tree_insert = tree_insert vmap_comp"

definition vmap_tree_delete :: "ptr \<Rightarrow> ptr \<Rightarrow> rb_mem \<Rightarrow> (ptr \<times> ptr \<times> rb_mem) option" where
  "vmap_tree_delete = tree_delete vmap_comp"

interpretation vt: tree_order vmap_comp
  by unfold_locales (auto simp: vmap_comp_def split: if_splits)

lemma vt_ordered: "vt.ordered xs \<longleftrightarrow> sorted xs"
proof -
  have "(\<lambda>x y. vmap_comp x y \<le> 0) = (\<le>)" by (auto simp: vmap_comp_def fun_eq_iff)
  then show ?thesis by (simp add: vt.ordered_def)
qed

text \<open>C6: Inserting a mapping into the tree of an address space returns.  The nodes again form a red-black tree with
  consistent parent links, its elements in order are the old ones with the new one in its place, its
  depth is at most twice the logarithm of its size, and no other node is touched.\<close>

theorem vmap_tree_insert_correct:
  assumes "tree_at m NULL t" "rb t" "sorted (keys t)" "distinct (keys t)" "x \<noteq> NULL" "x \<notin> set (keys t)"
  shows "\<exists>m' t'. vmap_tree_insert (root_of t) x m = Some (root_of t', m') \<and> tree_at m' NULL t' \<and> rb t' \<and>
    keys t' = insort x (keys t) \<and> 2 ^ height t' \<le> (length (keys t') + 1) ^ 2 \<and> agree (- insert x (set (keys t))) m m'"
proof -
  obtain m' t' where r: "tree_insert vmap_comp (root_of t) x m = Some (root_of t', m')" "tree_at m' NULL t'" "rb t'"
      "sorted (keys t')" "distinct (keys t')" "set (keys t') = insert x (set (keys t))" "agree (- insert x (set (keys t))) m m'"
    using vt.tree_insert_correct [OF assms(1,2) _ assms(4-6)] assms(3) by (auto simp: vt_ordered)
  have "keys t' = insort x (keys t)"
    using r assms by (intro sorted_distinct_set_unique) (simp_all add: sorted_insort distinct_insort set_insort_key)
  then show ?thesis using r rb_depth [OF r(3)] by (auto simp: vmap_tree_insert_def)
qed

definition demo_nodes :: rb_mem where
  "demo_nodes = \<lparr>rb_left = \<lambda>_. NULL, rb_right = \<lambda>_. NULL, rb_up = \<lambda>_. NULL, rb_color = \<lambda>_. 1, rb_flags = \<lambda>_. 0\<rparr>"

theorem vmap_tree_insert_correct_witness:
  "\<exists>m' t'. vmap_tree_insert 8 4 demo_nodes = Some (root_of t', m') \<and> tree_at m' NULL t' \<and> rb t' \<and> keys t' = [4, 8]"
  using vmap_tree_insert_correct [of demo_nodes "Node Leaf (8, True) Leaf" 4]
  by (auto simp: demo_nodes_def rb_def is_black_def COLOR_def NULL_def)

subsection \<open>Deletion looks the wrong way\<close>

lemma find_below: "tree_at m par t \<Longrightarrow> \<forall>k\<in>set (keys t). k < x \<Longrightarrow> find_target vmap_comp x (root_of t) m = Some NULL"
proof (induction t arbitrary: par rule: invc.induct)
  case (2 l a c r)
  then have "find_target vmap_comp x (root_of l) m = Some NULL" by auto
  then show ?case using 2(3,4) by (subst find_target.simps) (simp add: vmap_comp_def)
qed (subst find_target.simps, simp)

lemma find_above: "tree_at m par t \<Longrightarrow> \<forall>k\<in>set (keys t). x < k \<Longrightarrow> find_target vmap_comp x (root_of t) m = Some NULL"
proof (induction t arbitrary: par rule: invc.induct)
  case (2 l a c r)
  then have "find_target vmap_comp x (root_of r) m = Some NULL" by auto
  then show ?case using 2(3,4) by (subst find_target.simps) (simp add: vmap_comp_def)
qed (subst find_target.simps, simp)

text \<open>Deleting any mapping but the one at the root finds nothing: the search goes left where the node is smaller
  than what it looks for.  It returns null and the mapping stays in the tree.\<close>

theorem vmap_tree_delete_misses:
  assumes "tree_at m NULL t" "sorted (keys t)" "distinct (keys t)" "x \<noteq> root_of t"
  shows "vmap_tree_delete (root_of t) x m = Some (NULL, root_of t, m)"
proof (cases t rule: root_of.cases)
  case 1
  then show ?thesis by (simp add: vmap_tree_delete_def tree_delete_def) (subst find_target.simps, simp)
next
  case (2 l a c r)
  then have at: "tree_at m a l" "tree_at m a r" "a \<noteq> NULL" "rb_left m a = root_of l" "rb_right m a = root_of r" using assms(1) by auto
  have "find_target vmap_comp x (root_of t) m = Some NULL"
  proof (cases "a < x")
    case True
    then have "\<forall>k\<in>set (keys l). k < x" using assms(2) 2 by (auto simp: sorted_wrt_append)
    from find_below [OF at(1) this] show ?thesis using True at 2 by (subst find_target.simps) (simp add: vmap_comp_def)
  next
    case False
    then have "\<forall>k\<in>set (keys r). x < k" using assms(2,4) 2 by (auto simp: sorted_wrt_append)
    from find_above [OF at(2) this] show ?thesis using False assms(4) at 2 by (subst find_target.simps) (simp add: vmap_comp_def)
  qed
  then show ?thesis by (simp add: vmap_tree_delete_def tree_delete_def)
qed

theorem vmap_tree_delete_misses_witness:
  "vmap_tree_delete 8 4 (demo_nodes\<lparr>rb_left := (\<lambda>_. NULL)(8 := 4), rb_up := (\<lambda>_. NULL)(4 := 8)\<rparr>) =
     Some (NULL, 8, demo_nodes\<lparr>rb_left := (\<lambda>_. NULL)(8 := 4), rb_up := (\<lambda>_. NULL)(4 := 8)\<rparr>)"
  using vmap_tree_delete_misses [of "demo_nodes\<lparr>rb_left := (\<lambda>_. NULL)(8 := 4), rb_up := (\<lambda>_. NULL)(4 := 8)\<rparr>"
      "Node (Node Leaf (4, True) Leaf) (8, True) Leaf" 4]
  by (simp add: demo_nodes_def is_black_def COLOR_def NULL_def)

end
