(* ===== verification/Virt_Mem.thy ===== *)
theory Virt_Mem
  imports Phys_Mem Vmap_Tree
begin

unbundle bit_operations_syntax

text \<open>
  \<^verbatim>\<open>src/mem/virt_mem/virt_mem.c\<close>: address spaces, memory objects and the mappings between them.  A mapping is in
  the tree of its address space and in the hash table of its object.

  The results of \<^verbatim>\<open>malloc\<close>, \<^verbatim>\<open>kern_malloc\<close> included, are taken from the list \<open>vm_supply\<close>, which may hold anything, and are
  null when it is empty; \<^verbatim>\<open>free\<close> changes nothing here.  A mutex that is held is in the set \<open>vm_held\<close>; taking it
  again is a wait that never ends.  \<^verbatim>\<open>memset\<close> with value 0 and \<^verbatim>\<open>mutex_init\<close> write nothing (theory \<^verbatim>\<open>Util\<close>), so that a
  new object keeps the table of mappers that was in its memory.  The tests \<^verbatim>\<open>0 == obj->mappers\<close> before
  \<^verbatim>\<open>vmobj_destroy\<close> compare an array with null and are false.
\<close>

definition PAGE_MASK :: u32 where "PAGE_MASK = 0xfff"
definition PAGE_POW :: nat where "PAGE_POW = 12"
definition ADDR_HASH_TABLE_SIZE :: nat where "ADDR_HASH_TABLE_SIZE = 4093"
definition VMOBJ_HASH_TABLE_SIZE :: nat where "VMOBJ_HASH_TABLE_SIZE = 16383"
definition VMAP_HASH_TABLE_SIZE :: nat where "VMAP_HASH_TABLE_SIZE = 31"
definition VMOBJ_PERM :: u32 where "VMOBJ_PERM = 0xf"
definition VMOBJ_READ :: u32 where "VMOBJ_READ = 0x1"
definition VMOBJ_WRITE :: u32 where "VMOBJ_WRITE = 0x2"
definition VMOBJ_EXEC :: u32 where "VMOBJ_EXEC = 0x4"
definition VMOBJ_COW :: u32 where "VMOBJ_COW = 0x20"
definition VMOBJ_COW_SRC :: u32 where "VMOBJ_COW_SRC = 0x40"
definition VMOBJ_RESERVED :: u32 where "VMOBJ_RESERVED = 0xffffff80"
definition VMOBJ_INODE :: u32 where "VMOBJ_INODE = 1"
definition VMOBJ_ANON :: u32 where "VMOBJ_ANON = 2"
definition VMOBJ_COPY :: u32 where "VMOBJ_COPY = 3"

definition PAGE_ADDR :: "u32 \<Rightarrow> u32" where
  "PAGE_ADDR x = x AND NOT PAGE_MASK"

datatype vm_mutex = M_spc ptr | M_obj ptr | M_addr_tab | M_vm_tab | M_addr_count | M_vm_count | M_inv ptr

text \<open>
  \<open>vp_\<close> are the fields of \<^verbatim>\<open>vmap_t\<close> besides the links of the tree, \<open>as_\<close> of \<^verbatim>\<open>addr_spc_t\<close>, \<open>ob_\<close> of \<^verbatim>\<open>vm_obj_t\<close>, \<open>im_\<close> of \<^verbatim>\<open>inv_map_t\<close> and
  \<open>iv_\<close> of \<^verbatim>\<open>inv_page_t\<close>.
\<close>

record vm_state =
  vmaps :: rb_mem
  vp_addr :: "ptr \<Rightarrow> u32"
  vp_obj :: "ptr \<Rightarrow> ptr"
  vp_spc :: "ptr \<Rightarrow> ptr"
  vp_next :: "ptr \<Rightarrow> ptr"
  as_id :: "ptr \<Rightarrow> u32"
  as_num_mappers :: "ptr \<Rightarrow> u32"
  as_mappers :: "ptr \<Rightarrow> ptr"
  as_objs :: "ptr \<Rightarrow> ptr"
  as_color_table :: "ptr \<Rightarrow> color_tab"
  ob_id :: "ptr \<Rightarrow> u32"
  ob_flags :: "ptr \<Rightarrow> u32"
  ob_size :: "ptr \<Rightarrow> u32"
  ob_num_mappers :: "ptr \<Rightarrow> u32"
  ob_mappers :: "ptr \<Rightarrow> nat \<Rightarrow> ptr"
  ob_src_type :: "ptr \<Rightarrow> u32"
  ob_cow_src :: "ptr \<Rightarrow> ptr"
  ob_cow_next :: "ptr \<Rightarrow> ptr"
  ob_cow_prev :: "ptr \<Rightarrow> ptr"
  ob_cow_count :: "ptr \<Rightarrow> u32"
  ob_color_table :: "ptr \<Rightarrow> color_tab"
  ob_inode :: "ptr \<Rightarrow> ptr"
  ob_offset :: "ptr \<Rightarrow> u32"
  ob_anon_pages :: "ptr \<Rightarrow> u32 \<Rightarrow> u32"
  addr_tab :: htab
  vm_obj_tab :: htab
  addr_id_count :: u32
  vm_id_count :: u32
  im_obj :: "ptr \<Rightarrow> ptr"
  im_offset :: "ptr \<Rightarrow> u32"
  im_next :: "ptr \<Rightarrow> ptr"
  iv_num_mappers :: "ptr \<Rightarrow> u32"
  iv_mappers :: "ptr \<Rightarrow> nat \<Rightarrow> ptr"
  page_tables :: "ptr \<Rightarrow> u32 \<Rightarrow> (u32 \<times> u32) option"
  kern_table :: "u32 \<Rightarrow> (u32 \<times> u32) option"
  vm_phys :: phys_state
  vm_cow :: cow_state
  vm_supply :: "ptr list"
  vm_held :: "vm_mutex set"

text \<open>Static memory before anything is created: the fields of everything that is not allocated are zero here.\<close>

definition vm_init :: "phys_state \<Rightarrow> cow_state \<Rightarrow> ptr list \<Rightarrow> vm_state" where
  "vm_init p c supply = \<lparr>
     vmaps = \<lparr>rb_left = \<lambda>_. NULL, rb_right = \<lambda>_. NULL, rb_up = \<lambda>_. NULL, rb_color = \<lambda>_. 0, rb_flags = \<lambda>_. 0\<rparr>,
     vp_addr = \<lambda>_. 0, vp_obj = \<lambda>_. NULL, vp_spc = \<lambda>_. NULL, vp_next = \<lambda>_. NULL,
     as_id = \<lambda>_. 0, as_num_mappers = \<lambda>_. 0, as_mappers = \<lambda>_. NULL, as_objs = \<lambda>_. NULL,
     as_color_table = \<lambda>_. \<lparr>ct_index = \<lambda>_. 0, ct_count = \<lambda>_. 0, ct_list = \<lambda>_. 0\<rparr>,
     ob_id = \<lambda>_. 0, ob_flags = \<lambda>_. 0, ob_size = \<lambda>_. 0, ob_num_mappers = \<lambda>_. 0, ob_mappers = \<lambda>_ _. NULL, ob_src_type = \<lambda>_. 0,
     ob_cow_src = \<lambda>_. NULL, ob_cow_next = \<lambda>_. NULL, ob_cow_prev = \<lambda>_. NULL, ob_cow_count = \<lambda>_. 0,
     ob_color_table = \<lambda>_. \<lparr>ct_index = \<lambda>_. 0, ct_count = \<lambda>_. 0, ct_list = \<lambda>_. 0\<rparr>, ob_inode = \<lambda>_. NULL, ob_offset = \<lambda>_. 0, ob_anon_pages = \<lambda>_ _. 0,
     addr_tab = empty_table, vm_obj_tab = empty_table, addr_id_count = 1, vm_id_count = 1,
     im_obj = \<lambda>_. NULL, im_offset = \<lambda>_. 0, im_next = \<lambda>_. NULL, iv_num_mappers = \<lambda>_. 0, iv_mappers = \<lambda>_ _. NULL,
     page_tables = \<lambda>_. Map.empty, kern_table = Map.empty, vm_phys = p, vm_cow = c, vm_supply = supply, vm_held = {}\<rparr>"

definition vm_malloc :: "vm_state \<Rightarrow> ptr \<times> vm_state" where
  "vm_malloc s = (case vm_supply s of [] \<Rightarrow> (NULL, s) | p # ps \<Rightarrow> (p, s\<lparr>vm_supply := ps\<rparr>))"

definition mutex_null :: "vm_mutex \<Rightarrow> bool" where
  "mutex_null k \<longleftrightarrow> k = M_spc NULL \<or> k = M_obj NULL"

definition vm_lock :: "vm_mutex \<Rightarrow> vm_state \<Rightarrow> vm_state option" where
  "vm_lock k s = (if mutex_null k \<or> k \<in> vm_held s then None else Some (s\<lparr>vm_held := insert k (vm_held s)\<rparr>))"

definition vm_unlock :: "vm_mutex \<Rightarrow> vm_state \<Rightarrow> vm_state" where
  "vm_unlock k s = s\<lparr>vm_held := vm_held s - {k}\<rparr>"

subsection \<open>Tables\<close>

definition un_hash :: "u32 \<Rightarrow> u32" where "un_hash x = x"

definition addr_insert :: "ptr \<Rightarrow> vm_state \<Rightarrow> vm_state" where
  "addr_insert p s = s\<lparr>addr_tab := snd (hash_table_insert (as_id s) un_hash ADDR_HASH_TABLE_SIZE (addr_tab s) p)\<rparr>"

definition vm_obj_insert :: "ptr \<Rightarrow> vm_state \<Rightarrow> vm_state" where
  "vm_obj_insert p s = s\<lparr>vm_obj_tab := snd (hash_table_insert (ob_id s) un_hash VMOBJ_HASH_TABLE_SIZE (vm_obj_tab s) p)\<rparr>"

text \<open>The mappers of an object: the buckets are in the object, the links in the mappings, and the key of a mapping is the
  identifier of its address space.\<close>

definition mappers_of :: "ptr \<Rightarrow> vm_state \<Rightarrow> htab" where
  "mappers_of obj s = \<lparr>ht_table = ob_mappers s obj, ht_next = vp_next s\<rparr>"

definition set_mappers :: "ptr \<Rightarrow> htab \<Rightarrow> vm_state \<Rightarrow> vm_state" where
  "set_mappers obj t s = s\<lparr>ob_mappers := (ob_mappers s)(obj := ht_table t), vp_next := ht_next t\<rparr>"

definition map_id :: "vm_state \<Rightarrow> ptr \<Rightarrow> u32" where
  "map_id s mp = as_id s (vp_spc s mp)"

definition mapper_insert :: "ptr \<Rightarrow> ptr \<Rightarrow> vm_state \<Rightarrow> vm_state" where
  "mapper_insert obj mp s =
     set_mappers obj (snd (hash_table_insert (map_id s) un_hash VMAP_HASH_TABLE_SIZE (mappers_of obj s) mp)) s"

definition mapper_lookup :: "ptr \<Rightarrow> u32 \<Rightarrow> vm_state \<Rightarrow> ptr option" where
  "mapper_lookup obj ident s = hash_table_lookup (map_id s) (=) un_hash VMAP_HASH_TABLE_SIZE (mappers_of obj s) ident"

definition mapper_delete :: "ptr \<Rightarrow> u32 \<Rightarrow> vm_state \<Rightarrow> (ptr \<times> vm_state) option" where
  "mapper_delete obj ident s = do {
     (mp, t) \<leftarrow> hash_table_delete (map_id s) (=) un_hash VMAP_HASH_TABLE_SIZE (mappers_of obj s) ident;
     Some (mp, set_mappers obj t s) }"

subsection \<open>Finding mappings\<close>

partial_function (option) closest_loop :: "vm_state \<Rightarrow> u32 \<Rightarrow> ptr \<Rightarrow> ptr \<Rightarrow> ptr option" where
  "closest_loop s addr last_right tree =
     (if NULL \<noteq> tree then
        if addr < vp_addr s tree then closest_loop s addr last_right (rb_left (vmaps s) tree)
        else if addr > vp_addr s tree then closest_loop s addr tree (rb_right (vmaps s) tree)
        else Some tree
      else Some last_right)"

definition get_closest_low :: "ptr \<Rightarrow> u32 \<Rightarrow> vm_state \<Rightarrow> ptr option" where
  "get_closest_low tree addr s = closest_loop s addr NULL tree"

definition get_mapping_obj :: "ptr \<Rightarrow> u32 \<Rightarrow> vm_state \<Rightarrow> ptr option" where
  "get_mapping_obj spc addr s = do {
     spc \<leftarrow> deref spc;
     out \<leftarrow> get_closest_low (as_objs s spc) addr s;
     if NULL \<noteq> out then do {
       obj \<leftarrow> deref (vp_obj s out);
       Some (if addr < vp_addr s out + ob_size s obj then out else NULL) }
     else Some NULL }"

partial_function (option) collision_loop :: "vm_state \<Rightarrow> u32 \<Rightarrow> ptr \<Rightarrow> ptr \<Rightarrow> ptr \<Rightarrow> (bool \<times> ptr \<times> ptr) option" where
  "collision_loop s addr low high tree =
     (if NULL \<noteq> tree then
        if addr < vp_addr s tree then collision_loop s addr tree high (rb_left (vmaps s) tree)
        else if addr > vp_addr s tree then collision_loop s addr low tree (rb_right (vmaps s) tree)
        else Some (True, low, high)
      else Some (False, low, high))"

definition collision_test :: "ptr \<Rightarrow> u32 \<Rightarrow> u32 \<Rightarrow> vm_state \<Rightarrow> bool option" where
  "collision_test spc addr sz s = do {
     spc \<leftarrow> deref spc;
     (hit, low, high) \<leftarrow> collision_loop s addr NULL NULL (as_objs s spc);
     if hit then Some True
     else do {
       low \<leftarrow> deref low;
       obj \<leftarrow> deref (vp_obj s low);
       if vp_addr s low + ob_size s obj < addr then do {
         high \<leftarrow> deref high;
         Some (\<not> vp_addr s high > addr + sz) }
       else Some True } }"

definition delete_mapping :: "ptr \<Rightarrow> vm_state \<Rightarrow> vm_state option" where
  "delete_mapping mp s = do {
     spc \<leftarrow> deref (vp_spc s mp);
     obj \<leftarrow> deref (vp_obj s mp);
     let s = s\<lparr>ob_num_mappers := (ob_num_mappers s)(obj := ob_num_mappers s obj - 1)\<rparr>;
     (_, s) \<leftarrow> mapper_delete obj (as_id s spc) s;
     Some s }"

partial_function (option) unmap_loop :: "ptr \<Rightarrow> ptr \<Rightarrow> vm_state \<Rightarrow> vm_state option" where
  "unmap_loop root cur s = do {
     cur \<leftarrow> deref cur;
     if NULL \<noteq> rb_left (vmaps s) cur then unmap_loop root (rb_left (vmaps s) cur) s
     else if NULL \<noteq> rb_right (vmaps s) cur then unmap_loop root (rb_right (vmaps s) cur) s
     else if cur \<noteq> root then do {
       s \<leftarrow> delete_mapping cur s;
       p \<leftarrow> deref (rb_up (vmaps s) cur);
       unmap_loop root p (s\<lparr>vmaps := (if cur = rb_left (vmaps s) p then set_left p NULL else set_right p NULL) (vmaps s)\<rparr>) }
     else delete_mapping cur s }"

definition unmap_all_objs :: "ptr \<Rightarrow> vm_state \<Rightarrow> vm_state option" where
  "unmap_all_objs spc s = unmap_loop (as_objs s spc) (as_objs s spc) s"

subsection \<open>Address spaces\<close>

definition addr_spc_create :: "vm_state \<Rightarrow> (ptr \<times> vm_state) option" where
  "addr_spc_create s = (let (new, s) = vm_malloc s in
     if NULL \<noteq> new then do {
       s \<leftarrow> vm_lock M_addr_count s;
       let s = s\<lparr>as_id := (as_id s)(new := addr_id_count s), addr_id_count := addr_id_count s + 1\<rparr>;
       let s = vm_unlock M_addr_count s;
       let s = s\<lparr>as_num_mappers := (as_num_mappers s)(new := 0), as_mappers := (as_mappers s)(new := NULL),
                 as_objs := (as_objs s)(new := NULL)\<rparr>;
       s \<leftarrow> vm_lock M_addr_tab s;
       let s = addr_insert new s;
       Some (new, vm_unlock M_addr_tab s) }
     else Some (NULL, s))"

text \<open>An address space that is in use is torn down, and one that is not in use is left locked out of its table: the test is the
  wrong way round.\<close>

definition addr_spc_destroy :: "ptr \<Rightarrow> vm_state \<Rightarrow> (int \<times> vm_state) option" where
  "addr_spc_destroy spc s = do {
     s \<leftarrow> vm_lock (M_spc spc) s;
     s \<leftarrow> vm_lock M_addr_tab s;
     (target, t) \<leftarrow> hash_table_delete (as_id s) (=) un_hash ADDR_HASH_TABLE_SIZE (addr_tab s) (as_id s spc);
     let s = vm_unlock M_addr_tab (s\<lparr>addr_tab := t\<rparr>);
     if NULL \<noteq> target \<and> 0 \<noteq> as_num_mappers s spc then do {
       s \<leftarrow> unmap_all_objs target s;
       Some (0, s) }
     else Some (-1, vm_unlock (M_spc spc) s) }"

subsection \<open>Memory objects\<close>

definition new_vm_id :: "ptr \<Rightarrow> vm_state \<Rightarrow> vm_state option" where
  "new_vm_id new s = do {
     s \<leftarrow> vm_lock M_vm_count s;
     Some (vm_unlock M_vm_count (s\<lparr>ob_id := (ob_id s)(new := vm_id_count s), vm_id_count := vm_id_count s + 1\<rparr>)) }"

definition init_obj :: "ptr \<Rightarrow> u32 \<Rightarrow> u32 \<Rightarrow> vm_state \<Rightarrow> vm_state" where
  "init_obj new sz flags s = s\<lparr>ob_size := (ob_size s)(new := sz), ob_num_mappers := (ob_num_mappers s)(new := 0),
     ob_flags := (ob_flags s)(new := flags)\<rparr>"

definition no_cow :: "ptr \<Rightarrow> vm_state \<Rightarrow> vm_state" where
  "no_cow new s = s\<lparr>ob_cow_next := (ob_cow_next s)(new := NULL), ob_cow_prev := (ob_cow_prev s)(new := NULL),
     ob_cow_count := (ob_cow_count s)(new := 0)\<rparr>"

definition enter_obj :: "ptr \<Rightarrow> vm_state \<Rightarrow> vm_state option" where
  "enter_obj new s = do {
     s \<leftarrow> vm_lock M_vm_tab s;
     Some (vm_unlock M_vm_tab (vm_obj_insert new s)) }"

text \<open>
  Counting every page of the source of a copy once more: for a file all pages are taken for the first.
  The type of the page source is never assigned; \<open>untyped\<close> is what the value the variable happens to have makes of it.
\<close>

primrec cow_pages :: "(page_src \<Rightarrow> page_src) \<Rightarrow> (ptr \<Rightarrow> u32) \<Rightarrow> ptr \<Rightarrow> nat \<Rightarrow> nat \<Rightarrow> vm_state \<Rightarrow> vm_state option" where
  "cow_pages untyped ino_id new i 0 s = Some s"
| "cow_pages untyped ino_id new i (Suc n) s = do {
     let src = ob_cow_src s new;
     let page = (if VMOBJ_INODE = ob_src_type s src then PSRC_INODE (ob_inode s src) (ob_offset s src)
                 else PSRC_ANON (ob_anon_pages s src (word_of_nat i)));
     let s = s\<lparr>ob_anon_pages := (ob_anon_pages s)(new := (ob_anon_pages s new)(word_of_nat i := 0))\<rparr>;
     let (entry, s) = vm_malloc s;
     c \<leftarrow> cow_inc ino_id entry (untyped page) (vm_cow s);
     cow_pages untyped ino_id new (Suc i) n (s\<lparr>vm_cow := c\<rparr>) }"

definition vmobj_create :: "(page_src \<Rightarrow> page_src) \<Rightarrow> (ptr \<Rightarrow> u32) \<Rightarrow> u32 \<Rightarrow> u32 \<Rightarrow> u32 \<Rightarrow> ptr \<Rightarrow> u32 \<Rightarrow> vm_state \<Rightarrow> (ptr \<times> vm_state) option" where
  "vmobj_create untyped ino_id type perm sz a b s =
     (if type = VMOBJ_INODE then
        let (new, s) = vm_malloc s in
        if NULL \<noteq> new then do {
          s \<leftarrow> new_vm_id new s;
          let s = no_cow new (init_obj new sz perm s);
          let s = s\<lparr>ob_src_type := (ob_src_type s)(new := VMOBJ_INODE), ob_inode := (ob_inode s)(new := a),
                    ob_offset := (ob_offset s)(new := b)\<rparr>;
          s \<leftarrow> enter_obj new s;
          Some (new, s) }
        else Some (NULL, s)
      else if type = VMOBJ_ANON then
        let (new, s) = vm_malloc s in
        if NULL \<noteq> new then do {
          s \<leftarrow> new_vm_id new s;
          let s = no_cow new (init_obj new sz perm s);
          s \<leftarrow> enter_obj new (s\<lparr>ob_src_type := (ob_src_type s)(new := VMOBJ_ANON)\<rparr>);
          Some (new, s) }
        else Some (NULL, s)
      else if type = VMOBJ_COPY then do {
        s \<leftarrow> vm_lock (M_obj a) s;
        let (new, s) = (if perm AND VMOBJ_WRITE \<noteq> 0 then vm_malloc s else (NULL, s));
        if NULL \<noteq> new then do {
          s \<leftarrow> new_vm_id new s;
          let s = init_obj new (ob_size s a) (perm OR VMOBJ_COW) s;
          let s = s\<lparr>ob_cow_next := (ob_cow_next s)(new := new), ob_cow_prev := (ob_cow_prev s)(new := new),
                    ob_cow_count := (ob_cow_count s)(new := ob_size s a div PAGE_SIZE, a := ob_size s a div PAGE_SIZE),
                    ob_cow_src := (ob_cow_src s)(new := a), ob_flags := (ob_flags s)(a := ob_flags s a AND VMOBJ_COW_SRC)\<rparr>;
          let s = vm_unlock (M_obj a) s;
          let s = s\<lparr>ob_src_type := (ob_src_type s)(new := VMOBJ_ANON)\<rparr>;
          s \<leftarrow> cow_pages untyped ino_id new 0 (unat (sz div PAGE_SIZE)) s;
          s \<leftarrow> enter_obj new s;
          Some (new, s) }
        else Some (NULL, s) }
      else Some (NULL, s))"

text \<open>The deletion from the ring writes through both links of an object that is not alone in its ring.\<close>

definition obj_clist_delete :: "ptr \<Rightarrow> vm_state \<Rightarrow> vm_state option" where
  "obj_clist_delete obj s = do {
     _ \<leftarrow> (if NULL \<noteq> obj \<and> obj \<noteq> ob_cow_next s obj then do { _ \<leftarrow> deref (ob_cow_prev s obj); deref (ob_cow_next s obj) } else Some obj);
     let (_, nxt, prv) = clist_delete obj (ob_cow_next s, ob_cow_prev s);
     Some (s\<lparr>ob_cow_next := nxt, ob_cow_prev := prv\<rparr>) }"

definition vmobj_destroy :: "ptr \<Rightarrow> vm_state \<Rightarrow> (int \<times> vm_state) option" where
  "vmobj_destroy obj s = do {
     s \<leftarrow> vm_lock (M_obj obj) s;
     s \<leftarrow> vm_lock M_vm_tab s;
     (target, t) \<leftarrow> hash_table_delete (ob_id s) (=) un_hash VMOBJ_HASH_TABLE_SIZE (vm_obj_tab s) (ob_id s obj);
     let s = vm_unlock M_vm_tab (s\<lparr>vm_obj_tab := t\<rparr>);
     if NULL \<noteq> target then do {
       s \<leftarrow> obj_clist_delete target s;
       Some (0, s) }
     else do {
       target \<leftarrow> deref target;
       Some (-1, s) } }"

subsection \<open>Mapping\<close>

definition tree_add :: "ptr \<Rightarrow> ptr \<Rightarrow> vm_state \<Rightarrow> vm_state option" where
  "tree_add spc mp s = do {
     (root, m) \<leftarrow> vmap_tree_insert (as_objs s spc) mp (vmaps s);
     Some (s\<lparr>as_objs := (as_objs s)(spc := root), vmaps := m\<rparr>) }"

definition tree_remove :: "ptr \<Rightarrow> ptr \<Rightarrow> vm_state \<Rightarrow> vm_state option" where
  "tree_remove spc mp s = do {
     (_, root, m) \<leftarrow> vmap_tree_delete (as_objs s spc) mp (vmaps s);
     Some (s\<lparr>as_objs := (as_objs s)(spc := root), vmaps := m\<rparr>) }"

definition set_vmap_flags :: "ptr \<Rightarrow> u32 \<Rightarrow> vm_state \<Rightarrow> vm_state" where
  "set_vmap_flags mp flags s = s\<lparr>vmaps := (vmaps s)\<lparr>rb_flags := (rb_flags (vmaps s))(mp := flags AND NOT VMOBJ_RESERVED)\<rparr>\<rparr>"

text \<open>Entering a mapping into the table of its object and the tree of its address space, under the two table mutexes.\<close>

definition enter_mapping :: "ptr \<Rightarrow> ptr \<Rightarrow> ptr \<Rightarrow> vm_state \<Rightarrow> vm_state option" where
  "enter_mapping spc obj mp s = do {
     s \<leftarrow> vm_lock M_addr_tab s;
     let s = vm_unlock M_addr_tab (mapper_insert obj mp s);
     s \<leftarrow> vm_lock M_vm_tab s;
     s \<leftarrow> tree_add spc mp s;
     Some (vm_unlock M_vm_tab s) }"

definition vmobj_map :: "ptr \<Rightarrow> ptr \<Rightarrow> u32 \<Rightarrow> u32 \<Rightarrow> vm_state \<Rightarrow> (int \<times> vm_state) option" where
  "vmobj_map spc obj addr flags s = do {
     s \<leftarrow> vm_lock (M_spc spc) s;
     s \<leftarrow> vm_lock (M_obj obj) s;
     hit \<leftarrow> collision_test spc addr (ob_size s obj) s;
     let (mp, s) = (if \<not> hit then vm_malloc s else (NULL, s));
     if NULL \<noteq> mp then do {
       let s = set_vmap_flags mp flags (s\<lparr>vp_spc := (vp_spc s)(mp := spc), vp_obj := (vp_obj s)(mp := obj)\<rparr>);
       let s = s\<lparr>vp_addr := (vp_addr s)(mp := addr), ob_num_mappers := (ob_num_mappers s)(obj := ob_num_mappers s obj + 1)\<rparr>;
       s \<leftarrow> enter_mapping spc obj mp s;
       Some (0, vm_unlock (M_obj obj) (vm_unlock (M_spc spc) s)) }
     else Some (-1, vm_unlock (M_spc spc) (vm_unlock (M_obj obj) s)) }"

definition vmobj_unmap :: "ptr \<Rightarrow> ptr \<Rightarrow> vm_state \<Rightarrow> (int \<times> vm_state) option" where
  "vmobj_unmap spc obj s = do {
     s \<leftarrow> vm_lock (M_spc spc) s;
     s \<leftarrow> vm_lock (M_obj obj) s;
     (mp, s) \<leftarrow> mapper_delete obj (as_id s spc) s;
     if NULL \<noteq> mp then do {
       s \<leftarrow> tree_remove spc mp s;
       let s = s\<lparr>ob_num_mappers := (ob_num_mappers s)(obj := ob_num_mappers s obj - 1)\<rparr>;
       Some (0, vm_unlock (M_spc spc) (vm_unlock (M_obj obj) s)) }
     else Some (-1, vm_unlock (M_spc spc) (vm_unlock (M_obj obj) s)) }"

definition vmobj_remap :: "ptr \<Rightarrow> ptr \<Rightarrow> u32 \<Rightarrow> u32 \<Rightarrow> vm_state \<Rightarrow> (int \<times> vm_state) option" where
  "vmobj_remap spc obj addr flags s = do {
     s \<leftarrow> vm_lock M_addr_tab s;
     spc \<leftarrow> deref spc;
     spc \<leftarrow> hash_table_lookup (as_id s) (=) un_hash ADDR_HASH_TABLE_SIZE (addr_tab s) (as_id s spc);
     s \<leftarrow> vm_lock (M_spc spc) s;
     let s = vm_unlock M_addr_tab s;
     s \<leftarrow> vm_lock M_vm_tab s;
     obj \<leftarrow> deref obj;
     obj \<leftarrow> hash_table_lookup (ob_id s) (=) un_hash VMOBJ_HASH_TABLE_SIZE (vm_obj_tab s) (ob_id s obj);
     s \<leftarrow> vm_lock (M_obj obj) s;
     let s = vm_unlock M_vm_tab s;
     mp \<leftarrow> mapper_lookup obj (as_id s spc) s;
     if NULL \<noteq> mp then
       if vp_spc s mp = spc then
         Some (0, vm_unlock (M_spc spc) (vm_unlock (M_obj obj) (set_vmap_flags mp flags s)))
       else do {
         s \<leftarrow> tree_remove spc mp s;
         hit \<leftarrow> collision_test spc addr (ob_size s obj) s;
         if \<not> hit then do {
           let s = set_vmap_flags mp flags s;
           s \<leftarrow> enter_mapping spc obj mp (s\<lparr>vp_addr := (vp_addr s)(mp := addr)\<rparr>);
           Some (0, vm_unlock (M_spc spc) (vm_unlock (M_obj obj) s)) }
         else do {
           s \<leftarrow> enter_mapping spc obj mp s;
           Some (-1, vm_unlock (M_spc spc) (vm_unlock (M_obj obj) s)) } }
     else Some (-1, vm_unlock (M_spc spc) (vm_unlock (M_obj obj) s)) }"

subsection \<open>Looking up an address\<close>

text \<open>The pointers of a mapping tree in the order of the addresses they map, which is the order the searches assume.\<close>

definition by_addr :: "vm_state \<Rightarrow> rbt \<Rightarrow> bool" where
  "by_addr s t \<longleftrightarrow> sorted_wrt (\<lambda>p q. vp_addr s p < vp_addr s q) (keys t)"

text \<open>The last mapping that does not start above an address.\<close>

fun last_low :: "vm_state \<Rightarrow> u32 \<Rightarrow> ptr \<Rightarrow> ptr list \<Rightarrow> ptr" where
  "last_low s addr d [] = d"
| "last_low s addr d (p # ps) = last_low s addr (if vp_addr s p \<le> addr then p else d) ps"

lemma last_low_append: "last_low s addr d (ps @ qs) = last_low s addr (last_low s addr d ps) qs"
  by (induction ps arbitrary: d) auto

lemma last_low_above: "\<forall>p\<in>set ps. addr < vp_addr s p \<Longrightarrow> last_low s addr d ps = d"
  by (induction ps arbitrary: d) auto

lemma last_low_cases:
  "last_low s addr d ps = d \<and> (\<forall>p\<in>set ps. addr < vp_addr s p) \<or>
   last_low s addr d ps \<in> set ps \<and> vp_addr s (last_low s addr d ps) \<le> addr"
  by (induction ps arbitrary: d) (auto, (metis leD leI)+)

lemma by_addr_Node:
  "by_addr s (Node l (a, c) r) \<longleftrightarrow> by_addr s l \<and> by_addr s r \<and> (\<forall>p\<in>set (keys l). vp_addr s p < vp_addr s a) \<and>
     (\<forall>q\<in>set (keys r). vp_addr s a < vp_addr s q)"
  by (auto simp: by_addr_def sorted_wrt_append) (meson order.strict_trans)

lemma closest_loop_last_low:
  "tree_at (vmaps s) par t \<Longrightarrow> by_addr s t \<Longrightarrow> closest_loop s addr d (root_of t) = Some (last_low s addr d (keys t))"
proof (induction t arbitrary: par d rule: invc.induct)
  case (2 l a c r)
  then have o: "\<forall>q\<in>set (keys r). vp_addr s a < vp_addr s q" "\<forall>p\<in>set (keys l). vp_addr s p < vp_addr s a"
    by (auto simp: by_addr_Node)
  consider "addr < vp_addr s a" | "addr > vp_addr s a" | "addr = vp_addr s a" by fastforce
  then show ?case
  proof cases
    case 1
    then have "last_low s addr (last_low s addr d (keys l)) (keys r) = last_low s addr d (keys l)"
      using o by (intro last_low_above) force
    then show ?thesis using 1 2 by (subst closest_loop.simps) (auto simp: last_low_append by_addr_Node)
  next
    case b: 2
    then show ?thesis using 2 by (subst closest_loop.simps) (auto simp: last_low_append by_addr_Node)
  next
    case 3
    then show ?thesis using 2 o by (subst closest_loop.simps) (auto simp: last_low_append last_low_above)
  qed
qed (subst closest_loop.simps, simp)

text \<open>Where an address lies: the mapping whose range has it.\<close>

definition covers :: "vm_state \<Rightarrow> u32 \<Rightarrow> ptr \<Rightarrow> bool" where
  "covers s addr p \<longleftrightarrow> vp_addr s p \<le> addr \<and> unat addr < unat (vp_addr s p) + unat (ob_size s (vp_obj s p))"

text \<open>The mappings in the order of their addresses, no two of them overlapping and none reaching the end of the address range.\<close>

definition laid_out :: "vm_state \<Rightarrow> ptr list \<Rightarrow> bool" where
  "laid_out s ps \<longleftrightarrow> sorted_wrt (\<lambda>p q. vp_addr s p < vp_addr s q \<and> unat (vp_addr s p) + unat (ob_size s (vp_obj s p)) \<le> unat (vp_addr s q)) ps \<and>
     (\<forall>p\<in>set ps. p \<noteq> NULL \<and> vp_obj s p \<noteq> NULL \<and> unat (vp_addr s p) + unat (ob_size s (vp_obj s p)) < 2 ^ 32)"

lemma laid_out_by_addr: "laid_out s (keys t) \<Longrightarrow> by_addr s t"
  by (auto simp: laid_out_def by_addr_def elim: sorted_wrt_mono_rel [rotated])

lemma range_test: "unat a + unat n < 2 ^ 32 \<Longrightarrow> (addr < a + n) = (unat addr < unat a + unat (n :: u32))"
  by (simp add: word_less_nat_alt unat_word_ariths)

text \<open>Among mappings that do not overlap only the last one that does not start above an address can have it.\<close>

lemma find_covers:
  "laid_out s ps \<Longrightarrow> \<forall>p\<in>set ps. unat (vp_addr s d) + unat (ob_size s (vp_obj s d)) \<le> unat (vp_addr s p) \<Longrightarrow>
   d \<noteq> NULL \<Longrightarrow> vp_addr s d \<le> addr \<Longrightarrow>
   (let out = last_low s addr d ps in if covers s addr out then out else NULL) =
   (case find (covers s addr) (d # ps) of None \<Rightarrow> NULL | Some p \<Rightarrow> p)"
proof (induction ps arbitrary: d)
  case (Cons p ps)
  then have l: "laid_out s ps" "p \<noteq> NULL" "\<forall>q\<in>set ps. unat (vp_addr s p) + unat (ob_size s (vp_obj s p)) \<le> unat (vp_addr s q)"
    by (auto simp: laid_out_def)
  show ?case
  proof (cases "vp_addr s p \<le> addr")
    case True
    then have "\<not> covers s addr d" using Cons.prems by (auto simp: covers_def word_le_nat_alt)
    then show ?thesis using Cons.IH [OF l(1) l(3) l(2) True] True by simp
  next
    case False
    then have n: "\<not> covers s addr p" by (simp add: covers_def)
    show ?thesis using Cons.IH [OF l(1) _ Cons.prems(3,4)] Cons.prems(2,3) False n by simp
  qed
qed (simp add: Let_def)

lemma find_covers_null:
  "laid_out s ps \<Longrightarrow> (let out = last_low s addr NULL ps in if out \<noteq> NULL \<and> covers s addr out then out else NULL) =
   (case find (covers s addr) ps of None \<Rightarrow> NULL | Some p \<Rightarrow> p)"
proof (induction ps)
  case (Cons p ps)
  then have l: "laid_out s ps" "p \<noteq> NULL" "\<forall>q\<in>set ps. unat (vp_addr s p) + unat (ob_size s (vp_obj s p)) \<le> unat (vp_addr s q)"
    by (auto simp: laid_out_def)
  show ?case
  proof (cases "vp_addr s p \<le> addr")
    case True
    then have "last_low s addr p ps \<noteq> NULL"
      using last_low_cases [of s addr p ps] Cons.prems by (auto simp: laid_out_def)
    then show ?thesis using find_covers [OF l(1) l(3) l(2) True] True by simp
  next
    case False
    then have "\<not> covers s addr p" by (simp add: covers_def)
    then show ?thesis using Cons.IH [OF l(1)] False by simp
  qed
qed (simp add: Let_def)

text \<open>C7: In an address space whose mappings are in the tree by address, do not overlap and stop short of the end of the
  address range, the lookup of an address returns the mapping whose range has the address, and null when there is none.\<close>

theorem get_mapping_obj_correct:
  assumes "tree_at (vmaps s) NULL t" "as_objs s spc = root_of t" "spc \<noteq> NULL" "laid_out s (keys t)"
  shows "get_mapping_obj spc addr s = Some (case find (covers s addr) (keys t) of None \<Rightarrow> NULL | Some p \<Rightarrow> p)"
proof -
  let ?out = "last_low s addr NULL (keys t)"
  have "?out \<noteq> NULL \<Longrightarrow> ?out \<in> set (keys t) \<and> vp_addr s ?out \<le> addr" using last_low_cases [of s addr NULL "keys t"] by auto
  then have "?out \<noteq> NULL \<Longrightarrow> vp_obj s ?out \<noteq> NULL \<and> (addr < vp_addr s ?out + ob_size s (vp_obj s ?out)) = covers s addr ?out"
    using assms(4) by (auto simp: laid_out_def covers_def range_test)
  moreover have "get_closest_low (as_objs s spc) addr s = Some ?out"
    using closest_loop_last_low [OF assms(1) laid_out_by_addr [OF assms(4)]] assms(2) by (simp add: get_closest_low_def)
  ultimately show ?thesis
    using find_covers_null [OF assms(4), of addr] assms(3) by (auto simp: get_mapping_obj_def Let_def)
qed

subsection \<open>Mapping an object\<close>

definition above :: "vm_state \<Rightarrow> u32 \<Rightarrow> ptr \<Rightarrow> bool" where
  "above s addr p \<longleftrightarrow> p = NULL \<or> addr < vp_addr s p"

lemma end_above: "unat a + unat n < 2 ^ 32 \<Longrightarrow> addr < a \<Longrightarrow> \<not> a + n < (addr :: u32)"
  by (simp add: word_less_nat_alt unat_word_ariths)

lemma collision_low:
  assumes "collision_loop s addr low high tree = Some r" "above s addr low"
  shows "above s addr (fst (snd r))"
  using _ assms
proof (rule collision_loop.raw_induct [where P = "\<lambda>s addr low high tree r. above s addr low \<longrightarrow> above s addr (fst (snd r))", THEN mp], goal_cases)
  case (1 f s addr low high tree r)
  show ?case
  proof
    assume "above s addr low"
    moreover have "addr < vp_addr s tree \<Longrightarrow> above s addr tree" by (simp add: above_def)
    ultimately show "above s addr (fst (snd r))" using 1(2) 1(1) [rule_format] by (auto split: if_splits)
  qed
qed

lemma collision_never_clear:
  assumes "\<And>p. unat (vp_addr s p) + unat (ob_size s (vp_obj s p)) < 2 ^ 32"
  shows "collision_test spc addr sz s \<in> {None, Some True}"
proof (cases "collision_loop s addr NULL NULL (as_objs s spc)")
  case (Some r)
  then obtain hit low high where r: "r = (hit, low, high)" by (cases r) auto
  have "above s addr low" using collision_low [OF Some] r by (simp add: above_def)
  then have "low \<noteq> NULL \<Longrightarrow> \<not> vp_addr s low + ob_size s (vp_obj s low) < addr"
    using end_above [OF assms [of low]] by (simp add: above_def)
  then show ?thesis using Some r by (auto simp: collision_test_def deref_def)
qed (simp add: collision_test_def deref_def)

text \<open>Mapping an object into an address space never succeeds when no mapping wraps around: what the collision test takes for the
  mapping below the address is the one above it.  Either the routine fails and leaves everything as it was, or it faults.\<close>

theorem vmobj_map_never_succeeds:
  assumes "\<And>p. unat (vp_addr s p) + unat (ob_size s (vp_obj s p)) < 2 ^ 32"
  shows "vmobj_map spc obj addr flags s \<in> {None, Some (-1, s)}"
proof -
  have c: "collision_test spc addr sz s' \<in> {None, Some True}" if e: "vp_addr s' = vp_addr s" "vp_obj s' = vp_obj s" "ob_size s' = ob_size s" for sz s'
    by (rule collision_never_clear) (unfold e, rule assms)
  show ?thesis
  proof (cases "vm_lock (M_spc spc) s \<bind> vm_lock (M_obj obj)")
    case (Some s')
    then have s': "vp_addr s' = vp_addr s" "vp_obj s' = vp_obj s" "ob_size s' = ob_size s"
        "vm_unlock (M_spc spc) (vm_unlock (M_obj obj) s') = s"
      by (auto simp: vm_lock_def vm_unlock_def bind_eq_Some_conv split: if_splits)
    show ?thesis using Some c [OF s'(1-3), of "ob_size s' obj"] s'(4) by (auto simp: vmobj_map_def bind_eq_Some_conv)
  qed (auto simp: vmobj_map_def bind_eq_None_conv)
qed

text \<open>An address space at 20 with two mappings: 12 at \<open>0x1000\<close> and 8 at \<open>0x5000\<close>, of two objects of one page.\<close>

definition demo_vm :: vm_state where
  "demo_vm = (vm_init demo_phys cow_empty [40])\<lparr>vmaps := demo_nodes\<lparr>rb_left := (\<lambda>_. NULL)(8 := 12), rb_up := (\<lambda>_. NULL)(12 := 8)\<rparr>,
     vp_addr := (\<lambda>_. 0)(12 := 0x1000, 8 := 0x5000), vp_obj := (\<lambda>_. 30)(8 := 31), vp_spc := (\<lambda>_. 20),
     as_objs := (\<lambda>_. NULL)(20 := 8), ob_size := (\<lambda>_. 0x1000)\<rparr>"

abbreviation demo_vmaps :: rbt where
  "demo_vmaps \<equiv> Node (Node Leaf (12, True) Leaf) (8, True) Leaf"

lemma demo_vm_tree: "tree_at (vmaps demo_vm) NULL demo_vmaps" "as_objs demo_vm 20 = root_of demo_vmaps" "laid_out demo_vm (keys demo_vmaps)"
  by (simp_all add: demo_vm_def vm_init_def demo_nodes_def laid_out_def is_black_def COLOR_def NULL_def)

theorem get_mapping_obj_correct_witness:
  "get_mapping_obj 20 0x1004 demo_vm = Some 12 \<and> get_mapping_obj 20 0x3000 demo_vm = Some NULL"
  using get_mapping_obj_correct [OF demo_vm_tree(1,2) _ demo_vm_tree(3), of "0x1004"]
    get_mapping_obj_correct [OF demo_vm_tree(1,2) _ demo_vm_tree(3), of "0x3000"]
  by (simp add: covers_def NULL_def) (simp add: demo_vm_def)

theorem vmobj_map_never_succeeds_witness: "vmobj_map 20 32 0x3000 0 demo_vm = Some (-1, demo_vm)"
proof -
  have "unat (vp_addr demo_vm p) + unat (ob_size demo_vm (vp_obj demo_vm p)) < 2 ^ 32" for p by (simp add: demo_vm_def)
  from vmobj_map_never_succeeds [of demo_vm, OF this, of 20 32 "0x3000" 0]
  have "vmobj_map 20 32 0x3000 0 demo_vm \<in> {None, Some (-1, demo_vm)}" .
  moreover have "vmobj_map 20 32 0x3000 0 demo_vm \<noteq> None"
    by (simp add: vmobj_map_def vm_lock_def mutex_null_def collision_test_def demo_vm_def vm_init_def demo_nodes_def NULL_def)
      (simp add: collision_loop.simps NULL_def)
  ultimately show ?thesis by blast
qed

subsection \<open>Destroying an object\<close>

lemma delete_inserted:
  "p \<noteq> NULL \<Longrightarrow> \<exists>t'. hash_table_delete unique_id (=) hash slots (snd (hash_table_insert unique_id hash slots t p)) (unique_id p) = Some (p, t')"
  by (simp add: hash_table_delete_def hash_table_insert_def Let_def)

text \<open>C40: Destroying an anonymous or file object that has just been created faults: it is taken off a ring of copies that it was
  never put on.\<close>

theorem vmobj_create_destroy_faults:
  assumes "type \<in> {VMOBJ_INODE, VMOBJ_ANON}" "vmobj_create untyped ino_id type perm sz a b s = Some (new, s')" "new \<noteq> NULL"
  shows "vmobj_destroy new s' = None"
proof -
  have "ob_cow_next s' new = NULL"
    "\<exists>t. vm_obj_tab s' = snd (hash_table_insert (ob_id s') un_hash VMOBJ_HASH_TABLE_SIZE t new)"
    using assms by (auto simp: vmobj_create_def new_vm_id_def no_cow_def init_obj_def enter_obj_def vm_obj_insert_def vm_unlock_def vm_lock_def
        vm_malloc_def VMOBJ_INODE_def VMOBJ_ANON_def Let_def split: list.splits if_splits option.splits bind_splits)
  then obtain t' where "hash_table_delete (ob_id s') (=) un_hash VMOBJ_HASH_TABLE_SIZE (vm_obj_tab s') (ob_id s' new) = Some (new, t')"
    and nxt: "ob_cow_next s' new = NULL"
    using delete_inserted [OF assms(3)] by fastforce
  then show ?thesis using assms(3) by (simp add: vmobj_destroy_def vm_lock_def vm_unlock_def obj_clist_delete_def deref_def)
qed

theorem vmobj_create_destroy_faults_witness:
  "\<exists>s'. vmobj_create id (\<lambda>_. 0) VMOBJ_ANON 3 0x1000 NULL 0 demo_vm = Some (40, s') \<and> vmobj_destroy 40 s' = None"
proof -
  have "\<exists>s'. vmobj_create id (\<lambda>_. 0) VMOBJ_ANON 3 0x1000 NULL 0 demo_vm = Some (40, s')"
    by (simp add: vmobj_create_def vm_malloc_def new_vm_id_def enter_obj_def vm_lock_def mutex_null_def demo_vm_def vm_init_def
        NULL_def VMOBJ_INODE_def VMOBJ_ANON_def no_cow_def init_obj_def vm_unlock_def vm_obj_insert_def)
  then show ?thesis using vmobj_create_destroy_faults [of VMOBJ_ANON] by (fastforce simp: NULL_def)
qed

end
