(* ===== verification/Vm_Fault.thy ===== *)
theory Vm_Fault
  imports Virt_Mem
begin

unbundle bit_operations_syntax

text \<open>
  \<^verbatim>\<open>src/mem/virt_mem/virt_mem.c\<close>, the second half: where the contents of a page come from, page faults, protection
  faults and copying on write.  \<^verbatim>\<open>page_map\<close>, \<^verbatim>\<open>page_unmap\<close> and \<^verbatim>\<open>kern_page_map\<close> are assembly; they set an entry of the
  page table of an address space.  The record \<open>vm_env\<close> has what comes from outside: drivers as in
  \<^verbatim>\<open>Phys_Mem\<close>, the current address space, the limits of the kernel, and the values of three variables that are
  read before they are assigned.  \<^verbatim>\<open>illegal_access\<close> and \<^verbatim>\<open>unmapped_access\<close> of \<^verbatim>\<open>vm_fault.c\<close> and \<^verbatim>\<open>lru_page\<close> of \<^verbatim>\<open>lru_page.c\<close>
  panic and do not return: they are \<open>None\<close>.
\<close>

record vm_env =
  e_rd :: reader
  e_sw :: "u32 \<Rightarrow> ptr \<Rightarrow> u32 \<Rightarrow> bytes \<Rightarrow> bytes option"
  e_ino_id :: "ptr \<Rightarrow> u32"
  e_junk_addr :: u32
  e_junk_anon :: u32
  e_junk_src :: page_src
  e_cur :: ptr
  e_kern_spc :: ptr
  e_kern_obj :: ptr
  e_kern_addr_start :: u32
  e_kern_heap_start :: u32
  e_kern_heap_end :: u32

definition INV_MAP_HASH_TABLE_SIZE :: nat where "INV_MAP_HASH_TABLE_SIZE = 29"
definition PAGE_KERNEL :: u32 where "PAGE_KERNEL = 4"

definition page_map :: "ptr \<Rightarrow> u32 \<Rightarrow> u32 \<Rightarrow> u32 \<Rightarrow> vm_state \<Rightarrow> vm_state" where
  "page_map spc addr perm phys_addr s = s\<lparr>page_tables := (page_tables s)(spc := (page_tables s spc)(addr \<mapsto> (perm, phys_addr)))\<rparr>"

definition page_unmap :: "ptr \<Rightarrow> u32 \<Rightarrow> vm_state \<Rightarrow> vm_state" where
  "page_unmap spc addr s = s\<lparr>page_tables := (page_tables s)(spc := (page_tables s spc)(addr := None))\<rparr>"

definition inv_of :: "u32 \<Rightarrow> vm_state \<Rightarrow> ptr" where
  "inv_of phys_addr s = inv_page_lookup phys_addr (pages (vm_phys s))"

definition set_page_type :: "ptr \<Rightarrow> u32 \<Rightarrow> vm_state \<Rightarrow> vm_state" where
  "set_page_type p ty s = s\<lparr>vm_phys := (vm_phys s)\<lparr>cached := (cached (vm_phys s))\<lparr>pg_type := (pg_type (cached (vm_phys s)))(p := ty)\<rparr>\<rparr>\<rparr>"

text \<open>A new entry among the users of a physical page: its memory is not checked for null.\<close>

definition inv_map_add :: "ptr \<Rightarrow> ptr \<Rightarrow> u32 \<Rightarrow> vm_state \<Rightarrow> vm_state option" where
  "inv_map_add inv_page obj offset s = do {
     let (im, s) = vm_malloc s;
     im \<leftarrow> deref im;
     let s = s\<lparr>im_obj := (im_obj s)(im := obj), im_offset := (im_offset s)(im := offset),
               iv_num_mappers := (iv_num_mappers s)(inv_page := iv_num_mappers s inv_page + 1)\<rparr>;
     let t = snd (hash_table_insert (\<lambda>i. ob_id s (im_obj s i)) un_hash INV_MAP_HASH_TABLE_SIZE
         \<lparr>ht_table = iv_mappers s inv_page, ht_next = im_next s\<rparr> im);
     Some (s\<lparr>iv_mappers := (iv_mappers s)(inv_page := ht_table t), im_next := ht_next t\<rparr>) }"

subsection \<open>Taking pages away\<close>

partial_function (option) unmap_chain :: "u32 \<Rightarrow> ptr \<Rightarrow> vm_state \<Rightarrow> vm_state option" where
  "unmap_chain offset cur s =
     (if NULL \<noteq> cur then do {
        s \<leftarrow> vm_lock (M_spc (vp_spc s cur)) s;
        let s = page_unmap (vp_spc s cur) (vp_addr s cur + offset) s;
        unmap_chain offset (vp_next s cur) (vm_unlock (M_spc (vp_spc s cur)) s) }
      else Some s)"

fun unmap_slots :: "ptr \<Rightarrow> u32 \<Rightarrow> nat list \<Rightarrow> vm_state \<Rightarrow> vm_state option" where
  "unmap_slots obj offset [] s = Some s"
| "unmap_slots obj offset (i # is) s = do {
     s \<leftarrow> unmap_chain offset (ob_mappers s obj i) s;
     unmap_slots obj offset is s }"

definition vm_obj_page_unmap :: "ptr \<Rightarrow> u32 \<Rightarrow> vm_state \<Rightarrow> vm_state option" where
  "vm_obj_page_unmap obj offset s = do {
     s \<leftarrow> vm_lock (M_obj obj) s;
     s \<leftarrow> unmap_slots obj offset [0..<VMAP_HASH_TABLE_SIZE] s;
     Some (vm_unlock (M_obj obj) s) }"

partial_function (option) invalidate_chain :: "ptr \<Rightarrow> vm_state \<Rightarrow> vm_state option" where
  "invalidate_chain cur s =
     (if NULL \<noteq> cur then do {
        s \<leftarrow> vm_obj_page_unmap (im_obj s cur) (im_offset s cur) s;
        invalidate_chain (im_next s cur) s }
      else Some s)"

fun invalidate_slots :: "ptr \<Rightarrow> nat list \<Rightarrow> vm_state \<Rightarrow> vm_state option" where
  "invalidate_slots inv_page [] s = Some s"
| "invalidate_slots inv_page (i # is) s = do {
     s \<leftarrow> invalidate_chain (iv_mappers s inv_page i) s;
     invalidate_slots inv_page is s }"

definition vm_invalidate_page :: "u32 \<Rightarrow> vm_state \<Rightarrow> vm_state option" where
  "vm_invalidate_page phys_addr s = do {
     let inv_page = inv_of phys_addr s;
     s \<leftarrow> vm_lock (M_inv inv_page) s;
     let s = set_page_type inv_page PAGE_UNUSED s;
     let s = s\<lparr>iv_num_mappers := (iv_num_mappers s)(inv_page := 0)\<rparr>;
     s \<leftarrow> invalidate_slots inv_page [0..<INV_MAP_HASH_TABLE_SIZE] s;
     Some (vm_unlock (M_inv inv_page) s) }"

definition vm_evict_page :: "u32 option \<Rightarrow> vm_state \<Rightarrow> (u32 \<times> vm_state) option" where
  "vm_evict_page lru s = do {
     victim_page \<leftarrow> lru;
     s \<leftarrow> vm_invalidate_page victim_page s;
     Some (victim_page, s) }"

subsection \<open>Where a page comes from\<close>

definition vm_anon_create :: "vm_env \<Rightarrow> ptr \<Rightarrow> ptr \<Rightarrow> page_src \<Rightarrow> vm_state \<Rightarrow> (u32 \<times> vm_state) option" where
  "vm_anon_create e spc obj src s = do {
     let (new, s) = vm_malloc s;
     (ident, ct, p) \<leftarrow> anon_page_create (e_rd e) (e_ino_id e) new src (as_color_table s spc) (ob_color_table s obj)
         (ob_num_mappers s obj \<noteq> 1) (vm_phys s);
     Some (ident, s\<lparr>ob_color_table := (ob_color_table s)(obj := ct), vm_phys := p\<rparr>) }"

definition vm_fetch :: "vm_env \<Rightarrow> ptr \<Rightarrow> ptr \<Rightarrow> page_src \<Rightarrow> vm_state \<Rightarrow> (u32 \<times> vm_state) option" where
  "vm_fetch e spc obj src s = do {
     (addr, sct, oct, p) \<leftarrow> phys_page_fetch (e_rd e) (e_sw e) (e_ino_id e) (e_junk_addr e) src (as_color_table s spc)
         (ob_color_table s obj) (ob_num_mappers s obj \<noteq> 1) (vm_phys s);
     Some (addr, s\<lparr>as_color_table := (as_color_table s)(spc := sct), ob_color_table := (ob_color_table s)(obj := oct), vm_phys := p\<rparr>) }"

definition set_anon :: "ptr \<Rightarrow> u32 \<Rightarrow> u32 \<Rightarrow> vm_state \<Rightarrow> vm_state" where
  "set_anon obj offset anon s = s\<lparr>ob_anon_pages := (ob_anon_pages s)(obj := (ob_anon_pages s obj)(offset := anon))\<rparr>"

partial_function (option) get_page_src :: "vm_env \<Rightarrow> ptr \<Rightarrow> ptr \<Rightarrow> u32 \<Rightarrow> vm_state \<Rightarrow> (page_src \<times> vm_state) option" where
  "get_page_src e spc obj offset s = do {
     obj \<leftarrow> deref obj;
     if ob_src_type s obj = VMOBJ_INODE then Some (PSRC_INODE (ob_inode s obj) (offset + ob_offset s obj), s)
     else if ob_src_type s obj = VMOBJ_ANON then
       if ob_flags s obj AND VMOBJ_COW = 0 then
         if 0 \<noteq> ob_anon_pages s obj offset then Some (PSRC_ANON (ob_anon_pages s obj offset), s)
         else do {
           (anon, s) \<leftarrow> vm_anon_create e spc obj PSRC_NULL s;
           Some (PSRC_ANON anon, set_anon obj offset anon s) }
       else if 0 \<noteq> ob_anon_pages s obj offset then Some (PSRC_ANON (ob_anon_pages s obj offset), s)
       else get_page_src e spc (ob_cow_src s obj) offset s
     else Some (e_junk_src e, s) }"

definition check_access :: "u32 \<Rightarrow> u32 \<Rightarrow> bool" where
  "check_access perm access \<longleftrightarrow> perm = (perm OR access)"

subsection \<open>Faults\<close>

partial_function (option) update_chain :: "ptr \<Rightarrow> u32 \<Rightarrow> u32 \<Rightarrow> u32 \<Rightarrow> ptr \<Rightarrow> ptr \<Rightarrow> vm_state \<Rightarrow> vm_state option" where
  "update_chain obj offset phys_addr addr inv_page cur s =
     (if NULL \<noteq> cur then do {
        s \<leftarrow> inv_map_add inv_page obj offset (page_map (vp_spc s cur) (PAGE_ADDR addr) (ob_flags s obj AND VMOBJ_PERM) phys_addr s);
        update_chain obj offset phys_addr addr inv_page (vp_next s cur) s }
      else Some s)"

fun update_slots :: "ptr \<Rightarrow> u32 \<Rightarrow> u32 \<Rightarrow> u32 \<Rightarrow> ptr \<Rightarrow> nat list \<Rightarrow> vm_state \<Rightarrow> vm_state option" where
  "update_slots obj offset phys_addr addr inv_page [] s = Some s"
| "update_slots obj offset phys_addr addr inv_page (i # is) s = do {
     s \<leftarrow> update_chain obj offset phys_addr addr inv_page (ob_mappers s obj i) s;
     update_slots obj offset phys_addr addr inv_page is s }"

definition update_page_tables :: "ptr \<Rightarrow> u32 \<Rightarrow> u32 \<Rightarrow> u32 \<Rightarrow> vm_state \<Rightarrow> vm_state option" where
  "update_page_tables obj offset phys_addr addr s = do {
     let inv_page = inv_of phys_addr s;
     s \<leftarrow> vm_lock (M_inv inv_page) s;
     s \<leftarrow> update_slots obj offset phys_addr addr inv_page [0..<VMAP_HASH_TABLE_SIZE] (set_page_type inv_page PAGE_USED s);
     Some (vm_unlock (M_inv inv_page) s) }"

text \<open>Cloning a page or keeping it; the variables \<open>anon\<close> and \<open>anon_src\<close> keep their values when it is kept.\<close>

definition clone_page :: "vm_env \<Rightarrow> bool \<Rightarrow> ptr \<Rightarrow> page_src \<Rightarrow> u32 \<times> page_src \<Rightarrow> vm_state \<Rightarrow>
    (u32 \<times> (u32 \<times> page_src) \<times> vm_state) option" where
  "clone_page e test obj orig vars s = do {
     cnt \<leftarrow> cow_lookup (e_ino_id e) orig (vm_cow s);
     if 1 \<noteq> cnt \<or> test then do {
       (anon, s) \<leftarrow> vm_anon_create e (e_cur e) obj orig s;
       (phys_addr, s) \<leftarrow> vm_fetch e (e_cur e) obj (PSRC_ANON anon) s;
       Some (phys_addr, (anon, PSRC_ANON anon), s) }
     else do {
       (phys_addr, s) \<leftarrow> vm_fetch e (e_cur e) obj orig s;
       Some (phys_addr, vars, s) } }"

definition is_inode_src :: "page_src \<Rightarrow> bool" where
  "is_inode_src src = (case src of PSRC_INODE i off \<Rightarrow> True | _ \<Rightarrow> False)"

definition own_copy :: "vm_env \<Rightarrow> u32 \<Rightarrow> ptr \<Rightarrow> u32 \<Rightarrow> page_src \<Rightarrow> vm_state \<Rightarrow> ((u32 \<times> page_src) \<times> vm_state) option" where
  "own_copy e addr obj offset orig s = do {
     (phys_addr, vars, s) \<leftarrow> clone_page e (is_inode_src orig) obj orig (e_junk_anon e, e_junk_src e) s;
     s \<leftarrow> update_page_tables obj offset phys_addr addr (set_anon obj offset (fst vars) s);
     c \<leftarrow> cow_dec (e_ino_id e) orig (vm_cow s);
     Some (vars, s\<lparr>vm_cow := c, ob_cow_count := (ob_cow_count s)(obj := ob_cow_count s obj - 1)\<rparr>) }"

definition retire_cow :: "ptr \<Rightarrow> vm_state \<Rightarrow> vm_state option" where
  "retire_cow obj s =
     (if 0 = ob_cow_count s obj
      then obj_clist_delete obj (s\<lparr>ob_flags := (ob_flags s)(obj := ob_flags s obj AND NOT (VMOBJ_COW OR VMOBJ_COW_SRC))\<rparr>)
      else Some s)"

text \<open>The loop over the objects that share the page goes on without a step when one of them does not qualify.\<close>

partial_function (option) share_loop :: "ptr \<Rightarrow> u32 \<Rightarrow> u32 \<Rightarrow> u32 \<Rightarrow> u32 \<Rightarrow> ptr \<Rightarrow> vm_state \<Rightarrow> vm_state option" where
  "share_loop obj offset anon phys_addr addr list s =
     (if obj \<noteq> list then do {
        list \<leftarrow> deref list;
        if VMOBJ_ANON \<noteq> ob_src_type s list \<or> obj \<noteq> ob_cow_src s list \<or> 0 \<noteq> ob_anon_pages s list offset
        then share_loop obj offset anon phys_addr addr list s
        else do {
          s \<leftarrow> update_page_tables list offset phys_addr addr (set_anon list offset anon s);
          share_loop obj offset anon phys_addr addr (ob_cow_next s list) s } }
      else Some s)"

definition do_protect_fault :: "vm_env \<Rightarrow> u32 \<Rightarrow> ptr \<Rightarrow> u32 \<Rightarrow> u32 \<Rightarrow> page_src \<Rightarrow> vm_state \<Rightarrow> vm_state option" where
  "do_protect_fault e addr obj access offset orig s =
     (if ob_flags s obj AND (VMOBJ_COW OR VMOBJ_WRITE OR VMOBJ_COW_SRC) \<noteq> 0 \<and> access AND VMOBJ_WRITE \<noteq> 0 then
        if ob_flags s obj AND VMOBJ_COW_SRC = 0 \<or> VMOBJ_ANON = ob_src_type s obj \<and> NULL = ob_cow_src s obj then do {
          (_, s) \<leftarrow> own_copy e addr obj offset orig s;
          retire_cow obj s }
        else do {
          (vars, orig, s) \<leftarrow>
            (if ob_flags s obj AND VMOBJ_COW \<noteq> 0 \<and> 0 = ob_anon_pages s obj offset then do {
               (vars, s) \<leftarrow> own_copy e addr obj offset orig s;
               Some (vars, snd vars, s) }
             else Some ((e_junk_anon e, e_junk_src e), orig, s));
          (phys_addr, vars, s) \<leftarrow> clone_page e False obj orig vars s;
          s \<leftarrow> update_page_tables obj offset phys_addr addr s;
          s \<leftarrow> share_loop obj offset (fst vars) phys_addr addr (ob_cow_next s obj) s;
          retire_cow obj (s\<lparr>ob_cow_count := (ob_cow_count s)(obj := ob_cow_count s obj - 1)\<rparr>) }
      else None)"

definition page_offset :: "u32 \<Rightarrow> ptr \<Rightarrow> vm_state \<Rightarrow> u32" where
  "page_offset addr mp s = signed_drop_bit PAGE_POW (PAGE_ADDR addr - vp_addr s mp)"

definition vm_page_fault :: "vm_env \<Rightarrow> u32 \<Rightarrow> u32 \<Rightarrow> vm_state \<Rightarrow> vm_state option" where
  "vm_page_fault e addr access s = do {
     mp \<leftarrow> get_mapping_obj (e_cur e) addr s;
     if NULL \<noteq> mp then do {
       let obj = vp_obj s mp;
       let offset = page_offset addr mp s;
       (page_src, s) \<leftarrow> get_page_src e (e_cur e) obj offset s;
       (phys_addr, s) \<leftarrow> vm_fetch e (e_cur e) obj page_src s;
       perm \<leftarrow> (if ob_flags s obj AND (VMOBJ_COW OR VMOBJ_COW_SRC) = 0 then Some (ob_flags s obj AND VMOBJ_PERM)
               else do {
                 cnt \<leftarrow> cow_lookup (e_ino_id e) page_src (vm_cow s);
                 Some (if cnt = 0 then ob_flags s obj AND VMOBJ_PERM else ob_flags s obj AND VMOBJ_PERM AND NOT VMOBJ_WRITE) });
       let s = page_map (e_cur e) (PAGE_ADDR addr) perm phys_addr s;
       let inv_page = inv_of phys_addr s;
       s \<leftarrow> vm_lock (M_inv inv_page) s;
       s \<leftarrow> inv_map_add inv_page obj offset (set_page_type inv_page PAGE_USED s);
       let s = vm_unlock (M_inv inv_page) s;
       if check_access perm access then do_protect_fault e addr obj access offset page_src s else Some s }
     else None }"

definition vm_protect_fault :: "vm_env \<Rightarrow> u32 \<Rightarrow> u32 \<Rightarrow> vm_state \<Rightarrow> vm_state option" where
  "vm_protect_fault e addr access s = do {
     mp \<leftarrow> get_mapping_obj (e_cur e) addr s;
     mp \<leftarrow> deref mp;
     let obj = vp_obj s mp;
     let offset = page_offset addr mp s;
     (page_src, s) \<leftarrow> get_page_src e (e_cur e) obj offset s;
     do_protect_fault e addr obj access offset page_src s }"

definition kern_page_fault :: "vm_env \<Rightarrow> u32 \<Rightarrow> u32 \<Rightarrow> vm_state \<Rightarrow> vm_state option" where
  "kern_page_fault e addr access s =
     (if e_kern_heap_start e > addr \<and> e_kern_heap_end e < addr then do {
        let (new, s) = vm_malloc s;
        (ident, ct, p) \<leftarrow> anon_page_create (e_rd e) (e_ino_id e) new PSRC_KERN (as_color_table s (e_kern_spc e))
            (ob_color_table s (e_kern_obj e)) False (vm_phys s);
        let s = s\<lparr>ob_color_table := (ob_color_table s)(e_kern_obj e := ct), vm_phys := p\<rparr>;
        (phys_addr, sct, oct, p) \<leftarrow> phys_page_fetch (e_rd e) (e_sw e) (e_ino_id e) (e_junk_addr e) PSRC_KERN
            (as_color_table s (e_kern_spc e)) (ob_color_table s (e_kern_obj e)) False (vm_phys s);
        let s = s\<lparr>as_color_table := (as_color_table s)(e_kern_spc e := sct), ob_color_table := (ob_color_table s)(e_kern_obj e := oct),
                  vm_phys := p, kern_table := (kern_table s)(PAGE_ADDR addr \<mapsto> (VMOBJ_READ OR VMOBJ_WRITE OR VMOBJ_EXEC, phys_addr))\<rparr>;
        let inv_page = inv_of phys_addr s;
        s \<leftarrow> vm_lock (M_inv inv_page) s;
        Some (vm_unlock (M_inv inv_page) (set_page_type inv_page PAGE_KERNEL s)) }
      else if e_kern_addr_start e > addr then vm_page_fault e addr access s
      else Some s)"

definition kern_protect_fault :: "vm_env \<Rightarrow> u32 \<Rightarrow> u32 \<Rightarrow> vm_state \<Rightarrow> vm_state option" where
  "kern_protect_fault e addr access s =
     (if e_kern_addr_start e > addr then vm_protect_fault e addr access s else Some s)"

subsection \<open>Permitted reads\<close>

lemma vm_malloc_flags: "vm_malloc s = (new, s') \<Longrightarrow> ob_flags s' = ob_flags s"
  by (auto simp: vm_malloc_def split: list.splits)

lemma vm_anon_create_flags: "vm_anon_create e spc obj src s = Some (ident, s') \<Longrightarrow> ob_flags s' = ob_flags s"
  by (auto simp: vm_anon_create_def bind_eq_Some_conv split: prod.splits dest!: vm_malloc_flags)

lemma vm_fetch_flags: "vm_fetch e spc obj src s = Some (pa, s') \<Longrightarrow> ob_flags s' = ob_flags s"
  by (auto simp: vm_fetch_def bind_eq_Some_conv)

lemma get_page_src_flags:
  assumes "get_page_src e spc obj offset s = Some r"
  shows "ob_flags (snd r) = ob_flags s"
  using _ assms
proof (rule get_page_src.raw_induct [where P = "\<lambda>e spc obj offset s r. ob_flags (snd r) = ob_flags s"], goal_cases)
  case (1 f e spc obj offset s r)
  then show ?case by (cases r) (auto simp: bind_eq_Some_conv set_anon_def split: if_splits dest!: vm_anon_create_flags)
qed

lemma no_write_no_protect: "access AND VMOBJ_WRITE = 0 \<Longrightarrow> do_protect_fault e addr obj access offset orig s = None"
  by (simp add: do_protect_fault_def)

lemma check_access_read:
  assumes "flags AND VMOBJ_READ \<noteq> 0"
  shows "check_access (flags AND VMOBJ_PERM) VMOBJ_READ" "check_access (flags AND VMOBJ_PERM AND NOT VMOBJ_WRITE) VMOBJ_READ"
proof -
  have "bit flags 0" using assms by (auto simp: VMOBJ_READ_def bit_0 and_one_eq odd_iff_mod_2_eq_one)
  then show "check_access (flags AND VMOBJ_PERM) VMOBJ_READ" "check_access (flags AND VMOBJ_PERM AND NOT VMOBJ_WRITE) VMOBJ_READ"
    unfolding check_access_def VMOBJ_READ_def VMOBJ_PERM_def VMOBJ_WRITE_def by (auto intro!: bit_eqI simp: bit_simps)
qed

text \<open>A read of memory whose object may be read never returns from the page fault: the page is mapped, and then, since the access is
  permitted, it is treated as a protection fault, which for a read is an illegal access.\<close>

theorem permitted_read_faults:
  assumes "get_mapping_obj (e_cur e) addr s = Some mp" "ob_flags s (vp_obj s mp) AND VMOBJ_READ \<noteq> 0"
  shows "vm_page_fault e addr VMOBJ_READ s = None"
proof (rule ccontr)
  assume "vm_page_fault e addr VMOBJ_READ s \<noteq> None"
  then obtain s' where r: "vm_page_fault e addr VMOBJ_READ s = Some s'" by auto
  have n: "do_protect_fault e addr (vp_obj s mp) VMOBJ_READ offset src t = None" for offset src t
    by (rule no_write_no_protect) (simp add: VMOBJ_READ_def VMOBJ_WRITE_def)
  have g: "get_page_src e spc obj offset t = Some (src, t') \<Longrightarrow> ob_flags t' = ob_flags t" for spc obj offset t src t'
    using get_page_src_flags [of e spc obj offset t "(src, t')"] by simp
  show False using r assms(1) check_access_read [OF assms(2)]
    by (auto simp: vm_page_fault_def Let_def bind_eq_Some_conv n split: if_splits dest!: g vm_fetch_flags)
qed

definition demo_env :: vm_env where
  "demo_env = \<lparr>e_rd = \<lambda>_ _ _ _. None, e_sw = \<lambda>_ _ _ _. None, e_ino_id = \<lambda>_. 0, e_junk_addr = 0, e_junk_anon = 0, e_junk_src = PSRC_NULL,
     e_cur = 40, e_kern_spc = 100, e_kern_obj = 104, e_kern_addr_start = 0x80000000, e_kern_heap_start = 0x90000000, e_kern_heap_end = 0xa0000000\<rparr>"

theorem permitted_read_faults_witness:
  "vm_page_fault (demo_env\<lparr>e_cur := 20\<rparr>) 0x1004 VMOBJ_READ (demo_vm\<lparr>ob_flags := \<lambda>_. 3\<rparr>) = None"
proof (rule permitted_read_faults)
  show "get_mapping_obj (e_cur (demo_env\<lparr>e_cur := 20\<rparr>)) 0x1004 (demo_vm\<lparr>ob_flags := \<lambda>_. 3\<rparr>) = Some 12"
    by (simp add: get_mapping_obj_def get_closest_low_def demo_vm_def vm_init_def demo_nodes_def NULL_def) (simp add: closest_loop.simps NULL_def)
qed (simp add: VMOBJ_READ_def)

end
