(* ===== verification/Vm_Reach.thy ===== *)
theory Vm_Reach
  imports Vm_Fault
begin

text \<open>
  Sequences of operations on virtual memory from the state at boot, as an inductive relation over the address spaces
  in use and the state.  No sequence puts a mapping into the tree of an address space.
\<close>

subsection \<open>What the operations keep\<close>

lemma vm_lock_result: "vm_lock k s = Some s' \<Longrightarrow> s' = s\<lparr>vm_held := insert k (vm_held s)\<rparr>"
  by (auto simp: vm_lock_def split: if_splits)

lemma vm_lock_objs [dest!]: "vm_lock k s = Some s' \<Longrightarrow> as_objs s' = as_objs s"
  by (auto dest: vm_lock_result)

lemma vm_unlock_objs [simp]: "as_objs (vm_unlock k s) = as_objs s"
  by (simp add: vm_unlock_def)

lemma vm_malloc_objs [simp]: "as_objs (snd (vm_malloc s)) = as_objs s"
  by (simp add: vm_malloc_def split: list.split)

lemma vm_malloc_result: "vm_malloc s = (new, s') \<Longrightarrow> as_objs s' = as_objs s"
  using vm_malloc_objs [of s] by simp

lemma mapper_objs [simp]: "as_objs (mapper_insert obj mp s) = as_objs s"
  by (simp add: mapper_insert_def set_mappers_def)

lemma mapper_delete_objs: "mapper_delete obj ident s = Some (mp, s') \<Longrightarrow> as_objs s' = as_objs s"
  by (auto simp: mapper_delete_def set_mappers_def bind_eq_Some_conv)

lemma delete_mapping_objs: "delete_mapping mp s = Some s' \<Longrightarrow> as_objs s' = as_objs s"
  by (auto simp: delete_mapping_def bind_eq_Some_conv dest!: mapper_delete_objs)

lemma unmap_loop_objs:
  assumes "unmap_loop root cur s = Some s'"
  shows "as_objs s' = as_objs s"
  using _ assms
proof (rule unmap_loop.raw_induct [where P = "\<lambda>root cur s s'. as_objs s' = as_objs s"], goal_cases)
  case (1 f root cur s s')
  then show ?case by (auto simp: bind_eq_Some_conv split: if_splits dest!: delete_mapping_objs)
qed

lemma unmap_chain_objs:
  assumes "unmap_chain offset cur s = Some s'"
  shows "as_objs s' = as_objs s"
  using _ assms
proof (rule unmap_chain.raw_induct [where P = "\<lambda>offset cur s s'. as_objs s' = as_objs s"], goal_cases)
  case (1 f offset cur s s')
  then show ?case by (fastforce simp: bind_eq_Some_conv page_unmap_def Let_def split: if_splits)
qed

lemma unmap_slots_objs: "unmap_slots obj offset is s = Some s' \<Longrightarrow> as_objs s' = as_objs s"
  by (induction "is" arbitrary: s) (auto simp: bind_eq_Some_conv dest!: unmap_chain_objs)

lemma page_unmap_objs: "vm_obj_page_unmap obj offset s = Some s' \<Longrightarrow> as_objs s' = as_objs s"
  by (auto simp: vm_obj_page_unmap_def bind_eq_Some_conv dest!: unmap_slots_objs)

lemma invalidate_chain_objs:
  assumes "invalidate_chain cur s = Some s'"
  shows "as_objs s' = as_objs s"
  using _ assms
proof (rule invalidate_chain.raw_induct [where P = "\<lambda>cur s s'. as_objs s' = as_objs s"], goal_cases)
  case (1 f cur s s')
  then show ?case by (fastforce simp: bind_eq_Some_conv split: if_splits dest!: page_unmap_objs)
qed

lemma invalidate_slots_objs: "invalidate_slots inv_page is s = Some s' \<Longrightarrow> as_objs s' = as_objs s"
  by (induction "is" arbitrary: s) (auto simp: bind_eq_Some_conv dest!: invalidate_chain_objs)

lemma invalidate_page_objs: "vm_invalidate_page phys_addr s = Some s' \<Longrightarrow> as_objs s' = as_objs s"
  by (auto simp: vm_invalidate_page_def Let_def bind_eq_Some_conv set_page_type_def dest!: invalidate_slots_objs)

lemma cow_pages_objs: "cow_pages untyped ino_id new i n s = Some s' \<Longrightarrow> as_objs s' = as_objs s"
proof (induction n arbitrary: i s)
  case (Suc n)
  from Suc.prems show ?case by (auto simp: Let_def case_prod_beta bind_eq_Some_conv dest!: Suc.IH)
qed simp

lemma new_vm_id_objs: "new_vm_id new s = Some s' \<Longrightarrow> as_objs s' = as_objs s"
  by (auto simp: new_vm_id_def bind_eq_Some_conv)

lemma enter_obj_objs: "enter_obj new s = Some s' \<Longrightarrow> as_objs s' = as_objs s"
  by (auto simp: enter_obj_def bind_eq_Some_conv vm_obj_insert_def)

lemma no_cow_objs [simp]: "as_objs (no_cow new s) = as_objs s"
  by (simp add: no_cow_def)

lemma init_obj_objs [simp]: "as_objs (init_obj new sz flags s) = as_objs s"
  by (simp add: init_obj_def)

lemma obj_clist_objs: "obj_clist_delete obj s = Some s' \<Longrightarrow> as_objs s' = as_objs s"
  by (auto simp: obj_clist_delete_def bind_eq_Some_conv split: prod.splits)

lemma vmobj_destroy_objs: "vmobj_destroy obj s = Some (r, s') \<Longrightarrow> as_objs s' = as_objs s"
  by (auto simp: vmobj_destroy_def Let_def bind_eq_Some_conv split: if_splits dest!: obj_clist_objs)

lemma addr_spc_destroy_objs: "addr_spc_destroy spc s = Some (r, s') \<Longrightarrow> as_objs s' = as_objs s"
  by (auto simp: addr_spc_destroy_def unmap_all_objs_def Let_def bind_eq_Some_conv split: if_splits dest!: unmap_loop_objs)

subsection \<open>Empty address spaces\<close>

lemma collision_empty: "as_objs s spc = NULL \<Longrightarrow> collision_test spc addr sz s = None"
  by (cases "spc = NULL") (simp_all add: collision_test_def collision_loop.simps [of _ _ _ _ NULL] deref_def)

lemma lookup_empty: "as_objs s spc = NULL \<Longrightarrow> get_mapping_obj spc addr s \<in> {None, Some NULL}"
  by (cases "spc = NULL") (simp_all add: get_mapping_obj_def get_closest_low_def closest_loop.simps [of _ _ _ NULL] deref_def)

lemma tree_remove_keeps_empty: "tree_remove spc mp s = Some s' \<Longrightarrow> as_objs s q = NULL \<Longrightarrow> as_objs s' q = NULL"
  by (auto simp: tree_remove_def vmap_tree_delete_def tree_delete_def find_target.simps [of _ _ NULL] bind_eq_Some_conv)

lemma tree_add_other: "tree_add spc mp s = Some s' \<Longrightarrow> q \<noteq> spc \<Longrightarrow> as_objs s' q = as_objs s q"
  by (auto simp: tree_add_def bind_eq_Some_conv)

lemma enter_mapping_other: "enter_mapping spc obj mp s = Some s' \<Longrightarrow> q \<noteq> spc \<Longrightarrow> as_objs s' q = as_objs s q"
  by (auto simp: enter_mapping_def Let_def bind_eq_Some_conv dest!: tree_add_other)

lemma vmobj_create_objs:
  assumes "vmobj_create untyped ino_id type perm sz a b s = Some (new, s')"
  shows "as_objs s' = as_objs s"
  using assms by (auto simp: vmobj_create_def Let_def bind_eq_Some_conv split: if_splits prod.splits
      dest!: vm_malloc_result enter_obj_objs new_vm_id_objs cow_pages_objs)

lemma vmobj_unmap_keeps_empty: "vmobj_unmap spc obj s = Some (r, s') \<Longrightarrow> as_objs s q = NULL \<Longrightarrow> as_objs s' q = NULL"
  by (auto simp: vmobj_unmap_def Let_def bind_eq_Some_conv split: if_splits dest!: mapper_delete_objs
      elim!: tree_remove_keeps_empty)

lemma vmobj_remap_keeps_empty:
  assumes "vmobj_remap spc obj addr flags s = Some (r, s')" "as_objs s q = NULL"
  shows "as_objs s' q = NULL"
proof -
  have "tree_remove p mp t = Some t' \<Longrightarrow> as_objs t q = NULL \<longrightarrow> as_objs t' q = NULL"
    and "collision_test p addr sz t = Some hit \<Longrightarrow> as_objs t p \<noteq> NULL"
    and "enter_mapping p ob mp t = Some t' \<Longrightarrow> q = p \<or> as_objs t' q = as_objs t q" for p ob mp sz hit t t'
    using tree_remove_keeps_empty collision_empty enter_mapping_other by (blast, fastforce, blast)
  note this [dest!]
  show ?thesis using assms
    by (auto simp: vmobj_remap_def Let_def bind_eq_Some_conv set_vmap_flags_def split: if_splits)
qed

lemma vmobj_map_empty: "as_objs s spc = NULL \<Longrightarrow> vmobj_map spc obj addr flags s = None"
  by (simp add: vmobj_map_def vm_lock_def collision_empty)

lemma faults_empty:
  assumes "as_objs s (e_cur e) = NULL"
  shows "vm_page_fault e addr access s = None" "vm_protect_fault e addr access s = None"
  using lookup_empty [OF assms, of addr] by (auto simp: vm_page_fault_def vm_protect_fault_def deref_def)

lemma kern_page_fault_objs: "as_objs s (e_cur e) = NULL \<Longrightarrow> kern_page_fault e addr access s = Some s' \<Longrightarrow> as_objs s' = as_objs s"
  by (auto simp: kern_page_fault_def faults_empty Let_def case_prod_beta bind_eq_Some_conv set_page_type_def split: if_splits)

lemma addr_spc_create_objs:
  "addr_spc_create s = Some (new, s') \<Longrightarrow> as_objs s' = (if new = NULL then as_objs s else (as_objs s)(new := NULL))"
  by (auto simp: addr_spc_create_def addr_insert_def Let_def bind_eq_Some_conv split: if_splits prod.splits dest!: vm_malloc_result)

lemmas objs_kept = addr_spc_destroy_objs vmobj_create_objs vmobj_destroy_objs page_unmap_objs invalidate_page_objs

subsection \<open>Runs\<close>

text \<open>One operation; the first set is of the address spaces in use.  Mapping and faults concern address spaces in use.\<close>

inductive vm_step :: "ptr set \<Rightarrow> vm_state \<Rightarrow> ptr set \<Rightarrow> vm_state \<Rightarrow> bool" where
  "addr_spc_create s = Some (new, s') \<Longrightarrow> vm_step A s (if new = NULL then A else insert new A) s'"
| "addr_spc_destroy spc s = Some (r, s') \<Longrightarrow> vm_step A s (if r = 0 then A - {spc} else A) s'"
| "vmobj_create untyped ino_id type perm sz a b s = Some (obj, s') \<Longrightarrow> vm_step A s A s'"
| "vmobj_destroy obj s = Some (r, s') \<Longrightarrow> vm_step A s A s'"
| "spc \<in> A \<Longrightarrow> vmobj_map spc obj addr flags s = Some (r, s') \<Longrightarrow> vm_step A s A s'"
| "vmobj_unmap spc obj s = Some (r, s') \<Longrightarrow> vm_step A s A s'"
| "vmobj_remap spc obj addr flags s = Some (r, s') \<Longrightarrow> vm_step A s A s'"
| "vm_obj_page_unmap obj offset s = Some s' \<Longrightarrow> vm_step A s A s'"
| "vm_invalidate_page phys_addr s = Some s' \<Longrightarrow> vm_step A s A s'"
| "e_cur e \<in> A \<Longrightarrow> vm_page_fault e addr access s = Some s' \<Longrightarrow> vm_step A s A s'"
| "e_cur e \<in> A \<Longrightarrow> vm_protect_fault e addr access s = Some s' \<Longrightarrow> vm_step A s A s'"
| "e_cur e \<in> A \<Longrightarrow> kern_page_fault e addr access s = Some s' \<Longrightarrow> vm_step A s A s'"
| "e_cur e \<in> A \<Longrightarrow> kern_protect_fault e addr access s = Some s' \<Longrightarrow> vm_step A s A s'"

inductive vm_run :: "ptr set \<Rightarrow> vm_state \<Rightarrow> bool" where
  vm_boot: "vm_run {} (vm_init p c supply)"
| vm_next: "vm_run A s \<Longrightarrow> vm_step A s A' s' \<Longrightarrow> vm_run A' s'"

definition all_empty :: "ptr set \<Rightarrow> vm_state \<Rightarrow> bool" where
  "all_empty A s \<longleftrightarrow> (\<forall>spc\<in>A. as_objs s spc = NULL)"

lemma vm_step_empty: "vm_step A s A' s' \<Longrightarrow> all_empty A s \<Longrightarrow> all_empty A' s'"
proof (induction rule: vm_step.induct)
  case (5 spc A obj addr flags s r s')
  then show ?case by (simp add: all_empty_def vmobj_map_empty)
next
  case (12 e A addr access s s')
  then show ?case using kern_page_fault_objs [of s e addr access s'] by (simp add: all_empty_def)
next
  case (13 e A addr access s s')
  then show ?case by (auto simp: kern_protect_fault_def all_empty_def faults_empty split: if_splits)
qed (auto simp: all_empty_def faults_empty dest!: addr_spc_create_objs objs_kept
    dest: vmobj_unmap_keeps_empty vmobj_remap_keeps_empty)

lemma vm_run_empty: "vm_run A s \<Longrightarrow> all_empty A s"
  by (induction rule: vm_run.induct) (auto simp: all_empty_def elim!: vm_step_empty [unfolded all_empty_def])

text \<open>C39: Whatever sequence of operations has run since boot, in an address space in use every attempt to map an object,
  every page fault and every protection fault ends in a fault of the kernel: user memory is never reached.\<close>

theorem virtual_memory_unusable:
  assumes "vm_run A s" "e_cur e \<in> A"
  shows "vmobj_map (e_cur e) obj addr flags s = None \<and> vm_page_fault e addr access s = None \<and> vm_protect_fault e addr access s = None"
proof -
  have "as_objs s (e_cur e) = NULL" using vm_run_empty [OF assms(1)] assms(2) by (simp add: all_empty_def)
  then show ?thesis by (simp add: vmobj_map_empty faults_empty)
qed

theorem virtual_memory_unusable_witness:
  "\<exists>s. addr_spc_create (vm_init demo_phys cow_empty [40]) = Some (40, s) \<and> vmobj_map 40 44 0x1000 3 s = None \<and>
     vm_page_fault demo_env 0x1000 1 s = None"
proof -
  obtain s where s: "addr_spc_create (vm_init demo_phys cow_empty [40]) = Some (40, s)"
    by (simp add: addr_spc_create_def vm_malloc_def vm_init_def vm_lock_def mutex_null_def vm_unlock_def addr_insert_def NULL_def)
  then have "vm_run {40} s" using vm_next [OF vm_boot vm_step.intros(1) [OF s]] by (simp add: NULL_def)
  from virtual_memory_unusable [OF this, where e = demo_env and obj = 44 and addr = "0x1000" and flags = 3 and access = 1] show ?thesis using s by (simp add: demo_env_def)
qed

end
