(* ===== verification/Cpu_Tabs.thy ===== *)
theory Cpu_Tabs
  imports Page_Alloc
begin

unbundle bit_operations_syntax

text \<open>
  \<^verbatim>\<open>arch/sys/ia_32_cputabs.c\<close>, \<^verbatim>\<open>arch/sys/ia_32_interrupt.c\<close> and \<^verbatim>\<open>arch/mem/virt_mem/ia_32_meminit.c\<close>: the interrupt descriptor
  table, what the processor says about itself and its caches, and the start of memory management, which takes the
  number of page colours from the caches.

  The instruction \<^verbatim>\<open>cpuid\<close> is an argument: \<open>cpuid k leaf\<close> are the four registers, in the order in which \<^verbatim>\<open>cpuid_store\<close> stores
  them, that the execution number \<open>k\<close> for \<open>leaf\<close> yields.  A panic halts the processor and is \<open>None\<close>.
\<close>

type_synonym u8 = "8 word"
type_synonym u16 = "16 word"
type_synonym regs = "nat \<Rightarrow> u32"

definition CACHE_L1 :: u32 where "CACHE_L1 = 0x1"
definition CACHE_L2 :: u32 where "CACHE_L2 = 0x4"
definition CACHE_L3 :: u32 where "CACHE_L3 = 0x10"
definition CACHE_L1_SPLIT :: u32 where "CACHE_L1_SPLIT = 0x2"
definition CACHE_L2_SPLIT :: u32 where "CACHE_L2_SPLIT = 0x8"
definition TLB_INSTR :: u32 where "TLB_INSTR = 0x100"
definition TLB_DATA :: u32 where "TLB_DATA = 0x400"
definition TLB_INSTR_SPLIT :: u32 where "TLB_INSTR_SPLIT = 0x200"
definition TLB_DATA_SPLIT :: u32 where "TLB_DATA_SPLIT = 0x800"
definition IA_32_X87 :: u32 where "IA_32_X87 = 0x1"
definition IA_32_PSE :: u32 where "IA_32_PSE = 0x8"
definition IA_32_APIC :: u32 where "IA_32_APIC = 0x200"

record cache_tlb_t =
  c_flags :: u32
  trace_cache :: u32
  l1_icache :: u32
  l1_dcache :: u32
  l2_icache :: u32
  l2_dcache :: u32
  l3_icache :: u32
  l3_dcache :: u32
  l1_icache_assoc :: u32
  l1_dcache_assoc :: u32
  l2_icache_assoc :: u32
  l2_dcache_assoc :: u32
  l3_icache_assoc :: u32
  l3_dcache_assoc :: u32
  l1_icache_line :: u32
  l1_dcache_line :: u32
  l2_icache_line :: u32
  l2_dcache_line :: u32
  l3_icache_line :: u32
  l3_dcache_line :: u32
  itlb_norm :: u32
  itlb_super :: u32
  dtlb_norm :: u32
  dtlb_super :: u32
  itlb_norm_assoc :: u32
  itlb_super_assoc :: u32
  dtlb_norm_assoc :: u32
  dtlb_super_assoc :: u32

definition desc_low :: "u8 \<Rightarrow> cache_tlb_t \<Rightarrow> cache_tlb_t" where
  "desc_low desc c =
     (if desc = 0x01 then c\<lparr>c_flags := c_flags c OR TLB_INSTR_SPLIT OR TLB_INSTR, itlb_norm := 32, itlb_norm_assoc := 4\<rparr>
      else if desc = 0x02 then c\<lparr>c_flags := c_flags c OR TLB_INSTR_SPLIT OR TLB_INSTR, itlb_super := 2, itlb_super_assoc := 4\<rparr>
      else if desc = 0x03 then c\<lparr>c_flags := c_flags c OR TLB_DATA_SPLIT OR TLB_DATA, dtlb_norm := 64, dtlb_norm_assoc := 4\<rparr>
      else if desc = 0x04 then c\<lparr>c_flags := c_flags c OR TLB_DATA_SPLIT OR TLB_DATA, dtlb_super := 8, dtlb_super_assoc := 4\<rparr>
      else if desc = 0x06 then c\<lparr>c_flags := c_flags c OR CACHE_L1 OR CACHE_L1_SPLIT, l1_icache := 8192, l1_icache_assoc := 4,
        l1_icache_line := 32\<rparr>
      else if desc = 0x08 then c\<lparr>c_flags := c_flags c OR CACHE_L1 OR CACHE_L1_SPLIT, l1_icache := 16384, l1_icache_assoc := 4,
        l1_icache_line := 32\<rparr>
      else if desc = 0x0a then c\<lparr>c_flags := c_flags c OR CACHE_L1 OR CACHE_L1_SPLIT, l1_dcache := 8192, l1_dcache_assoc := 2,
        l1_dcache_line := 32\<rparr>
      else if desc = 0x0c then c\<lparr>c_flags := c_flags c OR CACHE_L1 OR CACHE_L1_SPLIT, l1_dcache := 16384, l1_dcache_assoc := 4,
        l1_dcache_line := 32\<rparr>
      else if desc = 0x22 then c\<lparr>c_flags := c_flags c OR CACHE_L3, l3_dcache := 524288, l3_dcache_assoc := 4, l3_dcache_line := 128,
        l3_icache := 524288, l3_icache_assoc := 4, l3_icache_line := 128\<rparr>
      else if desc = 0x23 then c\<lparr>c_flags := c_flags c OR CACHE_L3, l3_dcache := 1048576, l3_dcache_assoc := 8, l3_dcache_line := 128,
        l3_icache := 1048576, l3_icache_assoc := 8, l3_icache_line := 128\<rparr>
      else if desc = 0x25 then c\<lparr>c_flags := c_flags c OR CACHE_L3, l3_dcache := 2097152, l3_dcache_assoc := 8, l3_dcache_line := 128,
        l3_icache := 2097152, l3_icache_assoc := 8, l3_icache_line := 128\<rparr>
      else if desc = 0x2c then c\<lparr>c_flags := c_flags c OR CACHE_L1 OR CACHE_L1_SPLIT, l1_icache := 32768, l1_icache_assoc := 8,
        l1_icache_line := 64\<rparr>
      else if desc = 0x30 then c\<lparr>c_flags := c_flags c OR CACHE_L1 OR CACHE_L1_SPLIT, l1_dcache := 32768, l1_dcache_assoc := 8,
        l1_dcache_line := 64\<rparr>
      else c)"

definition desc_l2_small :: "u8 \<Rightarrow> cache_tlb_t \<Rightarrow> cache_tlb_t" where
  "desc_l2_small desc c =
     (if desc = 0x41 then c\<lparr>c_flags := c_flags c OR CACHE_L2, l1_dcache := 131072, l1_dcache_assoc := 4, l1_dcache_line := 32,
        l1_icache := 131072, l1_icache_assoc := 4, l1_icache_line := 32\<rparr>
      else if desc = 0x42 then c\<lparr>c_flags := c_flags c OR CACHE_L2, l1_dcache := 262144, l1_dcache_assoc := 4, l1_dcache_line := 32,
        l1_icache := 262144, l1_icache_assoc := 4, l1_icache_line := 32\<rparr>
      else if desc = 0x43 then c\<lparr>c_flags := c_flags c OR CACHE_L2, l1_dcache := 524288, l1_dcache_assoc := 4, l1_dcache_line := 32,
        l1_icache := 524288, l1_icache_assoc := 4, l1_icache_line := 32\<rparr>
      else if desc = 0x44 then c\<lparr>c_flags := c_flags c OR CACHE_L2, l1_dcache := 1048576, l1_dcache_assoc := 4, l1_dcache_line := 32,
        l1_icache := 1048576, l1_icache_assoc := 4, l1_icache_line := 32\<rparr>
      else if desc = 0x45 then c\<lparr>c_flags := c_flags c OR CACHE_L2, l1_dcache := 2097152, l1_dcache_assoc := 4, l1_dcache_line := 32,
        l1_icache := 2097152, l1_icache_assoc := 4, l1_icache_line := 32\<rparr>
      else c)"

definition desc_tlb :: "u8 \<Rightarrow> cache_tlb_t \<Rightarrow> cache_tlb_t" where
  "desc_tlb desc c =
     (if desc = 0x50 then c\<lparr>c_flags := c_flags c OR TLB_INSTR, itlb_norm := 64, itlb_norm_assoc := 64, itlb_super := 64,
        itlb_super_assoc := 64\<rparr>
      else if desc = 0x51 then c\<lparr>c_flags := c_flags c OR TLB_INSTR, itlb_norm := 128, itlb_norm_assoc := 128, itlb_super := 128,
        itlb_super_assoc := 128\<rparr>
      else if desc = 0x52 then c\<lparr>c_flags := c_flags c OR TLB_INSTR, itlb_norm := 256, itlb_norm_assoc := 256, itlb_super := 256,
        itlb_super_assoc := 256\<rparr>
      else if desc = 0x5b then c\<lparr>c_flags := c_flags c OR TLB_DATA, dtlb_norm := 64, dtlb_norm_assoc := 64, dtlb_super := 64,
        dtlb_super_assoc := 64\<rparr>
      else if desc = 0x5c then c\<lparr>c_flags := c_flags c OR TLB_DATA, dtlb_norm := 128, dtlb_norm_assoc := 128, dtlb_super := 128,
        dtlb_super_assoc := 128\<rparr>
      else if desc = 0x5d then c\<lparr>c_flags := c_flags c OR TLB_DATA, dtlb_norm := 256, dtlb_norm_assoc := 256, dtlb_super := 256,
        dtlb_super_assoc := 256\<rparr>
      else c)"

definition desc_l1_trace :: "u8 \<Rightarrow> cache_tlb_t \<Rightarrow> cache_tlb_t" where
  "desc_l1_trace desc c =
     (if desc = 0x66 then c\<lparr>c_flags := c_flags c OR CACHE_L1 OR CACHE_L1_SPLIT, l1_dcache := 8192, l1_dcache_assoc := 4,
        l1_dcache_line := 64\<rparr>
      else if desc = 0x67 then c\<lparr>c_flags := c_flags c OR CACHE_L1 OR CACHE_L1_SPLIT, l1_dcache := 16384, l1_dcache_assoc := 4,
        l1_dcache_line := 64\<rparr>
      else if desc = 0x68 then c\<lparr>c_flags := c_flags c OR CACHE_L1 OR CACHE_L1_SPLIT, l1_dcache := 32768, l1_dcache_assoc := 4,
        l1_dcache_line := 64\<rparr>
      else if desc = 0x70 then c\<lparr>trace_cache := 12288\<rparr>
      else if desc = 0x71 then c\<lparr>trace_cache := 16384\<rparr>
      else if desc = 0x72 then c\<lparr>trace_cache := 32768\<rparr>
      else c)"

definition desc_l2_sectored :: "u8 \<Rightarrow> cache_tlb_t \<Rightarrow> cache_tlb_t" where
  "desc_l2_sectored desc c =
     (if desc = 0x78 then c\<lparr>c_flags := c_flags c OR CACHE_L2, l1_dcache := 1048576, l1_dcache_assoc := 8, l1_dcache_line := 64,
        l1_icache := 1048576, l1_icache_assoc := 8, l1_icache_line := 64\<rparr>
      else if desc = 0x79 then c\<lparr>c_flags := c_flags c OR CACHE_L2, l1_dcache := 131072, l1_dcache_assoc := 8, l1_dcache_line := 128,
        l1_icache := 131072, l1_icache_assoc := 8, l1_icache_line := 128\<rparr>
      else if desc = 0x7a then c\<lparr>c_flags := c_flags c OR CACHE_L2, l1_dcache := 262144, l1_dcache_assoc := 8, l1_dcache_line := 128,
        l1_icache := 262144, l1_icache_assoc := 8, l1_icache_line := 128\<rparr>
      else if desc = 0x7b then c\<lparr>c_flags := c_flags c OR CACHE_L2, l1_dcache := 524288, l1_dcache_assoc := 8, l1_dcache_line := 128,
        l1_icache := 524288, l1_icache_assoc := 8, l1_icache_line := 128\<rparr>
      else if desc = 0x7c then c\<lparr>c_flags := c_flags c OR CACHE_L2, l1_dcache := 1048576, l1_dcache_assoc := 8, l1_dcache_line := 128,
        l1_icache := 1048576, l1_icache_assoc := 8, l1_icache_line := 128\<rparr>
      else if desc = 0x7d then c\<lparr>c_flags := c_flags c OR CACHE_L2, l1_dcache := 2097152, l1_dcache_assoc := 8, l1_dcache_line := 64,
        l1_icache := 2097152, l1_icache_assoc := 8, l1_icache_line := 64\<rparr>
      else c)"

definition desc_l2_large :: "u8 \<Rightarrow> cache_tlb_t \<Rightarrow> cache_tlb_t" where
  "desc_l2_large desc c =
     (if desc = 0x82 then c\<lparr>c_flags := c_flags c OR CACHE_L2, l1_dcache := 262144, l1_dcache_assoc := 8, l1_dcache_line := 32,
        l1_icache := 262144, l1_icache_assoc := 8, l1_icache_line := 32\<rparr>
      else if desc = 0x83 then c\<lparr>c_flags := c_flags c OR CACHE_L2, l1_dcache := 524288, l1_dcache_assoc := 8, l1_dcache_line := 32,
        l1_icache := 524288, l1_icache_assoc := 8, l1_icache_line := 32\<rparr>
      else if desc = 0x84 then c\<lparr>c_flags := c_flags c OR CACHE_L2, l1_dcache := 1048576, l1_dcache_assoc := 8, l1_dcache_line := 32,
        l1_icache := 1048576, l1_icache_assoc := 8, l1_icache_line := 32\<rparr>
      else if desc = 0x85 then c\<lparr>c_flags := c_flags c OR CACHE_L2, l1_dcache := 2097152, l1_dcache_assoc := 8, l1_dcache_line := 32,
        l1_icache := 2097152, l1_icache_assoc := 8, l1_icache_line := 32\<rparr>
      else if desc = 0x86 then c\<lparr>c_flags := c_flags c OR CACHE_L2, l1_dcache := 524288, l1_dcache_assoc := 8, l1_dcache_line := 64,
        l1_icache := 524288, l1_icache_assoc := 8, l1_icache_line := 64\<rparr>
      else if desc = 0x87 then c\<lparr>c_flags := c_flags c OR CACHE_L2, l1_dcache := 1048576, l1_dcache_assoc := 8, l1_dcache_line := 64,
        l1_icache := 1048576, l1_icache_assoc := 8, l1_icache_line := 64\<rparr>
      else c)"

definition desc_tlb_super :: "u8 \<Rightarrow> cache_tlb_t \<Rightarrow> cache_tlb_t" where
  "desc_tlb_super desc c =
     (if desc = 0xb0 then c\<lparr>c_flags := c_flags c OR TLB_INSTR_SPLIT, itlb_super := 128, itlb_super_assoc := 4\<rparr>
      else if desc = 0xb3 then c\<lparr>c_flags := c_flags c OR TLB_DATA_SPLIT, dtlb_super := 128, dtlb_super_assoc := 4\<rparr>
      else c)"

definition cache_desc_parse :: "u8 \<Rightarrow> cache_tlb_t \<Rightarrow> cache_tlb_t" where
  "cache_desc_parse desc c =
     (if desc < 0x41 then desc_low desc c
      else if desc < 0x50 then desc_l2_small desc c
      else if desc < 0x66 then desc_tlb desc c
      else if desc < 0x78 then desc_l1_trace desc c
      else if desc < 0x82 then desc_l2_sectored desc c
      else if desc < 0xb0 then desc_l2_large desc c
      else desc_tlb_super desc c)"

definition default_caches :: cache_tlb_t where
  "default_caches = \<lparr>
     c_flags = CACHE_L1 OR CACHE_L1_SPLIT OR CACHE_L2 OR TLB_INSTR OR TLB_DATA, trace_cache = 0,
     l1_icache = 16384, l1_dcache = 16384, l2_icache = 262144, l2_dcache = 262144, l3_icache = 0, l3_dcache = 0,
     l1_icache_assoc = 4, l1_dcache_assoc = 4, l2_icache_assoc = 4, l2_dcache_assoc = 4, l3_icache_assoc = 0,
     l3_dcache_assoc = 0, l1_icache_line = 4, l1_dcache_line = 4, l2_icache_line = 4, l2_dcache_line = 4,
     l3_icache_line = 0, l3_dcache_line = 0, itlb_norm = 128, itlb_super = 128, dtlb_norm = 128, dtlb_super = 128,
     itlb_norm_assoc = 4, itlb_super_assoc = 4, dtlb_norm_assoc = 4, dtlb_super_assoc = 4\<rparr>"

definition CPU_REQUIRED :: u32 where
  "CPU_REQUIRED = IA_32_X87 OR IA_32_PSE OR IA_32_APIC"

record cpu_info =
  cpu_vendor_str :: "u16 list"
  cpu_model :: u32
  cpu_brand :: u32
  cpu_family :: u32
  cpu_stepping :: u32
  cpu_features :: u32
  cpu_logical :: u32
  cache_tlb_data :: cache_tlb_t

definition buf_byte :: "regs \<Rightarrow> u32 \<Rightarrow> u8" where
  "buf_byte buf j = ucast (drop_bit (8 * (unat j mod 4)) (buf (unat j div 4)))"

function desc_bytes :: "regs \<Rightarrow> u32 \<Rightarrow> cache_tlb_t \<Rightarrow> cache_tlb_t" where
  "desc_bytes buf j c =
     (if j < 16 then
        if j AND 0xfffffffc \<noteq> 0 then desc_bytes buf (j + 1) (cache_desc_parse (buf_byte buf j) c)
        else desc_bytes buf (j + 4) c
      else c)"
  by pat_completeness auto
termination
  by (relation "measure (\<lambda>(buf, j, c). 16 - unat j)") (auto simp: word_less_nat_alt unat_word_ariths)

primrec desc_rounds :: "(nat \<Rightarrow> u32 \<Rightarrow> regs) \<Rightarrow> nat \<Rightarrow> nat \<Rightarrow> regs \<Rightarrow> cache_tlb_t \<Rightarrow> cache_tlb_t" where
  "desc_rounds cpuid k 0 buf c = c"
| "desc_rounds cpuid k (Suc n) buf c = desc_rounds cpuid (Suc k) n (cpuid k 2) (desc_bytes buf 1 c)"

definition vendor_str :: "regs \<Rightarrow> u16 list" where
  "vendor_str buf =
     [ucast (buf 1 AND 0xff), ucast (drop_bit 8 (buf 1) AND 0xff), ucast (drop_bit 16 (buf 1) AND 0xff), ucast (drop_bit 24 (buf 1) AND 0xff),
      ucast (buf 3 AND 0xff), ucast (drop_bit 8 (buf 3) AND 0xff), ucast (drop_bit 16 (buf 3) AND 0xff), ucast (drop_bit 24 (buf 3) AND 0xff),
      ucast (buf 2 AND 0xff), ucast (drop_bit 8 (buf 2) AND 0xff), ucast (drop_bit 16 (buf 2) AND 0xff), ucast (drop_bit 24 (buf 2) AND 0xff),
      0]"

definition cpuid_parse :: "(nat \<Rightarrow> u32 \<Rightarrow> regs) \<Rightarrow> cpu_info \<Rightarrow> cpu_info option" where
  "cpuid_parse cpuid s = (let
     buf = cpuid 0 0;
     mx = buf 0 in
   if 1 > mx then None
   else let
     s = s\<lparr>cpu_vendor_str := vendor_str buf\<rparr>;
     buf = cpuid 1 1;
     s = s\<lparr>cpu_features := buf 3\<rparr> in
   if cpu_features s AND CPU_REQUIRED \<noteq> CPU_REQUIRED then None
   else let
     s = s\<lparr>cpu_brand := buf 1 AND 0xff, cpu_logical := drop_bit 16 (buf 1) AND 0xff, cpu_stepping := buf 0 AND 0xf,
           cpu_model := (drop_bit 4 (buf 0) AND 0xf) OR (drop_bit 12 (buf 0) AND 0xf0),
           cpu_family := (drop_bit 8 (buf 0) AND 0xf) OR (drop_bit 16 (buf 0) AND 0xff0),
           cache_tlb_data := default_caches\<rparr> in
   if 2 < mx then let buf = cpuid 2 2 in
     Some (s\<lparr>cache_tlb_data := desc_rounds cpuid 3 (unat (buf 0 AND 0xff)) buf (cache_tlb_data s)\<rparr>)
   else Some s)"

subsection \<open>Interrupt handlers\<close>

text \<open>The table has 256 entries; an access beyond it is \<open>None\<close>.  The handlers are addresses.\<close>

type_synonym idt = "nat \<Rightarrow> u64"

definition int_set_handler :: "nat \<Rightarrow> u32 \<Rightarrow> idt \<Rightarrow> idt option" where
  "int_set_handler inum handler idt = (let
     h_addr = ucast handler AND 0xffffffff :: u64;
     h_addr = (h_addr OR push_bit 32 h_addr) AND 0xffff00000000ffff
   in if inum < 256 then Some (idt(inum := 0x00008e0000080000 OR h_addr)) else None)"

definition int_get_handler :: "nat \<Rightarrow> idt \<Rightarrow> u32 option" where
  "int_get_handler inum idt =
     (if inum < 256 then Some (ucast (idt inum AND 0xffff) OR ucast (drop_bit 32 (idt inum) AND 0xffff0000)) else None)"

record handlers =
  int_fatal :: u32
  int_ignore :: u32
  ipi_stop :: u32
  ipi_restart :: u32
  ipi_restart_tlbinv :: u32
  ipi_restart_kern_tlbinv :: u32
  ipi_halt :: u32

definition IPI_BASE :: nat where "IPI_BASE = 0x30"

primrec set_handlers :: "nat list \<Rightarrow> u32 \<Rightarrow> idt \<Rightarrow> idt option" where
  "set_handlers [] handler idt = Some idt"
| "set_handlers (i # is) handler idt = do {
     idt \<leftarrow> int_set_handler i handler idt;
     set_handlers is handler idt }"

definition idt_init :: "handlers \<Rightarrow> idt \<Rightarrow> idt option" where
  "idt_init h idt = do {
     idt \<leftarrow> set_handlers [0..<32] (int_fatal h) idt;
     idt \<leftarrow> set_handlers [32..<256] (int_ignore h) idt;
     idt \<leftarrow> int_set_handler IPI_BASE (ipi_stop h) idt;
     idt \<leftarrow> int_set_handler (IPI_BASE + 2) (ipi_restart h) idt;
     idt \<leftarrow> int_set_handler (IPI_BASE + 3) (ipi_restart_tlbinv h) idt;
     idt \<leftarrow> int_set_handler (IPI_BASE + 4) (ipi_restart_kern_tlbinv h) idt;
     int_set_handler (IPI_BASE + 5) (ipi_halt h) idt }"

subsection \<open>The start of memory management\<close>

text \<open>The last three fields are pointers to the parts of the kernel's own address space.  The memory map of the BIOS is not read.\<close>

record boot_mem =
  b_static :: static_state
  b_bytes :: bytes
  b_pages :: page_state
  kern_vm_obj :: u32
  kern_addr_spc :: u32
  kern_page_tables :: u32

lemma sint_succ: "sint (i :: u32) < 1024 \<Longrightarrow> sint (i + 1) = sint i + 1"
  using sint_ge [of i] by (simp add: sint_word_ariths signed_take_bit_int_eq_self_iff)

function tab_map_loop :: "u32 \<Rightarrow> u32 \<Rightarrow> u32 \<Rightarrow> bytes \<Rightarrow> bytes" where
  "tab_map_loop virt_page_tab_map tables i m =
     (if sint i < 1024 then tab_map_loop virt_page_tab_map tables (i + 1)
        (store32 (unat (virt_page_tab_map + 4 * i)) (tables + PAGE_SIZE * i) m)
      else m)"
  by pat_completeness auto
termination
  by (relation "measure (\<lambda>(v, t, i, m). nat (1024 - sint i))") (auto simp: sint_succ)

definition l2_cache_size :: "cache_tlb_t \<Rightarrow> u32" where
  "l2_cache_size c =
     (if c_flags c AND CACHE_L2_SPLIT = 0 then l2_dcache c
      else if l2_dcache c < l2_icache c then l2_dcache c else l2_icache c)"

definition kern_pages :: "u32 \<Rightarrow> u32 \<Rightarrow> u32" where
  "kern_pages kern_addr_start kern_addr_end = (let
     kern_size = sint (kern_addr_end - kern_addr_start)
   in word_of_int (sgn kern_size * (\<bar>kern_size\<bar> div uint PAGE_SIZE)))"

definition mem_static_init :: "(u32 \<Rightarrow> u32) \<Rightarrow> u32 \<Rightarrow> u32 \<Rightarrow> cpu_info \<Rightarrow> boot_mem \<Rightarrow> boot_mem option" where
  "mem_static_init expand kern_addr_start kern_addr_end cpu b = do {
     let n = kern_pages kern_addr_start kern_addr_end;
     (s, m, a) \<leftarrow>
       (if c_flags (cache_tlb_data cpu) AND CACHE_L3 = 0
        then page_alloc_static_init expand (l2_cache_size (cache_tlb_data cpu)) (b_static b) (b_bytes b) (b_pages b)
        else Some (b_static b, b_bytes b, b_pages b));
     (obj, s, m) \<leftarrow> static_alloc expand (4 + 4 * n) CACHE_LINE_SIZE s m;
     (spc, s, m) \<leftarrow> static_alloc expand (3 * PAGE_SIZE) PAGE_SIZE s m;
     (tables, s, m) \<leftarrow> static_alloc expand (4 * n) PAGE_SIZE s m;
     let m = memset (unat obj) 0 (4 + 4 * n) m;
     let m = memset (unat spc) 0 (3 * PAGE_SIZE) m;
     let m = memset (unat tables) 0 (4 * n) m;
     let m = tab_map_loop (spc + 2 * PAGE_SIZE) tables (drop_bit 22 kern_addr_start) m;
     Some \<lparr>b_static = s, b_bytes = m, b_pages = a, kern_vm_obj = obj, kern_addr_spc = spc, kern_page_tables = tables\<rparr> }"

declare desc_bytes.simps [simp del] tab_map_loop.simps [simp del]

subsection \<open>The caches of the second level\<close>

text \<open>No descriptor changes what the description starts out with for the caches of the second level: the code
  stores their sizes in the fields of the first level.\<close>

definition l2_default :: "cache_tlb_t \<Rightarrow> bool" where
  "l2_default c \<longleftrightarrow> l2_dcache c = 262144 \<and> l2_icache c = 262144"

lemma l2_parts:
  "l2_default (desc_low d c) = l2_default c" "l2_default (desc_l2_small d c) = l2_default c" "l2_default (desc_tlb d c) = l2_default c"
  "l2_default (desc_l1_trace d c) = l2_default c" "l2_default (desc_l2_sectored d c) = l2_default c"
  "l2_default (desc_l2_large d c) = l2_default c" "l2_default (desc_tlb_super d c) = l2_default c"
  by (simp_all add: desc_low_def desc_l2_small_def desc_tlb_def desc_l1_trace_def desc_l2_sectored_def desc_l2_large_def
      desc_tlb_super_def l2_default_def)

text \<open>What every descriptor keeps, the whole decoding keeps.\<close>

lemma desc_rounds_keep:
  assumes "\<And>d c. P c \<Longrightarrow> P (cache_desc_parse d c)" "P c"
  shows "P (desc_rounds cpuid k n buf c)"
proof -
  have "P c \<Longrightarrow> P (desc_bytes buf j c)" for buf j c
  proof (induction buf j c rule: desc_bytes.induct)
    case (1 buf j c)
    then show ?case using assms(1) by (subst desc_bytes.simps) auto
  qed
  then show ?thesis using assms(2) by (induction n arbitrary: k buf c) auto
qed

lemma desc_parse_keep: "l2_default c \<Longrightarrow> l2_default (cache_desc_parse d c)"
  by (simp add: cache_desc_parse_def l2_parts)

lemma default_caches_l2: "l2_default default_caches"
  by (simp add: l2_default_def default_caches_def)

lemma cpuid_parse_caches:
  assumes "cpuid_parse cpuid s = Some s'"
  shows "l2_default (cache_tlb_data s')"
proof -
  have "l2_default (desc_rounds cpuid k n buf default_caches)" for k n buf
    by (rule desc_rounds_keep [OF desc_parse_keep default_caches_l2])
  then show ?thesis using assms default_caches_l2 by (auto simp: cpuid_parse_def Let_def split: if_splits)
qed

text \<open>A processor with the required features that describes an L2 cache of 512 KB and an instruction TLB.\<close>

definition demo_cpuid :: "nat \<Rightarrow> u32 \<Rightarrow> regs" where
  "demo_cpuid k leaf = (if leaf = 0 then (\<lambda>_. 0x756e6547)(0 := 3) else if leaf = 1 then (\<lambda>_. 0)(3 := CPU_REQUIRED)
     else (\<lambda>_. 0)(0 := 1, 3 := 0x00005043))"

definition demo_cpu :: cpu_info where
  "demo_cpu = \<lparr>cpu_vendor_str = [], cpu_model = 0, cpu_brand = 0, cpu_family = 0, cpu_stepping = 0, cpu_features = 0, cpu_logical = 0,
     cache_tlb_data = default_caches\<rparr>"

text \<open>One round looks at the bytes 5 to 15 only: the three descriptors in the first register and the first one in the second are skipped.\<close>

lemma desc_bytes_fold: "desc_bytes buf 1 c = fold (\<lambda>j. cache_desc_parse (buf_byte buf j)) [5, 6, 7, 8, 9, 10, 11, 12, 13, 14, 15] c"
  by (simp add: desc_bytes.simps)

subsection \<open>Reading handlers back\<close>

text \<open>The fixed bits of a gate are in neither half of the address.\<close>

lemma handler_halves:
  fixes h :: u32
  defines "g \<equiv> 0x00008e0000080000 OR ((ucast h AND 0xffffffff OR push_bit 32 (ucast h AND 0xffffffff)) AND 0xffff00000000ffff) :: u64"
  shows "ucast (g AND 0xffff) OR ucast (drop_bit 32 g AND 0xffff0000) = h"
proof -
  have masks: "(0xffffffff :: u64) = mask 32" "(0xffff00000000ffff :: u64) = push_bit 48 (mask 16) OR mask 16"
    "(0xffff :: u64) = mask 16" "(0xffff0000 :: u64) = push_bit 16 (mask 16)"
    by (simp_all add: mask_numeral)
  have "(0x00008e0000080000 :: u64) AND 0xffff = 0" "drop_bit 32 (0x00008e0000080000 :: u64) AND 0xffff0000 = 0" by simp_all
  then have "g AND 0xffff = (ucast h AND 0xffffffff OR push_bit 32 (ucast h AND 0xffffffff)) AND 0xffff00000000ffff AND 0xffff"
    "drop_bit 32 g AND 0xffff0000 = drop_bit 32 ((ucast h AND 0xffffffff OR push_bit 32 (ucast h AND 0xffffffff)) AND 0xffff00000000ffff) AND 0xffff0000"
    by (simp_all only: g_def drop_bit_or bit.conj_disj_distrib2 or.left_neutral and.assoc)
  then show ?thesis unfolding masks by (auto intro!: bit_word_eqI simp: bit_simps)
qed

definition gate :: "u32 \<Rightarrow> u64" where
  "gate h = 0x00008e0000080000 OR ((ucast h AND 0xffffffff OR push_bit 32 (ucast h AND 0xffffffff)) AND 0xffff00000000ffff)"

lemma set_handler_gate: "inum < 256 \<Longrightarrow> int_set_handler inum h idt = Some (idt(inum := gate h))"
  by (simp add: int_set_handler_def gate_def Let_def)

lemma get_handler_gate: "inum < 256 \<Longrightarrow> idt inum = gate h \<Longrightarrow> int_get_handler inum idt = Some h"
  using handler_halves [of h] by (simp add: int_get_handler_def gate_def)

lemma set_handlers_gate: "\<forall>i\<in>set is. i < 256 \<Longrightarrow> set_handlers is h idt = Some (\<lambda>k. if k \<in> set is then gate h else idt k)"
  by (induction "is" arbitrary: idt) (auto simp: set_handler_gate fun_eq_iff)

lemma set_handlers_range: "j \<le> 256 \<Longrightarrow> set_handlers [i..<j] h idt = Some (\<lambda>k. if i \<le> k \<and> k < j then gate h else idt k)"
  using set_handlers_gate [of "[i..<j]" h idt] by simp

text \<open>Which handler a vector should have.\<close>

definition vector_handler :: "handlers \<Rightarrow> nat \<Rightarrow> u32" where
  "vector_handler h k = (if k < 32 then int_fatal h else if k = 0x30 then ipi_stop h else if k = 0x32 then ipi_restart h
     else if k = 0x33 then ipi_restart_tlbinv h else if k = 0x34 then ipi_restart_kern_tlbinv h else if k = 0x35 then ipi_halt h
     else int_ignore h)"

text \<open>C36: The initialisation of the interrupt table returns, and every one of the 256 vectors read back from the encoded table has
  its handler: exceptions are fatal, the interrupts between processors go to their routines and all others are ignored.\<close>

theorem idt_init_roundtrip:
  "\<exists>idt'. idt_init h idt = Some idt' \<and> (\<forall>k<256. int_get_handler k idt' = Some (vector_handler h k))"
proof -
  define idt' where "idt' = (\<lambda>k. if 32 \<le> k \<and> k < 256 then gate (int_ignore h) else if k < 32 then gate (int_fatal h) else idt k)
    (0x30 := gate (ipi_stop h), 0x32 := gate (ipi_restart h), 0x33 := gate (ipi_restart_tlbinv h),
     0x34 := gate (ipi_restart_kern_tlbinv h), 0x35 := gate (ipi_halt h))"
  have "idt_init h idt = Some idt'"
    by (simp add: idt_init_def IPI_BASE_def set_handler_gate set_handlers_range idt'_def del: upt_rec_numeral)
  moreover have "idt' k = gate (vector_handler h k)" if "k < 256" for k
    using that by (auto simp: idt'_def vector_handler_def)
  ultimately show ?thesis using get_handler_gate by blast
qed

theorem idt_init_roundtrip_witness:
  "\<exists>idt'. idt_init \<lparr>int_fatal = 0xc0100000, int_ignore = 0xc0100040, ipi_stop = 0xc0100080, ipi_restart = 0xc01000c0,
       ipi_restart_tlbinv = 0xc0100100, ipi_restart_kern_tlbinv = 0xc0100140, ipi_halt = 0xc0100180\<rparr> (\<lambda>_. 0) = Some idt' \<and>
     int_get_handler 14 idt' = Some 0xc0100000 \<and> int_get_handler 0x32 idt' = Some 0xc01000c0 \<and> int_get_handler 255 idt' = Some 0xc0100040"
  using idt_init_roundtrip [of "\<lparr>int_fatal = 0xc0100000, int_ignore = 0xc0100040, ipi_stop = 0xc0100080, ipi_restart = 0xc01000c0,
       ipi_restart_tlbinv = 0xc0100100, ipi_restart_kern_tlbinv = 0xc0100140, ipi_halt = 0xc0100180\<rparr>" "\<lambda>_. 0"]
  by (auto simp: vector_handler_def)

subsection \<open>Page colours\<close>

text \<open>C38: The number of page colours is always 64, whatever cache the processor reports: descriptors of second level caches are recorded
  as first level caches.  A processor with a third level cache leaves the page allocator as it was.\<close>

theorem page_colors_fixed:
  assumes "cpuid_parse cpuid s = Some cpu" "mem_static_init expand ka ke cpu b = Some b'"
  shows "num_page_colors (b_pages b') = (if c_flags (cache_tlb_data cpu) AND CACHE_L3 = 0 then 64 else num_page_colors (b_pages b))"
proof -
  have "l2_cache_size (cache_tlb_data cpu) = 262144"
    using cpuid_parse_caches [OF assms(1)] by (simp add: l2_default_def l2_cache_size_def)
  then show ?thesis using assms(2)
    by (auto simp: mem_static_init_def page_alloc_static_init_def PAGE_SIZE_def bind_eq_Some_conv Let_def split: if_splits)
qed

lemma demo_no_l3: "c_flags (desc_bytes ((\<lambda>_. 0)(0 := 1, 3 := 0x00005043)) 1 default_caches) AND CACHE_L3 = 0"
  by (simp add: desc_bytes_fold buf_byte_def cache_desc_parse_def desc_low_def desc_l2_small_def desc_tlb_def default_caches_def
      CACHE_L1_def CACHE_L2_def CACHE_L3_def CACHE_L1_SPLIT_def TLB_INSTR_def TLB_DATA_def)

theorem page_colors_fixed_witness:
  "\<exists>cpu b'. cpuid_parse demo_cpuid demo_cpu = Some cpu \<and>
     mem_static_init (\<lambda>_. 0xffffffff) 0xc0000000 0xc0400000 cpu
       \<lparr>b_static = \<lparr>st_limit = 0xffffffff, st_addr = 0x100000\<rparr>, b_bytes = \<lambda>_. 0, b_pages = demo_pages,
        kern_vm_obj = 0, kern_addr_spc = 0, kern_page_tables = 0\<rparr> = Some b' \<and> num_page_colors (b_pages b') = 64"
proof -
  let ?b = "\<lparr>b_static = \<lparr>st_limit = 0xffffffff, st_addr = 0x100000\<rparr>, b_bytes = \<lambda>_. 0, b_pages = demo_pages,
        kern_vm_obj = 0, kern_addr_spc = 0, kern_page_tables = 0\<rparr>"
  obtain cpu where c: "cpuid_parse demo_cpuid demo_cpu = Some cpu" "c_flags (cache_tlb_data cpu) AND CACHE_L3 = 0"
    by (simp add: cpuid_parse_def demo_cpuid_def CPU_REQUIRED_def IA_32_X87_def IA_32_PSE_def IA_32_APIC_def Let_def demo_no_l3)
  have "\<not> 0xffffffff < a" for a :: u32 using unsigned_less [of a, where 'a = nat] by (simp add: word_less_nat_alt)
  then have e: "expand_loop (\<lambda>_. 0xffffffff) a 0xffffffff = Some 0xffffffff" for a by (subst expand_loop.simps) simp
  have "static_alloc (\<lambda>_. 0xffffffff) sz al \<lparr>st_limit = 0xffffffff, st_addr = a\<rparr> m =
      Some (align_up a al, \<lparr>st_limit = 0xffffffff, st_addr = align_up a al + sz\<rparr>, m)" for sz al a m
    by (simp add: static_alloc_def memset_def Let_def e)
  then have "\<exists>b'. mem_static_init (\<lambda>_. 0xffffffff) 0xc0000000 0xc0400000 cpu ?b = Some b'"
    using c(2) by (simp add: mem_static_init_def page_alloc_static_init_def Let_def)
  then show ?thesis using c page_colors_fixed [OF c(1)] by fastforce
qed

end
