(* ===== verification/Heap_Macro.thy ===== *)
theory Heap_Macro
  imports Hash_Table
begin

text \<open>
  The two macros of \<^verbatim>\<open>include/data_structures.h\<close> that the kernel does not use: \<^verbatim>\<open>HASH_TABLE\<close>, whose tables have their
  size in memory, and \<^verbatim>\<open>BINARY_HEAP\<close>, from which the heaps of the scheduler seem to have been written by hand.  The
  parameters of the macros are arguments.
\<close>

subsection \<open>Hash tables with a size\<close>

record dyn_htab =
  dt_size :: u32
  dt_tab :: htab

function clear_slots :: "u32 \<Rightarrow> u32 \<Rightarrow> (nat \<Rightarrow> ptr) \<Rightarrow> nat \<Rightarrow> ptr" where
  "clear_slots i sz t = (if i < sz then clear_slots (i + 1) sz (t(unat i := NULL)) else t)"
  by pat_completeness auto
termination
proof (relation "measure (\<lambda>(i, sz, t). unat sz - unat i)")
  fix i sz :: u32 and t :: "nat \<Rightarrow> ptr"
  assume "i < sz"
  then have "unat (i + 1) = unat i + 1" "unat i < unat sz"
    using unsigned_less [of sz, where 'a = nat] by (auto simp: word_less_nat_alt unat_word_ariths)
  then show "((i + 1, sz, t(unat i := NULL)), (i, sz, t)) \<in> measure (\<lambda>(i, sz, t). unat sz - unat i)" by simp
qed simp

declare clear_slots.simps [simp del]

text \<open>\<open>out\<close> is the pointer that the allocator returns, which is not compared with null, and \<open>t\<close> what its memory holds.\<close>

definition dyn_init :: "ptr \<Rightarrow> htab \<Rightarrow> u32 \<Rightarrow> dyn_htab option" where
  "dyn_init out t sz = do {
     _ \<leftarrow> deref out;
     Some \<lparr>dt_size = sz, dt_tab = t\<lparr>ht_table := clear_slots 0 sz (ht_table t)\<rparr>\<rparr> }"

text \<open>The remaining bodies are those of \<^verbatim>\<open>STAT_HASH_TABLE\<close> with the size read from the table; a remainder by 0 traps.\<close>

definition dyn_insert :: "(ptr \<Rightarrow> 'k) \<Rightarrow> ('k \<Rightarrow> u32) \<Rightarrow> dyn_htab \<Rightarrow> ptr \<Rightarrow> ('k \<times> dyn_htab) option" where
  "dyn_insert unique_id hash t inn =
     (if dt_size t = 0 then None
      else let (key, h) = hash_table_insert unique_id hash (unat (dt_size t)) (dt_tab t) inn in Some (key, t\<lparr>dt_tab := h\<rparr>))"

definition dyn_lookup :: "(ptr \<Rightarrow> 'k) \<Rightarrow> ('k \<Rightarrow> 'k \<Rightarrow> bool) \<Rightarrow> ('k \<Rightarrow> u32) \<Rightarrow> dyn_htab \<Rightarrow> 'k \<Rightarrow> ptr option" where
  "dyn_lookup unique_id unique_eq hash t key =
     (if dt_size t = 0 then None else hash_table_lookup unique_id unique_eq hash (unat (dt_size t)) (dt_tab t) key)"

definition dyn_delete :: "(ptr \<Rightarrow> 'k) \<Rightarrow> ('k \<Rightarrow> 'k \<Rightarrow> bool) \<Rightarrow> ('k \<Rightarrow> u32) \<Rightarrow> dyn_htab \<Rightarrow> 'k \<Rightarrow> (ptr \<times> dyn_htab) option" where
  "dyn_delete unique_id unique_eq hash t key =
     (if dt_size t = 0 then None
      else do {
        (out, h) \<leftarrow> hash_table_delete unique_id unique_eq hash (unat (dt_size t)) (dt_tab t) key;
        Some (out, t\<lparr>dt_tab := h\<rparr>) })"

subsection \<open>Binary heaps\<close>

text \<open>
  Positions count from 1 and the array from 0.  \<open>upd\<close> is \<^verbatim>\<open>update_index\<close> on whatever \<open>bh_index\<close> stands for; \<open>realloc\<close> is
  what the reallocation makes of the heap.
\<close>

record ('a, 'i) bheap =
  bh_size :: nat
  bh_max :: nat
  bh_data :: "nat \<Rightarrow> 'a"
  bh_index :: 'i

abbreviation bh_at :: "('a, 'i) bheap \<Rightarrow> nat \<Rightarrow> 'a" where
  "bh_at h i \<equiv> bh_data h (i - 1)"

definition bh_move :: "('a \<Rightarrow> nat \<Rightarrow> 'i \<Rightarrow> 'i) \<Rightarrow> nat \<Rightarrow> nat \<Rightarrow> ('a, 'i) bheap \<Rightarrow> ('a, 'i) bheap" where
  "bh_move upd k i h = h\<lparr>bh_data := (bh_data h)(i - 1 := bh_at h k), bh_index := upd (bh_at h k) i (bh_index h)\<rparr>"

function bh_up :: "('a \<Rightarrow> 'a \<Rightarrow> int) \<Rightarrow> ('a \<Rightarrow> nat \<Rightarrow> 'i \<Rightarrow> 'i) \<Rightarrow> 'a \<Rightarrow> nat \<Rightarrow> ('a, 'i) bheap \<Rightarrow> nat \<times> ('a, 'i) bheap" where
  "bh_up cmp upd x i h =
     (if 1 < i \<and> 1 = cmp x (bh_at h (i div 2)) then bh_up cmp upd x (i div 2) (bh_move upd (i div 2) i h) else (i, h))"
  by pat_completeness auto
termination
  by (relation "measure (\<lambda>(cmp, upd, x, i, h). i)") auto

text \<open>The second loop compares the children with what the array holds at the hole.\<close>

function bh_down :: "('a \<Rightarrow> 'a \<Rightarrow> int) \<Rightarrow> ('a \<Rightarrow> nat \<Rightarrow> 'i \<Rightarrow> 'i) \<Rightarrow> nat \<Rightarrow> nat \<Rightarrow> ('a, 'i) bheap \<Rightarrow> nat \<times> ('a, 'i) bheap" where
  "bh_down cmp upd n i h =
     (if i = 0 then (i, h)
      else if 2 * i + 1 \<le> n \<and> 1 = cmp (bh_at h (2 * i + 1)) (bh_at h i) then
        (if 2 * i \<le> n \<and> 1 = cmp (bh_at h (2 * i)) (bh_at h (2 * i + 1))
         then bh_down cmp upd n (2 * i) (bh_move upd (2 * i) i h)
         else bh_down cmp upd n (2 * i + 1) (bh_move upd (2 * i + 1) i h))
      else if 2 * i \<le> n \<and> 1 = cmp (bh_at h (2 * i)) (bh_at h i) then
        (if 2 * i + 1 \<le> n \<and> 1 = cmp (bh_at h (2 * i + 1)) (bh_at h (2 * i))
         then bh_down cmp upd n (2 * i + 1) (bh_move upd (2 * i + 1) i h)
         else bh_down cmp upd n (2 * i) (bh_move upd (2 * i) i h))
      else (i, h))"
  by pat_completeness auto
termination
  by (relation "measure (\<lambda>(cmp, upd, n, i, h). n + 1 - i)") auto

declare bh_up.simps [simp del] bh_down.simps [simp del]

definition bh_init :: "ptr \<Rightarrow> (nat \<Rightarrow> 'a) \<Rightarrow> 'i \<Rightarrow> nat \<Rightarrow> ('a, 'i) bheap option" where
  "bh_init out data idx sz = do {
     _ \<leftarrow> deref out;
     Some \<lparr>bh_size = 0, bh_max = sz, bh_data = data, bh_index = idx\<rparr> }"

text \<open>Neither the insertion nor the deletion stores the element that it has found a place for.\<close>

definition bh_insert :: "('a \<Rightarrow> 'a \<Rightarrow> int) \<Rightarrow> ('a \<Rightarrow> nat \<Rightarrow> 'i \<Rightarrow> 'i) \<Rightarrow> (nat \<Rightarrow> nat) \<Rightarrow> (('a, 'i) bheap \<Rightarrow> ('a, 'i) bheap option) \<Rightarrow>
    'a \<Rightarrow> ('a, 'i) bheap \<Rightarrow> ('a, 'i) bheap option" where
  "bh_insert cmp upd resize_policy realloc inn h = do {
     h \<leftarrow> (if bh_size h \<ge> bh_max h then realloc (h\<lparr>bh_max := resize_policy (bh_max h)\<rparr>) else Some h);
     let h = h\<lparr>bh_size := bh_size h + 1\<rparr>;
     let (i, h) = bh_up cmp upd inn (bh_size h) h;
     let (i, h) = bh_down cmp upd (bh_size h) i h;
     Some h }"

definition bh_head :: "'a \<Rightarrow> ('a, 'i) bheap \<Rightarrow> 'a" where
  "bh_head failure h = (if 0 \<noteq> bh_size h then bh_data h 0 else failure)"

text \<open>The position to start from is the value of a variable \<open>num\<close> that the macro does not declare.\<close>

definition bh_delete :: "('a \<Rightarrow> 'a \<Rightarrow> int) \<Rightarrow> ('a \<Rightarrow> nat \<Rightarrow> 'i \<Rightarrow> 'i) \<Rightarrow> 'a \<Rightarrow> nat \<Rightarrow> nat \<Rightarrow> ('a, 'i) bheap \<Rightarrow> ('a \<times> ('a, 'i) bheap) option" where
  "bh_delete cmp upd failure num index h =
     (if 0 = bh_size h \<or> 0 = index \<or> index > bh_size h then Some (failure, h)
      else let
        out = bh_at h index;
        h = h\<lparr>bh_size := bh_size h - 1\<rparr>
      in if index - 1 = bh_size h then Some (out, h)
      else if 0 \<noteq> bh_size h then
        if num = 0 then None
        else let
          tmp = bh_data h (bh_size h);
          (i, h) = bh_up cmp upd tmp num h;
          (i, h) = bh_down cmp upd (bh_size h) i h
        in Some (out, h)
      else Some (out, h))"

definition bh_key_set :: "('a \<Rightarrow> 'a \<Rightarrow> int) \<Rightarrow> ('a \<Rightarrow> nat \<Rightarrow> 'i \<Rightarrow> 'i) \<Rightarrow> ('a \<Rightarrow> 'k :: ord) \<Rightarrow> ('k \<Rightarrow> 'a \<Rightarrow> 'a) \<Rightarrow> nat \<Rightarrow> 'k \<Rightarrow>
    ('a, 'i) bheap \<Rightarrow> ('a, 'i) bheap" where
  "bh_key_set cmp upd get_key set_key index key h =
     (if 0 = bh_size h \<or> 0 = index \<or> index > bh_size h then h
      else let tmp = bh_at h index in
      if get_key tmp = key then h
      else let
        direction = get_key tmp < key;
        tmp = set_key key tmp
      in if direction \<and> 1 = index then h
      else let
        (i, h) = (if direction then bh_up cmp upd tmp index h else (index, h));
        (i, h) = bh_down cmp upd (bh_size h) i h
      in h\<lparr>bh_data := (bh_data h)(i - 1 := tmp), bh_index := upd tmp i (bh_index h)\<rparr>)"

subsection \<open>A table with a size implements a finite map\<close>

lemma clear_slots_null: "unat i \<le> k \<Longrightarrow> k < unat sz \<Longrightarrow> clear_slots i sz t k = NULL"
proof (induction i sz t rule: clear_slots.induct)
  case (1 i sz t)
  then have less: "i < sz" by (simp add: word_less_nat_alt)
  then have succ: "unat (i + 1) = unat i + 1"
    using unsigned_less [of sz, where 'a = nat] by (auto simp: word_less_nat_alt unat_word_ariths)
  have keep: "clear_slots j sz u k = NULL" if "u k = NULL" for j u
    using that
  proof (induction j sz u rule: clear_slots.induct)
    case (1 j sz u)
    then show ?case by (subst clear_slots.simps) (simp add: fun_upd_def)
  qed
  show ?case using 1 less succ keep [of "t(unat i := NULL)"] by (subst clear_slots.simps) (cases "unat i = k", auto simp: fun_upd_def)
qed

lemma dyn_init_ok:
  assumes "dyn_init out t sz = Some d" "sz \<noteq> 0"
  shows "table_ok good unique_id hash (unat (dt_size d)) (dt_tab d) {}"
proof -
  have "k < unat sz \<Longrightarrow> clear_slots 0 sz (ht_table t) k = NULL" for k by (rule clear_slots_null) simp_all
  then show ?thesis using assms by (auto simp: dyn_init_def table_ok_def bind_eq_Some_conv intro!: exI [of _ "\<lambda>_. []"])
qed

interpretation dk: hash_keys "\<lambda>_. True" uid "(=)" h "Suc n" for uid h n
  by unfold_locales simp_all

text \<open>A node inserted into a new table is found under its key, and nothing under any other.\<close>

lemma dyn_table_finds:
  assumes "dyn_init out t sz = Some d" "sz \<noteq> 0" "p \<noteq> NULL"
  shows "\<exists>d'. dyn_insert unique_id hash d p = Some (unique_id p, d') \<and>
    (\<forall>k. dyn_lookup unique_id (=) hash d' k = Some (if k = unique_id p then p else NULL))"
proof -
  have sz: "dt_size d = sz" using assms(1) by (auto simp: dyn_init_def bind_eq_Some_conv)
  obtain n where n: "unat sz = Suc n" using assms(2) by (metis not0_implies_Suc unat_eq_zero)
  let ?h = "snd (hash_table_insert unique_id hash (Suc n) (dt_tab d) p)"
  have ok: "table_ok (\<lambda>_. True) unique_id hash (Suc n) ?h {p}"
    using dk.insert_ok [of unique_id hash n "dt_tab d" "{}" p] dyn_init_ok [OF assms(1,2), of "\<lambda>_. True" unique_id hash] assms(3) sz n by simp
  have "hash_table_lookup unique_id (=) hash (Suc n) ?h k = Some (if k = unique_id p then p else NULL)" for k
    using dk.lookup_member [OF ok, of p] dk.lookup_absent [OF ok, of k] by auto
  moreover have "fst (hash_table_insert unique_id hash (Suc n) (dt_tab d) p) = unique_id p" by (simp add: hash_table_insert_def Let_def)
  ultimately show ?thesis using sz n assms(2) by (simp add: dyn_insert_def dyn_lookup_def case_prod_beta)
qed

lemma dyn_table_finds_witness:
  "\<exists>d d'. dyn_init 8 empty_table 7 = Some d \<and> dyn_insert (\<lambda>p. p) word_of_nat d 24 = Some (24, d') \<and>
     dyn_lookup (\<lambda>p. p) (=) word_of_nat d' 24 = Some 24 \<and> dyn_lookup (\<lambda>p. p) (=) word_of_nat d' 17 = Some NULL"
  using dyn_table_finds [of 8 empty_table 7 _ 24 "\<lambda>p. p" word_of_nat] by (fastforce simp: dyn_init_def NULL_def)

subsection \<open>An insertion into a heap loses the element\<close>

lemma bh_up_range: "range (bh_data (snd (bh_up cmp upd x i h))) \<subseteq> range (bh_data h)"
proof (induction cmp upd x i h rule: bh_up.induct)
  case (1 cmp upd x i h)
  then show ?case by (subst bh_up.simps) (fastforce simp: bh_move_def image_iff split: if_splits)
qed

lemma bh_down_range: "range (bh_data (snd (bh_down cmp upd n i h))) \<subseteq> range (bh_data h)"
proof (induction cmp upd n i h rule: bh_down.induct)
  case (1 cmp upd n i h)
  have m: "range (bh_data (bh_move upd k j h)) \<subseteq> range (bh_data h)" for k j by (auto simp: bh_move_def)
  show ?case using 1 m by (subst bh_down.simps) (auto dest!: subsetD)
qed

lemma bh_up_size: "bh_size (snd (bh_up cmp upd x i h)) = bh_size h"
proof (induction cmp upd x i h rule: bh_up.induct)
  case (1 cmp upd x i h)
  then show ?case by (subst bh_up.simps) (simp add: bh_move_def)
qed

lemma bh_down_size: "bh_size (snd (bh_down cmp upd n i h)) = bh_size h"
proof (induction cmp upd n i h rule: bh_down.induct)
  case (1 cmp upd n i h)
  then show ?case by (subst bh_down.simps) (simp add: bh_move_def)
qed

text \<open>An element that is not yet somewhere in the array is not there after its insertion either.\<close>

lemma bh_insert_loses:
  assumes "bh_insert cmp upd resize_policy realloc x h = Some h'" "bh_size h < bh_max h" "x \<notin> range (bh_data h)"
  shows "bh_size h' = bh_size h + 1 \<and> x \<notin> range (bh_data h')"
proof -
  let ?up = "bh_up cmp upd x (bh_size h + 1) (h\<lparr>bh_size := bh_size h + 1\<rparr>)"
  have h': "h' = snd (bh_down cmp upd (bh_size (snd ?up)) (fst ?up) (snd ?up))"
    using assms(1,2) by (simp add: bh_insert_def Let_def case_prod_beta)
  have "range (bh_data h') \<subseteq> range (bh_data h)"
    unfolding h' by (rule order_trans [OF bh_down_range order_trans [OF bh_up_range]]) simp
  then show ?thesis using assms(3) by (auto simp: h' bh_down_size bh_up_size)
qed

lemma bh_insert_loses_witness:
  "\<exists>h'. bh_insert (\<lambda>a b. sgn (a - b)) (\<lambda>_ _ i. i) id Some 7 \<lparr>bh_size = 0, bh_max = 4, bh_data = \<lambda>_. 0, bh_index = ()\<rparr> = Some h' \<and>
     7 \<notin> range (bh_data h')"
proof -
  let ?h = "\<lparr>bh_size = 0, bh_max = 4, bh_data = \<lambda>_. 0 :: int, bh_index = ()\<rparr>"
  have "\<exists>h'. bh_insert (\<lambda>a b. sgn (a - b)) (\<lambda>_ _ i. i) id Some 7 ?h = Some h'" by (simp add: bh_insert_def Let_def case_prod_beta)
  then obtain h' where "bh_insert (\<lambda>a b. sgn (a - b)) (\<lambda>_ _ i. i) id Some 7 ?h = Some h'" by blast
  from this bh_insert_loses [OF this] show ?thesis by auto
qed

end
