(* ===== verification/Io_State.thy ===== *)
theory Io_State
  imports Hash_Table Circular_List Util
begin

text \<open>
  The state of the file layer: the tables and structures of \<^verbatim>\<open>src/io/filesys.c\<close>, \<^verbatim>\<open>src/io/inode_cache.c\<close> and
  \<^verbatim>\<open>src/io/inode.c\<close>.  A mutex is a flag; \<open>None\<close> is a wait for a mutex that the same flow of control holds
  already, or a dereference of \<open>NULL\<close>.  \<^verbatim>\<open>mutex_init\<close> and \<^verbatim>\<open>cond_init\<close> are \<^verbatim>\<open>memset\<close> with value 0, which
  writes nothing (theory \<^verbatim>\<open>Util\<close>), so that they leave no trace here.

  The fields that begin with \<open>i_\<close> are of \<^verbatim>\<open>inode_t\<close>, with \<open>fsys_\<close> of \<^verbatim>\<open>filesys_t\<close>, with \<open>fn_\<close> of \<^verbatim>\<open>fs_node\<close>, with
  \<open>fd_\<close> of \<^verbatim>\<open>fs_def_t\<close> and with \<open>ce_\<close> of \<^verbatim>\<open>cache_entry_t\<close>.  The links of a hash table are part of the table.
\<close>

type_synonym unichars = "16 word list"

record io_state =
  i_id :: "ptr \<Rightarrow> u32"
  i_filesys :: "ptr \<Rightarrow> u32"
  i_hard_ref_count :: "ptr \<Rightarrow> u32"
  i_ref_count :: "ptr \<Rightarrow> u32"
  i_mutex :: "ptr \<Rightarrow> bool"
  fn_fs :: "ptr \<Rightarrow> ptr"
  fd_name :: "ptr \<Rightarrow> unichars"
  fsys_src :: "ptr \<Rightarrow> ptr"
  fs_table :: htab
  mount_table :: htab
  fstab_mutex :: bool
  mount_mutex :: bool
  ce_list_next :: "ptr \<Rightarrow> ptr"
  ce_list_last :: "ptr \<Rightarrow> ptr"
  ce_src :: "ptr \<Rightarrow> ptr \<times> u64"
  ce_inode :: "ptr \<Rightarrow> ptr"
  ce_table :: htab
  rev_table :: htab
  ce_queue :: ptr
  cache_mutex :: bool
  ino_table :: htab
  ino_mutex :: bool
  io_seed :: u32

text \<open>Taking and releasing the five kinds of mutex.\<close>

definition lock_fstab :: "io_state \<Rightarrow> io_state option" where
  "lock_fstab s = (if fstab_mutex s then None else Some (s\<lparr>fstab_mutex := True\<rparr>))"

definition unlock_fstab :: "io_state \<Rightarrow> io_state" where
  "unlock_fstab s = s\<lparr>fstab_mutex := False\<rparr>"

definition lock_mount :: "io_state \<Rightarrow> io_state option" where
  "lock_mount s = (if mount_mutex s then None else Some (s\<lparr>mount_mutex := True\<rparr>))"

definition unlock_mount :: "io_state \<Rightarrow> io_state" where
  "unlock_mount s = s\<lparr>mount_mutex := False\<rparr>"

definition lock_cache :: "io_state \<Rightarrow> io_state option" where
  "lock_cache s = (if cache_mutex s then None else Some (s\<lparr>cache_mutex := True\<rparr>))"

definition unlock_cache :: "io_state \<Rightarrow> io_state" where
  "unlock_cache s = s\<lparr>cache_mutex := False\<rparr>"

definition lock_ino :: "io_state \<Rightarrow> io_state option" where
  "lock_ino s = (if ino_mutex s then None else Some (s\<lparr>ino_mutex := True\<rparr>))"

definition unlock_ino :: "io_state \<Rightarrow> io_state" where
  "unlock_ino s = s\<lparr>ino_mutex := False\<rparr>"

definition lock_inode :: "ptr \<Rightarrow> io_state \<Rightarrow> io_state option" where
  "lock_inode i s = do {
     i \<leftarrow> deref i;
     if i_mutex s i then None else Some (s\<lparr>i_mutex := (i_mutex s)(i := True)\<rparr>) }"

definition unlock_inode :: "ptr \<Rightarrow> io_state \<Rightarrow> io_state" where
  "unlock_inode i s = s\<lparr>i_mutex := (i_mutex s)(i := False)\<rparr>"

lemmas io_locks = lock_fstab_def unlock_fstab_def lock_mount_def unlock_mount_def lock_cache_def unlock_cache_def
  lock_ino_def unlock_ino_def lock_inode_def unlock_inode_def

lemma deref_NULL [simp]: "deref NULL = None"
  by simp

text \<open>An empty file layer, for examples.\<close>

definition io_init :: io_state where
  "io_init = \<lparr>i_id = \<lambda>_. 0, i_filesys = \<lambda>_. 0, i_hard_ref_count = \<lambda>_. 0, i_ref_count = \<lambda>_. 0, i_mutex = \<lambda>_. False,
     fn_fs = \<lambda>_. NULL, fd_name = \<lambda>_. [], fsys_src = \<lambda>_. NULL, fs_table = empty_table, mount_table = empty_table,
     fstab_mutex = False, mount_mutex = False, ce_list_next = \<lambda>_. NULL, ce_list_last = \<lambda>_. NULL, ce_src = \<lambda>_. (NULL, 0),
     ce_inode = \<lambda>_. NULL, ce_table = empty_table, rev_table = empty_table, ce_queue = NULL, cache_mutex = False,
     ino_table = empty_table, ino_mutex = False, io_seed = 0\<rparr>"

end
