(* ===== verification/Filesys.thy ===== *)
theory Filesys
  imports Io_State
begin

text \<open>
  \<^verbatim>\<open>src/io/filesys.c\<close>: the registered kinds of file system, by name, and the mounted file systems, by the
  inode they are mounted on.  A driver's \<^verbatim>\<open>mount\<close> and \<^verbatim>\<open>unmount\<close>, called through function pointers, are
  arguments (\<open>mnt\<close>, \<open>umnt\<close>), and \<open>new\<close> is what \<^verbatim>\<open>malloc\<close> returns.  \<^verbatim>\<open>strcmp\<close> is declared in \<^verbatim>\<open>include/util.h\<close>
  and defined nowhere; names are compared for equality.
\<close>

definition FS_HASH_TABLE_SIZE :: nat where "FS_HASH_TABLE_SIZE = 127"
definition MOUNT_HASH_TABLE_SIZE :: nat where "MOUNT_HASH_TABLE_SIZE = 511"

text \<open>The key of a node of the first table is the name of its definition.\<close>

definition fs_name :: "io_state \<Rightarrow> ptr \<Rightarrow> unichars" where
  "fs_name s node = fd_name s (fn_fs s node)"

definition filesys_register :: "ptr \<Rightarrow> ptr \<Rightarrow> io_state \<Rightarrow> io_state option" where
  "filesys_register new fdef s = do {
     node \<leftarrow> deref new;
     let s = s\<lparr>fn_fs := (fn_fs s)(node := fdef)\<rparr>;
     s \<leftarrow> lock_fstab s;
     let s = s\<lparr>fs_table := snd (hash_table_insert (fs_name s) strhash FS_HASH_TABLE_SIZE (fs_table s) node)\<rparr>;
     Some (unlock_fstab s) }"

definition filesys_mount :: "(ptr \<Rightarrow> ptr \<Rightarrow> ptr) \<Rightarrow> unichars \<Rightarrow> ptr \<Rightarrow> io_state \<Rightarrow> (ptr \<times> io_state) option" where
  "filesys_mount mnt fsname inode s = do {
     s \<leftarrow> lock_fstab s;
     node \<leftarrow> hash_table_lookup (fs_name s) (=) strhash FS_HASH_TABLE_SIZE (fs_table s) fsname;
     node \<leftarrow> deref node;
     let fdef = fn_fs s node;
     if NULL \<noteq> fdef then do {
       let s = unlock_fstab s;
       let out = mnt fdef inode;
       if NULL \<noteq> out then do {
         let s = s\<lparr>fsys_src := (fsys_src s)(out := inode)\<rparr>;
         s \<leftarrow> lock_mount s;
         inode \<leftarrow> deref inode;
         let s = s\<lparr>mount_table := snd (hash_table_insert (fsys_src s) (i_id s) MOUNT_HASH_TABLE_SIZE (mount_table s) out)\<rparr>;
         Some (out, unlock_mount s) }
       else Some (out, s) }
     else Some (NULL, s) }"

definition filesys_unmount :: "(ptr \<Rightarrow> int) \<Rightarrow> ptr \<Rightarrow> io_state \<Rightarrow> (int \<times> io_state) option" where
  "filesys_unmount umnt filesys s = do {
     s \<leftarrow> lock_mount s;
     filesys \<leftarrow> deref filesys;
     let out = umnt filesys;
     s \<leftarrow> (if out = 0 then do {
           inode \<leftarrow> deref (fsys_src s filesys);
           (_, t) \<leftarrow> hash_table_delete (fsys_src s) (=) (i_id s) MOUNT_HASH_TABLE_SIZE (mount_table s) inode;
           Some (s\<lparr>mount_table := t\<rparr>) }
         else Some s);
     Some (out, unlock_mount s) }"

definition filesys_lookup :: "ptr \<Rightarrow> io_state \<Rightarrow> (ptr \<times> io_state) option" where
  "filesys_lookup inode s = do {
     s \<leftarrow> lock_mount s;
     inode \<leftarrow> deref inode;
     filesys \<leftarrow> hash_table_lookup (fsys_src s) (=) (i_id s) MOUNT_HASH_TABLE_SIZE (mount_table s) inode;
     Some (filesys, unlock_mount s) }"

subsection \<open>The tables\<close>

interpretation fk: hash_keys "\<lambda>_. True" uid "(=)" strhash FS_HASH_TABLE_SIZE for uid
  by unfold_locales (simp_all add: FS_HASH_TABLE_SIZE_def)

interpretation mt: hash_keys "\<lambda>_. True" uid "(=)" h MOUNT_HASH_TABLE_SIZE for uid h
  by unfold_locales (simp_all add: MOUNT_HASH_TABLE_SIZE_def)

text \<open>\<open>N\<close> are the nodes of the registered kinds and \<open>M\<close> the mounted file systems; nobody holds a mutex.\<close>

definition fs_ok :: "io_state \<Rightarrow> ptr set \<Rightarrow> ptr set \<Rightarrow> bool" where
  "fs_ok s N M \<longleftrightarrow> \<not> fstab_mutex s \<and> \<not> mount_mutex s \<and>
     table_ok (\<lambda>_. True) (fs_name s) strhash FS_HASH_TABLE_SIZE (fs_table s) N \<and>
     table_ok (\<lambda>_. True) (fsys_src s) (i_id s) MOUNT_HASH_TABLE_SIZE (mount_table s) M"

lemma filesys_lookup_mounted:
  assumes "fs_ok s N M" "f \<in> M" "fsys_src s f \<noteq> NULL"
  shows "filesys_lookup (fsys_src s f) s = Some (f, s)"
proof -
  have "hash_table_lookup (fsys_src s) (=) (i_id s) MOUNT_HASH_TABLE_SIZE (mount_table s) (fsys_src s f) = Some f"
    using assms(1,2) by (intro mt.lookup_member) (simp_all add: fs_ok_def)
  moreover have "s\<lparr>mount_mutex := False\<rparr> = s" using assms(1) by (simp add: fs_ok_def)
  ultimately show ?thesis using assms by (simp add: filesys_lookup_def lock_mount_def unlock_mount_def fs_ok_def)
qed

lemma filesys_lookup_absent:
  assumes "fs_ok s N M" "inode \<notin> fsys_src s ` M" "inode \<noteq> NULL"
  shows "filesys_lookup inode s = Some (NULL, s)"
proof -
  have "hash_table_lookup (fsys_src s) (=) (i_id s) MOUNT_HASH_TABLE_SIZE (mount_table s) inode = Some NULL"
    using assms(1,2) by (intro mt.lookup_absent) (simp_all add: fs_ok_def)
  moreover have "s\<lparr>mount_mutex := False\<rparr> = s" using assms(1) by (simp add: fs_ok_def)
  ultimately show ?thesis using assms by (simp add: filesys_lookup_def lock_mount_def unlock_mount_def fs_ok_def)
qed

lemma filesys_mount_ok:
  assumes ok: "fs_ok s N M" and node: "node \<in> N" "fs_name s node = name" "fn_fs s node \<noteq> NULL"
    and f: "mnt (fn_fs s node) inode = f" "f \<noteq> NULL" "f \<notin> M" and inode: "inode \<noteq> NULL" "inode \<notin> fsys_src s ` M"
  shows "\<exists>s'. filesys_mount mnt name inode s = Some (f, s') \<and> fs_ok s' N (insert f M) \<and> fsys_src s' = (fsys_src s)(f := inode)"
proof -
  have look: "hash_table_lookup (fs_name s) (=) strhash FS_HASH_TABLE_SIZE (fs_table s) name = Some node"
    using fk.lookup_member [of "fs_name s" "fs_table s" N node] ok node(1,2) by (simp add: fs_ok_def)
  define src where "src = (fsys_src s)(f := inode)"
  define t where "t = snd (hash_table_insert src (i_id s) MOUNT_HASH_TABLE_SIZE (mount_table s) f)"
  have "table_ok (\<lambda>_. True) src (i_id s) MOUNT_HASH_TABLE_SIZE (mount_table s) M"
    using ok f(3) by (rule_tac table_ok_cong [of _ "fsys_src s"]) (auto simp: fs_ok_def src_def)
  then have "table_ok (\<lambda>_. True) src (i_id s) MOUNT_HASH_TABLE_SIZE t (insert f M)"
    unfolding t_def using f inode by (intro mt.insert_ok) (auto simp: src_def)
  then have fin: "fs_ok (s\<lparr>fsys_src := src, mount_table := t\<rparr>) N (insert f M)"
    using ok by (simp add: fs_ok_def fs_name_def [abs_def])
  have n: "node \<noteq> NULL" using fk.not_null [of "fs_name s" "fs_table s" N node] ok node(1) by (simp add: fs_ok_def)
  have "fs_name (s\<lparr>fstab_mutex := True\<rparr>) = fs_name s" by (simp add: fs_name_def [abs_def])
  then have "filesys_mount mnt name inode s = Some (f, s\<lparr>fsys_src := src, mount_table := t\<rparr>)"
    using ok look node(3) f(1,2) inode(1) n
    by (simp add: filesys_mount_def io_locks fs_ok_def src_def t_def)
  then show ?thesis using fin by (auto simp: src_def)
qed

lemma filesys_unmount_ok:
  assumes ok: "fs_ok s N M" and f: "f \<in> M" "fsys_src s f \<noteq> NULL" "umnt f = 0"
  shows "\<exists>s'. filesys_unmount umnt f s = Some (0, s') \<and> fs_ok s' N (M - {f}) \<and> fsys_src s' = fsys_src s"
proof -
  obtain t where t: "hash_table_delete (fsys_src s) (=) (i_id s) MOUNT_HASH_TABLE_SIZE (mount_table s) (fsys_src s f) = Some (f, t)"
      "table_ok (\<lambda>_. True) (fsys_src s) (i_id s) MOUNT_HASH_TABLE_SIZE t (M - {f})"
    using mt.delete_ok [of "fsys_src s" "i_id s" "mount_table s" M f] ok f(1) by (auto simp: fs_ok_def)
  have "f \<noteq> NULL" using mt.not_null [of "fsys_src s" "i_id s" "mount_table s" M f] ok f(1) by (simp add: fs_ok_def)
  then have "filesys_unmount umnt f s = Some (0, s\<lparr>mount_table := t\<rparr>)"
    using ok t(1) f by (simp add: filesys_unmount_def io_locks fs_ok_def)
  then show ?thesis using t(2) ok by (auto simp: fs_ok_def fs_name_def [abs_def])
qed

text \<open>C25: Mounting a registered kind of file system on an inode gives the driver's file system, and looking the inode up finds
  it, next to every other mount.  After it has been unmounted the inode has no file system, and the
  other mounts are as they were.\<close>

theorem mount_roundtrip:
  assumes ok: "fs_ok s N M" and node: "node \<in> N" "fs_name s node = name" "fn_fs s node \<noteq> NULL"
    and f: "mnt (fn_fs s node) inode = f" "f \<noteq> NULL" "f \<notin> M" "umnt f = 0"
    and inode: "inode \<noteq> NULL" "inode \<notin> fsys_src s ` M" "NULL \<notin> fsys_src s ` M"
  shows "\<exists>s1 s2. filesys_mount mnt name inode s = Some (f, s1) \<and> filesys_lookup inode s1 = Some (f, s1) \<and>
    (\<forall>g\<in>M. filesys_lookup (fsys_src s g) s1 = Some (g, s1)) \<and>
    filesys_unmount umnt f s1 = Some (0, s2) \<and> filesys_lookup inode s2 = Some (NULL, s2) \<and>
    (\<forall>g\<in>M. filesys_lookup (fsys_src s g) s2 = Some (g, s2))"
proof -
  obtain s1 where s1: "filesys_mount mnt name inode s = Some (f, s1)" "fs_ok s1 N (insert f M)" "fsys_src s1 = (fsys_src s)(f := inode)"
    using filesys_mount_ok [where mnt = mnt and inode = inode, OF ok node f(1-3) inode(1,2)] by blast
  obtain s2 where s2: "filesys_unmount umnt f s1 = Some (0, s2)" "fs_ok s2 N M" "fsys_src s2 = (fsys_src s)(f := inode)"
    using filesys_unmount_ok [OF s1(2), of f umnt] s1(3) f inode(1) by auto
  have "filesys_lookup inode s1 = Some (f, s1)"
    using filesys_lookup_mounted [OF s1(2), of f] s1(3) inode(1) by simp
  moreover have "filesys_lookup (fsys_src s g) s1 = Some (g, s1)" "filesys_lookup (fsys_src s g) s2 = Some (g, s2)" if "g \<in> M" for g
  proof -
    have g: "g \<noteq> f" "fsys_src s g \<noteq> NULL" using that f(3) inode(3) by (auto simp: image_iff)
    show "filesys_lookup (fsys_src s g) s1 = Some (g, s1)"
      using filesys_lookup_mounted [OF s1(2), of g] that g s1(3) by simp
    show "filesys_lookup (fsys_src s g) s2 = Some (g, s2)"
      using filesys_lookup_mounted [OF s2(2), of g] that g s2(3) by simp
  qed
  moreover have "inode \<notin> fsys_src s2 ` M" using inode(2) f(3) s2(3) by auto
  then have "filesys_lookup inode s2 = Some (NULL, s2)" using filesys_lookup_absent [OF s2(2)] inode(1) by blast
  ultimately show ?thesis using s1(1) s2(1) by blast
qed

text \<open>One registered kind with an empty name, mounted on inode 100 as file system 300.\<close>

theorem mount_roundtrip_witness:
  "\<exists>s s1 s2. filesys_register 50 20 io_init = Some s \<and> filesys_mount (\<lambda>_ _. 300) [] 100 s = Some (300, s1) \<and>
    filesys_lookup 100 s1 = Some (300, s1) \<and> filesys_unmount (\<lambda>_. 0) 300 s1 = Some (0, s2) \<and> filesys_lookup 100 s2 = Some (NULL, s2)"
proof -
  define t where "t = snd (hash_table_insert (\<lambda>_. []) strhash FS_HASH_TABLE_SIZE empty_table 50)"
  define s where "s = io_init\<lparr>fn_fs := (\<lambda>_. NULL)(50 := 20), fs_table := t\<rparr>"
  have r: "filesys_register 50 20 io_init = Some s"
    by (simp add: filesys_register_def io_init_def io_locks s_def t_def fs_name_def [abs_def] NULL_def)
  have "table_ok (\<lambda>_. True) (\<lambda>_. []) strhash FS_HASH_TABLE_SIZE t {50}"
    unfolding t_def using fk.insert_ok [OF fk.empty_ok, of 50] by (simp add: NULL_def)
  then have "fs_ok s {50} {}"
    using mt.empty_ok by (simp add: fs_ok_def s_def io_init_def fs_name_def [abs_def])
  moreover have "fs_name s 50 = []" "fn_fs s 50 = 20" by (simp_all add: s_def io_init_def fs_name_def)
  ultimately show ?thesis
    using r mount_roundtrip [of s "{50}" "{}" 50 "[]" "\<lambda>_ _. 300" 100 300 "\<lambda>_. 0"] by (auto simp: NULL_def)
qed

text \<open>Mounting a kind that is not registered dereferences the null result of the lookup.\<close>

lemma mount_unknown_faults:
  assumes "fs_ok s N M" "name \<notin> fs_name s ` N"
  shows "filesys_mount mnt name inode s = None"
proof -
  have "hash_table_lookup (fs_name s) (=) strhash FS_HASH_TABLE_SIZE (fs_table s) name = Some NULL"
    using assms by (intro fk.lookup_absent) (simp_all add: fs_ok_def)
  moreover have "fs_name (s\<lparr>fstab_mutex := True\<rparr>) = fs_name s" by (simp add: fs_name_def [abs_def])
  ultimately show ?thesis using assms(1) by (simp add: filesys_mount_def io_locks fs_ok_def)
qed

end
