(* ===== verification/Inode_Cache.thy ===== *)
theory Inode_Cache
  imports Filesys
begin

text \<open>
  \<^verbatim>\<open>src/io/inode_cache.c\<close>: the inodes in memory, by file system and number, with a second table from inode to
  entry and a ring of the entries nobody uses.  The driver's functions, called through pointers in the
  file system, are arguments: \<open>rd\<close> is \<^verbatim>\<open>inode_read\<close> and \<open>cr\<close> is \<^verbatim>\<open>inode_create\<close>; \<open>new\<close> is what \<^verbatim>\<open>malloc\<close> returns.
  The code asks \<^verbatim>\<open>malloc\<close> for \<^verbatim>\<open>sizeof(entry)\<close>, the four bytes of a pointer; theory \<^verbatim>\<open>Inode_Reach\<close> shows what the
  heap makes of that.  The lemmas here say what the tables and the ring do with an entry that has
  memory of its own.
\<close>

definition INODE_CACHE_TABLE_SIZE :: nat where "INODE_CACHE_TABLE_SIZE = 32767"

definition ce_hash :: "io_state \<Rightarrow> ptr \<times> u64 \<Rightarrow> u32" where
  "ce_hash s key = i_id s (fsys_src s (fst key)) * ucast (snd key)"

definition ce_unlink :: "ptr \<Rightarrow> io_state \<Rightarrow> io_state option" where
  "ce_unlink entry s =
     (if NULL \<noteq> ce_list_next s entry then do {
        s \<leftarrow> (if ce_queue s \<noteq> entry then do {
            l \<leftarrow> deref (ce_list_last s entry);
            let s = s\<lparr>ce_list_last := (ce_list_last s)(ce_list_next s entry := ce_list_last s entry)\<rparr>;
            Some (s\<lparr>ce_list_next := (ce_list_next s)(ce_list_last s entry := ce_list_next s entry)\<rparr>) }
          else let (q, nxt, lst) = clist_delete (ce_queue s) (ce_list_next s, ce_list_last s)
               in Some (s\<lparr>ce_queue := q, ce_list_next := nxt, ce_list_last := lst\<rparr>));
        Some (s\<lparr>ce_list_next := (ce_list_next s)(entry := NULL), ce_list_last := (ce_list_last s)(entry := NULL)\<rparr>) }
      else Some s)"

text \<open>Entering an inode that a driver has delivered.\<close>

definition ce_enter :: "ptr \<Rightarrow> ptr \<times> u64 \<Rightarrow> ptr \<Rightarrow> io_state \<Rightarrow> io_state option" where
  "ce_enter new key inode s = do {
     entry \<leftarrow> deref new;
     let s = s\<lparr>ce_list_next := (ce_list_next s)(entry := NULL), ce_list_last := (ce_list_last s)(entry := NULL),
               ce_src := (ce_src s)(entry := key), ce_inode := (ce_inode s)(entry := inode),
               i_ref_count := (i_ref_count s)(inode := 1)\<rparr>;
     let s = s\<lparr>ce_table := snd (hash_table_insert (ce_src s) (ce_hash s) INODE_CACHE_TABLE_SIZE (ce_table s) entry)\<rparr>;
     Some (s\<lparr>rev_table := snd (hash_table_insert (ce_inode s) (i_id s) INODE_CACHE_TABLE_SIZE (rev_table s) entry)\<rparr>) }"

definition inode_cache_lookup :: "(ptr \<Rightarrow> u64 \<Rightarrow> ptr) \<Rightarrow> ptr \<Rightarrow> ptr \<Rightarrow> u64 \<Rightarrow> io_state \<Rightarrow> (ptr \<times> io_state) option" where
  "inode_cache_lookup rd new filesys filesys_id s = do {
     s \<leftarrow> lock_cache s;
     filesys \<leftarrow> deref filesys;
     _ \<leftarrow> deref (fsys_src s filesys);
     entry \<leftarrow> hash_table_lookup (ce_src s) (=) (ce_hash s) INODE_CACHE_TABLE_SIZE (ce_table s) (filesys, filesys_id);
     if NULL \<noteq> entry then
       if NULL \<noteq> ce_inode s entry then do {
         s \<leftarrow> ce_unlink entry s;
         s \<leftarrow> lock_inode (ce_inode s entry) s;
         let s = s\<lparr>i_ref_count := (i_ref_count s)(ce_inode s entry := i_ref_count s (ce_inode s entry) + 1)\<rparr>;
         Some (ce_inode s entry, unlock_cache (unlock_inode (ce_inode s entry) s)) }
       else Some (NULL, s)
     else if NULL \<noteq> rd filesys filesys_id then do {
       s \<leftarrow> ce_enter new (filesys, filesys_id) (rd filesys filesys_id) s;
       Some (rd filesys filesys_id, unlock_cache s) }
     else Some (NULL, unlock_cache s) }"

definition ce_enqueue :: "ptr \<Rightarrow> io_state \<Rightarrow> io_state" where
  "ce_enqueue entry s =
     (let (q, nxt, lst) = clist_insert (ce_queue s) entry (ce_list_next s, ce_list_last s)
      in s\<lparr>ce_queue := q, ce_list_next := nxt, ce_list_last := lst\<rparr>)"

definition inode_cache_free :: "ptr \<Rightarrow> io_state \<Rightarrow> io_state option" where
  "inode_cache_free inode s = do {
     s \<leftarrow> lock_cache s;
     inode \<leftarrow> deref inode;
     entry \<leftarrow> hash_table_lookup (ce_inode s) (=) (i_id s) INODE_CACHE_TABLE_SIZE (rev_table s) inode;
     Some (unlock_cache (if NULL \<noteq> entry then ce_enqueue entry s else s)) }"

definition inode_cache_create :: "(ptr \<Rightarrow> ptr \<times> u64) \<Rightarrow> ptr \<Rightarrow> ptr \<Rightarrow> io_state \<Rightarrow> (ptr \<times> io_state) option" where
  "inode_cache_create cr new filesys s = do {
     s \<leftarrow> lock_cache s;
     filesys \<leftarrow> deref filesys;
     let (inode, filesys_id) = cr filesys;
     if NULL \<noteq> inode then do {
       _ \<leftarrow> deref (fsys_src s filesys);
       s \<leftarrow> ce_enter new (filesys, filesys_id) inode s;
       Some (inode, unlock_cache s) }
     else Some (NULL, unlock_cache s) }"

text \<open>Deletion walks the links of the reverse table from a bucket of the other one.\<close>

definition inode_cache_delete :: "ptr \<Rightarrow> io_state \<Rightarrow> io_state option" where
  "inode_cache_delete inode s = do {
     s \<leftarrow> lock_cache s;
     inode \<leftarrow> deref inode;
     entry \<leftarrow> hash_table_lookup (ce_inode s) (=) (i_id s) INODE_CACHE_TABLE_SIZE
         \<lparr>ht_table = ht_table (ce_table s), ht_next = ht_next (rev_table s)\<rparr> inode;
     Some (unlock_cache (if NULL \<noteq> entry then ce_enqueue entry (s\<lparr>ce_inode := (ce_inode s)(entry := NULL)\<rparr>) else s)) }"

text \<open>Writing an entry back: the call to the driver, which is not part of this state.\<close>

datatype driver_call = Inode_Write ptr ptr u64 | Inode_Delete ptr u64

definition inode_cache_sync_entry :: "ptr \<Rightarrow> io_state \<Rightarrow> (driver_call \<times> io_state) option" where
  "inode_cache_sync_entry entry s =
     (let fs = fst (ce_src s entry) in
      if NULL \<noteq> ce_inode s entry then do {
        s \<leftarrow> lock_inode (ce_inode s entry) s;
        fs \<leftarrow> deref fs;
        Some (Inode_Write fs (ce_inode s entry) (snd (ce_src s entry)), unlock_inode (ce_inode s entry) s) }
      else do {
        fs \<leftarrow> deref fs;
        Some (Inode_Delete fs (snd (ce_src s entry)), s) })"

subsection \<open>The invariant\<close>

interpretation ck: hash_keys "\<lambda>_. True" uid "(=)" h INODE_CACHE_TABLE_SIZE for uid h
  by unfold_locales (simp_all add: INODE_CACHE_TABLE_SIZE_def)

text \<open>
  \<open>E\<close> are the entries, \<open>qs\<close> those nobody uses, in the order of the ring.  No entry is marked
  deleted, and an entry that is in use has null links.
\<close>

definition cache_ok :: "io_state \<Rightarrow> ptr set \<Rightarrow> ptr list \<Rightarrow> bool" where
  "cache_ok s E qs \<longleftrightarrow> \<not> cache_mutex s \<and>
     table_ok (\<lambda>_. True) (ce_src s) (ce_hash s) INODE_CACHE_TABLE_SIZE (ce_table s) E \<and>
     table_ok (\<lambda>_. True) (ce_inode s) (i_id s) INODE_CACHE_TABLE_SIZE (rev_table s) E \<and>
     NULL \<notin> ce_inode s ` E \<and> ring (ce_list_next s, ce_list_last s) qs \<and> ce_queue s = clist_head qs \<and> set qs \<subseteq> E \<and>
     (\<forall>e\<in>E - set qs. ce_list_next s e = NULL)"

subsection \<open>Taking an entry off the ring\<close>

lemma ring_links_in:
  assumes "ring lk qs" "x \<in> set qs"
  shows "fst lk x \<in> set qs" "snd lk x \<in> set qs"
proof -
  obtain rs where r: "ring lk (x # rs)" "set (x # rs) = set qs" by (rule ring_front [OF assms])
  have "fst lk x \<in> set (x # rs) \<and> snd lk x \<in> set (x # rs)" using r(1) by (cases rs) (auto simp: ring_def)
  then show "fst lk x \<in> set qs" "snd lk x \<in> set qs" unfolding r(2) by simp_all
qed

lemma ring_unlink:
  assumes r: "ring (nxt, lst) qs" and x: "x \<in> set qs" "x \<noteq> clist_head qs"
  shows "ring (nxt(lst x := nxt x), lst(nxt x := lst x)) (remove1 x qs) \<and> clist_head (remove1 x qs) = clist_head qs"
proof -
  obtain ps ys where "qs = ps @ x # ys" "x \<notin> set ps" using split_list_first [OF x(1)] by blast
  moreover from this have "ps \<noteq> []" using x(2) by (auto simp: clist_head_def)
  ultimately obtain z zs where q: "qs = (z # zs) @ x # ys" "x \<notin> set (z # zs)" by (cases ps) auto
  have t: "ring (nxt, lst) (x # ys @ z # zs)" by (rule ring_turn [OF r [unfolded q(1)]])
  have d: "distinct (x # ys @ z # zs)" "x \<noteq> NULL" "nxt x = hd (ys @ z # zs)" "lst x = last (z # zs)"
    using t by (cases ys; auto simp: ring_def)+
  have n: "nxt x \<noteq> x" "lst x \<noteq> x" using d(1) hd_in_set [of "ys @ z # zs"] last_in_set [of "z # zs"] unfolding d(3,4) by auto
  have c: "clist_delete x (nxt, lst) = (nxt x, nxt(lst x := nxt x), lst(nxt x := lst x))"
    using n d(2) by (simp add: clist_delete_def Let_def)
  have "ring (nxt(lst x := nxt x), lst(nxt x := lst x)) (ys @ z # zs)" by (rule clist_delete_ring(2) [OF t c])
  then have "ring (nxt(lst x := nxt x), lst(nxt x := lst x)) (z # zs @ ys)" by (rule ring_turn)
  then show ?thesis using q by (simp add: clist_head_def remove1_append)
qed

text \<open>What \<open>ce_unlink\<close> does to an entry of the ring, and to one that is not on it.\<close>

lemma ce_unlink_ring:
  assumes r: "ring (ce_list_next s, ce_list_last s) qs" "ce_queue s = clist_head qs" and x: "x \<in> set qs"
  shows "\<exists>q nxt lst. ce_unlink x s = Some (s\<lparr>ce_queue := q, ce_list_next := nxt, ce_list_last := lst\<rparr>) \<and>
    ring (nxt, lst) (remove1 x qs) \<and> q = clist_head (remove1 x qs) \<and> nxt x = NULL \<and> (\<forall>e. e \<notin> set qs \<longrightarrow> nxt e = ce_list_next s e)"
proof -
  have l: "ce_list_next s x \<in> set qs" "ce_list_last s x \<in> set qs" "NULL \<notin> set qs" "distinct qs"
    using ring_links_in [OF r(1) x] r(1) by (auto simp: ring_def)
  obtain q nxt lst where u: "ce_unlink x s = Some (s\<lparr>ce_queue := q, ce_list_next := nxt(x := NULL), ce_list_last := lst(x := NULL)\<rparr>)"
    "ring (nxt, lst) (remove1 x qs)" "q = clist_head (remove1 x qs)" "\<forall>e. e \<notin> set qs \<longrightarrow> nxt e = ce_list_next s e"
  proof (cases "ce_queue s = x")
    case False
    have "ring ((ce_list_next s)(ce_list_last s x := ce_list_next s x), (ce_list_last s)(ce_list_next s x := ce_list_last s x)) (remove1 x qs) \<and>
        clist_head (remove1 x qs) = ce_queue s"
      using ring_unlink [OF r(1) x] False r(2) by simp
    moreover have "ce_list_last s x \<noteq> NULL" "ce_list_next s x \<noteq> NULL" using l by auto
    moreover have "((ce_list_last s)(ce_list_next s x := ce_list_last s x)) x = ce_list_last s x" by simp
    ultimately show ?thesis using False l
      by (intro that [where q = "ce_queue s" and nxt = "(ce_list_next s)(ce_list_last s x := ce_list_next s x)" and lst = "(ce_list_last s)(ce_list_next s x := ce_list_last s x)"])
        (auto simp: ce_unlink_def)
  next
    case True
    obtain h nxt lst where d: "clist_delete x (ce_list_next s, ce_list_last s) = (h, nxt, lst)" by (metis prod_cases3)
    obtain rs where q: "qs = x # rs" using True r(2) x by (cases qs) (auto simp: clist_head_def)
    note ring = clist_delete_ring [OF r(1) [unfolded q] d]
    have "\<forall>e. e \<notin> set qs \<longrightarrow> nxt e = ce_list_next s e" using clist_delete_frame [OF r(1) [unfolded q] d] by (auto simp: q)
    moreover have "ce_list_next s x \<noteq> NULL" using l(1,3) by auto
    then have "ce_unlink x s = Some (s\<lparr>ce_queue := h, ce_list_next := nxt(x := NULL), ce_list_last := lst(x := NULL)\<rparr>)"
      by (simp add: ce_unlink_def True d)
    moreover have "ring (nxt, lst) (remove1 x qs)" "h = clist_head (remove1 x qs)" using ring by (simp_all add: q)
    ultimately show ?thesis by (intro that [where q = h and nxt = nxt and lst = lst])
  qed
  have "ring (nxt(x := NULL), lst(x := NULL)) (remove1 x qs)"
    by (rule iffD2 [OF ring_cong u(2)]) (use l(4) in auto)
  then show ?thesis
    using u x by (intro exI [of _ q] exI [of _ "nxt(x := NULL)"] exI [of _ "lst(x := NULL)"]) auto
qed

subsection \<open>Looking up\<close>

lemma ce_hash_cong: "i_id s' = i_id s \<Longrightarrow> fsys_src s' = fsys_src s \<Longrightarrow> ce_hash s' = ce_hash s"
  by (simp add: ce_hash_def [abs_def])

lemma lookup_hit:
  assumes ok: "cache_ok s E qs" and e: "e \<in> E" "ce_src s e = (fs, fid)" "\<not> i_mutex s (ce_inode s e)"
    and fs: "fs \<noteq> NULL" "fsys_src s fs \<noteq> NULL"
  shows "\<exists>s'. inode_cache_lookup rd new fs fid s = Some (ce_inode s e, s') \<and> cache_ok s' E (remove1 e qs) \<and>
    i_ref_count s' = (i_ref_count s)(ce_inode s e := i_ref_count s (ce_inode s e) + 1) \<and> ce_src s' = ce_src s \<and> ce_inode s' = ce_inode s"
proof -
  note [simp] = ce_hash_cong [of "s\<lparr>cache_mutex := True\<rparr>" s]
  have o: "\<not> cache_mutex s" "NULL \<notin> ce_inode s ` E" "ring (ce_list_next s, ce_list_last s) qs" "ce_queue s = clist_head qs"
      "set qs \<subseteq> E" "\<forall>e\<in>E - set qs. ce_list_next s e = NULL" and i: "ce_inode s e \<noteq> NULL"
    using ok e(1) by (auto simp: cache_ok_def image_iff)
  have look: "hash_table_lookup (ce_src s) (=) (ce_hash s) INODE_CACHE_TABLE_SIZE (ce_table s) (fs, fid) = Some e"
    using ck.lookup_member [of "ce_src s" "ce_hash s" "ce_table s" E e] ok e by (simp add: cache_ok_def)
  have n: "e \<noteq> NULL" using ck.not_null [of "ce_src s" "ce_hash s" "ce_table s" E e] ok e(1) by (simp add: cache_ok_def)
  let ?t = "s\<lparr>cache_mutex := True\<rparr>"
  obtain q nxt lst where u: "ce_unlink e ?t = Some (?t\<lparr>ce_queue := q, ce_list_next := nxt, ce_list_last := lst\<rparr>)"
    "ring (nxt, lst) (remove1 e qs)" "q = clist_head (remove1 e qs)" "nxt e = NULL" "\<forall>x. x \<notin> set qs \<longrightarrow> nxt x = ce_list_next s x"
  proof (cases "e \<in> set qs")
    case True
    then show ?thesis using ce_unlink_ring [of ?t qs e] o that by auto
  next
    case False
    then have "ce_unlink e ?t = Some ?t" using o(6) e(1) by (simp add: ce_unlink_def)
    then show ?thesis using False o e(1) by (intro that [where q = "ce_queue s" and nxt = "ce_list_next s" and lst = "ce_list_last s"]) (auto simp: remove1_idem)
  qed
  define s' where "s' = s\<lparr>i_ref_count := (i_ref_count s)(ce_inode s e := i_ref_count s (ce_inode s e) + 1),
    ce_queue := q, ce_list_next := nxt, ce_list_last := lst\<rparr>"
  have m: "(i_mutex s)(ce_inode s e := False) = i_mutex s" using e(3) by (simp add: fun_upd_idem)
  have "inode_cache_lookup rd new fs fid s = Some (ce_inode s e, s')"
    using o(1) fs look n i e(3) m u(1) by (simp add: inode_cache_lookup_def lock_cache_def unlock_cache_def lock_inode_def unlock_inode_def s'_def)
  moreover have "set (remove1 e qs) = set qs - {e}" using o(3) by (simp add: ring_def)
  then have "cache_ok s' E (remove1 e qs)"
    using ok u(2-5) ce_hash_cong [of s' s] by (auto simp: cache_ok_def s'_def)
  ultimately show ?thesis by (auto simp: s'_def)
qed

lemma ce_enter_ok:
  assumes ok: "cache_ok s E qs" and key: "key \<notin> ce_src s ` E" and i: "i \<noteq> NULL" "i \<notin> ce_inode s ` E" and new: "new \<noteq> NULL" "new \<notin> E"
    and t: "t = s\<lparr>cache_mutex := True\<rparr>"
  shows "\<exists>s'. ce_enter new key i t = Some s' \<and> cache_ok (unlock_cache s') (insert new E) qs \<and>
    i_ref_count s' = (i_ref_count s)(i := 1) \<and> ce_src s' = (ce_src s)(new := key) \<and> ce_inode s' = (ce_inode s)(new := i)"
proof -
  define src where "src = (ce_src s)(new := key)"
  define ino where "ino = (ce_inode s)(new := i)"
  define ct where "ct = snd (hash_table_insert src (ce_hash s) INODE_CACHE_TABLE_SIZE (ce_table s) new)"
  define rt where "rt = snd (hash_table_insert ino (i_id s) INODE_CACHE_TABLE_SIZE (rev_table s) new)"
  define s' where "s' = t\<lparr>ce_list_next := (ce_list_next s)(new := NULL), ce_list_last := (ce_list_last s)(new := NULL),
    ce_src := src, ce_inode := ino, i_ref_count := (i_ref_count s)(i := 1), ce_table := ct, rev_table := rt\<rparr>"
  have "table_ok (\<lambda>_. True) src (ce_hash s) INODE_CACHE_TABLE_SIZE (ce_table s) E"
    using ok new(2) by (rule_tac table_ok_cong [of _ "ce_src s"]) (auto simp: cache_ok_def src_def)
  then have c: "table_ok (\<lambda>_. True) src (ce_hash s) INODE_CACHE_TABLE_SIZE ct (insert new E)"
    unfolding ct_def using new key by (intro ck.insert_ok) (auto simp: src_def)
  have "table_ok (\<lambda>_. True) ino (i_id s) INODE_CACHE_TABLE_SIZE (rev_table s) E"
    using ok new(2) by (rule_tac table_ok_cong [of _ "ce_inode s"]) (auto simp: cache_ok_def ino_def)
  then have r: "table_ok (\<lambda>_. True) ino (i_id s) INODE_CACHE_TABLE_SIZE rt (insert new E)"
    unfolding rt_def using new i by (intro ck.insert_ok) (auto simp: ino_def)
  have q: "new \<notin> set qs" using ok new(2) by (auto simp: cache_ok_def)
  then have "ring (ce_list_next s', ce_list_last s') qs = ring (ce_list_next s, ce_list_last s) qs"
    by (intro ring_cong) (auto simp: s'_def)
  then have "cache_ok (unlock_cache s') (insert new E) qs"
    using ok c r i(1) q new(2) ce_hash_cong [of "unlock_cache s'" s] by (auto simp: cache_ok_def s'_def unlock_cache_def ino_def src_def t)
  moreover have "ce_enter new key i t = Some s'"
    using new(1) ce_hash_cong [of "t\<lparr>ce_list_next := (ce_list_next s)(new := NULL), ce_list_last := (ce_list_last s)(new := NULL),
        ce_src := src, ce_inode := ino, i_ref_count := (i_ref_count s)(i := 1)\<rparr>" s]
    by (simp add: ce_enter_def s'_def ct_def rt_def src_def ino_def t)
  ultimately show ?thesis by (auto simp: s'_def src_def ino_def)
qed

text \<open>The abstraction: which inode stands for which number of which file system.\<close>

definition cached_inodes :: "io_state \<Rightarrow> ptr set \<Rightarrow> ((ptr \<times> u64) \<times> ptr) set" where
  "cached_inodes s E = (\<lambda>e. (ce_src s e, ce_inode s e)) ` E"

text \<open>With memory for the entry: looking an inode up returns the one in the cache with one more reference, or, where
  there is none, enters the one the driver reads with a single reference; all else in the cache
  stays, and the entry is not on the ring of unused ones.\<close>

lemma inode_cache_lookup_ok:
  assumes ok: "cache_ok s E qs" and fs: "fs \<noteq> NULL" "fsys_src s fs \<noteq> NULL" and new: "new \<noteq> NULL" "new \<notin> E"
    and rd: "rd fs fid \<noteq> NULL" "rd fs fid \<notin> ce_inode s ` E" and free: "\<forall>e\<in>E. \<not> i_mutex s (ce_inode s e)"
  shows "\<exists>i s' E' qs'. inode_cache_lookup rd new fs fid s = Some (i, s') \<and> cache_ok s' E' qs' \<and>
    ((fs, fid), i) \<in> cached_inodes s' E' \<and> (\<forall>e\<in>set qs'. ce_src s' e \<noteq> (fs, fid)) \<and>
    (if (fs, fid) \<in> fst ` cached_inodes s E then cached_inodes s' E' = cached_inodes s E \<and> i_ref_count s' i = i_ref_count s i + 1
     else cached_inodes s' E' = insert ((fs, fid), rd fs fid) (cached_inodes s E) \<and> i_ref_count s' i = 1)"
proof (cases "(fs, fid) \<in> ce_src s ` E")
  case True
  then obtain e where e: "e \<in> E" "ce_src s e = (fs, fid)" by force
  obtain s' where s': "inode_cache_lookup rd new fs fid s = Some (ce_inode s e, s')" "cache_ok s' E (remove1 e qs)"
    "i_ref_count s' = (i_ref_count s)(ce_inode s e := i_ref_count s (ce_inode s e) + 1)" "ce_src s' = ce_src s" "ce_inode s' = ce_inode s"
    using lookup_hit [OF ok e _ fs] free e(1) by blast
  have c: "cached_inodes s' E = cached_inodes s E" using s'(4,5) by (simp add: cached_inodes_def)
  have m: "((fs, fid), ce_inode s e) \<in> cached_inodes s E" using e unfolding cached_inodes_def by (auto intro!: image_eqI [of _ _ e])
  then have f: "(fs, fid) \<in> fst ` cached_inodes s E" by force
  have "set (remove1 e qs) \<subseteq> E - {e}" using ok by (auto simp: cache_ok_def ring_def)
  moreover have "x = e" if "x \<in> E" "ce_src s x = (fs, fid)" for x
    by (rule ck.ok_unique [of "ce_src s" "ce_hash s" "ce_table s" E]) (use ok e that in \<open>simp_all add: cache_ok_def\<close>)
  ultimately have "\<forall>x\<in>set (remove1 e qs). ce_src s' x \<noteq> (fs, fid)" unfolding s'(4) by blast
  then show ?thesis using s' c m f by (intro exI [of _ "ce_inode s e"] exI [of _ s'] exI [of _ E] exI [of _ "remove1 e qs"]) simp
next
  case False
  define i where "i = rd fs fid"
  obtain t where t: "ce_enter new (fs, fid) i (s\<lparr>cache_mutex := True\<rparr>) = Some t" "cache_ok (unlock_cache t) (insert new E) qs"
    "i_ref_count t = (i_ref_count s)(i := 1)" "ce_src t = (ce_src s)(new := (fs, fid))" "ce_inode t = (ce_inode s)(new := i)"
    using ce_enter_ok [OF ok False rd new refl] unfolding i_def by blast
  have "hash_table_lookup (ce_src s) (=) (ce_hash s) INODE_CACHE_TABLE_SIZE (ce_table s) (fs, fid) = Some NULL"
    using ok False by (intro ck.lookup_absent) (simp_all add: cache_ok_def)
  then have r: "inode_cache_lookup rd new fs fid s = Some (i, unlock_cache t)"
    using ok fs rd(1) t(1) ce_hash_cong [of "s\<lparr>cache_mutex := True\<rparr>" s]
    by (simp add: inode_cache_lookup_def lock_cache_def cache_ok_def i_def)
  have c: "cached_inodes (unlock_cache t) (insert new E) = insert ((fs, fid), i) (cached_inodes s E)"
    using t(4,5) new(2) by (auto simp: cached_inodes_def unlock_cache_def image_iff)
  have "(fs, fid) \<notin> fst ` cached_inodes s E" using False by (auto simp: cached_inodes_def image_iff)
  moreover have "\<forall>e\<in>set qs. ce_src (unlock_cache t) e \<noteq> (fs, fid)"
  proof
    fix e assume "e \<in> set qs"
    then have "e \<in> E" "e \<noteq> new" using ok new(2) by (auto simp: cache_ok_def)
    then show "ce_src (unlock_cache t) e \<noteq> (fs, fid)"
      using False t(4) imageI [OF \<open>e \<in> E\<close>, of "ce_src s"] by (auto simp: unlock_cache_def simp del: image_eqI)
  qed
  ultimately show ?thesis using r t(2,3) c
    by (intro exI [of _ i] exI [of _ "unlock_cache t"] exI [of _ "insert new E"] exI [of _ qs]) (simp add: unlock_cache_def i_def)
qed

definition demo_io :: io_state where
  "demo_io = io_init\<lparr>fsys_src := (\<lambda>_. NULL)(300 := 100)\<rparr>"

lemma demo_io_ok: "cache_ok demo_io {} []"
  by (simp add: cache_ok_def demo_io_def io_init_def ring_def clist_head_def ck.empty_ok)

lemma inode_cache_lookup_demo:
  "\<exists>s'. inode_cache_lookup (\<lambda>_ _. 500) 40 300 7 demo_io = Some (500, s') \<and> i_ref_count s' 500 = 1"
proof -
  have "fsys_src demo_io 300 = 100" by (simp add: demo_io_def)
  then obtain i s' E' where "inode_cache_lookup (\<lambda>_ _. 500) 40 300 7 demo_io = Some (i, s')"
    "((300, 7), i) \<in> cached_inodes s' E'" "cached_inodes s' E' = {((300, 7), 500)}" "i_ref_count s' i = 1"
    using inode_cache_lookup_ok [OF demo_io_ok, of 300 40 "\<lambda>_ _. 500" 7] by (auto simp: NULL_def cached_inodes_def [of demo_io "{}"])
  then show ?thesis by auto
qed

subsection \<open>Giving back\<close>

lemma inode_cache_free_ok:
  assumes ok: "cache_ok s E qs" and e: "e \<in> E" "e \<notin> set qs"
  shows "\<exists>s'. inode_cache_free (ce_inode s e) s = Some s' \<and> cache_ok s' E (e # qs) \<and> cached_inodes s' E = cached_inodes s E"
proof -
  have i: "ce_inode s e \<noteq> NULL" using ok e(1) by (auto simp: cache_ok_def image_iff)
  have look: "hash_table_lookup (ce_inode s) (=) (i_id s) INODE_CACHE_TABLE_SIZE (rev_table s) (ce_inode s e) = Some e"
    using ok e(1) by (intro ck.lookup_member) (simp_all add: cache_ok_def)
  have n: "e \<noteq> NULL" using ck.not_null [of "ce_src s" "ce_hash s" "ce_table s" E e] ok e(1) by (simp add: cache_ok_def)
  obtain q nxt lst where c: "clist_insert (ce_queue s) e (ce_list_next s, ce_list_last s) = (q, nxt, lst)" by (metis prod_cases3)
  have ring: "ring (ce_list_next s, ce_list_last s) qs" "ce_queue s = clist_head qs" using ok by (simp_all add: cache_ok_def)
  note ins = clist_insert_ring [OF ring(1) e(2) n c [unfolded ring(2)]]
  have frame: "nxt x = ce_list_next s x" if "x \<notin> insert e (set qs)" for x
    using clist_insert_frame [OF ring(1) c [unfolded ring(2)] that] by simp
  define s' where "s' = s\<lparr>ce_queue := q, ce_list_next := nxt, ce_list_last := lst\<rparr>"
  have "inode_cache_free (ce_inode s e) s = Some s'"
    using ok i look n c by (simp add: inode_cache_free_def lock_cache_def unlock_cache_def ce_enqueue_def s'_def cache_ok_def)
  moreover have "cache_ok s' E (e # qs)"
    using ok ins frame e ce_hash_cong [of s' s] by (auto simp: cache_ok_def s'_def clist_head_def)
  ultimately show ?thesis by (auto simp: s'_def cached_inodes_def)
qed

text \<open>A lookup of an inode that has been deleted returns with the mutex of the cache held: nothing more can be looked up,
  created or released.\<close>

lemma inode_cache_deleted_blocks:
  assumes "\<not> cache_mutex s" "fs \<noteq> NULL" "fsys_src s fs \<noteq> NULL"
    and "hash_table_lookup (ce_src s) (=) (ce_hash s) INODE_CACHE_TABLE_SIZE (ce_table s) (fs, fid) = Some e" "e \<noteq> NULL" "ce_inode s e = NULL"
  shows "\<exists>s'. inode_cache_lookup rd new fs fid s = Some (NULL, s') \<and> inode_cache_lookup rd' new' fs' fid' s' = None \<and>
    inode_cache_create cr new' fs' s' = None \<and> inode_cache_free i s' = None"
  using assms ce_hash_cong [of "s\<lparr>cache_mutex := True\<rparr>" s]
  by (simp add: inode_cache_lookup_def inode_cache_create_def inode_cache_free_def lock_cache_def)

end
