(* ===== verification/Inode.thy ===== *)
theory Inode
  imports Inode_Cache
begin

text \<open>
  \<^verbatim>\<open>src/io/inode.c\<close>: creating and closing inodes, and the calls that go through the function table of an inode
  to its driver.  A driver works on a state of its own, of any type; a null entry of the table is
  \<open>None\<close>.  \<open>new\<close> and \<open>cr\<close> are as in \<^verbatim>\<open>Inode_Cache\<close>, \<open>junk\<close> is a variable that the code returns without
  having assigned it.
\<close>

definition INODE_HASH_TABLE_SIZE :: nat where "INODE_HASH_TABLE_SIZE = 131071"

definition inode_hash :: "u32 \<Rightarrow> u32" where "inode_hash x = x"

definition ino_lookup :: "u32 \<Rightarrow> io_state \<Rightarrow> ptr option" where
  "ino_lookup ident s = hash_table_lookup (i_id s) (=) inode_hash INODE_HASH_TABLE_SIZE (ino_table s) ident"

partial_function (option) get_unique_id :: "io_state \<Rightarrow> (u32 \<times> io_state) option" where
  "get_unique_id s = do {
     let (ident, seed) = rand (io_seed s);
     let s = s\<lparr>io_seed := seed\<rparr>;
     p \<leftarrow> ino_lookup ident s;
     if NULL \<noteq> p \<and> 0 \<noteq> ident then get_unique_id s else Some (ident, s) }"

definition inode_create :: "(ptr \<Rightarrow> ptr \<times> u64) \<Rightarrow> ptr \<Rightarrow> u32 \<Rightarrow> io_state \<Rightarrow> (ptr \<times> io_state) option" where
  "inode_create cr new stat_filesys s = do {
     s \<leftarrow> lock_ino s;
     (ident, s) \<leftarrow> get_unique_id s;
     fs_inode \<leftarrow> ino_lookup stat_filesys s;
     (out, s) \<leftarrow> (if NULL \<noteq> fs_inode then do {
         (filesys, s) \<leftarrow> filesys_lookup fs_inode s;
         if NULL \<noteq> filesys then do {
           (out, s) \<leftarrow> inode_cache_create cr new filesys s;
           out \<leftarrow> deref out;
           let s = s\<lparr>i_id := (i_id s)(out := ident)\<rparr>;
           Some (out, s\<lparr>ino_table := snd (hash_table_insert (i_id s) inode_hash INODE_HASH_TABLE_SIZE (ino_table s) out)\<rparr>) }
         else Some (NULL, s) }
       else Some (NULL, s));
     Some (out, unlock_ino s) }"

definition inode_close :: "ptr \<Rightarrow> io_state \<Rightarrow> (int \<times> io_state) option" where
  "inode_close inode s = do {
     s \<leftarrow> lock_inode inode s;
     let s = s\<lparr>i_ref_count := (i_ref_count s)(inode := i_ref_count s inode - 1)\<rparr>;
     s \<leftarrow> (if 0 = i_ref_count s inode then do {
         s \<leftarrow> lock_ino s;
         (_, t) \<leftarrow> hash_table_delete (i_id s) (=) inode_hash INODE_HASH_TABLE_SIZE (ino_table s) (i_id s inode);
         let s = unlock_ino (s\<lparr>ino_table := t\<rparr>);
         if 0 = i_hard_ref_count s inode then inode_cache_delete inode s
         else do {
           s \<leftarrow> inode_cache_free inode s;
           Some (unlock_inode inode s) } }
       else Some s);
     Some (0, s) }"

subsection \<open>Calls to drivers\<close>

record 'w inode_func_set =
  fu_page_read :: "(ptr \<Rightarrow> u32 \<Rightarrow> u32 \<Rightarrow> 'w \<Rightarrow> int \<times> 'w) option"
  fu_page_write :: "(ptr \<Rightarrow> u32 \<Rightarrow> u32 \<Rightarrow> 'w \<Rightarrow> int \<times> 'w) option"
  fu_index_read :: "(ptr \<Rightarrow> u32 \<Rightarrow> u32 \<Rightarrow> ptr \<Rightarrow> u32 \<Rightarrow> 'w \<Rightarrow> int \<times> 'w) option"
  fu_index_write :: "(ptr \<Rightarrow> u32 \<Rightarrow> u32 \<Rightarrow> ptr \<Rightarrow> u32 \<Rightarrow> 'w \<Rightarrow> int \<times> 'w) option"
  fu_seq_read :: "(ptr \<Rightarrow> u32 \<Rightarrow> ptr \<Rightarrow> u32 \<Rightarrow> 'w \<Rightarrow> int \<times> 'w) option"
  fu_seq_write :: "(ptr \<Rightarrow> u32 \<Rightarrow> ptr \<Rightarrow> u32 \<Rightarrow> 'w \<Rightarrow> int \<times> 'w) option"
  fu_pack_read :: "(ptr \<Rightarrow> u32 \<Rightarrow> ptr \<Rightarrow> u32 \<Rightarrow> 'w \<Rightarrow> int \<times> 'w) option"
  fu_pack_write :: "(ptr \<Rightarrow> u32 \<Rightarrow> ptr \<Rightarrow> u32 \<Rightarrow> 'w \<Rightarrow> int \<times> 'w) option"
  fu_stat :: "(ptr \<Rightarrow> ptr \<Rightarrow> 'w \<Rightarrow> int \<times> 'w) option"
  fu_dir_lookup :: "(ptr \<Rightarrow> unichars \<Rightarrow> 'w \<Rightarrow> ptr \<times> 'w) option"
  fu_dir_link :: "(ptr \<Rightarrow> unichars \<Rightarrow> ptr \<Rightarrow> 'w \<Rightarrow> int \<times> 'w) option"
  fu_dir_unlink :: "(ptr \<Rightarrow> unichars \<Rightarrow> 'w \<Rightarrow> int \<times> 'w) option"
  fu_dir_list :: "(ptr \<Rightarrow> ptr \<Rightarrow> 'w \<Rightarrow> int \<times> 'w) option"
  fu_dir_count :: "(ptr \<Rightarrow> 'w \<Rightarrow> int \<times> 'w) option"
  fu_slink_read :: "(ptr \<Rightarrow> ptr \<Rightarrow> 'w \<Rightarrow> int \<times> 'w) option"
  fu_slink_write :: "(ptr \<Rightarrow> ptr \<Rightarrow> 'w \<Rightarrow> int \<times> 'w) option"

type_synonym 'w funcs = "ptr \<Rightarrow> 'w inode_func_set"

definition inode_page_read :: "'w funcs \<Rightarrow> ptr \<Rightarrow> u32 \<Rightarrow> u32 \<Rightarrow> 'w \<Rightarrow> int \<times> 'w" where
  "inode_page_read fu inode offset addr w = (case fu_page_read (fu inode) of Some f \<Rightarrow> f inode offset addr w | None \<Rightarrow> (-1, w))"

definition inode_page_write :: "'w funcs \<Rightarrow> ptr \<Rightarrow> u32 \<Rightarrow> u32 \<Rightarrow> 'w \<Rightarrow> int \<times> 'w" where
  "inode_page_write fu inode offset addr w = (case fu_page_write (fu inode) of Some f \<Rightarrow> f inode offset addr w | None \<Rightarrow> (-1, w))"

definition inode_index_read :: "'w funcs \<Rightarrow> ptr \<Rightarrow> u32 \<Rightarrow> u32 \<Rightarrow> ptr \<Rightarrow> u32 \<Rightarrow> 'w \<Rightarrow> int \<times> 'w" where
  "inode_index_read fu inode offset sz p mode w =
     (case fu_index_read (fu inode) of Some f \<Rightarrow> f inode offset sz p mode w | None \<Rightarrow> (-1, w))"

definition inode_index_write :: "'w funcs \<Rightarrow> ptr \<Rightarrow> u32 \<Rightarrow> u32 \<Rightarrow> ptr \<Rightarrow> u32 \<Rightarrow> 'w \<Rightarrow> int \<times> 'w" where
  "inode_index_write fu inode offset sz p mode w =
     (case fu_index_write (fu inode) of Some f \<Rightarrow> f inode offset sz p mode w | None \<Rightarrow> (-1, w))"

definition inode_seq_read :: "'w funcs \<Rightarrow> ptr \<Rightarrow> u32 \<Rightarrow> ptr \<Rightarrow> u32 \<Rightarrow> 'w \<Rightarrow> int \<times> 'w" where
  "inode_seq_read fu inode sz p mode w = (case fu_seq_read (fu inode) of Some f \<Rightarrow> f inode sz p mode w | None \<Rightarrow> (-1, w))"

definition inode_seq_write :: "'w funcs \<Rightarrow> ptr \<Rightarrow> u32 \<Rightarrow> ptr \<Rightarrow> u32 \<Rightarrow> 'w \<Rightarrow> int \<times> 'w" where
  "inode_seq_write fu inode sz p mode w = (case fu_seq_write (fu inode) of Some f \<Rightarrow> f inode sz p mode w | None \<Rightarrow> (-1, w))"

definition inode_pack_read :: "'w funcs \<Rightarrow> ptr \<Rightarrow> u32 \<Rightarrow> ptr \<Rightarrow> u32 \<Rightarrow> 'w \<Rightarrow> int \<times> 'w" where
  "inode_pack_read fu inode sz p mode w = (case fu_pack_read (fu inode) of Some f \<Rightarrow> f inode sz p mode w | None \<Rightarrow> (-1, w))"

definition inode_pack_write :: "'w funcs \<Rightarrow> ptr \<Rightarrow> u32 \<Rightarrow> ptr \<Rightarrow> u32 \<Rightarrow> 'w \<Rightarrow> int \<times> 'w" where
  "inode_pack_write fu inode sz p mode w = (case fu_pack_write (fu inode) of Some f \<Rightarrow> f inode sz p mode w | None \<Rightarrow> (-1, w))"

definition inode_stat :: "'w funcs \<Rightarrow> ptr \<Rightarrow> ptr \<Rightarrow> 'w \<Rightarrow> int \<times> 'w" where
  "inode_stat fu inode stat w = (case fu_stat (fu inode) of Some f \<Rightarrow> f inode stat w | None \<Rightarrow> (-1, w))"

definition inode_dir_lookup :: "'w funcs \<Rightarrow> ptr \<Rightarrow> unichars \<Rightarrow> 'w \<Rightarrow> ptr \<times> 'w" where
  "inode_dir_lookup fu dir name w = (case fu_dir_lookup (fu dir) of Some f \<Rightarrow> f dir name w | None \<Rightarrow> (NULL, w))"

definition inode_dir_link :: "'w funcs \<Rightarrow> ptr \<Rightarrow> unichars \<Rightarrow> ptr \<Rightarrow> io_state \<Rightarrow> 'w \<Rightarrow> int \<times> io_state \<times> 'w" where
  "inode_dir_link fu dir name inode s w =
     (case fu_dir_link (fu dir) of
        Some f \<Rightarrow>
          if i_filesys s inode = i_filesys s dir then
            let (out, w) = f dir name inode w in
            (out, if out = 0 then s\<lparr>i_hard_ref_count := (i_hard_ref_count s)(inode := i_hard_ref_count s inode + 1)\<rparr> else s, w)
          else (-1, s, w)
      | None \<Rightarrow> (-1, s, w))"

definition inode_dir_vlink :: "int \<Rightarrow> 'w funcs \<Rightarrow> ptr \<Rightarrow> unichars \<Rightarrow> ptr \<Rightarrow> io_state \<Rightarrow> int \<times> io_state" where
  "inode_dir_vlink junk fu dir name inode s =
     (case fu_dir_link (fu dir) of
        Some f \<Rightarrow> (junk, s\<lparr>i_ref_count := (i_ref_count s)(inode := i_ref_count s inode + 1)\<rparr>)
      | None \<Rightarrow> (-1, s))"

definition inode_dir_unlink :: "'w funcs \<Rightarrow> ptr \<Rightarrow> unichars \<Rightarrow> io_state \<Rightarrow> 'w \<Rightarrow> (int \<times> io_state \<times> 'w) option" where
  "inode_dir_unlink fu dir name s w =
     (case fu_dir_unlink (fu dir) of
        Some f \<Rightarrow> do {
          look \<leftarrow> fu_dir_lookup (fu dir);
          let (file, w) = look dir name w;
          let (out, w) = f dir name w;
          if out = 0 then do {
            file \<leftarrow> deref file;
            Some (out, s\<lparr>i_hard_ref_count := (i_hard_ref_count s)(file := i_hard_ref_count s file - 1)\<rparr>, w) }
          else Some (out, s, w) }
      | None \<Rightarrow> Some (-1, s, w))"

definition inode_dir_list :: "'w funcs \<Rightarrow> ptr \<Rightarrow> ptr \<Rightarrow> 'w \<Rightarrow> int \<times> 'w" where
  "inode_dir_list fu inode buf w = (case fu_dir_list (fu inode) of Some f \<Rightarrow> f inode buf w | None \<Rightarrow> (-1, w))"

definition inode_dir_count :: "'w funcs \<Rightarrow> ptr \<Rightarrow> 'w \<Rightarrow> int \<times> 'w" where
  "inode_dir_count fu inode w = (case fu_dir_count (fu inode) of Some f \<Rightarrow> f inode w | None \<Rightarrow> (-1, w))"

definition inode_slink_read :: "'w funcs \<Rightarrow> ptr \<Rightarrow> ptr \<Rightarrow> 'w \<Rightarrow> int \<times> 'w" where
  "inode_slink_read fu inode buf w = (case fu_slink_read (fu inode) of Some f \<Rightarrow> f inode buf w | None \<Rightarrow> (-1, w))"

definition inode_slink_write :: "'w funcs \<Rightarrow> ptr \<Rightarrow> ptr \<Rightarrow> 'w \<Rightarrow> int \<times> 'w" where
  "inode_slink_write fu inode buf w = (case fu_slink_write (fu inode) of Some f \<Rightarrow> f inode buf w | None \<Rightarrow> (-1, w))"

subsection \<open>Closing\<close>

interpretation ik: hash_keys "\<lambda>_. True" uid "(=)" inode_hash INODE_HASH_TABLE_SIZE for uid
  by unfold_locales (simp_all add: INODE_HASH_TABLE_SIZE_def)

definition inodes_ok :: "io_state \<Rightarrow> ptr set \<Rightarrow> bool" where
  "inodes_ok s S \<longleftrightarrow> \<not> ino_mutex s \<and> table_ok (\<lambda>_. True) (i_id s) inode_hash INODE_HASH_TABLE_SIZE (ino_table s) S"

lemma cache_ok_cong:
  assumes "cache_ok s E qs" "cache_mutex s' = cache_mutex s" "ce_src s' = ce_src s" "i_id s' = i_id s" "fsys_src s' = fsys_src s" "ce_table s' = ce_table s"
    "ce_inode s' = ce_inode s" "rev_table s' = rev_table s" "ce_list_next s' = ce_list_next s" "ce_list_last s' = ce_list_last s" "ce_queue s' = ce_queue s"
  shows "cache_ok s' E qs"
  using assms ce_hash_cong [of s' s] by (simp add: cache_ok_def)

lemma inode_cache_free_frame:
  "inode_cache_free i s = Some s' \<Longrightarrow> i_mutex s' = i_mutex s \<and> ino_mutex s' = ino_mutex s \<and> i_ref_count s' = i_ref_count s \<and>
    ino_table s' = ino_table s \<and> i_id s' = i_id s \<and> ce_src s' = ce_src s \<and> ce_inode s' = ce_inode s"
  by (auto simp: inode_cache_free_def lock_cache_def unlock_cache_def ce_enqueue_def bind_eq_Some_conv split: if_splits prod.splits)

text \<open>C26: Closing the last reference to a file that still has a name takes its inode out of the table of open inodes and
  puts its entry of the cache on the ring of unused ones, where a later lookup finds it.  Nothing
  stays locked.\<close>

theorem inode_close_last:
  assumes cache: "cache_ok s E qs" "e \<in> E" "e \<notin> set qs" and open_: "inodes_ok s S" "ce_inode s e \<in> S"
    and i: "\<not> i_mutex s (ce_inode s e)" "i_ref_count s (ce_inode s e) = 1" "i_hard_ref_count s (ce_inode s e) \<noteq> 0"
  shows "\<exists>s'. inode_close (ce_inode s e) s = Some (0, s') \<and> inodes_ok s' (S - {ce_inode s e}) \<and> cache_ok s' E (e # qs) \<and>
    cached_inodes s' E = cached_inodes s E \<and> i_mutex s' = i_mutex s \<and> i_ref_count s' (ce_inode s e) = 0"
proof -
  let ?i = "ce_inode s e"
  have n: "?i \<noteq> NULL" using cache(1,2) by (auto simp: cache_ok_def image_iff)
  obtain t where t: "hash_table_delete (i_id s) (=) inode_hash INODE_HASH_TABLE_SIZE (ino_table s) (i_id s ?i) = Some (?i, t)"
      "table_ok (\<lambda>_. True) (i_id s) inode_hash INODE_HASH_TABLE_SIZE t (S - {?i})"
    using ik.delete_ok [of "i_id s" "ino_table s" S ?i] open_ by (auto simp: inodes_ok_def)
  define u where "u = s\<lparr>i_mutex := (i_mutex s)(?i := True), i_ref_count := (i_ref_count s)(?i := 0), ino_table := t, ino_mutex := False\<rparr>"
  have u: "cache_ok u E qs" "ce_inode u = ce_inode s" by (rule cache_ok_cong [OF cache(1)]) (simp_all add: u_def)
  obtain v where v: "inode_cache_free ?i u = Some v" "cache_ok v E (e # qs)" "cached_inodes v E = cached_inodes u E"
    using inode_cache_free_ok [OF u(1) cache(2,3)] by (auto simp: u(2))
  note f = inode_cache_free_frame [OF v(1)]
  have "inode_close ?i s = Some (0, unlock_inode ?i v)"
    using i n t(1) open_(1) v(1) by (simp add: inode_close_def lock_inode_def lock_ino_def unlock_ino_def inodes_ok_def u_def)
  moreover have "cache_ok (unlock_inode ?i v) E (e # qs)" by (rule cache_ok_cong [OF v(2)]) (simp_all add: unlock_inode_def)
  moreover have "(i_mutex s)(?i := False) = i_mutex s" using i(1) by (simp add: fun_upd_idem)
  ultimately show ?thesis using t(2) f by (auto simp: inodes_ok_def unlock_inode_def u_def cached_inodes_def)
qed

text \<open>Closing an inode that others still refer to returns with the inode locked, so that the next call that needs it,
  such as the next close, never returns.\<close>

theorem inode_close_shared_blocks:
  assumes "i \<noteq> NULL" "\<not> i_mutex s i" "i_ref_count s i \<noteq> 1"
  shows "\<exists>s'. inode_close i s = Some (0, s') \<and> i_ref_count s' i = i_ref_count s i - 1 \<and> inode_close i s' = None"
  using assms by (simp add: inode_close_def lock_inode_def)

theorem inode_close_shared_blocks_witness:
  "\<exists>s'. inode_close 500 (io_init\<lparr>i_ref_count := \<lambda>_. 2\<rparr>) = Some (0, s') \<and> inode_close 500 s' = None"
  using inode_close_shared_blocks [of 500 "io_init\<lparr>i_ref_count := \<lambda>_. 2\<rparr>"] by (auto simp: io_init_def NULL_def)

text \<open>One file, cached by entry 40 as inode 500.\<close>

definition demo_file :: io_state where
  "demo_file = demo_io\<lparr>ce_src := \<lambda>_. (300, 7), ce_inode := \<lambda>_. 500, i_ref_count := \<lambda>_. 1, i_hard_ref_count := \<lambda>_. 1,
     ce_table := snd (hash_table_insert (\<lambda>_. (300, 7)) (ce_hash demo_io) INODE_CACHE_TABLE_SIZE empty_table 40),
     rev_table := snd (hash_table_insert (\<lambda>_. 500 :: ptr) (\<lambda>_. 0) INODE_CACHE_TABLE_SIZE empty_table 40),
     ino_table := snd (hash_table_insert (\<lambda>_. 0) inode_hash INODE_HASH_TABLE_SIZE empty_table 500)\<rparr>"

lemma demo_file_ok: "cache_ok demo_file {40} []" "inodes_ok demo_file {500}"
proof -
  have "ce_hash demo_file = ce_hash demo_io" by (rule ce_hash_cong) (simp_all add: demo_file_def)
  then show "cache_ok demo_file {40} []"
    using ck.insert_ok [OF ck.empty_ok, of 40 "\<lambda>_. (300, 7)" "ce_hash demo_io"] ck.insert_ok [OF ck.empty_ok, of 40 "\<lambda>_. 500 :: ptr" "\<lambda>_. 0"]
    by (simp add: cache_ok_def demo_file_def demo_io_def io_init_def ring_def clist_head_def NULL_def)
  show "inodes_ok demo_file {500}"
    using ik.insert_ok [OF ik.empty_ok, of 500 "\<lambda>_. 0"] by (simp add: inodes_ok_def demo_file_def demo_io_def io_init_def NULL_def)
qed

theorem inode_close_last_witness:
  "\<exists>s'. inode_close 500 demo_file = Some (0, s') \<and> cache_ok s' {40} [40] \<and> i_ref_count s' 500 = 0"
  using inode_close_last [OF demo_file_ok(1) _ _ demo_file_ok(2), of 40] by (auto simp: demo_file_def demo_io_def io_init_def)

subsection \<open>Creating\<close>

text \<open>The generator of random numbers starts at 0 and stays there, and a search that comes upon 0 ends whether it is in use or
  not.\<close>

lemma get_unique_id_zero:
  assumes "table_ok (\<lambda>_. True) (i_id s) inode_hash INODE_HASH_TABLE_SIZE (ino_table s) S" "io_seed s = 0"
  shows "get_unique_id s = Some (0, s)"
proof -
  obtain p where p: "ino_lookup 0 s = Some p"
  proof (cases "(0 :: u32) \<in> i_id s ` S")
    case True
    then obtain p where "p \<in> S" "i_id s p = 0" by (metis imageE)
    then show ?thesis using ik.lookup_member [of "i_id s" "ino_table s" S p] assms(1) that by (auto simp: ino_lookup_def)
  next
    case False
    then show ?thesis using ik.lookup_absent [of "i_id s" "ino_table s" S 0] assms(1) that by (auto simp: ino_lookup_def)
  qed
  have e: "s\<lparr>io_seed := 0\<rparr> = s" using assms(2) by simp
  show ?thesis by (subst get_unique_id.simps) (simp add: rand_def assms(2) Let_def, simp add: e p)
qed

text \<open>As long as nobody seeds the generator of random numbers, every inode that is created gets the identifier 0, whatever
  identifiers are in use.\<close>

theorem inode_create_id_zero:
  assumes ok: "inodes_ok s S" "io_seed s = 0" and run: "inode_create cr new fsid s = Some (out, s')" and out: "out \<noteq> NULL"
  shows "i_id s' out = 0"
proof -
  have "get_unique_id (s\<lparr>ino_mutex := True\<rparr>) = Some (0, s\<lparr>ino_mutex := True\<rparr>)"
    using ok by (intro get_unique_id_zero [of _ S]) (simp_all add: inodes_ok_def)
  then show ?thesis
    using run ok(1) out by (auto simp: inode_create_def lock_ino_def unlock_ino_def inodes_ok_def Let_def bind_eq_Some_conv split: if_splits)
qed

text \<open>A second file is created on the file system that is mounted on inode 500.\<close>

theorem inode_create_id_zero_witness:
  "\<exists>s'. inode_create (\<lambda>_. (600, 8)) 41 0 (demo_file\<lparr>mount_table := snd (hash_table_insert (\<lambda>_. 500 :: ptr) (\<lambda>_. 0) MOUNT_HASH_TABLE_SIZE empty_table 300),
      fsys_src := \<lambda>_. 500\<rparr>) = Some (600, s') \<and> i_id s' 600 = 0"
proof -
  let ?s = "demo_file\<lparr>mount_table := snd (hash_table_insert (\<lambda>_. 500 :: ptr) (\<lambda>_. 0) MOUNT_HASH_TABLE_SIZE empty_table 300), fsys_src := \<lambda>_. 500\<rparr>"
  have ok: "inodes_ok ?s {500}" using demo_file_ok(2) by (simp add: inodes_ok_def)
  have f: "i_id ?s = (\<lambda>_. 0)" "io_seed ?s = 0" "\<not> ino_mutex ?s" "\<not> mount_mutex ?s" "\<not> cache_mutex ?s"
    by (simp_all add: demo_file_def demo_io_def io_init_def)
  have g: "get_unique_id (?s\<lparr>ino_mutex := True\<rparr>) = Some (0, ?s\<lparr>ino_mutex := True\<rparr>)"
    using ok f(2) by (intro get_unique_id_zero [of _ "{500}"]) (simp_all add: inodes_ok_def)
  have l: "ino_lookup 0 (?s\<lparr>ino_mutex := True\<rparr>) = Some 500"
    using ik.lookup_member [of "i_id ?s" "ino_table ?s" "{500}" 500] ok f(1) by (simp add: ino_lookup_def inodes_ok_def)
  have m: "hash_table_lookup (\<lambda>_. 500 :: ptr) (=) (\<lambda>_. 0) MOUNT_HASH_TABLE_SIZE
      (snd (hash_table_insert (\<lambda>_. 500 :: ptr) (\<lambda>_. 0) MOUNT_HASH_TABLE_SIZE empty_table 300)) 500 = Some 300"
    using mt.lookup_member [OF mt.insert_ok [OF mt.empty_ok, of 300 "\<lambda>_. 500 :: ptr" "\<lambda>_. 0"], of 300] by (simp add: NULL_def)
  have "\<exists>s'. inode_create (\<lambda>_. (600, 8)) 41 0 ?s = Some (600, s')"
    using f g l m by (simp add: inode_create_def lock_ino_def filesys_lookup_def lock_mount_def unlock_mount_def inode_cache_create_def
        lock_cache_def ce_enter_def Let_def NULL_def)
  then show ?thesis using inode_create_id_zero [OF ok f(2), of "\<lambda>_. (600, 8)" 41 0 600] by (auto simp: NULL_def)
qed

subsection \<open>Links\<close>

text \<open>Linking a file into a directory and unlinking it again gives its count of names back, and a driver that refuses
  either leaves the count as it is.\<close>

theorem dir_link_unlink:
  assumes link: "fu_dir_link (fu dir) = Some lk" and unlink: "fu_dir_unlink (fu dir) = Some ul" and look: "fu_dir_lookup (fu dir) = Some lu"
    and fs: "i_filesys s inode = i_filesys s dir" and finds: "\<And>w. fst (lu dir name w) = inode" "inode \<noteq> NULL"
  shows "\<exists>o1 s1 w1 o2 s2 w2. inode_dir_link fu dir name inode s w = (o1, s1, w1) \<and> inode_dir_unlink fu dir name s1 w1 = Some (o2, s2, w2) \<and>
    i_hard_ref_count s1 inode = i_hard_ref_count s inode + of_bool (o1 = 0) \<and>
    i_hard_ref_count s2 inode = i_hard_ref_count s1 inode - of_bool (o2 = 0) \<and> (o1 = 0 \<and> o2 = 0 \<longrightarrow> s2 = s)"
proof -
  obtain o1 w1 where l: "lk dir name inode w = (o1, w1)" by (cases "lk dir name inode w")
  define s1 where "s1 = (if o1 = 0 then s\<lparr>i_hard_ref_count := (i_hard_ref_count s)(inode := i_hard_ref_count s inode + 1)\<rparr> else s)"
  obtain w2 where f: "lu dir name w1 = (inode, w2)" using finds(1) [of w1] by (cases "lu dir name w1") auto
  obtain o2 w3 where u: "ul dir name w2 = (o2, w3)" by (cases "ul dir name w2")
  define s2 where "s2 = (if o2 = 0 then s1\<lparr>i_hard_ref_count := (i_hard_ref_count s1)(inode := i_hard_ref_count s1 inode - 1)\<rparr> else s1)"
  have "inode_dir_link fu dir name inode s w = (o1, s1, w1)" using link fs l by (simp add: inode_dir_link_def s1_def)
  moreover have "inode_dir_unlink fu dir name s1 w1 = Some (o2, s2, w3)"
    using unlink look f u finds(2) by (simp add: inode_dir_unlink_def s2_def)
  moreover have "o1 = 0 \<and> o2 = 0 \<Longrightarrow> s2 = s" by (simp add: s1_def s2_def fun_upd_idem)
  ultimately show ?thesis by (auto simp: s1_def s2_def)
qed

definition demo_funcs :: "unit inode_func_set" where
  "demo_funcs = \<lparr>fu_page_read = None, fu_page_write = None, fu_index_read = None, fu_index_write = None, fu_seq_read = None,
     fu_seq_write = None, fu_pack_read = None, fu_pack_write = None, fu_stat = None, fu_dir_lookup = Some (\<lambda>_ _ w. (600, w)),
     fu_dir_link = Some (\<lambda>_ _ _ w. (0, w)), fu_dir_unlink = Some (\<lambda>_ _ w. (0, w)), fu_dir_list = None, fu_dir_count = None,
     fu_slink_read = None, fu_slink_write = None\<rparr>"

theorem dir_link_unlink_witness:
  "\<exists>o1 s1 w1 o2 s2 w2. inode_dir_link (\<lambda>_. demo_funcs) 500 [] 600 io_init () = (o1, s1, w1) \<and>
     inode_dir_unlink (\<lambda>_. demo_funcs) 500 [] s1 w1 = Some (o2, s2, w2)"
  using dir_link_unlink [of "\<lambda>_. demo_funcs" 500 "\<lambda>_ _ _ w. (0, w)" "\<lambda>_ _ w. (0, w)" "\<lambda>_ _ w. (600, w)" io_init 600 "[]" "()"]
  by (auto simp: demo_funcs_def io_init_def NULL_def)

end
