(* ===== verification/Inode_Reach.thy ===== *)
theory Inode_Reach
  imports Inode_Cache Malloc_Alloc
begin

text \<open>
  The inode cache on the kernel heap.  \<^verbatim>\<open>src/io/inode_cache.c\<close> allocates an entry with \<^verbatim>\<open>malloc(sizeof(entry))\<close>,
  where \<^verbatim>\<open>entry\<close> is the pointer: four bytes, to which \<^verbatim>\<open>malloc\<close> adds four for the size.  A request of eight
  bytes is one that \<^verbatim>\<open>kern_malloc\<close> never serves (\<open>kern_malloc_small_fails\<close>), and the next statement writes
  through the null pointer.  This theory composes the two and follows the cache through every
  sequence of calls.
\<close>

definition sizeof_entry :: u32 where "sizeof_entry = 4"

text \<open>
  The steps of the cache: its four operations, where the memory for an entry comes from any heap with
  fewer than 28 lists beyond the first (\<open>kheap_ok\<close> demands it, and \<^verbatim>\<open>kern_heap_init\<close> leaves it at 0), and
  everything else that the file layer does, which leaves the static variables of the file alone.
\<close>

inductive cache_step :: "io_state \<Rightarrow> io_state \<Rightarrow> bool" where
  lookup: "unat (high_list h) < 28 \<Longrightarrow> malloc sizeof_entry h = Some (new, h') \<Longrightarrow>
    inode_cache_lookup rd new fs fid s = Some (i, s') \<Longrightarrow> cache_step s s'"
| create: "unat (high_list h) < 28 \<Longrightarrow> malloc sizeof_entry h = Some (new, h') \<Longrightarrow>
    inode_cache_create cr new fs s = Some (i, s') \<Longrightarrow> cache_step s s'"
| free: "inode_cache_free i s = Some s' \<Longrightarrow> cache_step s s'"
| delete: "inode_cache_delete i s = Some s' \<Longrightarrow> cache_step s s'"
| other: "ce_table s' = ce_table s \<Longrightarrow> rev_table s' = rev_table s \<Longrightarrow> ce_queue s' = ce_queue s \<Longrightarrow>
    cache_mutex s' = cache_mutex s \<Longrightarrow> cache_step s s'"

inductive cache_reach :: "io_state \<Rightarrow> bool" where
  start: "cache_reach io_init"
| step: "cache_reach s \<Longrightarrow> cache_step s s' \<Longrightarrow> cache_reach s'"

text \<open>The invariant: there is nothing in the cache.\<close>

definition cache_empty :: "io_state \<Rightarrow> bool" where
  "cache_empty s \<longleftrightarrow> ce_table s = empty_table \<and> rev_table s = empty_table \<and> ce_queue s = NULL \<and> \<not> cache_mutex s"

lemma malloc_entry_fails:
  assumes "unat (high_list h) < 28"
  shows "malloc sizeof_entry h = Some (NULL, h)"
  using kern_malloc_small_fails [of 8 h 0] assms by (simp add: malloc_def sizeof_entry_def)

lemma empty_lookup: "hash_table_lookup uid (=) hash INODE_CACHE_TABLE_SIZE empty_table k = Some NULL"
  using ck.lookup_absent [OF ck.empty_ok, of k uid hash] by simp

lemma empty_lookup_mixed:
  "hash_table_lookup uid (=) hash INODE_CACHE_TABLE_SIZE \<lparr>ht_table = ht_table empty_table, ht_next = ht_next empty_table\<rparr> k = Some NULL"
  using empty_lookup [of uid hash k] by (simp add: empty_table_def)

lemma cache_unlock: "cache_empty s \<Longrightarrow> unlock_cache (s\<lparr>cache_mutex := True\<rparr>) = s"
  by (simp add: cache_empty_def unlock_cache_def)

lemma empty_cache_lookup:
  assumes "cache_empty s"
  shows "inode_cache_lookup rd NULL fs fid s =
    (if fs = NULL \<or> fsys_src s fs = NULL \<or> rd fs fid \<noteq> NULL then None else Some (NULL, s))"
  using assms cache_unlock [OF assms]
  by (simp add: empty_lookup inode_cache_lookup_def lock_cache_def cache_empty_def ce_enter_def deref_def)

lemma empty_cache_create:
  assumes "cache_empty s"
  shows "inode_cache_create cr NULL fs s = (if fs = NULL \<or> fst (cr fs) \<noteq> NULL then None else Some (NULL, s))"
  using assms cache_unlock [OF assms]
  by (simp add: inode_cache_create_def lock_cache_def cache_empty_def ce_enter_def deref_def case_prod_beta)

lemma empty_cache_release:
  assumes "cache_empty s"
  shows "inode_cache_free i s = (if i = NULL then None else Some s)" "inode_cache_delete i s = (if i = NULL then None else Some s)"
  using assms cache_unlock [OF assms]
  by (simp_all add: empty_lookup empty_lookup_mixed inode_cache_free_def inode_cache_delete_def lock_cache_def cache_empty_def deref_def)

lemma cache_step_empty:
  assumes "cache_step s s'" "cache_empty s"
  shows "cache_empty s'"
  using assms
proof cases
  case (lookup h new h' rd fs fid i)
  then have "new = NULL" using malloc_entry_fails by simp
  then show ?thesis using lookup(3) assms(2) empty_cache_lookup [OF assms(2)] by (simp split: if_splits)
next
  case (create h new h' cr fs i)
  then have "new = NULL" using malloc_entry_fails by simp
  then show ?thesis using create(3) assms(2) empty_cache_create [OF assms(2)] by (simp split: if_splits)
next
  case (free i)
  then show ?thesis using assms(2) empty_cache_release(1) [OF assms(2)] by (simp split: if_splits)
next
  case (delete i)
  then show ?thesis using assms(2) empty_cache_release(2) [OF assms(2)] by (simp split: if_splits)
next
  case other
  then show ?thesis using assms(2) by (simp add: cache_empty_def)
qed

lemma cache_reach_empty: "cache_reach s \<Longrightarrow> cache_empty s"
proof (induction rule: cache_reach.induct)
  case start
  show ?case by (simp add: cache_empty_def io_init_def)
next
  case (step s s')
  then show ?case by (blast intro: cache_step_empty)
qed

text \<open>C24: The inode cache never holds an inode.  Whatever calls have returned since the start, the lookup of an inode that
  the driver can read, and the creation of one that the driver can create, fault on the entry for
  which the heap gives no memory; the other calls return \<^verbatim>\<open>NULL\<close> and change nothing.\<close>

theorem inode_cache_never_fills:
  assumes "cache_reach s" "unat (high_list h) < 28" "malloc sizeof_entry h = Some (new, h')" "fs \<noteq> NULL" "fsys_src s fs \<noteq> NULL"
  shows "inode_cache_lookup rd new fs fid s = (if rd fs fid = NULL then Some (NULL, s) else None) \<and>
    inode_cache_create cr new fs s = (if fst (cr fs) = NULL then Some (NULL, s) else None)"
proof -
  have "new = NULL" using malloc_entry_fails [OF assms(2)] assms(3) by simp
  then show ?thesis
    using empty_cache_lookup [OF cache_reach_empty [OF assms(1)]] empty_cache_create [OF cache_reach_empty [OF assms(1)]] assms(4,5) by simp
qed

text \<open>A file system with its source, a lookup of what the driver does not know, and then one of what it reads.\<close>

theorem inode_cache_never_fills_witness:
  "\<exists>s. cache_reach s \<and> inode_cache_lookup (\<lambda>_ k. if k = 7 then 500 else NULL) NULL 300 9 s = Some (NULL, s) \<and>
     inode_cache_lookup (\<lambda>_ k. if k = 7 then 500 else NULL) NULL 300 7 s = None"
proof -
  have "cache_step io_init demo_io" by (rule cache_step.other) (simp_all add: demo_io_def)
  then have r: "cache_reach demo_io" by (rule cache_reach.step [OF cache_reach.start])
  have l: "unat (high_list no_blocks) < 28" by (simp add: no_blocks_def)
  have s: "fsys_src demo_io 300 \<noteq> NULL" "(300 :: ptr) \<noteq> NULL" by (simp_all add: demo_io_def NULL_def)
  show ?thesis
    using inode_cache_never_fills [OF r l malloc_entry_fails [OF l] s(2,1), of "\<lambda>_ k. if k = 7 then 500 else NULL" 9]
      inode_cache_never_fills [OF r l malloc_entry_fails [OF l] s(2,1), of "\<lambda>_ k. if k = 7 then 500 else NULL" 7] r
    by (intro exI [of _ demo_io]) (simp add: NULL_def)
qed

end
