(* ===== verification/Thread_Table.thy ===== *)
theory Thread_Table
  imports Hash_Table Util
begin

text \<open>
  \<^verbatim>\<open>src/sched/thread_table.c\<close>: the threads by identifier.  Each function holds the mutex of the table while it
  works on it; the insertion gives it up only between two attempts at an identifier.  The function
  \<^verbatim>\<open>thread_insert\<close> of this file is \<open>thread_table_insert\<close> here, since the scheduler has one of the same name.
\<close>

definition THREAD_HASH_TABLE_SIZE :: nat where "THREAD_HASH_TABLE_SIZE = 65535"

definition thread_hash :: "u32 \<Rightarrow> u32" where "thread_hash x = x"

record thread_tab =
  tt_id :: "ptr \<Rightarrow> u32"
  tt_table :: htab
  tt_seed :: u32

definition thread_lookup :: "u32 \<Rightarrow> thread_tab \<Rightarrow> ptr option" where
  "thread_lookup ident s = hash_table_lookup (tt_id s) (=) thread_hash THREAD_HASH_TABLE_SIZE (tt_table s) ident"

partial_function (option) fresh_thread_id :: "thread_tab \<Rightarrow> (u32 \<times> thread_tab) option" where
  "fresh_thread_id s = do {
     let (ident, seed) = rand (tt_seed s);
     let s = s\<lparr>tt_seed := seed\<rparr>;
     p \<leftarrow> thread_lookup ident s;
     if NULL \<noteq> p then fresh_thread_id s else Some (ident, s) }"

definition thread_table_insert :: "ptr \<Rightarrow> thread_tab \<Rightarrow> thread_tab option" where
  "thread_table_insert t s = do {
     (ident, s) \<leftarrow> fresh_thread_id s;
     t \<leftarrow> deref t;
     let s = s\<lparr>tt_id := (tt_id s)(t := ident)\<rparr>;
     Some (s\<lparr>tt_table := snd (hash_table_insert (tt_id s) thread_hash THREAD_HASH_TABLE_SIZE (tt_table s) t)\<rparr>) }"

text \<open>The thread whose memory is freed, and the table, from which it is not removed.\<close>

definition thread_delete :: "u32 \<Rightarrow> thread_tab \<Rightarrow> (ptr \<times> thread_tab) option" where
  "thread_delete ident s = do {
     t \<leftarrow> thread_lookup ident s;
     Some (t, s) }"

interpretation tk: hash_keys "\<lambda>_. True" uid "(=)" thread_hash THREAD_HASH_TABLE_SIZE for uid
  by unfold_locales (simp_all add: THREAD_HASH_TABLE_SIZE_def)

definition tt_ok :: "thread_tab \<Rightarrow> ptr set \<Rightarrow> bool" where
  "tt_ok s T \<longleftrightarrow> table_ok (\<lambda>_. True) (tt_id s) thread_hash THREAD_HASH_TABLE_SIZE (tt_table s) T"

lemma thread_lookup_member: "tt_ok s T \<Longrightarrow> t \<in> T \<Longrightarrow> thread_lookup (tt_id s t) s = Some t"
  using tk.lookup_member [of "tt_id s" "tt_table s" T t] by (simp add: thread_lookup_def tt_ok_def)

lemma thread_lookup_absent: "tt_ok s T \<Longrightarrow> ident \<notin> tt_id s ` T \<Longrightarrow> thread_lookup ident s = Some NULL"
  using tk.lookup_absent [of "tt_id s" "tt_table s" T ident] by (simp add: thread_lookup_def tt_ok_def)

text \<open>The first thread gets the identifier 0.  There is no second: the generator stays at 0 and the search never ends.\<close>

lemma rand_stuck: "rand 0 = (0, 0)"
  by (simp add: rand_def)

lemma first_thread:
  assumes "tt_ok s {}" "tt_seed s = 0" "t \<noteq> NULL"
  shows "\<exists>s'. thread_table_insert t s = Some s' \<and> tt_ok s' {t} \<and> tt_id s' t = 0 \<and> tt_seed s' = 0 \<and> thread_lookup 0 s' = Some t"
proof -
  have e: "s\<lparr>tt_seed := 0\<rparr> = s" using assms(2) by simp
  have "thread_lookup 0 s = Some NULL" using thread_lookup_absent [OF assms(1)] by simp
  then have f: "fresh_thread_id s = Some (0, s)"
    by (subst fresh_thread_id.simps) (simp add: assms(2) rand_stuck Let_def, simp add: e)
  define u where "u = s\<lparr>tt_id := (tt_id s)(t := 0)\<rparr>"
  define s' where "s' = u\<lparr>tt_table := snd (hash_table_insert (tt_id u) thread_hash THREAD_HASH_TABLE_SIZE (tt_table u) t)\<rparr>"
  have "table_ok (\<lambda>_. True) (tt_id u) thread_hash THREAD_HASH_TABLE_SIZE (tt_table u) {}"
    using assms(1) by (rule_tac table_ok_cong [of _ "tt_id s"]) (auto simp: tt_ok_def u_def)
  then have "tt_ok s' {t}" using tk.insert_ok [of "tt_id u" "tt_table u" "{}" t] assms(3) by (simp add: tt_ok_def s'_def)
  moreover have "thread_table_insert t s = Some s'" using f assms(3) by (simp add: thread_table_insert_def s'_def u_def Let_def)
  moreover have "tt_id s' t = 0" "tt_seed s' = 0" using assms(2) by (simp_all add: s'_def u_def)
  ultimately show ?thesis using thread_lookup_member [of s' "{t}" t] by auto
qed

lemma no_fresh_id:
  assumes "fresh_thread_id s = Some r"
  shows "\<not> (tt_seed s = 0 \<and> tt_ok s T \<and> t \<in> T \<and> tt_id s t = 0)"
  using _ assms
proof (rule fresh_thread_id.raw_induct [where P = "\<lambda>s r. \<not> (tt_seed s = 0 \<and> tt_ok s T \<and> t \<in> T \<and> tt_id s t = 0)"], goal_cases)
  case (1 loop s r)
  show ?case
  proof
    assume a: "tt_seed s = 0 \<and> tt_ok s T \<and> t \<in> T \<and> tt_id s t = 0"
    have e: "s\<lparr>tt_seed := 0\<rparr> = s" using a by simp
    have "t \<noteq> NULL" using tk.not_null [of "tt_id s" "tt_table s" T t] a by (simp add: tt_ok_def)
    moreover have "thread_lookup 0 s = Some t" using thread_lookup_member [of s T t] a by simp
    moreover have "thread_lookup 0 (s\<lparr>tt_seed := 0\<rparr>) \<bind> (\<lambda>p. if NULL \<noteq> p then loop (s\<lparr>tt_seed := 0\<rparr>) else Some (0, s\<lparr>tt_seed := 0\<rparr>)) = Some r"
      using 1(2) a by (simp add: rand_stuck Let_def)
    ultimately have "loop s = Some r" unfolding e by simp
    from 1(1) [OF this] a show False by blast
  qed
qed

text \<open>The table of threads takes one thread: from the state the kernel starts in, the first insertion gives the identifier
  0 and is found again, and every later insertion searches for a fresh identifier for ever.\<close>

theorem second_thread_never:
  assumes "tt_ok s {}" "tt_seed s = 0" "t \<noteq> NULL"
  shows "\<exists>s'. thread_table_insert t s = Some s' \<and> thread_lookup 0 s' = Some t \<and> (\<forall>u. thread_table_insert u s' = None)"
proof -
  obtain s' where s': "thread_table_insert t s = Some s'" "tt_ok s' {t}" "tt_id s' t = 0" "tt_seed s' = 0" "thread_lookup 0 s' = Some t"
    using first_thread [OF assms] by blast
  then have "fresh_thread_id s' = None" using no_fresh_id [of s' _ "{t}" t] by (cases "fresh_thread_id s'") auto
  then show ?thesis using s' by (auto simp: thread_table_insert_def)
qed

theorem second_thread_never_witness:
  "\<exists>s'. thread_table_insert 8 \<lparr>tt_id = \<lambda>_. 0, tt_table = empty_table, tt_seed = 0\<rparr> = Some s' \<and> thread_table_insert 16 s' = None"
  using second_thread_never [of "\<lparr>tt_id = \<lambda>_. 0, tt_table = empty_table, tt_seed = 0\<rparr>" 8] tk.empty_ok
  by (auto simp: tt_ok_def NULL_def)

text \<open>A thread that has been deleted is freed and still found.\<close>

lemma thread_delete_stays:
  assumes "tt_ok s T" "t \<in> T"
  shows "thread_delete (tt_id s t) s = Some (t, s)" "thread_lookup (tt_id s t) s = Some t"
  using thread_lookup_member [OF assms] by (simp_all add: thread_delete_def)

end
