(* ===== verification/Parport.thy ===== *)
theory Parport
  imports Malloc_Realloc
begin

unbundle bit_operations_syntax

text \<open>
  \<^verbatim>\<open>dev/parport/parport.c\<close> and \<^verbatim>\<open>arch/dev/parport/ia_32_parport.s\<close>: the parallel port as an inode that is written in
  sequence.  The file uses a variable \<^verbatim>\<open>out\<close>, and once an \<^verbatim>\<open>i\<close>, without declaring it; they are read as
  the inode that is the argument and as an \<^verbatim>\<open>int\<close>.  The inode's mutex is held around a write; an operation
  is one sequential step.
\<close>

subsection \<open>One character\<close>

text \<open>
  The assembly, on the stack as it is at the call: the return address, the two arguments and what
  lies above.  \<open>status i\<close> is the byte that the \<open>i\<close>th read of the status port gives.  The result
  is the register \<^verbatim>\<open>eax\<close>, what is put out to which port, and the address at which the CPU goes on.
  Two registers are saved below the return address, so that \<^verbatim>\<open>[esp+16]\<close> is the second argument and
  \<^verbatim>\<open>[esp+20]\<close> is above the arguments; the 12 bytes that are taken off at the end are the two registers and
  the return address.
\<close>

fun await_ready :: "(nat \<Rightarrow> 8 word) \<Rightarrow> nat \<Rightarrow> nat \<Rightarrow> bool" where
  "await_ready status i 0 = False"
| "await_ready status i (Suc ecx) =
     (if ecx = 0 then False
      else if status i AND 0x80 = 0 then await_ready status (Suc i) ecx
      else True)"

type_synonym port_write = "16 word \<times> 8 word"

definition parport_write_char :: "(nat \<Rightarrow> 8 word) \<Rightarrow> u32 list \<Rightarrow> u32 \<times> port_write list \<times> u32" where
  "parport_write_char status stk =
     (let saved = 2;
          dx = ucast (stk ! (4 - saved));
          al = ucast (stk ! (5 - saved));
          go_on = stk ! (3 - saved)
      in if await_ready status 0 1000 then (0, [(dx, al), (dx + 2, 0xd), (dx + 2, 0xc)], go_on)
         else (-1, [], go_on))"

subsection \<open>The inode\<close>

record parport_inode =
  stat_id :: u32
  stat_flags :: u32
  stat_size :: "64 word"
  stat_owner :: "64 word"
  stat_group :: "64 word"
  stat_block_size :: "64 word"
  stat_filesys :: u32
  stat_pack_count :: u32
  stat_hard_ref_count :: u32
  stat_ref_count :: u32
  pp_hash_next :: ptr
  buf_size :: u32
  buf_pos :: u32
  port_addr :: u32
  pp_buf :: ptr

record parport_state =
  pp_heap :: heap_mem
  pp_inode :: "ptr \<Rightarrow> parport_inode"
  pp_out :: "port_write list"
  pp_calls :: nat

definition PARPORT_PAGE :: u32 where "PARPORT_PAGE = 0x1000"

text \<open>
  \<open>isize\<close> and \<open>dsize\<close> are the sizes of the two structures; \<open>new_id\<close> is what \<^verbatim>\<open>inode_id\<close> returns, which is not in the
  repository.  What \<^verbatim>\<open>malloc\<close> returns is not compared with null.
\<close>

definition parport_create :: "u32 \<Rightarrow> u32 \<Rightarrow> u32 \<Rightarrow> u32 \<Rightarrow> parport_state \<Rightarrow> (ptr \<times> parport_state) option" where
  "parport_create isize dsize new_id port s = do {
     (out, h) \<leftarrow> malloc (isize + dsize) (pp_heap s);
     out \<leftarrow> deref out;
     (b, sz, h) \<leftarrow> kern_malloc (2 * PARPORT_PAGE) 0 h;
     let nd = \<lparr>stat_id = new_id, stat_flags = 0, stat_size = 0, stat_owner = 0, stat_group = 0, stat_block_size = 0,
       stat_filesys = 0, stat_pack_count = 0, stat_hard_ref_count = 0, stat_ref_count = 0, pp_hash_next = NULL,
       buf_size = sz, buf_pos = 0, port_addr = port, pp_buf = b\<rparr>;
     Some (out, s\<lparr>pp_heap := h, pp_inode := (pp_inode s)(out := nd)\<rparr>) }"

definition load16 :: "ptr \<Rightarrow> bytes \<Rightarrow> 16 word" where
  "load16 p m = ucast (m p) OR push_bit 8 (ucast (m (p + 1)))"

text \<open>
  A call from C.  \<open>ret\<close> is its return address, \<open>frame\<close> the word that the caller's frame has above the arguments and
  \<open>status k\<close> what the status port gives during the \<open>k\<close>th call.  A call that goes on at another address than
  \<open>ret\<close> does not return.
\<close>

definition write_char :: "(nat \<Rightarrow> nat \<Rightarrow> 8 word) \<Rightarrow> u32 \<Rightarrow> u32 \<Rightarrow> u32 \<Rightarrow> 16 word \<Rightarrow> parport_state \<Rightarrow> parport_state option" where
  "write_char status ret frame port c s =
     (case parport_write_char (status (pp_calls s)) [ret, port, ucast c, frame] of
        (_, out, go_on) \<Rightarrow> if go_on = ret then Some (s\<lparr>pp_out := pp_out s @ out, pp_calls := pp_calls s + 1\<rparr>) else None)"

fun write_chars :: "(nat \<Rightarrow> nat \<Rightarrow> 8 word) \<Rightarrow> u32 \<Rightarrow> u32 \<Rightarrow> u32 \<Rightarrow> ptr \<Rightarrow> nat \<Rightarrow> parport_state \<Rightarrow> parport_state option" where
  "write_chars status ret frame port p 0 s = Some s"
| "write_chars status ret frame port p (Suc n) s = do {
     s \<leftarrow> write_char status ret frame port (load16 p (heap_data (pp_heap s))) s;
     write_chars status ret frame port (p + 2) n s }"

definition parport_flush :: "(nat \<Rightarrow> nat \<Rightarrow> 8 word) \<Rightarrow> u32 \<Rightarrow> u32 \<Rightarrow> ptr \<Rightarrow> parport_state \<Rightarrow> parport_state option" where
  "parport_flush status ret frame nd s = do {
     let d = pp_inode s nd;
     s \<leftarrow> write_chars status ret frame (port_addr d) (pp_buf d) (unat (buf_pos d)) s;
     Some (s\<lparr>pp_inode := (pp_inode s)(nd := (pp_inode s nd)\<lparr>buf_pos := 0\<rparr>)\<rparr>) }"

definition MODE_POS :: u32 where "MODE_POS = 0xc"
definition MODE_CURR :: u32 where "MODE_CURR = 0"

text \<open>For another position the function ends without a value: \<open>junk\<close>.\<close>

definition parport_seq_write ::
  "(nat \<Rightarrow> nat \<Rightarrow> 8 word) \<Rightarrow> u32 \<Rightarrow> u32 \<Rightarrow> u32 \<Rightarrow> ptr \<Rightarrow> u32 \<Rightarrow> ptr \<Rightarrow> int \<Rightarrow> u32 \<Rightarrow> parport_state \<Rightarrow> (u32 \<times> parport_state) option" where
  "parport_seq_write status ret frame junk nd sz b seek mode s =
     (if seek = 0 \<and> mode AND MODE_POS = MODE_CURR then do {
        let d = pp_inode s nd;
        if buf_pos d + sz div 2 \<le> buf_size d then do {
          let s = s\<lparr>pp_heap := on_data (memcpy_lo_hi (pp_buf d) b sz) (pp_heap s)\<rparr>;
          Some (sz, s\<lparr>pp_inode := (pp_inode s)(nd := d\<lparr>buf_pos := buf_pos d + sz div 2\<rparr>)\<rparr>) }
        else do {
          s \<leftarrow> parport_flush status ret frame nd s;
          s \<leftarrow> write_chars status ret frame (port_addr d) b (unat (sz div 2)) s;
          Some (sz, s) } }
      else Some (junk, s))"

text \<open>\<^verbatim>\<open>free\<close> is given the address of the driver's data, which lie behind the inode in the same block.\<close>

definition parport_free :: "u32 \<Rightarrow> ptr \<Rightarrow> parport_state \<Rightarrow> parport_state option" where
  "parport_free isize nd s = do {
     h \<leftarrow> kern_free (pp_buf (pp_inode s nd)) (buf_size (pp_inode s nd)) (pp_heap s);
     h \<leftarrow> free (nd + unat isize) h;
     Some (s\<lparr>pp_heap := h\<rparr>) }"

subsection \<open>What comes out\<close>

lemma await_ready_iff: "await_ready status i n \<longleftrightarrow> (\<exists>k. k + 1 < n \<and> status (i + k) AND 0x80 \<noteq> 0)"
proof (induction status i n rule: await_ready.induct)
  case (2 status i ecx)
  show ?case
  proof (cases "ecx = 0 \<or> status i AND 0x80 \<noteq> 0")
    case True
    then show ?thesis by (auto intro: exI [of _ 0])
  next
    case False
    then have "await_ready status i (Suc ecx) \<longleftrightarrow> (\<exists>k. k + 1 < ecx \<and> status (Suc i + k) AND 0x80 \<noteq> 0)" using 2 by simp
    also have "\<dots> \<longleftrightarrow> (\<exists>k. k + 1 < Suc ecx \<and> status (i + k) AND 0x80 \<noteq> 0)"
    proof
      assume "\<exists>k. k + 1 < ecx \<and> status (Suc i + k) AND 0x80 \<noteq> 0"
      then show "\<exists>k. k + 1 < Suc ecx \<and> status (i + k) AND 0x80 \<noteq> 0" by (metis Suc_eq_plus1 Suc_less_eq add_Suc_shift)
    next
      assume "\<exists>k. k + 1 < Suc ecx \<and> status (i + k) AND 0x80 \<noteq> 0"
      then obtain k where k: "k + 1 < Suc ecx" "status (i + k) AND 0x80 \<noteq> 0" by blast
      then obtain j where "k = Suc j" using False by (cases k) auto
      then show "\<exists>k. k + 1 < ecx \<and> status (Suc i + k) AND 0x80 \<noteq> 0" using k by auto
    qed
    finally show ?thesis .
  qed
qed simp

text \<open>The routine waits for the bit of the status port in 999 reads.  Then it puts the byte above its
  arguments out to the port that has the number of the character, and goes on at the address of the port.\<close>

theorem parport_write_char_behaviour:
  "parport_write_char status (ret # port # c # x # frame) =
     (if \<exists>k<999. status k AND 0x80 \<noteq> 0 then (0, [(ucast c, ucast x), (ucast c + 2, 0xd), (ucast c + 2, 0xc)], port)
      else (-1, [], port))"
proof -
  have "await_ready status 0 1000 \<longleftrightarrow> (\<exists>k<999. status k AND 0x80 \<noteq> 0)" by (subst await_ready_iff) auto
  then show ?thesis by (simp add: parport_write_char_def Let_def numeral_eq_Suc)
qed

text \<open>No buffer with a character in it is ever put out: the first call does not come back.\<close>

theorem parport_flush_lost:
  assumes "buf_pos (pp_inode s nd) \<noteq> 0" "port_addr (pp_inode s nd) \<noteq> ret"
  shows "parport_flush status ret frame nd s = None"
proof -
  have "unat (buf_pos (pp_inode s nd)) \<noteq> 0" using assms(1) by (simp add: unat_eq_0)
  then obtain n where "unat (buf_pos (pp_inode s nd)) = Suc n" using not0_implies_Suc by blast
  then show ?thesis using assms(2) by (simp add: parport_flush_def write_char_def parport_write_char_def Let_def)
qed

text \<open>A second write that still fits goes to the start of the buffer, over the first, while the count of
  characters goes up.\<close>

theorem parport_write_overwrites:
  assumes "buf_pos (pp_inode s nd) + sz div 2 \<le> buf_size (pp_inode s nd)" "pp_buf (pp_inode s nd) + unat sz \<le> b \<or> b + unat sz \<le> pp_buf (pp_inode s nd)"
    and "parport_seq_write status ret frame junk nd sz b 0 0 s = Some (r, s')" "i < unat sz"
  shows "heap_data (pp_heap s') (pp_buf (pp_inode s nd) + i) = heap_data (pp_heap s) (b + i)"
    "buf_pos (pp_inode s' nd) = buf_pos (pp_inode s nd) + sz div 2"
proof -
  let ?d = "pp_inode s nd"
  have s': "pp_heap s' = on_data (memcpy_lo_hi (pp_buf ?d) b sz) (pp_heap s)" "buf_pos (pp_inode s' nd) = buf_pos ?d + sz div 2"
    using assms(1,3) by (auto simp: parport_seq_write_def Let_def MODE_CURR_def)
  then show "buf_pos (pp_inode s' nd) = buf_pos ?d + sz div 2" by simp
  have "{b ..< b + unat sz} \<inter> {pp_buf ?d ..< pp_buf ?d + unat sz} = {}" using assms(2) by auto
  then show "heap_data (pp_heap s') (pp_buf ?d + i) = heap_data (pp_heap s) (b + i)"
    using memcpy_kept [of b sz "pp_buf ?d" "heap_data (pp_heap s)"] assms(4) s'(1) by (simp add: kept_def on_data_def)
qed

text \<open>The size of the buffer is in bytes and is compared with a number of characters, so that a write of
  twice the buffer is taken and overwrites as much memory behind the buffer as is in it.\<close>

theorem parport_write_overruns:
  assumes "buf_pos (pp_inode s nd) = 0" "unat (buf_size (pp_inode s nd)) < 2 ^ 31" "b + 2 * unat (buf_size (pp_inode s nd)) \<le> pp_buf (pp_inode s nd)"
    and "j < unat (buf_size (pp_inode s nd))"
  shows "\<exists>s'. parport_seq_write status ret frame junk nd (2 * buf_size (pp_inode s nd)) b 0 0 s = Some (2 * buf_size (pp_inode s nd), s') \<and>
    heap_data (pp_heap s') (pp_buf (pp_inode s nd) + unat (buf_size (pp_inode s nd)) + j) = heap_data (pp_heap s) (b + unat (buf_size (pp_inode s nd)) + j)"
proof -
  let ?n = "buf_size (pp_inode s nd)"
  have u: "unat (2 * ?n) = 2 * unat ?n" using assms(2) by (simp add: unat_word_ariths)
  then have "2 * ?n div 2 = ?n" by (simp add: word_unat_eq_iff unat_div)
  then have fits: "buf_pos (pp_inode s nd) + 2 * ?n div 2 \<le> ?n" using assms(1) by simp
  then obtain s' where s': "parport_seq_write status ret frame junk nd (2 * ?n) b 0 0 s = Some (2 * ?n, s')"
    by (simp add: parport_seq_write_def Let_def MODE_CURR_def)
  have "b + unat (2 * ?n) \<le> pp_buf (pp_inode s nd)" "unat ?n + j < unat (2 * ?n)" using assms(3,4) u by simp_all
  then show ?thesis using parport_write_overwrites(1) [OF fits _ s', of "unat ?n + j"] s' by (simp add: add.assoc)
qed

end
