(* ===== verification/Spec2Isabelle.thy ===== *)
theory Spec2Isabelle
  imports Sched_Props Sync_Props Sync_Ops Sync_Sleep Malloc_Client Rendezvous Phys_Mem Rw_Lock Vm_Reach Cpu_Tabs Heap_Macro Inode Inode_Reach Thread_Table Parport
begin

text \<open>
  A verification development for the metakernel, a multiprocessor kernel for the ia-32 in C
  (paths below are relative to \<^verbatim>\<open>src/\<close> of the repository).

  \<^bold>\<open>The program and its parts.\<close>  Threads are scheduled by one scheduler per CPU (\<^verbatim>\<open>src/sched/scheduler.c\<close>), each with
  a running and an expired queue ordered by time remaining (\<^verbatim>\<open>priority_heap.c\<close>) and a queue of all its
  threads ordered by affinity (\<^verbatim>\<open>affinity_heap.c\<close>); \<^verbatim>\<open>thread_sched.c\<close> places and moves threads between CPUs, and
  \<^verbatim>\<open>exclusion.c\<close> with \<^verbatim>\<open>rendezvous.c\<close> lets one CPU stop the others.  \<^verbatim>\<open>src/sync/sync.c\<close> has mutexes that hand
  the priority of a waiter on to the holder and detect deadlock, and condition variables, which the
  timer interrupt turns from spinning into sleeping; \<^verbatim>\<open>rw_lock.c\<close> is built on them.  Memory is the kernel
  heap (\<^verbatim>\<open>src/mem/malloc/malloc.c\<close>), physical pages by colour (\<^verbatim>\<open>src/mem/phys_mem/\<close>), and address spaces whose
  mappings are kept in a red-black tree (\<^verbatim>\<open>include/data_structures.h\<close>), with a table of copy-on-write pages
  (\<^verbatim>\<open>src/mem/virt_mem/cow_table.c\<close>).  Files are inodes behind a cache and a mount table (\<^verbatim>\<open>src/io/\<close>).

  \<^bold>\<open>How the code is modelled.\<close>  A pointer is a natural number and \<open>NULL\<close> is 0.  A field of a C structure is a
  function from pointers to values in a record that stands for a part of memory, so that aliasing is
  equality of pointers.  Machine integers are words of their width; comparisons are signed or unsigned
  as C has them.  A loop is a recursive function, a \<^theory_text>\<open>partial_function (option)\<close> where it need not end.  The
  value \<open>None\<close> is code that does not return: a dereference of null, a wait for a lock that the same flow
  of control holds, a loop that never ends.  Every theorem that says that code returns is stated as
  \<open>f x = Some y\<close>.  What the source does not contain is an argument of the definitions: what \<^verbatim>\<open>malloc\<close> or
  \<^verbatim>\<open>realloc\<close> returns (\<open>new\<close>, \<open>r\<close>), what other CPUs do while this one waits (\<open>wait\<close>), the current thread (\<open>cur\<close>), the
  value of an uninitialised variable (\<open>junk\<close>), drivers (\<open>rd\<close>, \<open>cr\<close>, \<open>mnt\<close>, \<open>umnt\<close>, \<open>sw\<close>, \<open>sf\<close>, tables of functions), and
  assembly that only the hardware explains (\<open>expand\<close>).

  \<^bold>\<open>Theories.\<close>
  \<^item> \<^verbatim>\<open>Prelude\<close>: types, \<open>NULL\<close>, \<open>deref\<close>, signed and unsigned comparison.
  \<^item> \<^verbatim>\<open>Binary_Heap\<close>, \<^verbatim>\<open>Heap_Queue\<close>: the array code that the two heaps and the colour tables share, sifting up and
    down with back-links from elements to positions; the locale \<open>heap_order\<close> has what a key order must
    satisfy, \<open>heap_queue\<close> what a queue promises.  \<^verbatim>\<open>Priority_Heap\<close> and \<^verbatim>\<open>Affinity_Heap\<close> interpret them on the
    threads of \<^verbatim>\<open>Thread_Mem\<close>: insertion into an array with room (\<open>capacity\<close>, \<open>heap_room\<close>; a write behind it is \<open>None\<close>), deletion by position, change of key, and that emptying a queue
    yields its threads in order.
  \<^item> \<^verbatim>\<open>Kernel_State\<close>, \<^verbatim>\<open>Exclusion\<close>, \<^verbatim>\<open>Scheduler\<close>, \<^verbatim>\<open>Thread_Sched\<close>: the record of all schedulers and threads and every
    function of the four files.  \<^verbatim>\<open>Sched_Queues\<close>, \<^verbatim>\<open>Sched_Inv\<close>: the invariant \<open>sys_inv\<close>, a thread is in the queues of
    one CPU, in the affinity queue and in exactly one of the other two, and every array has room for all threads of
    its CPU.  \<^verbatim>\<open>Sched_Balance\<close>, \<^verbatim>\<open>Sched_Current\<close>,
    \<^verbatim>\<open>Sched_Tick\<close>, \<^verbatim>\<open>Sched_Insert\<close>: each operation keeps it, the ones that move a thread to a CPU
    given a slot that is free (\<open>spare_slot\<close>) or that \<^verbatim>\<open>kern_realloc\<close> makes (\<open>realloc_ok\<close>); \<^verbatim>\<open>Sched_Props\<close>: what a timer tick, an insertion, a wake-up,
    a removal and rebalancing do.
  \<^item> \<^verbatim>\<open>Rendezvous\<close>: the steps of concurrent CPUs; an inductive invariant gives that nobody leaves a
    rendezvous before all have come, and that it completes.
  \<^item> \<^verbatim>\<open>Circular_List\<close>, \<^verbatim>\<open>Hash_Table\<close>: the macros \<^verbatim>\<open>CIRCULAR_LIST\<close> and \<^verbatim>\<open>STAT_HASH_TABLE\<close>.  The locale \<open>hash_keys\<close> has what the
    macro asks of its parameters; its interpretations are the tables of the heap, of copy-on-write pages,
    the page cache, anonymous pages, mounts, inodes, the inode cache and threads.  \<^verbatim>\<open>Heap_Macro\<close>: the macros \<^verbatim>\<open>HASH_TABLE\<close> and
    \<^verbatim>\<open>BINARY_HEAP\<close>, which nothing instantiates.
  \<^item> \<^verbatim>\<open>Sync\<close>, \<^verbatim>\<open>Sync_Boost\<close>, \<^verbatim>\<open>Sync_Props\<close>, \<^verbatim>\<open>Sync_Ops\<close>, \<^verbatim>\<open>Sync_Sleep\<close>: every function of \<^verbatim>\<open>sync.c\<close>; the deadlock test is exact, priority
    reaches exactly the chain of holders, and locking, sleeping and signalling do what they should on the
    paths that work and fail on those that do not.  \<^verbatim>\<open>Rw_Lock\<close>: the steps of concurrent threads over the
    condition variables of \<^verbatim>\<open>sync.c\<close> as they are; exclusion, which wake-ups arrive, and that a lock stays with its
    writer after a broadcast that found no sleeper.
  \<^item> \<^verbatim>\<open>Util\<close>: copying, filling, hashing, random numbers and static allocation.  \<^verbatim>\<open>Malloc\<close>: every function of the
    kernel heap and the rounding routines in assembly; \<^verbatim>\<open>Malloc_Inv\<close>: the invariant of block lists and address
    table; \<^verbatim>\<open>Malloc_Held\<close>: a block in the hand, which every operation joins free neighbours to or returns parts of;
    \<^verbatim>\<open>Malloc_Alloc\<close>, \<^verbatim>\<open>Malloc_Free\<close>, \<^verbatim>\<open>Malloc_Realloc\<close>: allocation, release and change of size account for every byte, and
    a block that is moved keeps its contents.  \<^verbatim>\<open>Malloc_Client\<close>: the locale \<open>allocator\<close> has what users rely on, and its
    interpretation on the kernel heap gives that blocks in use never overlap in any run of the steps \<open>heap_step\<close>.
  \<^item> \<^verbatim>\<open>Color_Table\<close>, \<^verbatim>\<open>Page_Alloc\<close>, \<^verbatim>\<open>Page_Cache\<close>, \<^verbatim>\<open>Cow_Table\<close>, \<^verbatim>\<open>Phys_Mem\<close>: the colour heap, free pages, and the two tables
    refine finite maps; the life of an anonymous page, the only one at its time, since identifiers are random
    numbers that are all 0.
  \<^item> \<^verbatim>\<open>Rb_Tree\<close>: the macro \<^verbatim>\<open>RED_BLACK_TREE\<close>.  \<^verbatim>\<open>Rb_Repr\<close>: linked nodes as algebraic trees and contexts, rotations.
    \<^verbatim>\<open>Rb_Insert\<close>: the repair loop refines a function on contexts that restores the invariants; the locale
    \<open>tree_order\<close> has what the comparison must satisfy.  \<^verbatim>\<open>Vmap_Tree\<close>: the instance for mappings.
  \<^item> \<^verbatim>\<open>Virt_Mem\<close>, \<^verbatim>\<open>Vm_Fault\<close>: every function of \<^verbatim>\<open>src/mem/virt_mem/virt_mem.c\<close>; the record \<open>vm_state\<close> has address spaces, memory
    objects, mappings and page tables, \<open>vm_env\<close> what comes from outside.  The lookup of an address is right on a
    tree that is ordered by address.  \<^verbatim>\<open>Vm_Reach\<close>: runs of the operations from boot; no mapping is ever made, so
    that no fault of a program is ever served.
  \<^item> \<^verbatim>\<open>Cpu_Tabs\<close>: \<^verbatim>\<open>arch/sys/ia_32_cputabs.c\<close>, \<^verbatim>\<open>ia_32_interrupt.c\<close> and \<^verbatim>\<open>arch/mem/virt_mem/ia_32_meminit.c\<close>: interrupt gates read back
    as they were written, and the page colours that follow from what is decoded of the caches.
  \<^item> \<^verbatim>\<open>Parport\<close>: the parallel port driver \<^verbatim>\<open>dev/parport/parport.c\<close> and its routine in assembly, which does not come back.
  \<^item> \<^verbatim>\<open>Io_State\<close>, \<^verbatim>\<open>Filesys\<close>, \<^verbatim>\<open>Inode_Cache\<close>, \<^verbatim>\<open>Inode\<close>, \<^verbatim>\<open>Thread_Table\<close>: mounts, the cache, open inodes, threads by identifier.
    \<^verbatim>\<open>Inode_Reach\<close>: runs of the operations of the inode cache from start-up, which never holds an inode, since the entry it
    allocates is too small for the kernel heap to serve; what \<^verbatim>\<open>Inode_Cache\<close> and \<^verbatim>\<open>Inode\<close> show of a cache with entries
    holds for one that is given memory.

  \<^bold>\<open>Bounds.\<close>  Heap sizes are natural numbers below \<open>2 ^ 32\<close> where the code uses them as words.  A request to the
  kernel heap is of 2 to \<open>2 ^ 31\<close> bytes, where those of at most 8 fail, as \<open>kern_malloc_small_fails\<close> shows.  A new size for a
  block is at most \<open>2 ^ 31\<close> and not the exact length of the block with its free neighbours (\<open>exact_fit\<close>): \<^verbatim>\<open>cut_block_end\<close> rounds a
  multiple of 16 up too, past the end of such a block, and \<open>kern_realloc_exact_fit\<close> has what follows.  There are fewer
  than \<open>2 ^ 20\<close> pages, since addresses have 32 bits, and fewer than \<open>2 ^ 32 - 1\<close> threads at a read-write lock.  No
  definition uses fuel.

  \<^bold>\<open>Not modelled.\<close>  The
  page tables of the processor (\<^verbatim>\<open>arch/mem/virt_mem/ia_32_virt_mem.s\<close>), boot, interrupt entry and context
  switch, which are assembly and hardware; swap and
  fundamental inodes (\<^verbatim>\<open>src/mem/phys_mem/swap.c\<close>, \<^verbatim>\<open>fund_inode.c\<close>), which dereference void pointers, assign to casts and use
  types and variables that are declared nowhere, so that there is no meaning to translate; the read-only
  file system, whose functions are declared and not written.  Memory that a heap block too small for its structure would share with its
  neighbour is outside the model, since fields of different objects are apart.
\<close>

end
